(* ===== verification/Prelude.thy ===== *)
theory Prelude
  imports Main "HOL-Library.Word" "HOL-Library.Monad_Syntax"
begin

text \<open>
  What the components share.

  A Go function that can panic (an index out of range, a failed type assertion, a nil
  dereference) returns an \<open>option\<close>: \<open>None\<close> is the panic. The option monad's \<open>do\<close>
  blocks then read like the source, and a theorem that a call returns \<open>Some\<close> says
  that it does not panic.

  The collections: \<open>go_panic\<close> holds the facts that evaluate the checked reads and
  writes below; \<open>chunk\<close> the arithmetic of 32-way tries, shared by the vector and the
  hash map.
\<close>

named_theorems go_panic \<open>evaluation of reads and writes that may panic\<close>
named_theorems chunk \<open>arithmetic of 5-bit chunks\<close>

subsection \<open>Slices: reads and writes that panic out of range\<close>

definition slice_get :: "'a list \<Rightarrow> nat \<Rightarrow> 'a option" where
  "slice_get xs i = (if i < length xs then Some (xs ! i) else None)"

definition slice_set :: "'a list \<Rightarrow> nat \<Rightarrow> 'a \<Rightarrow> 'a list option" where
  "slice_set xs i x = (if i < length xs then Some (xs[i := x]) else None)"

lemma slice_get_ok [go_panic]: "i < length xs \<Longrightarrow> slice_get xs i = Some (xs ! i)"
  by (simp add: slice_get_def)

lemma slice_get_out [go_panic]: "length xs \<le> i \<Longrightarrow> slice_get xs i = None"
  by (simp add: slice_get_def)

lemma slice_set_ok [go_panic]: "i < length xs \<Longrightarrow> slice_set xs i x = Some (xs[i := x])"
  by (simp add: slice_set_def)

lemma slice_set_out [go_panic]: "length xs \<le> i \<Longrightarrow> slice_set xs i x = None"
  by (simp add: slice_set_def)

lemma slice_get_SomeD: "slice_get xs i = Some x \<Longrightarrow> i < length xs \<and> x = xs ! i"
  by (auto simp: slice_get_def split: if_splits)

lemma slice_set_SomeD: "slice_set xs i x = Some ys \<Longrightarrow> i < length xs \<and> ys = xs[i := x]"
  by (auto simp: slice_set_def split: if_splits)

subsection \<open>Errors as values\<close>

text \<open>
  Where the kind of the failure matters the result is \<open>'err + 'a\<close>: \<open>Inl\<close> the error or the
  panic's value, \<open>Inr\<close> the normal result.  \<open>bindE\<close> is the early return.
\<close>

definition bindE :: "'err + 'a \<Rightarrow> ('a \<Rightarrow> 'err + 'b) \<Rightarrow> 'err + 'b" where
  "bindE r f = (case r of Inl e \<Rightarrow> Inl e | Inr x \<Rightarrow> f x)"

lemma bindE_simps [simp]: "bindE (Inl e) f = Inl e" "bindE (Inr x) f = f x"
  by (simp_all add: bindE_def)

lemma bindE_Inr_iff: "bindE r f = Inr y \<longleftrightarrow> (\<exists>x. r = Inr x \<and> f x = Inr y)"
  by (cases r) auto

lemma bindE_Inl_iff: "bindE r f = Inl e \<longleftrightarrow> r = Inl e \<or> (\<exists>x. r = Inr x \<and> f x = Inl e)"
  by (cases r) auto

lemma bindE_cong [fundef_cong]:
  "r = r' \<Longrightarrow> (\<And>x. r' = Inr x \<Longrightarrow> f x = g x) \<Longrightarrow> bindE r f = bindE r' g"
  by (cases r') auto

text \<open>A panic of the run time itself, turned into the error \<open>e\<close>.\<close>

definition of_panic :: "'err \<Rightarrow> 'a option \<Rightarrow> 'err + 'a" where
  "of_panic e r = (case r of None \<Rightarrow> Inl e | Some x \<Rightarrow> Inr x)"

lemma of_panic_simps [simp]: "of_panic e (Some x) = Inr x" "of_panic e None = Inl e"
  by (simp_all add: of_panic_def)

subsection \<open>Decimal numerals\<close>

text \<open>\<^verbatim>\<open>%d\<close> of a number that is not negative, and reading it back.\<close>

definition digit_char :: "nat \<Rightarrow> char" where
  "digit_char d = (if d < 10 then ''0123456789'' ! d else CHR ''?'')"

fun nat_str :: "nat \<Rightarrow> string" where
  "nat_str n = (if n < 10 then [digit_char n] else nat_str (n div 10) @ [digit_char (n mod 10)])"

declare nat_str.simps [simp del]

definition digit_val :: "char \<Rightarrow> nat" where
  "digit_val c = of_char c - 48"

definition read_nat :: "string \<Rightarrow> nat" where
  "read_nat = foldl (\<lambda>n c. 10 * n + digit_val c) 0"

definition is_digit :: "char \<Rightarrow> bool" where
  "is_digit c \<longleftrightarrow> (48::nat) \<le> of_char c \<and> of_char c \<le> (57::nat)"

lemma less_ten_cases: "(d::nat) < 10 \<Longrightarrow> d = 0 \<or> d = 1 \<or> d = 2 \<or> d = 3 \<or> d = 4 \<or> d = 5 \<or> d = 6 \<or> d = 7 \<or> d = 8 \<or> d = 9"
  by presburger

lemma digit_char_val:
  assumes "d < 10"
  shows "digit_val (digit_char d) = d" "is_digit (digit_char d)"
  using less_ten_cases [OF assms]
  by (auto simp: digit_char_def digit_val_def is_digit_def)

lemma read_nat_str: "read_nat (nat_str n) = n"
proof (induction n rule: nat_str.induct)
  case (1 n)
  then show ?case
    by (subst nat_str.simps) (auto simp: read_nat_def digit_char_val)
qed

lemma nat_str_inject [simp]: "nat_str m = nat_str n \<longleftrightarrow> m = n"
  by (metis read_nat_str)

lemma nat_str_digits: "list_all is_digit (nat_str n)"
proof (induction n rule: nat_str.induct)
  case (1 n)
  then show ?case by (subst nat_str.simps) (auto simp: digit_char_val)
qed

lemma nat_str_nonempty [simp]: "nat_str n \<noteq> []"
  by (subst nat_str.simps) simp

subsection \<open>Five-bit chunks\<close>

text \<open>
  \<open>(i >> (level * 5)) & 31\<close>, the branch an index takes at a level of a 32-way trie.
\<close>

unbundle bit_operations_syntax

definition chunk_at :: "nat \<Rightarrow> nat \<Rightarrow> nat" where
  "chunk_at level i = drop_bit (level * 5) i AND 31"

lemma nat_and_31 [chunk]: "(n::nat) AND 31 = n mod 32"
  using take_bit_eq_mask [of 5 n, symmetric] by (simp add: mask_eq_exp_minus_1 take_bit_eq_mod)

lemma chunk_at_eq [chunk]: "chunk_at level i = i div 32 ^ level mod 32"
  by (simp add: chunk_at_def nat_and_31 drop_bit_eq_div mult.commute [of level] power_mult)

lemma chunk_at_less [simp]: "chunk_at level i < 32"
  by (simp add: chunk_at_eq)

lemma chunk_at_0 [simp]: "chunk_at 0 i = i mod 32"
  by (simp add: chunk_at_eq)

text \<open>An index inside a subtree: the chunk of the level, then the rest.\<close>

lemma mod_chunk_split:
  "(i::nat) mod 32 ^ Suc (Suc h) = chunk_at (Suc h) i * 32 ^ Suc h + i mod 32 ^ Suc h"
proof -
  have "i mod (32 ^ Suc h * 32) = 32 ^ Suc h * (i div 32 ^ Suc h mod 32) + i mod 32 ^ Suc h"
    by (rule mod_mult2_eq)
  then show ?thesis by (simp add: chunk_at_eq mult.commute)
qed

lemma block_below: "32 dvd m \<Longrightarrow> i < m \<Longrightarrow> r < 32 \<Longrightarrow> i div 32 * 32 + r < (m::nat)"
proof -
  assume "32 dvd m" and "i < m" and "r < 32"
  from \<open>32 dvd m\<close> obtain k where k: "m = 32 * k" by (auto elim: dvdE)
  with \<open>i < m\<close> have "Suc (i div 32) \<le> k" by (simp add: less_mult_imp_div_less mult.commute Suc_le_eq)
  then have "Suc (i div 32) * 32 \<le> m" using k by simp
  with \<open>r < 32\<close> show ?thesis by simp
qed

subsection \<open>Concatenations of equally long lists\<close>

lemma concat_take_length:
  assumes "\<forall>j<q. length (xss ! j) = c" and "q \<le> length xss"
  shows "length (concat (take q xss)) = q * c"
  using assms
proof (induction q)
  case (Suc q)
  then have "take (Suc q) xss = take q xss @ [xss ! q]"
    by (simp add: take_Suc_conv_app_nth)
  with Suc show ?case by simp
qed simp

lemma concat_split_at:
  "q < length xss \<Longrightarrow> concat xss = concat (take q xss) @ xss ! q @ concat (drop (Suc q) xss)"
  by (metis concat.simps(2) concat_append id_take_nth_drop)

lemma concat_nth_chunks:
  assumes "\<forall>j<q. length (xss ! j) = c" and "q < length xss" and "r < length (xss ! q)"
  shows "concat xss ! (q * c + r) = xss ! q ! r"
  using assms concat_take_length [of q xss c] by (simp add: concat_split_at [of q xss] nth_append)

lemma concat_update_chunks:
  assumes "\<forall>j<q. length (xss ! j) = c" and "q < length xss" and "r < length (xss ! q)"
  shows "concat (xss[q := (xss ! q)[r := x]]) = (concat xss)[q * c + r := x]"
proof -
  have "take q (xss[q := (xss ! q)[r := x]]) = take q xss"
    and "drop (Suc q) (xss[q := (xss ! q)[r := x]]) = drop (Suc q) xss"
    by simp_all
  then show ?thesis
    using assms concat_take_length [of q xss c]
      concat_split_at [of q xss] concat_split_at [of q "xss[q := (xss ! q)[r := x]]"]
    by (simp add: list_update_append)
qed

text \<open>Growing (or, read backwards, shrinking) the last non-empty block.\<close>

lemma concat_map_extend:
  assumes "q < length xs" and "f y = f (xs ! q) @ ys"
    and "\<forall>j<length xs. q < j \<longrightarrow> f (xs ! j) = []"
  shows "concat (map f (xs[q := y])) = concat (map f xs) @ ys"
proof -
  have nil: "concat (drop (Suc q) (map f xs)) = []"
    using assms(3) by (auto simp: set_conv_nth drop_map)
  have "concat (map f xs) = concat (take q (map f xs)) @ f (xs ! q) @ concat (drop (Suc q) (map f xs))"
    using assms(1) by (subst concat_split_at [of q]) simp_all
  moreover have "concat (map f (xs[q := y])) =
      concat (take q (map f xs)) @ f y @ concat (drop (Suc q) (map f xs))"
    using assms(1) by (subst concat_split_at [of q]) (simp_all add: take_map drop_map)
  ultimately show ?thesis by (simp only: nil assms(2) append_Nil2 append_assoc)
qed

lemma concat_map_first:
  assumes "xs \<noteq> []" and "\<And>j. 0 < j \<Longrightarrow> j < length xs \<Longrightarrow> f (xs ! j) = []"
  shows "concat (map f xs) = f (xs ! 0)"
proof (cases xs)
  case (Cons y ys)
  have "f z = []" if "z \<in> set ys" for z
  proof -
    from that obtain j where "j < length ys" and "z = ys ! j" by (auto simp: in_set_conv_nth)
    with assms(2) [of "Suc j"] Cons show ?thesis by simp
  qed
  with Cons show ?thesis by simp
qed (use assms in simp)

lemma list_all_update: "list_all P xs \<Longrightarrow> P x \<Longrightarrow> list_all P (xs[i := x])"
  by (auto simp: list_all_iff dest: subsetD [OF set_update_subset_insert])

lemma sum_chunks: "(\<Sum>j<k. min (n - j * c) c) = min n (k * (c::nat))"
  by (induction k) (auto simp: min_def)

lemma length_concat_sum: "length (concat xss) = (\<Sum>j<length xss. length (xss ! j))"
  by (simp add: length_concat sum_list_sum_nth atLeast0LessThan)

end
