(* ===== verification/PVector.thy ===== *)
theory PVector
  imports Prelude
begin

text \<open>
  \<^verbatim>\<open>pkg/lang/internal/persistent/vector/vector.go\<close>: the persistent vector, a 32-way
  trie whose leaves hold the elements, with a tail of at most 32 elements beside it.

  A Go \<open>*[32]interface{}\<close> node is a list of 32 slots; a slot is nil, an element, or a
  child node, so a type assertion \<open>.(node)\<close> that fails is a branch of the model.  Sizes
  and heights are \<open>nat\<close>: a vector long enough to overflow Go's 64-bit \<open>int\<close> does not
  fit in memory.
\<close>

subsection \<open>Data\<close>

datatype 'a slot = SNil | SElem 'a | SNode "'a slot list"

record 'a vector =
  vcount :: nat
  vheight :: nat
  vroot :: "'a slot"
  vtail :: "'a slot list"

definition tailMaxLen :: nat where
  "tailMaxLen = 32"

definition Empty :: "'a vector" where
  "Empty = \<lparr>vcount = 0, vheight = 0, vroot = SNil, vtail = []\<rparr>"

definition newNode :: "'a slot list" where
  "newNode = replicate 32 SNil"

definition nodeFromSlice :: "'a slot list \<Rightarrow> 'a slot" where
  "nodeFromSlice s = SNode (take 32 s @ replicate (32 - length s) SNil)"

definition treeSize :: "nat \<Rightarrow> nat" where
  "treeSize n = (if n < tailMaxLen then 0 else push_bit 5 (drop_bit 5 (n - 1)))"

subsection \<open>Reading\<close>

text \<open>The loop of \<open>Index\<close> and \<open>sliceFor\<close>, from the root down to the leaf's array.\<close>

fun walk :: "nat \<Rightarrow> 'a slot \<Rightarrow> nat \<Rightarrow> 'a slot list option" where
  "walk 0 (SNode arr) i = Some arr"
| "walk (Suc h) (SNode arr) i = do { s \<leftarrow> slice_get arr (chunk_at (Suc h) i); walk h s i }"
| "walk h _ i = None"

text \<open>The inner \<open>None\<close> is the pair \<open>(nil, false)\<close>, the outer one a panic.\<close>

definition Index :: "'a vector \<Rightarrow> int \<Rightarrow> 'a slot option option" where
  "Index v i =
     (if i < 0 \<or> int (vcount v) \<le> i then Some None
      else if treeSize (vcount v) \<le> nat i
      then map_option Some (slice_get (vtail v) (chunk_at 0 (nat i)))
      else do { leaf \<leftarrow> walk (vheight v) (vroot v) (nat i);
                map_option Some (slice_get leaf (chunk_at 0 (nat i))) })"

definition sliceFor :: "'a vector \<Rightarrow> nat \<Rightarrow> 'a slot list option" where
  "sliceFor v i =
     (if treeSize (vcount v) \<le> i then Some (vtail v)
      else walk (vheight v) (vroot v) i)"

subsection \<open>Writing\<close>

fun newPath :: "nat \<Rightarrow> 'a slot \<Rightarrow> 'a slot" where
  "newPath 0 leaf = leaf"
| "newPath (Suc h) leaf = SNode (newNode[0 := newPath h leaf])"

text \<open>\<open>cnt\<close> is \<open>v.count\<close>, the vector's count before the push.\<close>

fun pushTail :: "nat \<Rightarrow> nat \<Rightarrow> 'a slot \<Rightarrow> 'a slot \<Rightarrow> 'a slot option" where
  "pushTail cnt 0 n tn = Some tn"
| "pushTail cnt (Suc h) (SNode arr) tn =
     (let idx = chunk_at (Suc h) (cnt - 1)
      in do { child \<leftarrow> slice_get arr idx;
              c \<leftarrow> (if child = SNil then Some (newPath h tn) else pushTail cnt h child tn);
              m \<leftarrow> slice_set arr idx c;
              Some (SNode m) })"
| "pushTail cnt (Suc h) _ tn = None"

definition Conj :: "'a vector \<Rightarrow> 'a \<Rightarrow> 'a vector option" where
  "Conj v x =
     (if vcount v - treeSize (vcount v) < tailMaxLen
      then Some \<lparr>vcount = vcount v + 1, vheight = vheight v, vroot = vroot v,
                 vtail = vtail v @ [SElem x]\<rparr>
      else let tailNode = nodeFromSlice (vtail v)
           in if push_bit (vheight v * 5) 1 < drop_bit 5 (vcount v)
              then Some \<lparr>vcount = vcount v + 1, vheight = vheight v + 1,
                         vroot = SNode (newNode[0 := vroot v, 1 := newPath (vheight v) tailNode]),
                         vtail = [SElem x]\<rparr>
              else do { r \<leftarrow> pushTail (vcount v) (vheight v) (vroot v) tailNode;
                        Some \<lparr>vcount = vcount v + 1, vheight = vheight v, vroot = r,
                              vtail = [SElem x]\<rparr> })"

fun doAssoc :: "nat \<Rightarrow> 'a slot \<Rightarrow> nat \<Rightarrow> 'a \<Rightarrow> 'a slot option" where
  "doAssoc 0 (SNode arr) i x = map_option SNode (slice_set arr (chunk_at 0 i) (SElem x))"
| "doAssoc (Suc h) (SNode arr) i x =
     (let sub = chunk_at (Suc h) i
      in do { s \<leftarrow> slice_get arr sub;
              c \<leftarrow> doAssoc h s i x;
              m \<leftarrow> slice_set arr sub c;
              Some (SNode m) })"
| "doAssoc h _ i x = None"

text \<open>The inner \<open>None\<close> is the nil \<open>Vector\<close> of an index out of range.\<close>

definition Assoc :: "'a vector \<Rightarrow> int \<Rightarrow> 'a \<Rightarrow> 'a vector option option" where
  "Assoc v i x =
     (if i < 0 \<or> int (vcount v) < i then Some None
      else if i = int (vcount v) then map_option Some (Conj v x)
      else if treeSize (vcount v) \<le> nat i
      then map_option (\<lambda>t. Some (v\<lparr>vtail := t\<rparr>)) (slice_set (vtail v) (chunk_at 0 (nat i)) (SElem x))
      else map_option (\<lambda>r. Some (v\<lparr>vroot := r\<rparr>)) (doAssoc (vheight v) (vroot v) (nat i) x))"

text \<open>\<open>SNil\<close> is the nil node that \<open>popTail\<close> returns when it removed the last leaf.\<close>

fun popTail :: "nat \<Rightarrow> nat \<Rightarrow> 'a slot \<Rightarrow> 'a slot option" where
  "popTail cnt level n =
     (let idx = chunk_at level (cnt - 2)
      in if 1 < level
         then (case n of
                 SNode arr \<Rightarrow>
                   do { s \<leftarrow> slice_get arr idx;
                        newChild \<leftarrow> (case s of SNode _ \<Rightarrow> popTail cnt (level - 1) s | _ \<Rightarrow> None);
                        if newChild = SNil \<and> idx = 0 then Some SNil
                        else map_option SNode (slice_set arr idx newChild) }
               | _ \<Rightarrow> None)
         else if idx = 0 then Some SNil
         else (case n of SNode arr \<Rightarrow> map_option SNode (slice_set arr idx SNil) | _ \<Rightarrow> None))"

definition Pop :: "'a vector \<Rightarrow> 'a vector option option" where
  "Pop v =
     (if vcount v = 0 then Some None
      else if vcount v = 1 then Some (Some Empty)
      else if 1 < vcount v - treeSize (vcount v)
      then Some (Some (v\<lparr>vcount := vcount v - 1, vtail := butlast (vtail v)\<rparr>))
      else do { newTail \<leftarrow> sliceFor v (vcount v - 2);
                newRoot \<leftarrow> popTail (vcount v) (vheight v) (vroot v);
                (case newRoot of
                   SNode arr \<Rightarrow>
                     do { collapse \<leftarrow> (if 0 < vheight v then map_option (\<lambda>s. s = SNil) (slice_get arr 1)
                                       else Some False);
                          if collapse
                          then do { r \<leftarrow> slice_get arr 0;
                                    (case r of SNode _ \<Rightarrow>
                                       Some (Some \<lparr>vcount = vcount v - 1, vheight = vheight v - 1,
                                                   vroot = r, vtail = newTail\<rparr>)
                                     | _ \<Rightarrow> None) }
                          else Some (Some \<lparr>vcount = vcount v - 1, vheight = vheight v,
                                           vroot = newRoot, vtail = newTail\<rparr>) }
                 | _ \<Rightarrow> if 0 < vheight v then None
                        else Some (Some \<lparr>vcount = vcount v - 1, vheight = vheight v,
                                         vroot = newRoot, vtail = newTail\<rparr>)) })"

declare popTail.simps [simp del]

subsection \<open>The abstraction: a vector is a list\<close>

text \<open>
  \<open>elems\<close> lists the elements below a slot.  \<open>shaped h n s\<close> says that \<open>s\<close> is a trie of
  height \<open>h\<close> with \<open>n\<close> elements, filled from the left: every child before the last one is
  full, every child after it is nil, and leaves hold 32 elements.  \<open>vinv\<close> is the invariant of
  a vector; when the tree is empty its root is not looked at (\<open>Pop\<close> leaves a stale leaf there),
  and a tree is never higher than its size needs.
\<close>

declare power_Suc [simp del]

fun elems :: "'a slot \<Rightarrow> 'a list" where
  "elems SNil = []"
| "elems (SElem x) = [x]"
| "elems (SNode arr) = concat (map elems arr)"

fun is_elem :: "'a slot \<Rightarrow> bool" where
  "is_elem (SElem _) = True"
| "is_elem _ = False"

fun shaped :: "nat \<Rightarrow> nat \<Rightarrow> 'a slot \<Rightarrow> bool" where
  "shaped h n SNil \<longleftrightarrow> n = 0"
| "shaped h n (SElem x) \<longleftrightarrow> False"
| "shaped 0 n (SNode arr) \<longleftrightarrow> n = 32 \<and> length arr = 32 \<and> list_all is_elem arr"
| "shaped (Suc h) n (SNode arr) \<longleftrightarrow>
     0 < n \<and> n \<le> 32 * 32 ^ Suc h \<and> length arr = 32 \<and>
     (\<forall>j<32. shaped h (min (n - j * 32 ^ Suc h) (32 ^ Suc h)) (arr ! j))"

definition vlist :: "'a vector \<Rightarrow> 'a list" where
  "vlist v = (if treeSize (vcount v) = 0 then [] else elems (vroot v)) @ concat (map elems (vtail v))"

definition vinv :: "'a vector \<Rightarrow> bool" where
  "vinv v \<longleftrightarrow>
     length (vtail v) = vcount v - treeSize (vcount v) \<and> list_all is_elem (vtail v) \<and>
     (if treeSize (vcount v) = 0 then vheight v = 0
      else shaped (vheight v) (treeSize (vcount v)) (vroot v) \<and>
           (0 < vheight v \<longrightarrow> 32 ^ vheight v < treeSize (vcount v)))"

lemma is_elem_conv: "is_elem s \<longleftrightarrow> (\<exists>x. s = SElem x)"
  by (cases s) auto

lemma elems_singletons:
  "list_all is_elem xs \<Longrightarrow> concat (map elems xs) = map (\<lambda>s. hd (elems s)) xs"
  by (induction xs) (auto simp: is_elem_conv)

lemma elems_leaf_length: "list_all is_elem xs \<Longrightarrow> length (concat (map elems xs)) = length xs"
  by (simp add: elems_singletons)

lemma list_all_butlast: "list_all P xs \<Longrightarrow> list_all P (butlast xs)"
  by (auto simp: list_all_iff dest: in_set_butlastD)

lemma butlast_elems:
  assumes "list_all is_elem xs"
  shows "butlast (concat (map elems xs)) = concat (map elems (butlast xs))"
  using elems_singletons [OF assms] elems_singletons [OF list_all_butlast [OF assms]]
  by (simp add: map_butlast)

lemma elems_leaf_nth:
  "list_all is_elem xs \<Longrightarrow> i < length xs \<Longrightarrow> xs ! i = SElem (concat (map elems xs) ! i)"
  by (fastforce simp: elems_singletons list_all_length is_elem_conv)

lemma elems_leaf_update:
  "list_all is_elem xs \<Longrightarrow> concat (map elems (xs[i := SElem x])) = (concat (map elems xs))[i := x]"
  using elems_singletons [of "xs[i := SElem x]"] elems_singletons [of xs]
  by (simp add: list_all_update map_update)

lemma shaped_length: "shaped h n s \<Longrightarrow> length (elems s) = n"
proof (induction h n s rule: shaped.induct)
  case (3 n arr)
  then show ?case using elems_leaf_length [of arr] by simp
next
  case (4 h n arr)
  then have "length (concat (map elems arr)) = (\<Sum>j<32. min (n - j * 32 ^ Suc h) (32 ^ Suc h))"
    by (auto simp: length_concat_sum intro!: sum.cong)
  with 4 show ?case by (simp only: elems.simps sum_chunks) simp
qed auto

lemma shaped_child:
  assumes "shaped (Suc h) n (SNode arr)" and "j < 32"
  shows "shaped h (min (n - j * 32 ^ Suc h) (32 ^ Suc h)) (arr ! j)"
  using assms by simp

text \<open>The branch taken for an index below the size leads past full children only.\<close>

lemma chunk_full_prefix:
  assumes "i mod 32 ^ Suc (Suc h) < n" and "n \<le> 32 * 32 ^ Suc h"
  shows "\<forall>j<chunk_at (Suc h) i. min (n - j * 32 ^ Suc h) (32 ^ Suc h) = 32 ^ Suc h"
    and "i mod 32 ^ Suc h < min (n - chunk_at (Suc h) i * 32 ^ Suc h) (32 ^ Suc h)"
proof -
  let ?c = "32 ^ Suc h :: nat" let ?q = "chunk_at (Suc h) i"
  have lt: "?q * ?c + i mod ?c < n"
    using assms(1) by (simp only: mod_chunk_split)
  show "\<forall>j<?q. min (n - j * ?c) ?c = ?c"
  proof (intro allI impI)
    fix j assume "j < ?q"
    then have "Suc j * ?c \<le> ?q * ?c" by (intro mult_le_mono1) simp
    with lt show "min (n - j * ?c) ?c = ?c" by simp
  qed
  show "i mod ?c < min (n - ?q * ?c) ?c"
    using lt by (auto simp: mod_less_divisor)
qed

lemma shaped_dvd: "shaped h n s \<Longrightarrow> 32 dvd n"
proof (induction h n s rule: shaped.induct)
  case (4 h n arr)
  then have "32 dvd (\<Sum>j<32. min (n - j * 32 ^ Suc h) (32 ^ Suc h))"
    by (intro dvd_sum) auto
  with 4 show ?case by (simp only: sum_chunks) simp
qed auto

lemma shaped_zero: "shaped h 0 s \<Longrightarrow> s = SNil"
  by (cases s; cases h) auto

lemma shaped_node: "shaped h n s \<Longrightarrow> 0 < n \<Longrightarrow> \<exists>arr. s = SNode arr \<and> length arr = 32"
  by (cases s; cases h) auto

text \<open>Everything one step down the branch of an index needs to know.\<close>

lemma shaped_branch:
  assumes "shaped (Suc h) n (SNode arr)" and "i mod 32 ^ Suc (Suc h) < n"
  defines "q \<equiv> chunk_at (Suc h) i" and "c \<equiv> 32 ^ Suc h :: nat"
  shows "shaped h (min (n - q * c) c) (arr ! q)"
    and "i mod c < min (n - q * c) c"
    and "\<forall>j<q. length (map elems arr ! j) = c"
    and "length (elems (arr ! q)) = min (n - q * c) c"
    and "length arr = 32" and "q < 32"
proof -
  have n: "n \<le> 32 * c" and len: "length arr = 32" and q: "q < 32"
    using assms by auto
  note pre = chunk_full_prefix [OF assms(2) n [unfolded c_def], folded q_def c_def]
  show child: "shaped h (min (n - q * c) c) (arr ! q)"
    using shaped_child [OF assms(1) q] by (simp add: c_def)
  show "i mod c < min (n - q * c) c" by (rule pre(2))
  show "\<forall>j<q. length (map elems arr ! j) = c"
  proof (intro allI impI)
    fix j assume "j < q"
    with q len pre(1) shaped_child [OF assms(1), of j, folded c_def]
    show "length (map elems arr ! j) = c"
      by (metis nth_map order_less_trans shaped_length)
  qed
  show "length (elems (arr ! q)) = min (n - q * c) c" by (rule shaped_length [OF child])
  show "length arr = 32" and "q < 32" by (fact len q)+
qed

text \<open>The leaf that the loop reaches is the block of 32 elements around the index.\<close>

lemma walk_block:
  assumes "shaped h n s" and "i mod 32 ^ Suc h < n"
  shows "\<exists>leaf. walk h s i = Some leaf \<and> length leaf = 32 \<and> list_all is_elem leaf \<and>
           (\<forall>r<32. leaf ! r = SElem (elems s ! (i mod 32 ^ Suc h div 32 * 32 + r)))"
  using assms
proof (induction h s i arbitrary: n rule: walk.induct)
  case (1 arr i)
  then show ?case using elems_leaf_nth [of arr] by simp
next
  case (2 h arr i)
  note br = shaped_branch [OF "2.prems"]
  let ?q = "chunk_at (Suc h) i" let ?c = "32 ^ Suc h :: nat"
  let ?b = "i mod ?c div 32 * 32"
  have get: "slice_get arr ?q = Some (arr ! ?q)" using br by (simp add: go_panic)
  obtain leaf where leaf: "walk h (arr ! ?q) i = Some leaf" "length leaf = 32" "list_all is_elem leaf"
      "\<forall>r<32. leaf ! r = SElem (elems (arr ! ?q) ! (?b + r))"
    using "2.IH" [OF get br(1,2)] by auto
  have "elems (SNode arr) ! (i mod 32 ^ Suc (Suc h) div 32 * 32 + r) = elems (arr ! ?q) ! (?b + r)"
    if "r < 32" for r
  proof -
    have "32 dvd min (n - ?q * ?c) ?c" using br(1) by (rule shaped_dvd)
    with br(2) that have "?b + r < min (n - ?q * ?c) ?c" by (intro block_below)
    then have "concat (map elems arr) ! (?q * ?c + (?b + r)) = map elems arr ! ?q ! (?b + r)"
      using br(4-6) by (intro concat_nth_chunks br(3)) auto
    moreover have "i mod 32 ^ Suc (Suc h) div 32 * 32 = ?q * ?c + ?b"
      by (simp only: mod_chunk_split) (simp add: div_add1_eq [of "_ * _"] mult.assoc [symmetric])
    ultimately show ?thesis using br(5,6) by (simp add: add.assoc)
  qed
  with leaf get show ?case by simp
qed auto

lemma doAssoc_elems:
  assumes "shaped h n s" and "i mod 32 ^ Suc h < n"
  shows "\<exists>s'. doAssoc h s i x = Some s' \<and> shaped h n s' \<and>
           elems s' = (elems s)[i mod 32 ^ Suc h := x]"
  using assms
proof (induction h s i x arbitrary: n rule: doAssoc.induct)
  case (1 arr i x)
  then show ?case by (simp add: go_panic elems_leaf_update list_all_update)
next
  case (2 h arr i x)
  note br = shaped_branch [OF "2.prems"]
  let ?q = "chunk_at (Suc h) i" let ?c = "32 ^ Suc h :: nat"
  have get: "slice_get arr ?q = Some (arr ! ?q)" using br by (simp add: go_panic)
  obtain s' where s': "doAssoc h (arr ! ?q) i x = Some s'" "shaped h (min (n - ?q * ?c) ?c) s'"
      "elems s' = (elems (arr ! ?q))[i mod ?c := x]"
    using "2.IH" [OF refl get br(1,2)] by auto
  have "shaped (Suc h) n (SNode (arr[?q := s']))"
    using "2.prems"(1) s'(2) by (auto simp: nth_list_update)
  moreover have "elems (SNode (arr[?q := s'])) = (elems (SNode arr))[i mod 32 ^ Suc (Suc h) := x]"
    using concat_update_chunks [of ?q "map elems arr" ?c "i mod ?c" x] br s'(3)
    by (simp add: map_update mod_chunk_split)
  ultimately show ?case using get s'(1) br(5) by (simp add: go_panic Let_def)
qed auto


subsubsection \<open>Pushing a full tail into the tree\<close>

lemma elems_newNode [simp]: "concat (map elems (newNode[0 := s])) = elems s"
  by (simp add: newNode_def numeral_eq_Suc)

lemma shaped_singleton:
  assumes "shaped h m s" and "0 < m"
  shows "shaped (Suc h) m (SNode (newNode[0 := s]))"
proof -
  have m: "m \<le> 32 ^ Suc h"
    using assms by (cases s; cases h) (auto simp: power_Suc)
  have "m - j * 32 ^ Suc h = 0" if "0 < j" for j
  proof -
    have "1 * 32 ^ Suc h \<le> j * 32 ^ Suc h" by (rule mult_le_mono1) (use that in simp)
    with m have "m \<le> j * 32 ^ Suc h" by linarith
    then show ?thesis by simp
  qed
  with assms m show ?thesis
    by (auto simp: newNode_def nth_list_update min_def)
qed

lemma newPath_shaped: "shaped 0 32 tn \<Longrightarrow> shaped h 32 (newPath h tn) \<and> elems (newPath h tn) = elems tn"
proof (induction h)
  case (Suc h)
  then show ?case using shaped_singleton [of h 32 "newPath h tn"] by (simp del: shaped.simps)
qed simp

text \<open>The branch on which a leaf is added: the children before it are full, those after it nil.\<close>

lemma dvd_below:
  assumes "32 dvd (m::nat)" and "m < c" and "32 dvd c"
  shows "m + 32 \<le> c"
proof -
  from assms obtain k l where "m = 32 * k" and "c = 32 * l" by (auto elim!: dvdE)
  with assms(2) show ?thesis by simp
qed

lemma chunk_of_end:
  assumes "32 dvd (n::nat)" and "i mod 32 ^ Suc (Suc h) = n + r" and "r < 32"
  shows "chunk_at (Suc h) i = n div 32 ^ Suc h" and "i mod 32 ^ Suc h = n mod 32 ^ Suc h + r"
proof -
  let ?c = "32 ^ Suc h :: nat"
  have "32 dvd ?c" by simp
  with assms(1) have "32 dvd n mod ?c" by (metis dvd_mod_iff)
  moreover have "n mod ?c < ?c" by simp
  ultimately have lt: "n mod ?c + r < ?c" using dvd_below [of "n mod ?c" ?c] assms(3) by simp
  have "i mod ?c = (n + r) mod ?c"
    using assms(2) by (metis mod_mod_cancel le_imp_power_dvd lessI less_imp_le_nat)
  also have "\<dots> = n mod ?c + r" using lt by (metis mod_add_left_eq mod_less)
  finally show m: "i mod ?c = n mod ?c + r" .
  have "chunk_at (Suc h) i * ?c + i mod ?c = n + r"
    using assms(2) mod_chunk_split [of i h] by simp
  with m have "chunk_at (Suc h) i * ?c = n - n mod ?c" by simp
  also have "\<dots> = n div ?c * ?c" by (simp only: minus_mod_eq_div_mult)
  finally show "chunk_at (Suc h) i = n div ?c" by simp
qed

lemma shaped_grow:
  assumes "shaped (Suc h) n (SNode arr)" and "n < 32 ^ Suc (Suc h)"
    and "shaped h (n mod 32 ^ Suc h + 32) s'" and "n mod 32 ^ Suc h + 32 \<le> 32 ^ Suc h"
  shows "shaped (Suc h) (n + 32) (SNode (arr[n div 32 ^ Suc h := s']))"
proof -
  let ?c = "32 ^ Suc h :: nat" let ?q = "n div ?c"
  have q: "?q < 32" using assms(2) by (simp add: div_less_iff_less_mult power_Suc [of 32 "Suc h"])
  have split: "n = ?q * ?c + n mod ?c" by (rule div_mult_mod_eq [symmetric])
  have "shaped h (min (n + 32 - j * ?c) ?c) (arr[?q := s'] ! j)" if "j < 32" for j
  proof -
    have old: "shaped h (min (n - j * ?c) ?c) (arr ! j)" and "length arr = 32"
      using assms(1) that by auto
    consider "j < ?q" | "j = ?q" | "?q < j" by linarith
    then show ?thesis
    proof cases
      case 1
      then have "Suc j * ?c \<le> ?q * ?c" by (intro mult_le_mono1) simp
      with split have "Suc j * ?c \<le> n" by linarith
      then have "min (n - j * ?c) ?c = ?c" and "min (n + 32 - j * ?c) ?c = ?c" by auto
      with old 1 show ?thesis by simp
    next
      case 2
      have "n + 32 - ?q * ?c = n mod ?c + 32" using split by linarith
      with 2 that \<open>length arr = 32\<close> assms(3,4) show ?thesis by simp
    next
      case 3
      then have "Suc ?q * ?c \<le> j * ?c" by (intro mult_le_mono1) simp
      with split assms(4) have "n + 32 \<le> j * ?c" by simp
      with old 3 show ?thesis by simp
    qed
  qed
  moreover have "n + 32 \<le> 32 * ?c"
  proof -
    have "Suc ?q * ?c \<le> 32 * ?c" by (rule mult_le_mono1) (use q in simp)
    then have "?c + ?q * ?c \<le> 32 * ?c" by (simp only: mult_Suc)
    with split assms(4) show ?thesis by linarith
  qed
  ultimately show ?thesis using assms(1) by simp
qed

lemma elems_after_last:
  assumes "shaped (Suc h) n (SNode arr)" and "j < 32" and "n div 32 ^ Suc h < j"
  shows "arr ! j = SNil"
proof -
  have "n \<le> j * 32 ^ Suc h"
    using assms(3) by (simp add: div_less_iff_less_mult)
  with shaped_child [OF assms(1,2)] show ?thesis by (auto dest: shaped_zero)
qed

lemma pushTail_elems:
  assumes "shaped h n s" and "n < 32 ^ Suc h" and "0 < n \<or> h = 0"
    and "(cnt - 1) mod 32 ^ Suc h = n + 31" and "shaped 0 32 tn"
  shows "\<exists>s'. pushTail cnt h s tn = Some s' \<and> shaped h (n + 32) s' \<and> elems s' = elems s @ elems tn"
  using assms
proof (induction cnt h s tn arbitrary: n rule: pushTail.induct)
  case (1 cnt s tn)
  from "1.prems"(1,2) have "n = 0" by (cases s) auto
  with 1 shaped_zero [of 0 s] show ?case by auto
next
  case (2 cnt h arr tn)
  let ?c = "32 ^ Suc h :: nat" let ?q = "chunk_at (Suc h) (cnt - 1)" let ?m = "n mod ?c"
  have dvd: "32 dvd n" by (rule shaped_dvd [OF "2.prems"(1)])
  have len: "length arr = 32" using "2.prems"(1) by simp
  have "32 dvd ?m" using dvd by (simp add: dvd_mod_iff)
  then have m: "?m + 32 \<le> ?c" by (rule dvd_below) simp_all
  note ch = chunk_of_end [OF dvd "2.prems"(4), simplified]
  have q: "?q < 32" by simp
  have get: "slice_get arr ?q = Some (arr ! ?q)" and
    set: "slice_set arr ?q s' = Some (arr[?q := s'])" for s'
    using len q by (simp_all add: go_panic)
  have "n - ?q * ?c = ?m" using ch(1) by (simp add: minus_mult_div_eq_mod mult.commute)
  with m have child: "shaped h ?m (arr ! ?q)"
    using shaped_child [OF "2.prems"(1) q] by (simp add: min_def)
  have "\<exists>s'. (if arr ! ?q = SNil then Some (newPath h tn) else pushTail cnt h (arr ! ?q) tn) = Some s'
          \<and> shaped h (?m + 32) s' \<and> elems s' = elems (arr ! ?q) @ elems tn"
  proof (cases "?m = 0")
    case True
    with child newPath_shaped [OF "2.prems"(5)] show ?thesis by (auto dest: shaped_zero)
  next
    case False
    then have "arr ! ?q \<noteq> SNil" using child by auto
    moreover have "?m < 32 ^ Suc h" by simp
    ultimately show ?thesis
      using "2.IH" [OF refl get _ child] False ch(2) "2.prems"(5) by simp
  qed
  then obtain s' where s': "(if arr ! ?q = SNil then Some (newPath h tn)
        else pushTail cnt h (arr ! ?q) tn) = Some s'"
      "shaped h (?m + 32) s'" "elems s' = elems (arr ! ?q) @ elems tn"
    by blast
  have "shaped (Suc h) (n + 32) (SNode (arr[?q := s']))"
    using shaped_grow [OF "2.prems"(1,2) s'(2) m] ch(1) by simp
  moreover have "elems (SNode (arr[?q := s'])) = elems (SNode arr) @ elems tn"
    unfolding elems.simps
    using elems_after_last [OF "2.prems"(1)] ch(1) len q
    by (intro concat_map_extend s'(3)) auto
  ultimately have "pushTail cnt (Suc h) (SNode arr) tn = Some (SNode (arr[?q := s'])) \<and>
      shaped (Suc h) (n + 32) (SNode (arr[?q := s'])) \<and>
      elems (SNode (arr[?q := s'])) = elems (SNode arr) @ elems tn"
    using get set s'(1) by (simp only: pushTail.simps Let_def Option.bind.bind_lunit)
  then show ?case by blast
qed auto


subsubsection \<open>Removing the last leaf\<close>

lemma shaped_shrink:
  assumes "shaped (Suc h) n (SNode arr)" and "0 < m" and "m \<le> 32 ^ Suc h"
    and "n = q * 32 ^ Suc h + m" and "32 < n"
    and "shaped h (m - 32) s'" and "32 \<le> m"
  shows "shaped (Suc h) (n - 32) (SNode (arr[q := s']))"
proof -
  let ?c = "32 ^ Suc h :: nat"
  have n: "n \<le> 32 * ?c" and len: "length arr = 32" using assms(1) by auto
  have "shaped h (min (n - 32 - j * ?c) ?c) (arr[q := s'] ! j)" if "j < 32" for j
  proof -
    have old: "shaped h (min (n - j * ?c) ?c) (arr ! j)" using assms(1) that by auto
    consider "j < q" | "j = q" | "q < j" by linarith
    then show ?thesis
    proof cases
      case 1
      then have "Suc j * ?c \<le> q * ?c" by (intro mult_le_mono1) simp
      with assms(4,7) have "min (n - j * ?c) ?c = ?c" and "min (n - 32 - j * ?c) ?c = ?c" by auto
      with old 1 show ?thesis by simp
    next
      case 2
      with assms that len show ?thesis by simp
    next
      case 3
      then have "Suc q * ?c \<le> j * ?c" by (intro mult_le_mono1) simp
      with assms(3,4) have "n \<le> j * ?c" by simp
      with old 3 show ?thesis by simp
    qed
  qed
  with assms(5) n len show ?thesis by simp
qed

text \<open>
  The invariant \<open>(cnt - 2) mod 32 ^ Suc level = n - 1\<close> says that the index \<open>cnt - 2\<close>
  is that of the last element of the tree, seen from this level.
\<close>

lemma popTail_elems:
  assumes "shaped level n s" and "0 < level" and "0 < n" and "(cnt - 2) mod 32 ^ Suc level = n - 1"
  shows "\<exists>s' leaf. popTail cnt level s = Some s' \<and> shaped level (n - 32) s' \<and>
           elems s = elems s' @ leaf \<and> length leaf = 32"
  using assms
proof (induction level arbitrary: n s)
  case (Suc h)
  let ?c = "32 ^ Suc h :: nat" let ?q = "chunk_at (Suc h) (cnt - 2)"
  define m where "m = n - ?q * ?c"
  obtain arr where s: "s = SNode arr" and len: "length arr = 32"
    using shaped_node [OF Suc.prems(1,3)] by auto
  have sh: "shaped (Suc h) n (SNode arr)" using Suc.prems(1) s by simp
  have idx: "?q * ?c + (cnt - 2) mod ?c = n - 1"
    using Suc.prems(4) mod_chunk_split [of "cnt - 2" h] by simp
  have "(cnt - 2) mod ?c < ?c" by simp
  with idx Suc.prems(3) have m: "0 < m" "m \<le> ?c" "n = ?q * ?c + m" "(cnt - 2) mod ?c = m - 1"
    unfolding m_def by linarith+
  have q: "?q < 32" by simp
  have child: "shaped h m (arr ! ?q)"
    using shaped_child [OF sh q] m(2) unfolding m_def by (simp add: min_def)
  have m32: "32 dvd m" by (rule shaped_dvd [OF child])
  with m(1) have m_ge: "32 \<le> m" by (simp add: dvd_imp_le)
  have get: "slice_get arr ?q = Some (arr ! ?q)"
    and set: "slice_set arr ?q s' = Some (arr[?q := s'])" for s'
    using len q by (simp_all add: go_panic)
  have after: "\<forall>j<length arr. ?q < j \<longrightarrow> elems (arr ! j) = []"
  proof (intro allI impI)
    fix j assume "j < length arr" and "?q < j"
    then have "Suc ?q * ?c \<le> j * ?c" by (intro mult_le_mono1) simp
    with m have "n \<le> j * ?c" by simp
    with shaped_child [OF sh, of j] \<open>j < length arr\<close> len show "elems (arr ! j) = []"
      by (auto dest: shaped_zero)
  qed
  text \<open>What both branches of the code do once they have the new child.\<close>
  have step: "\<exists>s'' leaf. (if s' = SNil \<and> ?q = 0 then Some SNil
                 else map_option SNode (slice_set arr ?q s')) = Some s'' \<and>
      shaped (Suc h) (n - 32) s'' \<and> elems (SNode arr) = elems s'' @ leaf \<and> length leaf = 32"
    if s': "shaped h (m - 32) s'" "elems (arr ! ?q) = elems s' @ leaf" "length leaf = 32" for s' leaf
  proof -
    have el: "concat (map elems arr) = concat (map elems (arr[?q := s'])) @ leaf"
      using concat_map_extend [of ?q "arr[?q := s']" elems "arr ! ?q" leaf] s'(2) after len q
      by simp
    show ?thesis
    proof (cases "s' = SNil \<and> ?q = 0")
      case True
      with s'(1) have "m - 32 = 0" by simp
      with m_ge m(3) True have "n = 32" by simp
      moreover have "concat (map elems (arr[?q := s'])) = []"
        using after len q True by (auto simp: in_set_conv_nth nth_list_update)
      ultimately show ?thesis using True el s'(3) by auto
    next
      case False
      have "32 < n"
      proof (cases "?q = 0")
        case True
        with False s'(1) have "m - 32 \<noteq> 0" using shaped_zero by metis
        with m(3) True show ?thesis by simp
      next
        case False
        then have "1 * ?c \<le> ?q * ?c" by (intro mult_le_mono1) simp
        moreover have "32 \<le> ?c" by (simp add: power_Suc)
        ultimately show ?thesis using m(1,3) by linarith
      qed
      from shaped_shrink [OF sh m(1,2,3) this s'(1) m_ge] False el set s'(3)
      show ?thesis by simp
    qed
  qed
  show ?case
  proof (cases h)
    case 0
    with child m(1) have "m = 32" by (cases "arr ! ?q") auto
    moreover have "popTail cnt (Suc h) s = (if ?q = 0 then Some SNil
        else map_option SNode (slice_set arr ?q SNil))"
      unfolding 0 s by (subst popTail.simps) (simp add: Let_def)
    ultimately show ?thesis
      using step [of SNil "elems (arr ! ?q)"] shaped_length [OF child] s 0 by simp
  next
    case (Suc h')
    have "\<exists>s' leaf. popTail cnt h (arr ! ?q) = Some s' \<and> shaped h (m - 32) s' \<and>
        elems (arr ! ?q) = elems s' @ leaf \<and> length leaf = 32"
      using Suc.IH [OF child _ m(1) m(4)] Suc by simp
    then obtain s' leaf where s': "popTail cnt h (arr ! ?q) = Some s'" "shaped h (m - 32) s'"
        "elems (arr ! ?q) = elems s' @ leaf" "length leaf = 32"
      by blast
    obtain arr' where "arr ! ?q = SNode arr'" using shaped_node [OF child m(1)] by auto
    then have "popTail cnt (Suc h) s = (if s' = SNil \<and> ?q = 0 then Some SNil
        else map_option SNode (slice_set arr ?q s'))"
      using Suc s s'(1) get by (subst popTail.simps) (simp add: Let_def)
    with step [OF s'(2-4)] s show ?thesis by simp
  qed
qed simp


subsection \<open>The operations against the list\<close>

lemma treeSize_eq: "treeSize n = (n - 1) div 32 * 32"
  by (simp add: treeSize_def tailMaxLen_def push_bit_eq_mult drop_bit_eq_div)

lemma treeSize_bounds: "treeSize n \<le> n" "n - treeSize n \<le> 32" "n \<noteq> 0 \<Longrightarrow> treeSize n < n"
  by (simp_all add: treeSize_eq)

lemma treeSize_Suc: "treeSize (Suc n) = (if n - treeSize n < 32 then treeSize n else n)"
proof (cases n)
  case (Suc k)
  obtain q r where k: "k = 32 * q + r" "r < 32"
    using that [of "k div 32" "k mod 32"] by simp
  have "Suc k div 32 = (if r = 31 then Suc q else q)"
  proof (cases "r = 31")
    case True
    then have "Suc k = 32 * Suc q" using k by simp
    with True show ?thesis by (simp only: nonzero_mult_div_cancel_left) simp
  qed (use k in simp)
  moreover have "k div 32 = q" using k by simp
  ultimately show ?thesis using k unfolding Suc treeSize_eq diff_Suc_1 by auto
qed (simp add: treeSize_eq)

lemma vinvD:
  assumes "vinv v"
  shows "length (vtail v) = vcount v - treeSize (vcount v)" "list_all is_elem (vtail v)"
    "treeSize (vcount v) = 0 \<Longrightarrow> vheight v = 0"
    "0 < treeSize (vcount v) \<Longrightarrow> shaped (vheight v) (treeSize (vcount v)) (vroot v)"
    "0 < treeSize (vcount v) \<Longrightarrow> 0 < vheight v \<Longrightarrow> 32 ^ vheight v < treeSize (vcount v)"
  using assms by (auto simp: vinv_def split: if_splits)

lemma shaped_cap: "shaped h n s \<Longrightarrow> n \<le> 32 ^ Suc h"
  by (cases s; cases h) (auto simp: power_Suc)

lemma vlist_tree_length:
  assumes "vinv v"
  shows "length (if treeSize (vcount v) = 0 then [] else elems (vroot v)) = treeSize (vcount v)"
  using shaped_length [OF vinvD(4) [OF assms]] by simp

lemma vlist_length:
  assumes "vinv v"
  shows "length (vlist v) = vcount v"
  unfolding vlist_def length_append vlist_tree_length [OF assms]
  using elems_leaf_length [OF vinvD(2) [OF assms]] vinvD(1) [OF assms]
    treeSize_bounds(1) [of "vcount v"] by simp

lemma tail_offset:
  assumes "treeSize n \<le> i" and "i < n"
  shows "i mod 32 = i - treeSize n"
proof -
  have "i - treeSize n < 32" using assms treeSize_bounds(2) [of n] by linarith
  moreover have "i = (n - 1) div 32 * 32 + (i - treeSize n)" using assms(1) by (simp add: treeSize_eq)
  ultimately show ?thesis by (metis mod_less mod_mult_self3 mult.commute)
qed

lemma Index_elem:
  assumes "vinv v" and "0 \<le> i" and "i < int (vcount v)"
  shows "Index v i = Some (Some (SElem (vlist v ! nat i)))"
proof (cases "treeSize (vcount v) \<le> nat i")
  case True
  then have off: "nat i mod 32 = nat i - treeSize (vcount v)"
    using assms by (intro tail_offset) auto
  have len: "nat i - treeSize (vcount v) < length (vtail v)"
    using True assms vinvD(1) [OF assms(1)] by auto
  then show ?thesis
    using True assms off elems_leaf_nth [OF vinvD(2) [OF assms(1)] len]
      vlist_tree_length [OF assms(1)]
    by (simp add: Index_def vlist_def nth_append go_panic)
next
  case False
  then have pos: "0 < treeSize (vcount v)" and lt: "nat i < treeSize (vcount v)" by auto
  note sh = vinvD(4) [OF assms(1) pos]
  have "nat i < 32 ^ Suc (vheight v)" using lt shaped_cap [OF sh] by linarith
  then have "nat i mod 32 ^ Suc (vheight v) = nat i" by simp
  with walk_block [OF sh, of "nat i"] lt obtain leaf where
    "walk (vheight v) (vroot v) (nat i) = Some leaf" "length leaf = 32"
    "\<forall>r<32. leaf ! r = SElem (elems (vroot v) ! (nat i div 32 * 32 + r))"
    by auto
  moreover have "nat i div 32 * 32 + nat i mod 32 = nat i" by simp
  ultimately show ?thesis
    using False assms pos lt shaped_length [OF sh]
    by (simp add: Index_def vlist_def nth_append go_panic)
qed

lemma nodeFromSlice_full:
  "length s = 32 \<Longrightarrow> list_all is_elem s \<Longrightarrow>
     shaped 0 32 (nodeFromSlice s) \<and> elems (nodeFromSlice s) = concat (map elems s)"
  by (simp add: nodeFromSlice_def)

text \<open>The test for an overflowing root says that the tree is full.\<close>

lemma overflow_iff:
  assumes "n = treeSize n + 32"
  shows "push_bit (h * 5) 1 < drop_bit 5 n \<longleftrightarrow> 32 ^ Suc h < treeSize n + 32"
proof -
  have "push_bit (h * 5) (1::nat) = 32 ^ h"
    by (simp add: push_bit_eq_mult power_mult mult.commute [of h])
  moreover have "drop_bit 5 n = treeSize n div 32 + 1"
  proof -
    have "drop_bit 5 n = n div 32" by (simp add: drop_bit_eq_div)
    also have "\<dots> = (treeSize n + 32) div 32" using assms by (rule arg_cong)
    finally show ?thesis by simp
  qed
  moreover have "32 dvd treeSize n" by (simp add: treeSize_eq)
  ultimately show ?thesis by (auto simp: power_Suc elim!: dvdE)
qed

lemma vinv_pushed:
  assumes "vinv v" and "vcount v = treeSize (vcount v) + 32"
    and "shaped h (treeSize (vcount v) + 32) r"
    and "elems r = (if treeSize (vcount v) = 0 then [] else elems (vroot v)) @
           elems (nodeFromSlice (vtail v))"
    and "0 < h \<longrightarrow> 32 ^ h < treeSize (vcount v) + 32"
  shows "vinv \<lparr>vcount = vcount v + 1, vheight = h, vroot = r, vtail = [SElem x]\<rparr> \<and>
         vlist \<lparr>vcount = vcount v + 1, vheight = h, vroot = r, vtail = [SElem x]\<rparr> = vlist v @ [x]"
proof -
  have "length (vtail v) = 32" using assms(2) vinvD(1) [OF assms(1)] by simp
  with nodeFromSlice_full vinvD(2) [OF assms(1)]
  have "elems (nodeFromSlice (vtail v)) = concat (map elems (vtail v))" by blast
  moreover have "treeSize (Suc (vcount v)) = vcount v" using assms(2) by (simp add: treeSize_Suc)
  ultimately show ?thesis using assms(2-5) by (simp add: vinv_def vlist_def)
qed

lemma root_overflow:
  assumes "shaped h (32 ^ Suc h) s" and "shaped 0 32 tn"
  shows "shaped (Suc h) (32 ^ Suc h + 32) (SNode (newNode[0 := s, 1 := newPath h tn]))"
    and "elems (SNode (newNode[0 := s, 1 := newPath h tn])) = elems s @ elems tn"
proof -
  note np = newPath_shaped [OF assms(2), of h]
  have "32 \<le> (32::nat) ^ Suc h" by (simp add: power_Suc)
  then show "shaped (Suc h) (32 ^ Suc h + 32) (SNode (newNode[0 := s, 1 := newPath h tn]))"
    using shaped_grow [OF shaped_singleton [OF assms(1)], of "newPath h tn"] np
    by (simp add: power_Suc)
  show "elems (SNode (newNode[0 := s, 1 := newPath h tn])) = elems s @ elems tn"
    using np by (simp add: newNode_def numeral_eq_Suc)
qed

lemma Conj_full:
  assumes "vinv v" and n: "vcount v = treeSize (vcount v) + 32"
  shows "\<exists>h r. Conj v x = Some \<lparr>vcount = vcount v + 1, vheight = h, vroot = r, vtail = [SElem x]\<rparr> \<and>
           shaped h (treeSize (vcount v) + 32) r \<and>
           elems r = (if treeSize (vcount v) = 0 then [] else elems (vroot v)) @
             elems (nodeFromSlice (vtail v)) \<and>
           (0 < h \<longrightarrow> 32 ^ h < treeSize (vcount v) + 32)"
proof -
  let ?n = "vcount v" let ?T = "treeSize ?n" let ?h = "vheight v"
  let ?tn = "nodeFromSlice (vtail v)"
  note inv = vinvD [OF assms(1)] and ov = overflow_iff [OF n, of ?h]
  have room: "\<not> ?n - ?T < 32" and dvd: "32 dvd ?T" using n by (simp_all add: treeSize_eq)
  have "length (vtail v) = 32" using inv(1) n by linarith
  then have tn: "shaped 0 32 ?tn" using nodeFromSlice_full [of "vtail v"] inv(2) by blast
  show ?thesis
  proof (cases "?T = 0")
    case True
    then have "\<not> push_bit (?h * 5) 1 < drop_bit 5 ?n" and "?h = 0"
      using ov inv(3) by (auto simp: power_Suc)
    with True room tn show ?thesis by (auto simp: Conj_def tailMaxLen_def)
  next
    case F: False
    then have sh: "shaped ?h ?T (vroot v)" using inv(4) by simp
    show ?thesis
    proof (cases "32 ^ Suc ?h < ?T + 32")
      case True
      then have T: "?T = 32 ^ Suc ?h"
        using shaped_cap [OF sh] dvd dvd_below [of ?T "32 ^ Suc ?h"]
        by (cases "?T < 32 ^ Suc ?h") (auto simp: power_Suc)
      with root_overflow [of ?h "vroot v" ?tn] sh tn F True room ov show ?thesis
        by (auto simp: Conj_def tailMaxLen_def Let_def)
    next
      case small: False
      then have "(?n - 1) mod 32 ^ Suc ?h = ?T + 31" using n by simp
      then obtain r where "pushTail ?n ?h (vroot v) ?tn = Some r" "shaped ?h (?T + 32) r"
          "elems r = elems (vroot v) @ elems ?tn"
        using pushTail_elems [OF sh _ _ _ tn, of ?n] F small by auto
      moreover have "0 < ?h \<longrightarrow> 32 ^ ?h < ?T + 32" using inv(5) F by fastforce
      ultimately show ?thesis
        using room F small ov by (auto simp: Conj_def tailMaxLen_def Let_def)
    qed
  qed
qed

lemma Conj_snoc:
  assumes "vinv v"
  shows "\<exists>v'. Conj v x = Some v' \<and> vinv v' \<and> vlist v' = vlist v @ [x] \<and> vcount v' = vcount v + 1"
proof (cases "vcount v - treeSize (vcount v) < 32")
  case True
  with assms show ?thesis
    by (auto simp: Conj_def tailMaxLen_def vinv_def vlist_def treeSize_Suc
        Suc_diff_le treeSize_bounds)
next
  case False
  then have "vcount v = treeSize (vcount v) + 32" using treeSize_bounds(1,2) [of "vcount v"] by linarith
  with Conj_full [OF assms, of x] vinv_pushed [OF assms, of _ _ x] show ?thesis by auto
qed

lemma Assoc_update:
  assumes "vinv v" and "0 \<le> i" and "i < int (vcount v)"
  shows "\<exists>v'. Assoc v i x = Some (Some v') \<and> vinv v' \<and> vlist v' = (vlist v)[nat i := x] \<and>
           vcount v' = vcount v"
proof (cases "treeSize (vcount v) \<le> nat i")
  case True
  note inv = vinvD [OF assms(1)]
  have off: "nat i mod 32 = nat i - treeSize (vcount v)"
    using assms True by (intro tail_offset) auto
  have len: "nat i - treeSize (vcount v) < length (vtail v)"
    using True assms inv(1) by auto
  let ?v' = "v\<lparr>vtail := (vtail v)[nat i - treeSize (vcount v) := SElem x]\<rparr>"
  have "Assoc v i x = Some (Some ?v')"
    using True assms off len by (simp add: Assoc_def go_panic)
  moreover have "vinv ?v'"
    using assms(1) by (auto simp: vinv_def list_all_update split: if_splits)
  moreover have "vlist ?v' = (vlist v)[nat i := x]"
    using True vlist_tree_length [OF assms(1)]
    by (simp add: vlist_def elems_leaf_update [OF inv(2)] list_update_append)
  ultimately show ?thesis by auto
next
  case False
  then have pos: "0 < treeSize (vcount v)" and lt: "nat i < treeSize (vcount v)" by auto
  note sh = vinvD(4) [OF assms(1) pos]
  have "nat i < 32 ^ Suc (vheight v)" using lt shaped_cap [OF sh] by linarith
  then have "nat i mod 32 ^ Suc (vheight v) = nat i" by simp
  with doAssoc_elems [OF sh, of "nat i" x] lt obtain r where
    r: "doAssoc (vheight v) (vroot v) (nat i) x = Some r" "shaped (vheight v) (treeSize (vcount v)) r"
      "elems r = (elems (vroot v))[nat i := x]"
    by auto
  have "Assoc v i x = Some (Some (v\<lparr>vroot := r\<rparr>))"
    using False assms r(1) by (simp add: Assoc_def)
  moreover have "vinv (v\<lparr>vroot := r\<rparr>)"
    using assms(1) pos r(2) by (auto simp: vinv_def)
  moreover have "vlist (v\<lparr>vroot := r\<rparr>) = (vlist v)[nat i := x]"
    using pos lt shaped_length [OF sh] r(3) by (simp add: vlist_def list_update_append)
  ultimately show ?thesis by auto
qed

lemma Assoc_end:
  assumes "vinv v"
  shows "\<exists>v'. Assoc v (int (vcount v)) x = Some (Some v') \<and> vinv v' \<and> vlist v' = vlist v @ [x] \<and>
           vcount v' = vcount v + 1"
  using Conj_snoc [OF assms, of x] by (auto simp: Assoc_def)

lemma sliceFor_last:
  assumes "shaped h n s" and "0 < n"
  shows "\<exists>leaf. walk h s (n - 1) = Some leaf \<and> length leaf = 32 \<and> list_all is_elem leaf \<and>
           concat (map elems leaf) = drop (n - 32) (elems s)"
proof -
  have "n - 1 < 32 ^ Suc h" using shaped_cap [OF assms(1)] assms(2) by linarith
  then have idx: "(n - 1) mod 32 ^ Suc h = n - 1" by simp
  obtain k where k: "n = 32 * Suc k"
    using shaped_dvd [OF assms(1)] assms(2) by (metis dvdE mult_0_right not0_implies_Suc not_gr_zero)
  then have base: "(n - 1) div 32 * 32 = n - 32" by simp
  from walk_block [OF assms(1), of "n - 1"] idx base assms(2) obtain leaf where
    leaf: "walk h s (n - 1) = Some leaf" "length leaf = 32" "list_all is_elem leaf"
      "\<forall>r<32. leaf ! r = SElem (elems s ! (n - 32 + r))"
    by auto
  have "concat (map elems leaf) = drop (n - 32) (elems s)"
  proof (rule nth_equalityI)
    show "length (concat (map elems leaf)) = length (drop (n - 32) (elems s))"
      using leaf(2,3) shaped_length [OF assms(1)] k by (simp add: elems_leaf_length)
    fix r assume "r < length (concat (map elems leaf))"
    then have "r < length leaf" using leaf(3) by (simp add: elems_leaf_length)
    with leaf(2,4) elems_leaf_nth [OF leaf(3), of r] shaped_length [OF assms(1)] k
    show "concat (map elems leaf) ! r = drop (n - 32) (elems s) ! r" by simp
  qed
  with leaf show ?thesis by blast
qed

lemma vlist_butlast:
  assumes "vinv v" and "vcount v \<noteq> 0"
  shows "butlast (vlist v) = (if treeSize (vcount v) = 0 then [] else elems (vroot v)) @
           concat (map elems (butlast (vtail v)))"
proof -
  note inv = vinvD [OF assms(1)]
  have "vtail v \<noteq> []" using inv(1) treeSize_bounds(3) [OF assms(2)] by auto
  then have ne: "concat (map elems (vtail v)) \<noteq> []"
    using elems_leaf_length [OF inv(2)] by (metis length_0_conv)
  then show ?thesis
    unfolding vlist_def by (simp only: butlast_append ne if_False butlast_elems [OF inv(2)])
qed

lemma Pop_in_tail:
  assumes "vinv v" and "vcount v \<noteq> 0" and "vcount v \<noteq> 1" and "1 < vcount v - treeSize (vcount v)"
  shows "\<exists>v'. Pop v = Some (Some v') \<and> vinv v' \<and> vlist v' = butlast (vlist v) \<and>
           vcount v' = vcount v - 1"
proof -
  obtain m where m: "vcount v = Suc m" using assms(2) by (cases "vcount v") auto
  let ?v' = "v\<lparr>vcount := m, vtail := butlast (vtail v)\<rparr>"
  have T: "treeSize m = treeSize (vcount v)"
    using assms(4) m treeSize_Suc [of m] treeSize_bounds(1) [of m] by (auto split: if_splits)
  have "list_all is_elem (butlast (vtail v))"
    using vinvD(2) [OF assms(1)] by (rule list_all_butlast)
  then have "vinv ?v'"
    using assms(1) T m vinvD(1) [OF assms(1)] by (auto simp: vinv_def split: if_splits)
  moreover have "vlist ?v' = butlast (vlist v)"
    using vlist_butlast [OF assms(1,2)] T by (simp add: vlist_def)
  ultimately show ?thesis using assms(3,4) m by (auto simp: Pop_def)
qed

text \<open>
  The tail is empty after the pop: the last leaf becomes the tail.  What is left of the
  tree is \<open>r\<close>, whose elements are those before the last leaf.
\<close>

definition popped :: "'a vector \<Rightarrow> nat \<Rightarrow> 'a slot \<Rightarrow> 'a slot list \<Rightarrow> 'a vector" where
  "popped v h r leaf = \<lparr>vcount = vcount v - 1, vheight = h, vroot = r, vtail = leaf\<rparr>"

lemma vinv_popped:
  assumes "vinv v" and "vcount v = treeSize (vcount v) + 1" and "0 < treeSize (vcount v)"
    and "length leaf = 32" and "list_all is_elem leaf"
    and "concat (map elems leaf) = drop (treeSize (vcount v) - 32) (elems (vroot v))"
    and "treeSize (vcount v) = 32 \<and> h = 0 \<or>
         32 < treeSize (vcount v) \<and> shaped h (treeSize (vcount v) - 32) r \<and>
         elems r = take (treeSize (vcount v) - 32) (elems (vroot v)) \<and>
         (0 < h \<longrightarrow> 32 ^ h < treeSize (vcount v) - 32)"
  shows "vinv (popped v h r leaf) \<and> vlist (popped v h r leaf) = butlast (vlist v) \<and>
         vcount (popped v h r leaf) = vcount v - 1"
proof -
  let ?T = "treeSize (vcount v)"
  have "32 dvd ?T" by (simp add: treeSize_eq)
  then obtain k where k: "?T = 32 * Suc k"
    using assms(3) by (metis dvdE mult_0_right not0_implies_Suc not_gr_zero)
  then have T': "treeSize ?T = ?T - 32" by (simp add: treeSize_eq [of "32 + 32 * k"])
  have n1: "vcount v - 1 = ?T" using assms(2) by linarith
  have "length (butlast (vtail v)) = 0" using vinvD(1) [OF assms(1)] assms(2) by simp
  then have "butlast (vtail v) = []" by (simp only: length_0_conv)
  then have "butlast (vlist v) = elems (vroot v)"
    using vlist_butlast [OF assms(1)] assms(2,3) by simp
  then show ?thesis
    using assms(4-7) T' n1 k by (auto simp: popped_def vinv_def vlist_def)
qed

lemma Pop_leaf_root:
  assumes "vinv v" and n: "vcount v = treeSize (vcount v) + 1" and pos: "0 < treeSize (vcount v)"
    and h: "vheight v = 0"
  shows "\<exists>v'. Pop v = Some (Some v') \<and> vinv v' \<and> vlist v' = butlast (vlist v) \<and>
           vcount v' = vcount v - 1"
proof -
  let ?n = "vcount v" let ?T = "treeSize ?n"
  note sh = vinvD(4) [OF assms(1) pos]
  have T: "?T = 32" using sh h by (cases "vroot v") (use pos in auto)
  obtain leaf where leaf: "walk 0 (vroot v) (?T - 1) = Some leaf" "length leaf = 32"
      "list_all is_elem leaf" "concat (map elems leaf) = drop (?T - 32) (elems (vroot v))"
    using sliceFor_last [OF sh pos] h by auto
  obtain arr where arr: "vroot v = SNode arr" "length arr = 32" using shaped_node [OF sh pos] by auto
  have n2: "?n - 2 = ?T - 1" "\<not> ?T \<le> ?n - 2" and n3: "\<not> 1 < ?n - ?T" "?n \<noteq> 0" "?n \<noteq> 1"
    using n pos by linarith+
  have "popTail ?n 0 (vroot v) = Some (SNode (arr[31 := SNil]))"
    using arr n2 T by (subst popTail.simps) (simp add: go_panic)
  moreover have "sliceFor v (?n - 2) = Some leaf" using leaf(1) n2 h by (simp add: sliceFor_def)
  ultimately have "Pop v = Some (Some (popped v 0 (SNode (arr[31 := SNil])) leaf))"
    using h n3 by (simp add: Pop_def popped_def)
  with vinv_popped [OF assms(1) n pos leaf(2-4)] T show ?thesis by blast
qed

text \<open>After removing a leaf, a root with only its first child left is that child.\<close>

lemma collapse_root:
  assumes "shaped (Suc h) n (SNode arr)" and "arr ! 1 = SNil" and "32 ^ Suc h \<le> n"
  shows "n = 32 ^ Suc h" and "shaped h n (arr ! 0)" and "elems (arr ! 0) = elems (SNode arr)"
    and "\<exists>arr0. arr ! 0 = SNode arr0"
proof -
  let ?c = "32 ^ Suc h :: nat"
  have len: "length arr = 32" using assms(1) by simp
  have "min (n - ?c) ?c = 0" using shaped_child [OF assms(1), of 1] assms(2) by simp
  with assms(3) show eq: "n = ?c" by (simp add: min_def split: if_splits)
  then show zero: "shaped h n (arr ! 0)" using shaped_child [OF assms(1), of 0] by simp
  then show "\<exists>arr0. arr ! 0 = SNode arr0" using shaped_node [OF zero] eq by auto
  have "elems (arr ! j) = []" if "0 < j" "j < 32" for j
  proof -
    have "1 * ?c \<le> j * ?c" by (rule mult_le_mono1) (use that in simp)
    with shaped_child [OF assms(1) that(2)] eq show ?thesis by (auto dest: shaped_zero)
  qed
  then show "elems (arr ! 0) = elems (SNode arr)"
    using concat_map_first [of arr elems] len by (cases arr) auto
qed

lemma Pop_deep_root:
  assumes "vinv v" and n: "vcount v = treeSize (vcount v) + 1" and pos: "0 < treeSize (vcount v)"
    and h: "vheight v = Suc h"
  shows "\<exists>v'. Pop v = Some (Some v') \<and> vinv v' \<and> vlist v' = butlast (vlist v) \<and>
           vcount v' = vcount v - 1"
proof -
  let ?n = "vcount v" let ?T = "treeSize ?n" let ?c = "32 ^ Suc h :: nat"
  note sh = vinvD(4) [OF assms(1) pos] and cap = shaped_cap [OF vinvD(4) [OF assms(1) pos]]
  have big: "?c < ?T" using vinvD(5) [OF assms(1) pos] h by simp
  have "32 dvd ?T - ?c" by (simp add: treeSize_eq power_Suc)
  with big have T_c: "?c + 32 \<le> ?T" using dvd_imp_le [of 32 "?T - ?c"] by simp
  have c32: "32 \<le> ?c" by (simp add: power_Suc)
  have n2: "?n - 2 = ?T - 1" "\<not> ?T \<le> ?n - 2" and n3: "\<not> 1 < ?n - ?T" "?n \<noteq> 0" "?n \<noteq> 1"
    using n pos by linarith+
  obtain leaf where leaf: "walk (Suc h) (vroot v) (?T - 1) = Some leaf" "length leaf = 32"
      "list_all is_elem leaf" "concat (map elems leaf) = drop (?T - 32) (elems (vroot v))"
    using sliceFor_last [OF sh pos] h by auto
  have slice: "sliceFor v (?n - 2) = Some leaf" using leaf(1) n2 h by (simp add: sliceFor_def)
  obtain r lf where r: "popTail ?n (Suc h) (vroot v) = Some r" "shaped (Suc h) (?T - 32) r"
      "elems (vroot v) = elems r @ lf" "length lf = 32"
    using popTail_elems [OF sh, of ?n] h pos n2 cap by auto
  have er: "elems r = take (?T - 32) (elems (vroot v))"
    using r(3) shaped_length [OF r(2)] by simp
  have "0 < ?T - 32" using T_c c32 by linarith
  then obtain arr where arr: "r = SNode arr" "length arr = 32" using shaped_node [OF r(2)] by auto
  have sub: "shaped (Suc h) (?T - 32) (SNode arr)" using r(2) arr(1) by simp
  have get: "slice_get arr (Suc 0) = Some (arr ! 1)" "slice_get arr 0 = Some (arr ! 0)"
    using arr(2) by (simp_all add: go_panic)
  note fin = vinv_popped [OF assms(1) n pos leaf(2-4)]
  show ?thesis
  proof (cases "arr ! 1 = SNil")
    case True
    have "?c \<le> ?T - 32" using T_c by simp
    note col = collapse_root [OF sub True this]
    from col(4) obtain arr0 where "arr ! 0 = SNode arr0" by blast
    then have "Pop v = Some (Some (popped v h (arr ! 0) leaf))"
      using slice r(1) arr(1) get True h n3 by (simp add: Pop_def popped_def)
    moreover have "0 < h \<longrightarrow> 32 ^ h < ?T - 32" using col(1) by (simp add: power_strict_increasing)
    ultimately show ?thesis
      using fin [of h "arr ! 0"] col(2,3) arr(1) er T_c c32 by auto
  next
    case False
    have "?c < ?T - 32"
    proof (rule ccontr)
      assume "\<not> ?c < ?T - 32"
      then have "min (?T - 32 - ?c) ?c = 0" by simp
      with shaped_child [OF sub, of 1] False show False by (auto dest: shaped_zero)
    qed
    moreover have "Pop v = Some (Some (popped v (Suc h) r leaf))"
      using slice r(1) arr(1) get False h n3 by (simp add: Pop_def popped_def)
    ultimately show ?thesis using fin [of "Suc h" r] r(2) er T_c c32 by auto
  qed
qed

lemma Pop_butlast:
  assumes "vinv v" and "vcount v \<noteq> 0"
  shows "\<exists>v'. Pop v = Some (Some v') \<and> vinv v' \<and> vlist v' = butlast (vlist v) \<and>
           vcount v' = vcount v - 1"
proof -
  let ?T = "treeSize (vcount v)"
  consider "vcount v = 1" | "vcount v \<noteq> 1" "1 < vcount v - ?T" | "vcount v \<noteq> 1" "vcount v = ?T + 1"
    using treeSize_bounds(1,3) [of "vcount v"] assms(2) by linarith
  then show ?thesis
  proof cases
    case 1
    then show ?thesis
      using vlist_length [OF assms(1)] by (auto simp: Pop_def Empty_def vinv_def vlist_def treeSize_eq
          length_Suc_conv split: if_splits)
  next
    case 2
    with assms show ?thesis by (intro Pop_in_tail)
  next
    case 3
    then have "0 < ?T" by linarith
    with 3 assms Pop_leaf_root Pop_deep_root show ?thesis by (cases "vheight v") blast+
  qed
qed

lemma Pop_empty: "vcount v = 0 \<Longrightarrow> Pop v = Some None"
  by (simp add: Pop_def)

subsection \<open>Properties\<close>

text \<open>The shift \<open>height * 5\<close> of a lookup stays below the width of a 64-bit index: a
  vector whose count fits in an \<^verbatim>\<open>int\<close> has at most thirteen levels, so no index bit is
  ever shifted out of a level's chunk.\<close>

theorem vector_shift_in_range:
  assumes "vinv v" and "vcount v < 2 ^ 63"
  shows "vheight v * 5 \<le> 60"
proof (rule ccontr)
  assume "\<not> vheight v * 5 \<le> 60"
  then have h: "13 \<le> vheight v" by simp
  then have "0 < treeSize (vcount v)" using vinvD(3) [OF assms(1)] by (cases "treeSize (vcount v)") auto
  then have "32 ^ vheight v < treeSize (vcount v)" using vinvD(5) [OF assms(1)] h by simp
  moreover have "(32::nat) ^ 13 \<le> 32 ^ vheight v" using h by (intro power_increasing) auto
  moreover have "treeSize (vcount v) \<le> vcount v" by (rule treeSize_bounds)
  moreover have "(2::nat) ^ 63 \<le> 32 ^ 13" by simp
  ultimately show False using assms(2) by (meson leD le_trans less_trans nat_less_le order_less_le_trans)
qed

lemma vector_shift_in_range_witness:
  "vheight \<lparr>vcount = 1, vheight = 0, vroot = SNil, vtail = [SElem (7::int)]\<rparr> * 5 \<le> 60"
  by (rule vector_shift_in_range) (simp_all add: vinv_def treeSize_def tailMaxLen_def)

end
