(* ===== verification/VectorSpec.thy ===== *)
theory VectorSpec
  imports PVector
begin

text \<open>
  The Go interface \<^verbatim>\<open>vector.Vector\<close>, its two implementations (\<^verbatim>\<open>vector\<close> and
  \<^verbatim>\<open>subVector\<close>, both in \<^verbatim>\<open>vector.go\<close>), and the contract its callers rely on.

  The interface's method table is the record \<open>Vector\<close>; a \<open>Vec\<close> is a value of one of the two
  implementing types and \<open>vec_ops\<close> dispatches on it.  The locale \<open>go_vector\<close> states what
  the interface's comments promise, over a list; it is proved of \<open>vec_ops\<close> at the end.
\<close>

subsection \<open>The interface\<close>

text \<open>
  A method that may panic returns an \<open>option\<close>; the inner option of \<open>vIndex\<close> is the pair
  \<open>(elem, ok)\<close>, that of the others the nil interface.
\<close>

record ('v, 'e, 'a) Vector =
  vLen :: "'v \<Rightarrow> int"
  vIndex :: "'v \<Rightarrow> int \<Rightarrow> 'e option option"
  vAssoc :: "'v \<Rightarrow> int \<Rightarrow> 'a \<Rightarrow> 'v option option"
  vConj :: "'v \<Rightarrow> 'a \<Rightarrow> 'v option"
  vPop :: "'v \<Rightarrow> 'v option option"
  vSubVector :: "'v \<Rightarrow> int \<Rightarrow> int \<Rightarrow> 'v option option"

subsection \<open>The implementations\<close>

record 'a subVector =
  sv :: "'a vector"
  sbegin :: int
  send :: int

datatype 'a Vec = Full "'a vector" | Sub "'a subVector"

definition SubVector :: "'a vector \<Rightarrow> int \<Rightarrow> int \<Rightarrow> 'a subVector option" where
  "SubVector v b e =
     (if b < 0 \<or> e < b \<or> int (vcount v) < e then None
      else Some \<lparr>sv = v, sbegin = b, send = e\<rparr>)"

definition sub_Len :: "'a subVector \<Rightarrow> int" where
  "sub_Len s = send s - sbegin s"

definition sub_Index :: "'a subVector \<Rightarrow> int \<Rightarrow> 'a slot option option" where
  "sub_Index s i = (if i < 0 \<or> send s \<le> sbegin s + i then Some None else Index (sv s) (sbegin s + i))"

text \<open>A method call on the nil that the inner \<open>Assoc\<close> may return is a panic.\<close>

definition sub_Conj :: "'a subVector \<Rightarrow> 'a \<Rightarrow> 'a subVector option option" where
  "sub_Conj s x = do { r \<leftarrow> Assoc (sv s) (send s) x;
                       v \<leftarrow> r;
                       Some (SubVector v (sbegin s) (send s + 1)) }"

definition sub_Assoc :: "'a subVector \<Rightarrow> int \<Rightarrow> 'a \<Rightarrow> 'a subVector option option" where
  "sub_Assoc s i x =
     (if i < 0 \<or> send s < sbegin s + i then Some None
      else if sbegin s + i = send s then sub_Conj s x
      else do { r \<leftarrow> Assoc (sv s) (sbegin s + i) x;
                v \<leftarrow> r;
                Some (SubVector v (sbegin s) (send s)) })"

definition sub_Pop :: "'a subVector \<Rightarrow> 'a Vec option" where
  "sub_Pop s =
     (if sub_Len s = 0 then None
      else if sub_Len s = 1 then Some (Full Empty)
      else map_option Sub (SubVector (sv s) (sbegin s) (send s - 1)))"

definition sub_SubVector :: "'a subVector \<Rightarrow> int \<Rightarrow> int \<Rightarrow> 'a subVector option" where
  "sub_SubVector s i j = SubVector (sv s) (sbegin s + i) (sbegin s + j)"

subsection \<open>Dynamic dispatch\<close>

definition vec_Len :: "'a Vec \<Rightarrow> int" where
  "vec_Len u = (case u of Full v \<Rightarrow> int (vcount v) | Sub s \<Rightarrow> sub_Len s)"

definition vec_Index :: "'a Vec \<Rightarrow> int \<Rightarrow> 'a slot option option" where
  "vec_Index u i = (case u of Full v \<Rightarrow> Index v i | Sub s \<Rightarrow> sub_Index s i)"

definition vec_Assoc :: "'a Vec \<Rightarrow> int \<Rightarrow> 'a \<Rightarrow> 'a Vec option option" where
  "vec_Assoc u i x =
     (case u of
        Full v \<Rightarrow> map_option (map_option Full) (Assoc v i x)
      | Sub s \<Rightarrow> map_option (map_option Sub) (sub_Assoc s i x))"

text \<open>The result of \<open>Conj\<close> is never nil on the invariant; a nil would be the panic of its first use.\<close>

definition vec_Conj :: "'a Vec \<Rightarrow> 'a \<Rightarrow> 'a Vec option" where
  "vec_Conj u x =
     (case u of
        Full v \<Rightarrow> map_option Full (Conj v x)
      | Sub s \<Rightarrow> do { r \<leftarrow> sub_Conj s x; map_option Sub r })"

definition vec_Pop :: "'a Vec \<Rightarrow> 'a Vec option option" where
  "vec_Pop u = (case u of Full v \<Rightarrow> map_option (map_option Full) (Pop v) | Sub s \<Rightarrow> Some (sub_Pop s))"

definition vec_SubVector :: "'a Vec \<Rightarrow> int \<Rightarrow> int \<Rightarrow> 'a Vec option option" where
  "vec_SubVector u i j =
     (case u of
        Full v \<Rightarrow> Some (map_option Sub (SubVector v i j))
      | Sub s \<Rightarrow> Some (map_option Sub (sub_SubVector s i j)))"

definition vec_ops :: "('a Vec, 'a slot, 'a) Vector" where
  "vec_ops = \<lparr>vLen = vec_Len, vIndex = vec_Index, vAssoc = vec_Assoc, vConj = vec_Conj,
              vPop = vec_Pop, vSubVector = vec_SubVector\<rparr>"

lemma vec_ops_simps [simp]:
  "vLen vec_ops = vec_Len" "vIndex vec_ops = vec_Index" "vAssoc vec_ops = vec_Assoc"
  "vConj vec_ops = vec_Conj" "vPop vec_ops = vec_Pop" "vSubVector vec_ops = vec_SubVector"
  by (simp_all add: vec_ops_def)

subsection \<open>The contract\<close>

text \<open>
  \<open>abs\<close> is the list a value stands for and \<open>emb\<close> how an element is stored.  \<open>SubVector\<close>
  is promised for ranges inside the value only; see \<open>sub_SubVector\<close> for what a range
  outside a subvector does.
\<close>

locale go_vector =
  fixes I :: "('v, 'e, 'a) Vector"
    and inv :: "'v \<Rightarrow> bool"
    and abs :: "'v \<Rightarrow> 'a list"
    and emb :: "'a \<Rightarrow> 'e"
  assumes Len_law: "inv v \<Longrightarrow> vLen I v = int (length (abs v))"
    and Index_law: "inv v \<Longrightarrow> vIndex I v i =
      Some (if 0 \<le> i \<and> i < int (length (abs v)) then Some (emb (abs v ! nat i)) else None)"
    and Assoc_in_law: "inv v \<Longrightarrow> 0 \<le> i \<Longrightarrow> i < int (length (abs v)) \<Longrightarrow>
      \<exists>w. vAssoc I v i x = Some (Some w) \<and> inv w \<and> abs w = (abs v)[nat i := x]"
    and Assoc_end_law: "inv v \<Longrightarrow>
      \<exists>w. vAssoc I v (int (length (abs v))) x = Some (Some w) \<and> inv w \<and> abs w = abs v @ [x]"
    and Assoc_out_law: "inv v \<Longrightarrow> i < 0 \<or> int (length (abs v)) < i \<Longrightarrow> vAssoc I v i x = Some None"
    and Conj_law: "inv v \<Longrightarrow> \<exists>w. vConj I v x = Some w \<and> inv w \<and> abs w = abs v @ [x]"
    and Pop_law: "inv v \<Longrightarrow> abs v \<noteq> [] \<Longrightarrow>
      \<exists>w. vPop I v = Some (Some w) \<and> inv w \<and> abs w = butlast (abs v)"
    and Pop_empty_law: "inv v \<Longrightarrow> abs v = [] \<Longrightarrow> vPop I v = Some None"
    and SubVector_law: "inv v \<Longrightarrow> 0 \<le> i \<Longrightarrow> i \<le> j \<Longrightarrow> j \<le> int (length (abs v)) \<Longrightarrow>
      \<exists>w. vSubVector I v i j = Some (Some w) \<and> inv w \<and> abs w = drop (nat i) (take (nat j) (abs v))"

subsection \<open>The implementations keep the contract\<close>

definition vec_inv :: "'a Vec \<Rightarrow> bool" where
  "vec_inv u = (case u of
     Full v \<Rightarrow> vinv v
   | Sub s \<Rightarrow> vinv (sv s) \<and> 0 \<le> sbegin s \<and> sbegin s \<le> send s \<and> send s \<le> int (vcount (sv s)))"

definition vec_list :: "'a Vec \<Rightarrow> 'a list" where
  "vec_list u = (case u of
     Full v \<Rightarrow> vlist v
   | Sub s \<Rightarrow> drop (nat (sbegin s)) (take (nat (send s)) (vlist (sv s))))"

lemma vec_list_length: "vec_inv u \<Longrightarrow> int (length (vec_list u)) = vec_Len u"
  by (auto simp: vec_inv_def vec_list_def vec_Len_def sub_Len_def vlist_length split: Vec.splits)

lemma vec_Index_in:
  assumes "vec_inv u" and "0 \<le> i" and "i < vec_Len u"
  shows "vec_Index u i = Some (Some (SElem (vec_list u ! nat i)))"
proof (cases u)
  case (Full v)
  with assms show ?thesis
    by (simp add: vec_inv_def vec_Index_def vec_Len_def vec_list_def Index_elem)
next
  case (Sub s)
  then have s: "vinv (sv s)" "0 \<le> sbegin s" "send s \<le> int (vcount (sv s))" "sbegin s + i < send s"
    using assms by (auto simp: vec_inv_def vec_Len_def sub_Len_def)
  then have "nat (sbegin s) + nat i = nat (sbegin s + i)" "nat (sbegin s + i) < nat (send s)"
    using assms(2) by auto
  with s show ?thesis
    using Sub assms(2) Index_elem [OF s(1), of "sbegin s + i"]
    by (simp add: vec_Index_def sub_Index_def vec_list_def vlist_length)
qed

lemma vec_Index_out: "i < 0 \<or> vec_Len u \<le> i \<Longrightarrow> vec_Index u i = Some None"
  by (auto simp: vec_Index_def Index_def sub_Index_def vec_Len_def sub_Len_def split: Vec.splits)

lemma drop_take_update:
  "b + i < e \<Longrightarrow> e \<le> length xs \<Longrightarrow> drop b (take e (xs[b + i := x])) = (drop b (take e xs))[i := x]"
  by (simp add: take_update_swap drop_update_swap)

lemma vec_Assoc_in:
  assumes "vec_inv u" and "0 \<le> i" and "i < vec_Len u"
  shows "\<exists>w. vec_Assoc u i x = Some (Some w) \<and> vec_inv w \<and> vec_list w = (vec_list u)[nat i := x]"
proof (cases u)
  case (Full v)
  with assms show ?thesis
    using Assoc_update [of v i x] by (auto simp: vec_inv_def vec_Assoc_def vec_Len_def vec_list_def)
next
  case (Sub s)
  then have s: "vinv (sv s)" "0 \<le> sbegin s" "sbegin s \<le> send s" "send s \<le> int (vcount (sv s))"
    "sbegin s + i < send s"
    using assms by (auto simp: vec_inv_def vec_Len_def sub_Len_def)
  with assms(2) have sum: "nat (sbegin s + i) = nat (sbegin s) + nat i" by simp
  from s assms(2) Assoc_update [OF s(1), of "sbegin s + i" x] obtain v' where
    v': "Assoc (sv s) (sbegin s + i) x = Some (Some v')" "vinv v'"
      "vlist v' = (vlist (sv s))[nat (sbegin s) + nat i := x]" "vcount v' = vcount (sv s)"
    by (auto simp: sum)
  have "vec_Assoc u i x = Some (Some (Sub \<lparr>sv = v', sbegin = sbegin s, send = send s\<rparr>))"
    using Sub s assms(2) v' by (simp add: vec_Assoc_def sub_Assoc_def SubVector_def)
  moreover have "drop (nat (sbegin s)) (take (nat (send s)) (vlist v')) =
      (drop (nat (sbegin s)) (take (nat (send s)) (vlist (sv s))))[nat i := x]"
    unfolding v'(3) using s assms(2) by (intro drop_take_update) (auto simp: vlist_length)
  ultimately show ?thesis
    using Sub s v' by (auto simp: vec_inv_def vec_list_def)
qed

text \<open>Appending to a subvector overwrites the element after it, or grows the vector it views.\<close>

lemma sub_Conj_snoc:
  assumes "vec_inv (Sub s)"
  shows "\<exists>t. sub_Conj s x = Some (Some t) \<and> vec_inv (Sub t) \<and> vec_list (Sub t) = vec_list (Sub s) @ [x]"
proof -
  have s: "vinv (sv s)" "0 \<le> sbegin s" "sbegin s \<le> send s" "send s \<le> int (vcount (sv s))"
    using assms by (auto simp: vec_inv_def)
  define b e where "b = nat (sbegin s)" and "e = nat (send s)"
  then have be: "sbegin s = int b" "send s = int e" "b \<le> e" "e \<le> length (vlist (sv s))"
    using s by (auto simp: vlist_length)
  have "\<exists>v'. Assoc (sv s) (send s) x = Some (Some v') \<and> vinv v' \<and> int e + 1 \<le> int (vcount v') \<and>
          take (Suc e) (vlist v') = take e (vlist (sv s)) @ [x]"
  proof (cases "e < vcount (sv s)")
    case True
    with Assoc_update [OF s(1), of "send s" x] be show ?thesis
      by (auto simp: take_Suc_conv_app_nth vlist_length [OF s(1)])
  next
    case False
    with be have "e = vcount (sv s)" by (simp add: vlist_length [OF s(1)])
    with Assoc_end [OF s(1), of x] be show ?thesis by (auto simp: vlist_length [OF s(1)])
  qed
  then obtain v' where v': "Assoc (sv s) (send s) x = Some (Some v')" "vinv v'"
    "int e + 1 \<le> int (vcount v')" "take (Suc e) (vlist v') = take e (vlist (sv s)) @ [x]" by blast
  have "drop b (take (Suc e) (vlist v')) = drop b (take e (vlist (sv s))) @ [x]"
    using be unfolding v'(4) by simp
  moreover have "nat (1 + int e) = Suc e" by simp
  ultimately show ?thesis
    using v' be by (auto simp: sub_Conj_def SubVector_def vec_inv_def vec_list_def add.commute)
qed

lemma vec_Conj_snoc:
  assumes "vec_inv u"
  shows "\<exists>w. vec_Conj u x = Some w \<and> vec_inv w \<and> vec_list w = vec_list u @ [x]"
proof (cases u)
  case (Full v)
  with assms Conj_snoc [of v x] show ?thesis
    by (auto simp: vec_Conj_def vec_inv_def vec_list_def)
next
  case (Sub s)
  with assms sub_Conj_snoc [of s x] show ?thesis by (auto simp: vec_Conj_def)
qed

lemma vec_Assoc_end:
  assumes "vec_inv u"
  shows "\<exists>w. vec_Assoc u (vec_Len u) x = Some (Some w) \<and> vec_inv w \<and> vec_list w = vec_list u @ [x]"
proof (cases u)
  case (Full v)
  with assms Assoc_end [of v x] show ?thesis
    by (auto simp: vec_Assoc_def vec_inv_def vec_list_def vec_Len_def)
next
  case (Sub s)
  with assms have "vec_Assoc u (vec_Len u) x = map_option (map_option Sub) (sub_Conj s x)"
    by (simp add: vec_Assoc_def sub_Assoc_def vec_Len_def sub_Len_def vec_inv_def)
  with Sub assms sub_Conj_snoc [of s x] show ?thesis by auto
qed

lemma vec_Assoc_out: "i < 0 \<or> vec_Len u < i \<Longrightarrow> vec_Assoc u i x = Some None"
  by (auto simp: vec_Assoc_def Assoc_def sub_Assoc_def vec_Len_def sub_Len_def split: Vec.splits)

lemma vec_Pop_empty: "vec_Len u = 0 \<Longrightarrow> vec_Pop u = Some None"
  by (cases u) (simp_all add: vec_Pop_def vec_Len_def sub_Pop_def Pop_empty)

lemma vinv_Empty: "vinv Empty" "vlist Empty = []"
  by (simp_all add: vinv_def vlist_def Empty_def treeSize_eq)

lemma vec_Pop_butlast:
  assumes "vec_inv u" and "0 < vec_Len u"
  shows "\<exists>w. vec_Pop u = Some (Some w) \<and> vec_inv w \<and> vec_list w = butlast (vec_list u)"
proof (cases u)
  case (Full v)
  with assms Pop_butlast [of v] show ?thesis
    by (auto simp: vec_Pop_def vec_inv_def vec_list_def vec_Len_def)
next
  case (Sub s)
  then have s: "vinv (sv s)" "0 \<le> sbegin s" "sbegin s < send s" "send s \<le> int (vcount (sv s))"
    using assms by (auto simp: vec_inv_def vec_Len_def sub_Len_def)
  define b e where "b = nat (sbegin s)" and "e = nat (send s)"
  then have be: "sbegin s = int b" "send s = int e" "b < e" "e \<le> length (vlist (sv s))"
    using s by (auto simp: vlist_length)
  have bl: "butlast (drop b (take e (vlist (sv s)))) = drop b (take (e - 1) (vlist (sv s)))"
    using be by (simp add: butlast_drop butlast_take)
  show ?thesis
  proof (cases "e = Suc b")
    case True
    moreover have "nat (1 + int b) = Suc b" by simp
    ultimately have "butlast (vec_list u) = []" using Sub bl be by (simp add: vec_list_def)
    moreover have "vec_Pop u = Some (Some (Full Empty))"
      using True Sub be by (simp add: vec_Pop_def sub_Pop_def sub_Len_def)
    ultimately show ?thesis by (simp add: vec_inv_def vec_list_def vinv_Empty)
  next
    case False
    moreover have "nat (int e - 1) = e - 1" by simp
    ultimately show ?thesis
      using Sub be s bl
      by (auto simp: vec_Pop_def sub_Pop_def sub_Len_def SubVector_def vec_inv_def vec_list_def)
  qed
qed

lemma vec_SubVector_slice:
  assumes "vec_inv u" and "0 \<le> i" and "i \<le> j" and "j \<le> vec_Len u"
  shows "\<exists>w. vec_SubVector u i j = Some (Some w) \<and> vec_inv w \<and>
           vec_list w = drop (nat i) (take (nat j) (vec_list u))"
proof (cases u)
  case (Full v)
  with assms show ?thesis
    by (auto simp: vec_SubVector_def SubVector_def vec_inv_def vec_list_def vec_Len_def)
next
  case (Sub s)
  with assms have "take (nat j) (drop (nat (sbegin s)) (take (nat (send s)) (vlist (sv s)))) =
      drop (nat (sbegin s)) (take (nat (sbegin s + j)) (vlist (sv s)))"
    by (auto simp: take_drop vec_Len_def sub_Len_def vec_inv_def min_def nat_add_distrib add.commute)
  moreover have "nat (sbegin s + i) = nat i + nat (sbegin s)"
    "nat (sbegin s + j) = nat j + nat (sbegin s)"
    using Sub assms by (simp_all add: vec_inv_def nat_add_distrib)
  ultimately show ?thesis
    using Sub assms
    by (auto simp: vec_SubVector_def sub_SubVector_def SubVector_def vec_inv_def vec_list_def
        vec_Len_def sub_Len_def)
qed

interpretation vec: go_vector vec_ops vec_inv vec_list SElem
proof unfold_locales
  fix u :: "'a Vec"
  assume u: "vec_inv u"
  note len = vec_list_length [OF u]
  show "vLen vec_ops u = int (length (vec_list u))" by (simp add: len)
  fix x i
  show "vIndex vec_ops u i = Some (if 0 \<le> i \<and> i < int (length (vec_list u))
      then Some (SElem (vec_list u ! nat i)) else None)"
    using vec_Index_in [OF u, of i] vec_Index_out [of i u] by (auto simp: len)
  show "\<exists>w. vAssoc vec_ops u (int (length (vec_list u))) x = Some (Some w) \<and> vec_inv w \<and>
      vec_list w = vec_list u @ [x]"
    using vec_Assoc_end [OF u] by (simp add: len)
  show "\<exists>w. vConj vec_ops u x = Some w \<and> vec_inv w \<and> vec_list w = vec_list u @ [x]"
    using vec_Conj_snoc [OF u] by simp
qed (auto simp: vec_list_length vec_Assoc_in vec_Assoc_out vec_SubVector_slice
    intro!: vec_Pop_butlast vec_Pop_empty simp flip: vec_list_length length_greater_0_conv)

end
