(* ===== verification/LangVector.thy ===== *)
theory LangVector
  imports VectorSpec
begin

text \<open>
  \<^verbatim>\<open>pkg/lang/vector.go\<close>: \<^verbatim>\<open>lang.Vector\<close>, the vector of the language, a client of
  the interface \<^verbatim>\<open>vector.Vector\<close>.  Every operation takes the interface's method table \<open>I\<close>;
  its lemmas are proved once, in the locale \<open>go_vector\<close>, and hold of both implementations.

  Keys are the results of \<^verbatim>\<open>AsInt\<close> (\<open>None\<close> when the key is no integer).  The hash caches
  are left out.  \<open>nil\<close> is the nil value; a function argument returns \<open>Reduced\<close> to stop a fold.
\<close>

subsection \<open>Operations\<close>

datatype verr = IndexOutOfBounds | IllegalArgument | EmptyPop | Runtime

record ('m, 'v) LVector =
  lmeta :: 'm
  lvec :: 'v

datatype 'r ret = Plain 'r | Reduced 'r

definition L_Count :: "('v, 'e, 'a) Vector \<Rightarrow> ('m, 'v) LVector \<Rightarrow> int" where
  "L_Count I v = vLen I (lvec v)"

definition L_Cons :: "('v, 'e, 'a) Vector \<Rightarrow> ('m, 'v) LVector \<Rightarrow> 'a \<Rightarrow> verr + ('m, 'v) LVector" where
  "L_Cons I v x = of_panic Runtime (map_option (\<lambda>w. \<lparr>lmeta = lmeta v, lvec = w\<rparr>) (vConj I (lvec v) x))"

text \<open>A nil \<open>vec\<close> stored in the result would panic at its first use.\<close>

definition L_AssocN :: "('v, 'e, 'a) Vector \<Rightarrow> ('m, 'v) LVector \<Rightarrow> int \<Rightarrow> 'a \<Rightarrow> verr + ('m, 'v) LVector" where
  "L_AssocN I v i x =
     (if i < 0 \<or> L_Count I v < i then Inl IndexOutOfBounds
      else bindE (of_panic Runtime (vAssoc I (lvec v) i x))
             (\<lambda>r. of_panic Runtime (map_option (\<lambda>w. \<lparr>lmeta = lmeta v, lvec = w\<rparr>) r)))"

definition L_ContainsKey :: "('v, 'e, 'a) Vector \<Rightarrow> ('m, 'v) LVector \<Rightarrow> int option \<Rightarrow> bool" where
  "L_ContainsKey I v key = (case key of None \<Rightarrow> False | Some k \<Rightarrow> 0 \<le> k \<and> k < L_Count I v)"

definition L_Assoc :: "('v, 'e, 'a) Vector \<Rightarrow> ('m, 'v) LVector \<Rightarrow> int option \<Rightarrow> 'a \<Rightarrow> verr + ('m, 'v) LVector" where
  "L_Assoc I v key x = (case key of None \<Rightarrow> Inl IllegalArgument | Some k \<Rightarrow> L_AssocN I v k x)"

definition L_Nth :: "('v, 'e, 'a) Vector \<Rightarrow> ('m, 'v) LVector \<Rightarrow> int \<Rightarrow> verr + 'e" where
  "L_Nth I v i =
     bindE (of_panic Runtime (vIndex I (lvec v) i)) (\<lambda>r. of_panic IndexOutOfBounds r)"

definition L_NthDefault :: "('v, 'e, 'a) Vector \<Rightarrow> ('m, 'v) LVector \<Rightarrow> int \<Rightarrow> 'e \<Rightarrow> verr + 'e" where
  "L_NthDefault I v i def = (if 0 \<le> i \<and> i < L_Count I v then L_Nth I v i else Inr def)"

definition L_ValAtDefault :: "('v, 'e, 'a) Vector \<Rightarrow> ('m, 'v) LVector \<Rightarrow> int option \<Rightarrow> 'e \<Rightarrow> verr + 'e" where
  "L_ValAtDefault I v key def = (case key of Some i \<Rightarrow> L_NthDefault I v i def | None \<Rightarrow> Inr def)"

definition L_ValAt :: "('v, 'e, 'a) Vector \<Rightarrow> 'e \<Rightarrow> ('m, 'v) LVector \<Rightarrow> int option \<Rightarrow> verr + 'e" where
  "L_ValAt I nil v key = L_ValAtDefault I v key nil"

definition L_Invoke :: "('v, 'e, 'a) Vector \<Rightarrow> 'e \<Rightarrow> ('m, 'v) LVector \<Rightarrow> int option list \<Rightarrow> verr + 'e" where
  "L_Invoke I nil v args =
     (if length args \<noteq> 1 then Inl IllegalArgument
      else (case args ! 0 of
              None \<Rightarrow> Inl IllegalArgument
            | Some i \<Rightarrow> if i < 0 \<or> L_Count I v \<le> i then Inl IllegalArgument
                        else L_ValAt I nil v (Some i)))"

definition L_Peek :: "('v, 'e, 'a) Vector \<Rightarrow> 'e \<Rightarrow> ('m, 'v) LVector \<Rightarrow> verr + 'e" where
  "L_Peek I nil v = (if L_Count I v = 0 then Inr nil else L_ValAt I nil v (Some (L_Count I v - 1)))"

text \<open>\<open>emptyVec\<close> is the global \<^verbatim>\<open>emptyVector\<close>.\<close>

definition L_Pop ::
  "('v, 'e, 'a) Vector \<Rightarrow> ('m, 'v) LVector \<Rightarrow> ('m, 'v) LVector \<Rightarrow> verr + ('m, 'v) LVector" where
  "L_Pop I emptyVec v =
     (if L_Count I v = 0 then Inl EmptyPop
      else if L_Count I v = 1 then Inr emptyVec
      else bindE (of_panic Runtime (vPop I (lvec v)))
             (\<lambda>r. of_panic Runtime (map_option (\<lambda>w. \<lparr>lmeta = lmeta v, lvec = w\<rparr>) r)))"

text \<open>The loops of the three folds; \<open>f\<close> is given the index, which only \<^verbatim>\<open>KVReduce\<close> passes on.\<close>

function reduce_from ::
  "('v, 'e, 'a) Vector \<Rightarrow> 'e \<Rightarrow> ('m, 'v) LVector \<Rightarrow> (int \<Rightarrow> 'r \<Rightarrow> 'e \<Rightarrow> verr + 'r ret) \<Rightarrow> int \<Rightarrow> 'r \<Rightarrow> verr + 'r" where
  "reduce_from I nil v f i res =
     (if i < L_Count I v
      then bindE (L_ValAt I nil v (Some i)) (\<lambda>x.
           bindE (f i res x) (\<lambda>r.
             (case r of Reduced y \<Rightarrow> Inr y | Plain y \<Rightarrow> reduce_from I nil v f (i + 1) y)))
      else Inr res)"
  by pat_completeness auto
termination by (relation "measure (\<lambda>(I, nil, v, f, i, res). nat (L_Count I v - i))") auto

declare reduce_from.simps [simp del]

definition L_ReduceInit ::
  "('v, 'e, 'a) Vector \<Rightarrow> 'e \<Rightarrow> ('m, 'v) LVector \<Rightarrow> ('r \<Rightarrow> 'e \<Rightarrow> verr + 'r ret) \<Rightarrow> 'r \<Rightarrow> verr + 'r" where
  "L_ReduceInit I nil v f ini = reduce_from I nil v (\<lambda>_. f) 0 ini"

definition L_Reduce ::
  "('v, 'e, 'a) Vector \<Rightarrow> 'e \<Rightarrow> ('m, 'v) LVector \<Rightarrow> (verr + 'e) \<Rightarrow> ('e \<Rightarrow> 'e \<Rightarrow> verr + 'e ret) \<Rightarrow> verr + 'e" where
  "L_Reduce I nil v f0 f =
     (if L_Count I v = 0 then f0
      else bindE (L_ValAt I nil v (Some 0)) (\<lambda>x. reduce_from I nil v (\<lambda>_. f) 1 x))"

definition L_KVReduce ::
  "('v, 'e, 'a) Vector \<Rightarrow> 'e \<Rightarrow> ('m, 'v) LVector \<Rightarrow> ('r \<Rightarrow> int \<Rightarrow> 'e \<Rightarrow> verr + 'r ret) \<Rightarrow> 'r \<Rightarrow> verr + 'r" where
  "L_KVReduce I nil v f ini = reduce_from I nil v (\<lambda>i res x. f res i x) 0 ini"

text \<open>\<open>nilMeta\<close> is the nil map, the metadata of the fresh \<^verbatim>\<open>Vector\<close>.\<close>

definition L_Drop ::
  "('v, 'e, 'a) Vector \<Rightarrow> 'm \<Rightarrow> ('m, 'v) LVector \<Rightarrow> int \<Rightarrow> verr + ('m, 'v) LVector option" where
  "L_Drop I nilMeta v n =
     (if n \<le> 0 then Inr (Some v)
      else if L_Count I v \<le> n then Inr None
      else bindE (of_panic Runtime (vSubVector I (lvec v) n (L_Count I v)))
             (\<lambda>r. of_panic Runtime (map_option (\<lambda>w. Some \<lparr>lmeta = nilMeta, lvec = w\<rparr>) r)))"

function compare_from ::
  "('v, 'e, 'a) Vector \<Rightarrow> ('e \<Rightarrow> 'e \<Rightarrow> int) \<Rightarrow> ('m, 'v) LVector \<Rightarrow> ('m, 'v) LVector \<Rightarrow> int \<Rightarrow> verr + int" where
  "compare_from I cmp v w i =
     (if i < L_Count I v
      then bindE (L_Nth I v i) (\<lambda>x. bindE (L_Nth I w i) (\<lambda>y.
             if cmp x y \<noteq> 0 then Inr (cmp x y) else compare_from I cmp v w (i + 1)))
      else Inr 0)"
  by pat_completeness auto
termination by (relation "measure (\<lambda>(I, cmp, v, w, i). nat (L_Count I v - i))") auto

declare compare_from.simps [simp del]

definition L_Compare ::
  "('v, 'e, 'a) Vector \<Rightarrow> ('e \<Rightarrow> 'e \<Rightarrow> int) \<Rightarrow> ('m, 'v) LVector \<Rightarrow> ('m, 'v) LVector \<Rightarrow> verr + int" where
  "L_Compare I cmp v w =
     (if L_Count I v < L_Count I w then Inr (- 1)
      else if L_Count I w < L_Count I v then Inr 1
      else compare_from I cmp v w 0)"

subsection \<open>Reference definitions on lists\<close>

fun fold_reduced :: "(int \<Rightarrow> 'r \<Rightarrow> 'e \<Rightarrow> verr + 'r ret) \<Rightarrow> int \<Rightarrow> 'r \<Rightarrow> 'e list \<Rightarrow> verr + 'r" where
  "fold_reduced f i res [] = Inr res"
| "fold_reduced f i res (x # xs) =
     bindE (f i res x) (\<lambda>r. case r of Reduced y \<Rightarrow> Inr y | Plain y \<Rightarrow> fold_reduced f (i + 1) y xs)"

fun compare_pairs :: "('e \<Rightarrow> 'e \<Rightarrow> int) \<Rightarrow> 'e list \<Rightarrow> 'e list \<Rightarrow> int" where
  "compare_pairs cmp (x # xs) (y # ys) = (if cmp x y \<noteq> 0 then cmp x y else compare_pairs cmp xs ys)"
| "compare_pairs cmp _ _ = 0"

definition compare_lists :: "('e \<Rightarrow> 'e \<Rightarrow> int) \<Rightarrow> 'e list \<Rightarrow> 'e list \<Rightarrow> int" where
  "compare_lists cmp xs ys =
     (if length xs < length ys then - 1 else if length ys < length xs then 1
      else compare_pairs cmp xs ys)"

text \<open>
  Histories: a sequence of calls on one vector, each on the result of the last call that
  succeeded; a call that panics is recovered and its error recorded.  \<open>list_run\<close> is the same
  over a plain list.
\<close>

datatype 'a vcall = CCons 'a | CAssocN int 'a | CPop | CDrop int

definition L_call ::
  "('v, 'e, 'a) Vector \<Rightarrow> ('m, 'v) LVector \<Rightarrow> 'm \<Rightarrow> ('m, 'v) LVector \<Rightarrow> 'a vcall \<Rightarrow> verr + ('m, 'v) LVector" where
  "L_call I ev nilMeta v c =
     (case c of
        CCons x \<Rightarrow> L_Cons I v x
      | CAssocN i x \<Rightarrow> L_AssocN I v i x
      | CPop \<Rightarrow> L_Pop I ev v
      | CDrop n \<Rightarrow> bindE (L_Drop I nilMeta v n) (\<lambda>r. Inr (case r of None \<Rightarrow> v | Some w \<Rightarrow> w)))"

definition list_call :: "'a list \<Rightarrow> 'a vcall \<Rightarrow> verr + 'a list" where
  "list_call xs c =
     (case c of
        CCons x \<Rightarrow> Inr (xs @ [x])
      | CAssocN i x \<Rightarrow> if i < 0 \<or> int (length xs) < i then Inl IndexOutOfBounds
                       else Inr (if nat i = length xs then xs @ [x] else xs[nat i := x])
      | CPop \<Rightarrow> if xs = [] then Inl EmptyPop else Inr (butlast xs)
      | CDrop n \<Rightarrow> Inr (if int (length xs) \<le> n then xs else drop (nat n) xs))"

fun run_calls :: "('s \<Rightarrow> 'c \<Rightarrow> 'err + 's) \<Rightarrow> 's \<Rightarrow> 'c list \<Rightarrow> 'err option list \<times> 's" where
  "run_calls step s [] = ([], s)"
| "run_calls step s (c # cs) =
     (case step s c of
        Inl e \<Rightarrow> let (es, t) = run_calls step s cs in (Some e # es, t)
      | Inr s' \<Rightarrow> let (es, t) = run_calls step s' cs in (None # es, t))"

text \<open>A step function that simulates another does so along every history.\<close>

lemma run_calls_simulation:
  assumes step: "\<And>s a c. R s a \<Longrightarrow>
      (case step' a c of Inl e \<Rightarrow> step s c = Inl e | Inr a' \<Rightarrow> \<exists>s'. step s c = Inr s' \<and> R s' a')"
    and "R s a"
  shows "fst (run_calls step s cs) = fst (run_calls step' a cs) \<and>
         R (snd (run_calls step s cs)) (snd (run_calls step' a cs))"
  using assms(2)
proof (induction cs arbitrary: s a)
  case (Cons c cs)
  show ?case
  proof (cases "step' a c")
    case (Inl e)
    with step [OF Cons.prems, of c] Cons.IH [OF Cons.prems] show ?thesis
      by (simp add: split_def Let_def)
  next
    case (Inr a')
    with step [OF Cons.prems, of c] obtain s' where "step s c = Inr s'" "R s' a'" by auto
    with Inr Cons.IH [of s' a'] show ?thesis by (simp add: split_def Let_def)
  qed
qed simp

subsection \<open>The client's lemmas, for any implementation\<close>

context go_vector
begin

lemma L_Count_length: "inv (lvec v) \<Longrightarrow> L_Count I v = int (length (abs (lvec v)))"
  by (simp add: L_Count_def Len_law)

lemma L_Nth_elem:
  "inv (lvec v) \<Longrightarrow> L_Nth I v i =
     (if 0 \<le> i \<and> i < int (length (abs (lvec v))) then Inr (emb (abs (lvec v) ! nat i))
      else Inl IndexOutOfBounds)"
  by (simp add: L_Nth_def Index_law)

lemma L_ValAt_elem:
  "inv (lvec v) \<Longrightarrow> L_ValAt I nil v (Some i) =
     Inr (if 0 \<le> i \<and> i < int (length (abs (lvec v))) then emb (abs (lvec v) ! nat i) else nil)"
  by (simp add: L_ValAt_def L_ValAtDefault_def L_NthDefault_def L_Count_length L_Nth_elem)

lemma L_Cons_snoc:
  "inv (lvec v) \<Longrightarrow> \<exists>w. L_Cons I v x = Inr w \<and> inv (lvec w) \<and> abs (lvec w) = abs (lvec v) @ [x] \<and>
     lmeta w = lmeta v"
  using Conj_law [of "lvec v" x] by (auto simp: L_Cons_def)

lemma L_AssocN_cases:
  assumes "inv (lvec v)"
  shows "if 0 \<le> i \<and> i \<le> int (length (abs (lvec v)))
         then \<exists>w. L_AssocN I v i x = Inr w \<and> inv (lvec w) \<and> lmeta w = lmeta v \<and>
                abs (lvec w) = (if nat i = length (abs (lvec v)) then abs (lvec v) @ [x]
                                else (abs (lvec v))[nat i := x])
         else L_AssocN I v i x = Inl IndexOutOfBounds"
proof (cases "i = int (length (abs (lvec v)))")
  case True
  with Assoc_end_law [OF assms, of x] show ?thesis
    by (auto simp: L_AssocN_def L_Count_length [OF assms])
next
  case False
  with Assoc_in_law [OF assms, of i x] show ?thesis
    by (auto simp: L_AssocN_def L_Count_length [OF assms])
qed

lemma L_Peek_last:
  assumes "inv (lvec v)"
  shows "L_Peek I nil v = Inr (if abs (lvec v) = [] then nil else emb (last (abs (lvec v))))"
proof -
  have "nat (int (length (abs (lvec v))) - 1) = length (abs (lvec v)) - 1" by simp
  with assms show ?thesis
    by (auto simp: L_Peek_def L_Count_length L_ValAt_elem last_conv_nth)
qed

lemma L_Pop_cases:
  assumes "inv (lvec v)" and "inv (lvec ev)" and "abs (lvec ev) = []"
  shows "if abs (lvec v) = [] then L_Pop I ev v = Inl EmptyPop
         else \<exists>w. L_Pop I ev v = Inr w \<and> inv (lvec w) \<and> abs (lvec w) = butlast (abs (lvec v)) \<and>
                lmeta w = (if length (abs (lvec v)) = 1 then lmeta ev else lmeta v)"
proof (cases "length (abs (lvec v)) = 1")
  case True
  then have "butlast (abs (lvec v)) = []" by (auto simp: length_Suc_conv)
  with True assms show ?thesis by (auto simp: L_Pop_def L_Count_length [OF assms(1)])
next
  case False
  with Pop_law [OF assms(1)] show ?thesis
    by (auto simp: L_Pop_def L_Count_length [OF assms(1)])
qed

lemma reduce_from_fold:
  assumes "inv (lvec v)" and "0 \<le> i"
  shows "reduce_from I nil v f i res = fold_reduced f i res (drop (nat i) (map emb (abs (lvec v))))"
  using assms(2)
proof (induction "nat (int (length (abs (lvec v))) - i)" arbitrary: i res rule: less_induct)
  case less
  let ?xs = "map emb (abs (lvec v))"
  show ?case
  proof (cases "i < int (length ?xs)")
    case True
    then have lt: "nat i < length ?xs" using less.prems by linarith
    have "nat (i + 1) = Suc (nat i)" using less.prems by simp
    then have "drop (nat i) ?xs = ?xs ! nat i # drop (nat (i + 1)) ?xs"
      using Cons_nth_drop_Suc [OF lt] by simp
    moreover have "reduce_from I nil v f (i + 1) =
        (\<lambda>y. fold_reduced f (i + 1) y (drop (nat (i + 1)) ?xs))"
      using True less.prems by (intro ext less.hyps) auto
    ultimately show ?thesis
      using True less.prems lt
      by (subst reduce_from.simps)
        (simp add: L_Count_length [OF assms(1)] L_ValAt_elem [OF assms(1)] cong: ret.case_cong)
  next
    case False
    then show ?thesis
      by (subst reduce_from.simps) (simp add: L_Count_length [OF assms(1)])
  qed
qed

lemma L_ReduceInit_fold:
  "inv (lvec v) \<Longrightarrow> L_ReduceInit I nil v f ini = fold_reduced (\<lambda>_. f) 0 ini (map emb (abs (lvec v)))"
  by (simp add: L_ReduceInit_def reduce_from_fold)

lemma L_KVReduce_fold:
  "inv (lvec v) \<Longrightarrow>
     L_KVReduce I nil v f ini = fold_reduced (\<lambda>i r x. f r i x) 0 ini (map emb (abs (lvec v)))"
  by (simp add: L_KVReduce_def reduce_from_fold)

lemma L_Reduce_fold:
  "inv (lvec v) \<Longrightarrow> L_Reduce I nil v f0 f =
     (case map emb (abs (lvec v)) of [] \<Rightarrow> f0 | x # xs \<Rightarrow> fold_reduced (\<lambda>_. f) 1 x xs)"
  by (cases "abs (lvec v)")
    (simp_all add: L_Reduce_def L_Count_length L_ValAt_elem reduce_from_fold)

lemma L_Drop_cases:
  assumes "inv (lvec v)"
  shows "if n \<le> 0 then L_Drop I nm v n = Inr (Some v)
         else if int (length (abs (lvec v))) \<le> n then L_Drop I nm v n = Inr None
         else \<exists>w. L_Drop I nm v n = Inr (Some w) \<and> inv (lvec w) \<and>
                abs (lvec w) = drop (nat n) (abs (lvec v)) \<and> lmeta w = nm"
  using SubVector_law [OF assms, of n "int (length (abs (lvec v)))"]
  by (auto simp: L_Drop_def L_Count_length [OF assms])

lemma compare_from_pairs:
  assumes "inv (lvec v)" and "inv (lvec w)" and "length (abs (lvec v)) = length (abs (lvec w))"
    and "0 \<le> i"
  shows "compare_from I cmp v w i =
    Inr (compare_pairs cmp (drop (nat i) (map emb (abs (lvec v)))) (drop (nat i) (map emb (abs (lvec w)))))"
  using assms(4)
proof (induction "nat (int (length (abs (lvec v))) - i)" arbitrary: i rule: less_induct)
  case less
  let ?xs = "map emb (abs (lvec v))" and ?ys = "map emb (abs (lvec w))"
  show ?case
  proof (cases "i < int (length ?xs)")
    case True
    then have lt: "nat i < length ?xs" "nat i < length ?ys" using less.prems assms(3) by auto
    have suc: "nat (i + 1) = Suc (nat i)" using less.prems by simp
    have "drop (nat i) ?xs = ?xs ! nat i # drop (nat (i + 1)) ?xs"
      "drop (nat i) ?ys = ?ys ! nat i # drop (nat (i + 1)) ?ys"
      using Cons_nth_drop_Suc [OF lt(1)] Cons_nth_drop_Suc [OF lt(2)] suc by simp_all
    moreover have "compare_from I cmp v w (i + 1) =
        Inr (compare_pairs cmp (drop (nat (i + 1)) ?xs) (drop (nat (i + 1)) ?ys))"
      using True less.prems by (intro less.hyps) auto
    ultimately show ?thesis
      using True less.prems lt assms(3)
      by (subst compare_from.simps)
        (simp add: L_Count_length [OF assms(1)] L_Nth_elem [OF assms(1)] L_Nth_elem [OF assms(2)])
  next
    case False
    with assms(3) show ?thesis
      by (subst compare_from.simps) (simp add: L_Count_length [OF assms(1)])
  qed
qed

lemma L_Compare_lists:
  assumes "inv (lvec v)" and "inv (lvec w)"
  shows "L_Compare I cmp v w =
           Inr (compare_lists cmp (map emb (abs (lvec v))) (map emb (abs (lvec w))))"
  using compare_from_pairs [OF assms, of 0 cmp]
  by (simp add: L_Compare_def compare_lists_def L_Count_length [OF assms(1)] L_Count_length [OF assms(2)])

text \<open>Every call on a vector does to its list what \<open>list_call\<close> does.\<close>

lemma L_call_simulates:
  assumes "inv (lvec v)" and "inv (lvec ev)" and "abs (lvec ev) = []"
  shows "case list_call (abs (lvec v)) c of
           Inl e \<Rightarrow> L_call I ev nm v c = Inl e
         | Inr xs \<Rightarrow> \<exists>w. L_call I ev nm v c = Inr w \<and> inv (lvec w) \<and> abs (lvec w) = xs"
proof (cases c)
  case (CCons x)
  with L_Cons_snoc [OF assms(1), of x] show ?thesis by (auto simp: L_call_def list_call_def)
next
  case (CAssocN i x)
  with L_AssocN_cases [OF assms(1), of i x] show ?thesis
    by (auto simp: L_call_def list_call_def split: if_splits)
next
  case CPop
  with L_Pop_cases [OF assms] show ?thesis
    by (auto simp: L_call_def list_call_def split: if_splits)
next
  case (CDrop n)
  with L_Drop_cases [OF assms(1), of n nm] assms(1) show ?thesis
    by (auto simp: L_call_def list_call_def split: if_splits)
qed

lemma L_run_simulates:
  assumes "inv (lvec v)" and "inv (lvec ev)" and "abs (lvec ev) = []"
  shows "fst (run_calls (L_call I ev nm) v cs) = fst (run_calls list_call (abs (lvec v)) cs) \<and>
    inv (lvec (snd (run_calls (L_call I ev nm) v cs))) \<and>
    abs (lvec (snd (run_calls (L_call I ev nm) v cs))) = snd (run_calls list_call (abs (lvec v)) cs)"
  using run_calls_simulation [of "\<lambda>v xs. inv (lvec v) \<and> abs (lvec v) = xs" "L_call I ev nm"
      list_call v "abs (lvec v)" cs]
    L_call_simulates [OF _ assms(2,3)] assms(1)
  by auto

end

subsection \<open>Properties\<close>

definition emptyVector :: "'m \<Rightarrow> ('m, 'a Vec) LVector" where
  "emptyVector nilMeta = \<lparr>lmeta = nilMeta, lvec = Full Empty\<rparr>"

lemma emptyVector_inv: "vec_inv (lvec (emptyVector nm))" "vec_list (lvec (emptyVector nm)) = []"
  by (simp_all add: emptyVector_def vec_inv_def vec_list_def vinv_Empty)

text \<open>C1. Along any history of conj, assoc, pop and drop calls that starts from the empty
  vector, the vector of the language raises exactly the errors of the same history on a plain
  list, never a run-time panic of the trie, and at the end has the list's length and elements.\<close>

theorem vector_history_refines_list:
  "let v = run_calls (L_call vec_ops (emptyVector nm) nm) (emptyVector nm) cs;
       l = run_calls list_call [] cs
   in fst v = fst l \<and> L_Count vec_ops (snd v) = int (length (snd l)) \<and>
      (\<forall>i. L_Nth vec_ops (snd v) i =
         (if 0 \<le> i \<and> i < int (length (snd l)) then Inr (SElem (snd l ! nat i))
          else Inl IndexOutOfBounds))"
  using vec.L_run_simulates [of "emptyVector nm" "emptyVector nm" nm cs]
  by (simp add: Let_def emptyVector_inv vec.L_Count_length vec.L_Nth_elem)

definition sample :: "int list \<Rightarrow> (unit option, int Vec) LVector" where
  "sample xs = \<lparr>lmeta = Some (), lvec = Full \<lparr>vcount = length xs, vheight = 0, vroot = SNil,
                                                vtail = map SElem xs\<rparr>\<rparr>"

lemma sample_inv:
  assumes "length xs < 32"
  shows "vec_inv (lvec (sample xs))" "vec_list (lvec (sample xs)) = xs"
  using assms by (simp_all add: sample_def vec_inv_def vec_list_def vinv_def vlist_def treeSize_def
      tailMaxLen_def comp_def list_all_iff)

text \<open>The fold of a vector calls its function on the elements in order, threads the
  accumulator, and stops at the first reduced result or panic.\<close>

theorem vector_ReduceInit_is_fold:
  assumes "vec_inv (lvec v)"
  shows "L_ReduceInit vec_ops SNil v f ini =
           fold_reduced (\<lambda>_. f) 0 ini (map SElem (vec_list (lvec v)))"
  using assms by (rule vec.L_ReduceInit_fold)

lemma vector_ReduceInit_is_fold_witness:
  "L_ReduceInit vec_ops SNil (sample [3, 4]) (\<lambda>r x. Inr (Plain (x # r))) [] = Inr [SElem 4, SElem 3]"
  by (subst vector_ReduceInit_is_fold) (simp_all add: sample_inv)

lemma compare_pairs_swap:
  assumes "\<And>x y. cmp y x = - cmp x y"
  shows "compare_pairs cmp ys xs = - compare_pairs cmp xs ys"
proof (induction xs arbitrary: ys)
  case Nil
  then show ?case by (cases ys) auto
next
  case (Cons x xs)
  show ?case
  proof (cases ys)
    case (Cons y ys')
    moreover have "cmp y x = - cmp x y" by (rule assms)
    ultimately show ?thesis by (simp add: Cons.IH)
  qed simp
qed

text \<open>Vectors compare by length and then by their first differing pair of elements; the
  result is antisymmetric whenever the comparison of the elements is.\<close>

theorem vector_Compare_antisym:
  assumes "vec_inv (lvec v)" and "vec_inv (lvec w)" and "\<And>x y. cmp y x = - cmp x y"
  shows "\<exists>c. L_Compare vec_ops cmp v w = Inr c \<and> L_Compare vec_ops cmp w v = Inr (- c) \<and>
    (length (vec_list (lvec v)) < length (vec_list (lvec w)) \<longrightarrow> c = - 1) \<and>
    (length (vec_list (lvec v)) = length (vec_list (lvec w)) \<longrightarrow>
       c = compare_pairs cmp (map SElem (vec_list (lvec v))) (map SElem (vec_list (lvec w))))"
  using compare_pairs_swap [of cmp "map SElem (vec_list (lvec v))" "map SElem (vec_list (lvec w))", OF assms(3)]
  by (simp add: vec.L_Compare_lists [OF assms(1,2)] vec.L_Compare_lists [OF assms(2,1)]
      compare_lists_def)

lemma vector_Compare_antisym_witness:
  "\<exists>c. L_Compare vec_ops (\<lambda>_ _. 0) (sample [1]) (sample [2, 3]) = Inr c \<and>
       L_Compare vec_ops (\<lambda>_ _. 0) (sample [2, 3]) (sample [1]) = Inr (- c)"
  using vector_Compare_antisym [of "sample [1]" "sample [2, 3]" "\<lambda>_ _. 0"]
  by (auto simp: sample_inv)

text \<open>Popping a vector of two or more elements keeps its metadata; popping a vector of
  one element returns the shared empty vector, whose metadata is nil, so the metadata is
  lost there.\<close>

theorem vector_Pop_metadata:
  assumes "vec_inv (lvec v)" and "vec_list (lvec v) \<noteq> []"
  shows "\<exists>w. L_Pop vec_ops (emptyVector nm) v = Inr w \<and> vec_list (lvec w) = butlast (vec_list (lvec v)) \<and>
    lmeta w = (if length (vec_list (lvec v)) = 1 then nm else lmeta v)"
  using vec.L_Pop_cases [OF assms(1) emptyVector_inv, of nm] assms(2)
  by (auto simp: emptyVector_def)

lemma vector_Pop_metadata_witness:
  "\<exists>w. L_Pop vec_ops (emptyVector None) (sample [5]) = Inr w \<and> lmeta w = None \<and>
     lmeta (sample [5]) \<noteq> None"
  using vector_Pop_metadata [of "sample [5]" None] by (auto simp: sample_inv) (simp add: sample_def)

end
