(* ===== verification/Forms.thy ===== *)
theory Forms
  imports Prelude "HOL-Library.AList"
begin

text \<open>
  The data of the language, which is also its code: what the reader produces, the analyzer
  analyzes and the evaluator computes with (Go's \<^verbatim>\<open>any\<close> as it occurs in
  \<^verbatim>\<open>pkg/lang\<close>, \<^verbatim>\<open>pkg/analyzer\<close> and \<^verbatim>\<open>pkg/eval\<close>).

  Symbols and collections carry metadata.  A \<open>VList\<close> is any \<^verbatim>\<open>ISeq\<close> (list, cons, realised
  lazy seq).  Closures, Go functions and other host objects live outside the value and are
  named by a number, so that two references to one object are equal; a namespace is its name.
  Go errors are values too, because \<^verbatim>\<open>catch\<close> binds them: \<open>VThrown\<close> is
  \<^verbatim>\<open>*corelib.ThrownValue\<close>, \<open>VArity\<close> the evaluator's \<^verbatim>\<open>*arityError\<close>, \<open>VExInfo\<close> an \<^verbatim>\<open>*lang.ExceptionInfo\<close> with message, data and cause,
  \<open>VCompiler\<close> a \<^verbatim>\<open>*lang.CompilerError\<close>, \<open>VWrap\<close> an error that wraps another with
  \<^verbatim>\<open>%w\<close>, \<open>VError\<close> any other Go error with the name of its type and its message.
\<close>

subsection \<open>Values\<close>

text \<open>
  Scalars that only the reader makes.  A \<^verbatim>\<open>float64\<close> is \<open>F64 s m e\<close> for the finite
  value \<open>m * 2 ^ e\<close> with sign \<open>s\<close>, an infinity or NaN; \<open>LBigInt\<close> is a \<^verbatim>\<open>*BigInt\<close> that would
  fit an \<^verbatim>\<open>int64\<close> (any other integer is \<open>VInt\<close>); \<open>LRatio\<close> has numerator and denominator,
  \<open>LDecimal\<close> unscaled value and scale, \<open>LRegex\<close> the identity of the pointer and the pattern,
  \<open>LInst\<close> the text and the epoch milliseconds.
\<close>

datatype f64 = F64 bool nat int | FInf bool | FNaN

datatype literal =
    LChar nat
  | LBigInt int
  | LRatio int int
  | LDecimal int int
  | LFloat f64
  | LRegex nat string
  | LUUID string
  | LInst string int

text \<open>\<^verbatim>\<open>result.go\<close> and \<^verbatim>\<open>taggedliteral.go\<close>: values that wrap others.\<close>

datatype data_kind = DOk | DErr | DJust | DNone | DTagged | DConditional bool

datatype val =
    VNil
  | VBool bool
  | VInt int
  | VLit literal
  | VData data_kind "val list"
  | VStr string
  | VKw "string option" string
  | VSym "(val \<times> val) list option" "string option" string
  | VList "(val \<times> val) list option" "val list"
  | VVec "(val \<times> val) list option" "val list"
  | VMap "(val \<times> val) list option" "(val \<times> val) list"
  | VSet "(val \<times> val) list option" "val list"
  | VVar nat
  | VUnbound nat
  | VFn nat
  | VNative nat
  | VOpaque nat
  | VThrown val
  | VArity int string "nat option"
  | VError string string
  | VNs string
  | VExInfo string val "val option"
  | VCompiler string int int val
  | VWrap string val

type_synonym meta = "(val \<times> val) list option"

text \<open>\<^verbatim>\<open>IMeta.Meta\<close>: nil for a value without metadata or outside the interface.\<close>

fun form_meta :: "val \<Rightarrow> meta" where
  "form_meta (VSym m _ _) = m"
| "form_meta (VList m _) = m"
| "form_meta (VVec m _) = m"
| "form_meta (VMap m _) = m"
| "form_meta (VSet m _) = m"
| "form_meta _ = None"

fun with_meta :: "(val \<times> val) list \<Rightarrow> val \<Rightarrow> val" where
  "with_meta m (VSym _ ns n) = VSym (Some m) ns n"
| "with_meta m (VList _ xs) = VList (Some m) xs"
| "with_meta m (VVec _ xs) = VVec (Some m) xs"
| "with_meta m (VMap _ es) = VMap (Some m) es"
| "with_meta m (VSet _ xs) = VSet (Some m) xs"
| "with_meta m v = v"

text \<open>\<^verbatim>\<open>lang.Get\<close> on a metadata map, nil when the key is absent.\<close>

fun meta_get :: "(val \<times> val) list \<Rightarrow> string \<Rightarrow> val" where
  "meta_get [] k = VNil"
| "meta_get ((VKw None n, v) # es) k = (if n = k then v else meta_get es k)"
| "meta_get (_ # es) k = meta_get es k"

text \<open>\<^verbatim>\<open>lang.IsTruthy\<close>: everything but nil and false.\<close>

definition is_truthy :: "val \<Rightarrow> bool" where
  "is_truthy v \<longleftrightarrow> v \<noteq> VNil \<and> v \<noteq> VBool False"

text \<open>Values that implement Go's \<^verbatim>\<open>error\<close>.\<close>

fun is_error :: "val \<Rightarrow> bool" where
  "is_error (VThrown _) = True"
| "is_error (VArity _ _ _) = True"
| "is_error (VError _ _) = True"
| "is_error (VExInfo _ _ _) = True"
| "is_error (VCompiler _ _ _ _) = True"
| "is_error (VWrap _ _) = True"
| "is_error _ = False"

text \<open>What \<^verbatim>\<open>errors.As\<close> and \<^verbatim>\<open>errors.Is\<close> look at: the error and the errors it unwraps to.\<close>

fun unwrap_chain :: "val \<Rightarrow> val list" where
  "unwrap_chain (VExInfo m d (Some c)) = VExInfo m d (Some c) # unwrap_chain c"
| "unwrap_chain (VCompiler f l c e) = VCompiler f l c e # unwrap_chain e"
| "unwrap_chain (VWrap m e) = VWrap m e # unwrap_chain e"
| "unwrap_chain e = [e]"

subsection \<open>Symbols\<close>

definition sym :: "string \<Rightarrow> val" where
  "sym n = VSym None None n"

text \<open>An operator symbol: its namespace and name.\<close>

fun op_sym :: "val \<Rightarrow> (string option \<times> string) option" where
  "op_sym (VSym _ ns n) = Some (ns, n)"
| "op_sym _ = None"

definition has_suffix :: "string \<Rightarrow> char \<Rightarrow> bool" where
  "has_suffix s c \<longleftrightarrow> s \<noteq> [] \<and> last s = c"

subsection \<open>Errors of the analysis\<close>

text \<open>
  \<open>AMsg fmt args\<close> is \<^verbatim>\<open>fmt.Errorf(fmt, args...)\<close> with its arguments kept apart;
  \<open>ACompiler\<close> is \<^verbatim>\<open>*lang.CompilerError\<close> with its position; \<open>AWrap\<close> the \<^verbatim>\<open>%w\<close> wrapper;
  \<open>AValue\<close> an error value that a macro raised.
\<close>

datatype marg = MInt int | MStr string | MForm val

datatype aerr =
    AMsg string "marg list"
  | ACompiler string int int aerr
  | AWrap string aerr
  | AValue val

fun is_positioned :: "aerr \<Rightarrow> bool" where
  "is_positioned (ACompiler _ _ _ _) = True"
| "is_positioned (AWrap _ e) = is_positioned e"
| "is_positioned (AValue v) \<longleftrightarrow> (\<exists>e\<in>set (unwrap_chain v). case e of VCompiler _ _ _ _ \<Rightarrow> True | _ \<Rightarrow> False)"
| "is_positioned _ = False"

end
