(* ===== verification/Exceptions.thy ===== *)
theory Exceptions
  imports Forms
begin

text \<open>
  \<^verbatim>\<open>pkg/corelib/exceptions.go\<close>: what \<open>throw\<close> raises, and which \<open>catch\<close> clauses an
  error matches.  The kinds of \<open>VError\<close> are the names of the Go types in
  \<^verbatim>\<open>pkg/lang/error.go\<close>, whose \<^verbatim>\<open>Is\<close> methods are \<open>Is\<close> here.
\<close>

definition Throw :: "val \<Rightarrow> val" where
  "Throw v = (if is_error v then v else VThrown v)"

text \<open>\<^verbatim>\<open>fmt.Errorf("%v", r)\<close> for a panic value that is no error; \<open>text\<close> is its text.\<close>

definition Recover :: "(val \<Rightarrow> string) \<Rightarrow> val \<Rightarrow> val" where
  "Recover text r = (if is_error r then r else VError ''errorString'' (text r))"

text \<open>The \<^verbatim>\<open>Is\<close> method of one error, against the targets that \<^verbatim>\<open>CatchMatches\<close> probes with.\<close>

fun Is :: "val \<Rightarrow> string \<Rightarrow> bool" where
  "Is (VError k _) t \<longleftrightarrow>
     k = t \<and> t \<in> {''ArithmeticError'', ''ArityError'', ''IllegalArgumentError'', ''NumberFormatError'',
       ''IllegalStateError'', ''UnsupportedOperationError'', ''IndexOutOfBoundsError'', ''ClassCastError'',
       ''NullPointerError''} \<or>
     k \<in> {''ArityError'', ''NumberFormatError''} \<and> t = ''IllegalArgumentError''"
| "Is (VArity _ _ _) t \<longleftrightarrow> t = ''ArityError'' \<or> t = ''IllegalArgumentError''"
| "Is _ t \<longleftrightarrow> False"

definition errors_Is :: "val \<Rightarrow> string \<Rightarrow> bool" where
  "errors_Is e t \<longleftrightarrow> (\<exists>x\<in>set (unwrap_chain e). Is x t)"

fun is_ex_info :: "val \<Rightarrow> bool" where
  "is_ex_info (VExInfo _ _ _) = True"
| "is_ex_info _ = False"

definition errors_As_ex_info :: "val \<Rightarrow> bool" where
  "errors_As_ex_info e \<longleftrightarrow> (\<exists>x\<in>set (unwrap_chain e). is_ex_info x)"

text \<open>The part of a class name after its last dot.\<close>

definition simple_name :: "string \<Rightarrow> string" where
  "simple_name c = rev (takeWhile (\<lambda>x. x \<noteq> CHR ''.'') (rev c))"

definition catch_target :: "string \<Rightarrow> string option" where
  "catch_target simple =
     map_of [(''ArithmeticException'', ''ArithmeticError''), (''ArityException'', ''ArityError''),
       (''IllegalArgumentException'', ''IllegalArgumentError''), (''NumberFormatException'', ''NumberFormatError''),
       (''IllegalStateException'', ''IllegalStateError''),
       (''UnsupportedOperationException'', ''UnsupportedOperationError''),
       (''IndexOutOfBoundsException'', ''IndexOutOfBoundsError''),
       (''StringIndexOutOfBoundsException'', ''IndexOutOfBoundsError''),
       (''ClassCastException'', ''ClassCastError''), (''NullPointerException'', ''NullPointerError'')] simple"

text \<open>The result is (matched, known).\<close>

definition throwableMatches :: "string \<Rightarrow> val \<Rightarrow> bool \<times> bool" where
  "throwableMatches className thrown =
     (let simple = simple_name className
      in if simple \<in> {''Throwable'', ''Exception'', ''RuntimeException''} then (True, True)
         else if simple = ''ExceptionInfo'' then (errors_As_ex_info thrown, True)
         else case catch_target simple of
                Some t \<Rightarrow> (errors_Is thrown t, True)
              | None \<Rightarrow> (False, False))"

definition CatchMatches :: "string \<Rightarrow> val \<Rightarrow> bool" where
  "CatchMatches className thrown = fst (throwableMatches className thrown)"

subsection \<open>Properties\<close>

lemma is_error_Throw [simp]: "is_error (Throw v)"
  by (simp add: Throw_def)

lemma is_error_Recover [simp]: "is_error (Recover text v)"
  by (simp add: Recover_def)



text \<open>A typed clause looks through the cause of an \<open>ex-info\<close>: a clause for any class of the table
  catches an \<open>ex-info\<close> whose cause it would catch, although the thrown value itself is no instance of
  that class.\<close>

theorem catch_sees_cause:
  assumes "catch_target (simple_name c) = Some t" and "CatchMatches c cause"
  shows "CatchMatches c (VExInfo msg data (Some cause))"
  using assms
  by (auto simp: CatchMatches_def throwableMatches_def errors_Is_def catch_target_def Let_def
      split: if_splits option.splits)

lemma catch_sees_cause_witness:
  "CatchMatches ''ArithmeticException'' (VExInfo ''wrapped'' VNil (Some (VError ''ArithmeticError'' ''Divide by zero'')))"
  by (rule catch_sees_cause [where t = "''ArithmeticError''"])
    (simp_all add: catch_target_def simple_name_def CatchMatches_def throwableMatches_def errors_Is_def)

end
