(* ===== verification/Ast.thy ===== *)
theory Ast
  imports Forms
begin

text \<open>
  \<^verbatim>\<open>pkg/ast/ast.go\<close>: the AST between the analyzer and the evaluator.

  A \<^verbatim>\<open>Node\<close> is its op tag with the payload struct of that op: one constructor per op that
  is evaluated, named after the tag.  The original form is kept where the evaluator reads it.
  \<open>OpFnMethod\<close> and \<open>OpCatch\<close> nodes occur only inside \<open>OpFn\<close> and \<open>OpTry\<close> and are
  the types \<open>fn_method\<close> and \<open>catch_clause\<close> here, as \<open>OpBinding\<close> is \<open>binding\<close>; a binding's
  init stands beside it in the node that owns it.
\<close>

datatype bindKind = BindLet | BindArg | BindFn | BindLoop | BindCatch

record binding =
  bname :: string
  bkind :: bindKind
  bargID :: nat
  bvariadic :: bool

datatype 'n fn_method =
  FnMethod (mparams: "binding list") (mfixed: nat) (mvariadic: bool) (mbody: 'n) (mloop: string)

datatype 'n catch_clause = CatchClause (cclass: string) (cbind: binding) (cbody: 'n)

datatype node =
    OpConst val
  | OpVector val "node list"
  | OpMap val "(node \<times> node) list"
  | OpSet val "node list"
  | OpVar nat
  | OpLocal string binding
  | OpDo "node list" node
  | OpIf node node node
  | OpDef val nat "node option" "(val \<times> val) list option"
  | OpLet "(binding \<times> node) list" node
  | OpFn val "node fn_method list" bool nat "binding option"
  | OpInvoke val node "node list"
  | OpQuote val
  | OpLoop "(binding \<times> node) list" node string
  | OpRecur "node list" string
  | OpTheVar nat
  | OpSetBang node node
  | OpDynBind "(nat \<times> node) list" node
  | OpHostRef string string
  | OpHostCall string string "node list" bool
  | OpHostMethod string node "node list" bool
  | OpHostField string node
  | OpHostNew string string "node option" bool
  | OpThrow node
  | OpTry node "node catch_clause list" "node option"

text \<open>The flag \<^verbatim>\<open>IsAssignable\<close>, which the analyzer sets on var and field nodes only.\<close>

fun IsAssignable :: "node \<Rightarrow> bool" where
  "IsAssignable (OpVar _) = True"
| "IsAssignable (OpHostField _ _) = True"
| "IsAssignable _ = False"

definition constNil :: node where
  "constNil = OpConst VNil"

subsection \<open>Well-formed code\<close>

text \<open>
  What the evaluator's comments take for granted of an analyzed node.  \<open>ok_node L R n\<close>: every
  local that \<open>n\<close> mentions is in \<open>L\<close> or bound inside \<open>n\<close>; a recur stands only in the tail
  of the innermost loop or method, carries that frame's id and as many values as it has
  bindings.  \<open>R\<close> is that frame when \<open>n\<close> is in tail position, \<open>None\<close> elsewhere; it does not
  reach into a try, a dynamic binding, or an argument.
\<close>

type_synonym frame = "string \<times> nat"

definition bnames :: "(binding \<times> 'n) list \<Rightarrow> string set" where
  "bnames bs = bname ` fst ` set bs"

text \<open>The arities of a function: at most one method per arity and one variadic method, whose
  fixed part is not shorter than any other method.\<close>

definition ok_arities :: "'n fn_method list \<Rightarrow> bool \<Rightarrow> nat \<Rightarrow> bool" where
  "ok_arities ms variadic maxFixed \<longleftrightarrow>
     ms \<noteq> [] \<and>
     distinct (map mfixed (filter (Not \<circ> mvariadic) ms)) \<and>
     length (filter mvariadic ms) = (if variadic then 1 else 0) \<and>
     (\<forall>m\<in>set ms. \<not> mvariadic m \<longrightarrow> mfixed m \<le> maxFixed) \<and>
     (\<forall>m\<in>set ms. mvariadic m \<longrightarrow> maxFixed \<le> mfixed m) \<and>
     (\<forall>m\<in>set ms. length (mparams m) = mfixed m + (if mvariadic m then 1 else 0))"

definition self_names :: "binding option \<Rightarrow> string set" where
  "self_names self = bname ` set_option self"

type_synonym check = "string set \<Rightarrow> frame option \<Rightarrow> bool"

text \<open>Sequential bindings: each init sees the bindings before it.\<close>

fun ok_binds :: "(binding \<times> check) list \<Rightarrow> string set \<Rightarrow> bool" where
  "ok_binds [] L = True"
| "ok_binds ((b, p) # bs) L = (p L None \<and> ok_binds bs (insert (bname b) L))"

fun ok_method :: "string set \<Rightarrow> check fn_method \<Rightarrow> bool" where
  "ok_method L (FnMethod ps k v p i) = p (L \<union> bname ` set ps) (Some (i, length ps))"

fun ok_catch :: "string set \<Rightarrow> check catch_clause \<Rightarrow> bool" where
  "ok_catch L (CatchClause c b p) = p (insert (bname b) L) None"

primrec ok_node :: "node \<Rightarrow> check" where
  "ok_node (OpConst v) = (\<lambda>L R. True)"
| "ok_node (OpVector f ns) = (\<lambda>L R. list_all (\<lambda>p. p L None) (map ok_node ns))"
| "ok_node (OpMap f es) =
     (\<lambda>L R. list_all (\<lambda>p. fst p L None \<and> snd p L None) (map (map_prod ok_node ok_node) es))"
| "ok_node (OpSet f ns) = (\<lambda>L R. list_all (\<lambda>p. p L None) (map ok_node ns))"
| "ok_node (OpVar v) = (\<lambda>L R. True)"
| "ok_node (OpLocal x b) = (\<lambda>L R. x \<in> L)"
| "ok_node (OpDo ss n) = (\<lambda>L R. list_all (\<lambda>p. p L None) (map ok_node ss) \<and> ok_node n L R)"
| "ok_node (OpIf c t e) = (\<lambda>L R. ok_node c L None \<and> ok_node t L R \<and> ok_node e L R)"
| "ok_node (OpDef s v i m) = (\<lambda>L R. pred_option (\<lambda>p. p L None) (map_option ok_node i))"
| "ok_node (OpLet bs n) =
     (\<lambda>L R. ok_binds (map (map_prod id ok_node) bs) L \<and> ok_node n (L \<union> bnames bs) R)"
| "ok_node (OpFn f ms var mx self) =
     (\<lambda>L R. ok_arities ms var mx \<and>
            list_all (ok_method (L \<union> self_names self)) (map (map_fn_method ok_node) ms))"
| "ok_node (OpInvoke f n ns) =
     (\<lambda>L R. ok_node n L None \<and> list_all (\<lambda>p. p L None) (map ok_node ns))"
| "ok_node (OpQuote v) = (\<lambda>L R. True)"
| "ok_node (OpLoop bs n i) =
     (\<lambda>L R. ok_binds (map (map_prod id ok_node) bs) L \<and>
            ok_node n (L \<union> bnames bs) (Some (i, length bs)))"
| "ok_node (OpRecur ns i) =
     (\<lambda>L R. R = Some (i, length ns) \<and> list_all (\<lambda>p. p L None) (map ok_node ns))"
| "ok_node (OpTheVar v) = (\<lambda>L R. True)"
| "ok_node (OpSetBang t n) = (\<lambda>L R. IsAssignable t \<and> ok_node t L None \<and> ok_node n L None)"
| "ok_node (OpDynBind bs n) =
     (\<lambda>L R. list_all (\<lambda>p. snd p L None) (map (map_prod id ok_node) bs) \<and> ok_node n L None)"
| "ok_node (OpHostRef p m) = (\<lambda>L R. True)"
| "ok_node (OpHostCall p m ns t) = (\<lambda>L R. list_all (\<lambda>p. p L None) (map ok_node ns))"
| "ok_node (OpHostMethod m r ns t) =
     (\<lambda>L R. ok_node r L None \<and> list_all (\<lambda>p. p L None) (map ok_node ns))"
| "ok_node (OpHostField f r) = (\<lambda>L R. ok_node r L None)"
| "ok_node (OpHostNew p t fs z) = (\<lambda>L R. pred_option (\<lambda>p. p L None) (map_option ok_node fs))"
| "ok_node (OpThrow n) = (\<lambda>L R. ok_node n L None)"
| "ok_node (OpTry n cs fin) =
     (\<lambda>L R. ok_node n L None \<and> list_all (ok_catch L) (map (map_catch_clause ok_node) cs) \<and>
            pred_option (\<lambda>p. p L None) (map_option ok_node fin))"

definition ok_nodes :: "node list \<Rightarrow> string set \<Rightarrow> bool" where
  "ok_nodes ns L \<longleftrightarrow> (\<forall>n\<in>set ns. ok_node n L None)"

definition ok_lets :: "(binding \<times> node) list \<Rightarrow> string set \<Rightarrow> bool" where
  "ok_lets bs L \<longleftrightarrow> ok_binds (map (map_prod id ok_node) bs) L"

lemma ok_nodes_simps [simp]:
  "ok_nodes [] L" "ok_nodes (n # ns) L \<longleftrightarrow> ok_node n L None \<and> ok_nodes ns L"
  "ok_nodes (ms @ ns) L \<longleftrightarrow> ok_nodes ms L \<and> ok_nodes ns L"
  by (auto simp: ok_nodes_def)

lemma ok_lets_simps [simp]:
  "ok_lets [] L"
  "ok_lets ((b, n) # bs) L \<longleftrightarrow> ok_node n L None \<and> ok_lets bs (insert (bname b) L)"
  by (auto simp: ok_lets_def)

lemma bnames_simps [simp]:
  "bnames [] = {}" "bnames ((b, n) # bs) = insert (bname b) (bnames bs)"
  "bnames (bs @ cs) = bnames bs \<union> bnames cs"
  by (auto simp: bnames_def)

lemma ok_lets_snoc:
  "ok_lets (bs @ [(b, n)]) L \<longleftrightarrow> ok_lets bs L \<and> ok_node n (L \<union> bnames bs) None"
  by (induction bs arbitrary: L) (auto simp: bnames_def insert_commute Un_commute)

lemma list_all_ok_nodes: "list_all (\<lambda>p. p L None) (map ok_node ns) \<longleftrightarrow> ok_nodes ns L"
  by (simp add: ok_nodes_def list_all_iff)

lemma ok_method_map [simp]:
  "ok_method L (map_fn_method ok_node m) \<longleftrightarrow>
     ok_node (mbody m) (L \<union> bname ` set (mparams m)) (Some (mloop m, length (mparams m)))"
  by (cases m) simp

lemma ok_catch_map [simp]:
  "ok_catch L (map_catch_clause ok_node c) \<longleftrightarrow> ok_node (cbody c) (insert (bname (cbind c)) L) None"
  by (cases c) simp

text \<open>The rules of \<open>ok_node\<close> as the proofs use them.\<close>

lemmas ok_node_atoms [simp] = ok_node.simps(1,5,6,8,13,16,17,19,22,24)

lemma ok_node_lists [simp]:
  "ok_node (OpVector f ns) L R \<longleftrightarrow> ok_nodes ns L"
  "ok_node (OpSet f ns) L R \<longleftrightarrow> ok_nodes ns L"
  "ok_node (OpMap f es) L R \<longleftrightarrow> (\<forall>e\<in>set es. ok_node (fst e) L None \<and> ok_node (snd e) L None)"
  "ok_node (OpDo ss n) L R \<longleftrightarrow> ok_nodes ss L \<and> ok_node n L R"
  "ok_node (OpInvoke f n ns) L R \<longleftrightarrow> ok_node n L None \<and> ok_nodes ns L"
  "ok_node (OpRecur ns i) L R \<longleftrightarrow> R = Some (i, length ns) \<and> ok_nodes ns L"
  "ok_node (OpHostCall p m ns t) L R \<longleftrightarrow> ok_nodes ns L"
  "ok_node (OpHostMethod m r ns t) L R \<longleftrightarrow> ok_node r L None \<and> ok_nodes ns L"
  "ok_node (OpDynBind vs n) L R \<longleftrightarrow> (\<forall>b\<in>set vs. ok_node (snd b) L None) \<and> ok_node n L None"
  "ok_node (OpLet bs n) L R \<longleftrightarrow> ok_lets bs L \<and> ok_node n (L \<union> bnames bs) R"
  "ok_node (OpLoop bs n i) L R \<longleftrightarrow> ok_lets bs L \<and> ok_node n (L \<union> bnames bs) (Some (i, length bs))"
  "ok_node (OpFn f ms var mx self) L R \<longleftrightarrow> ok_arities ms var mx \<and>
     (\<forall>m\<in>set ms. ok_node (mbody m) (L \<union> self_names self \<union> bname ` set (mparams m))
                   (Some (mloop m, length (mparams m))))"
  "ok_node (OpTry n cs fin) L R \<longleftrightarrow> ok_node n L None \<and>
     (\<forall>c\<in>set cs. ok_node (cbody c) (insert (bname (cbind c)) L) None) \<and>
     (\<forall>f. fin = Some f \<longrightarrow> ok_node f L None)"
  "ok_node (OpDef d w ini mt) L R \<longleftrightarrow> (\<forall>n. ini = Some n \<longrightarrow> ok_node n L None)"
  "ok_node (OpHostNew p m fso z) L R \<longleftrightarrow> (\<forall>n. fso = Some n \<longrightarrow> ok_node n L None)"
  by (auto simp: ok_nodes_def list_all_iff ok_lets_def pred_option_def)

declare ok_node.simps(2-4,7,9-12,14,15,18,20,21,23,25) [simp del]

lemma ok_constNil [simp]: "ok_node constNil L R"
  by (simp add: constNil_def)

text \<open>More locals do no harm.\<close>

lemma ok_lets_mono:
  "\<forall>bn\<in>set bs. \<forall>L L' R. ok_node (snd bn) L R \<longrightarrow> L \<subseteq> L' \<longrightarrow> ok_node (snd bn) L' R \<Longrightarrow>
   ok_lets bs L \<Longrightarrow> L \<subseteq> L' \<Longrightarrow> ok_lets bs L'"
proof (induction bs arbitrary: L L')
  case (Cons bn bs)
  obtain b n where bn: "bn = (b, n)" by (cases bn)
  have "ok_node n L' None" using Cons.prems bn by auto
  moreover have "ok_lets bs (insert (bname b) L')"
    by (rule Cons.IH [of "insert (bname b) L"]) (use Cons.prems bn in auto)
  ultimately show ?case using bn by simp
qed simp

lemma ok_node_mono: "ok_node n L R \<Longrightarrow> L \<subseteq> L' \<Longrightarrow> ok_node n L' R"
proof (induction n arbitrary: L L' R)
  case (OpLet bs n)
  have "ok_lets bs L'" by (rule ok_lets_mono [of bs L]) (use OpLet in \<open>fastforce simp: Basic_BNFs.snds.simps\<close>)+
  moreover have "ok_node n (L' \<union> bnames bs) R"
    by (rule OpLet.IH(2) [of "L \<union> bnames bs"]) (use OpLet.prems in auto)
  ultimately show ?case by simp
next
  case (OpLoop bs n i)
  have "ok_lets bs L'" by (rule ok_lets_mono [of bs L]) (use OpLoop in \<open>fastforce simp: Basic_BNFs.snds.simps\<close>)+
  moreover have "ok_node n (L' \<union> bnames bs) (Some (i, length bs))"
    by (rule OpLoop.IH(2) [of "L \<union> bnames bs"]) (use OpLoop.prems in auto)
  ultimately show ?case by simp
next
  case (OpFn f ms v mx self)
  have "ok_node (mbody m) (L' \<union> self_names self \<union> bname ` set (mparams m)) (Some (mloop m, length (mparams m)))"
    if "m \<in> set ms" for m
    by (rule OpFn.IH [of m "mbody m" "L \<union> self_names self \<union> bname ` set (mparams m)"])
      (use that OpFn.prems in \<open>auto simp: fn_method.set_sel\<close>)
  with OpFn.prems show ?case by simp
next
  case (OpTry n cs fin)
  have "ok_node (cbody c) (insert (bname (cbind c)) L') None" if "c \<in> set cs" for c
    by (rule OpTry.IH(2) [of c "cbody c" "insert (bname (cbind c)) L"])
      (use that OpTry.prems in \<open>auto simp: catch_clause.set_sel\<close>)
  with OpTry show ?case by auto
next
  case (OpMap f es)
  then show ?case by (fastforce simp: Basic_BNFs.fsts.simps Basic_BNFs.snds.simps)
next
  case (OpDynBind bs n)
  then show ?case by (fastforce simp: Basic_BNFs.snds.simps)
next
  case (OpSetBang t n)
  then show ?case by (auto simp: ok_node.simps)
qed (auto simp: ok_nodes_def ok_node.simps list_all_iff pred_option_def)

end
