(* ===== verification/Analyzer.thy ===== *)
theory Analyzer
  imports Ast
begin

text \<open>
  \<^verbatim>\<open>pkg/analyzer/analyzer.go\<close>: from forms to nodes.

  The analyzer's fields are the record \<open>hooks\<close>, over a world \<open>'s\<close> that the hooks read and
  change (namespaces, vars, and whatever a macro does).  Its own state is the gensym counter.
  Every parse function takes \<open>rec\<close>, the recursive call of \<^verbatim>\<open>analyzeForm\<close>; \<open>analyzeForm\<close>
  itself ties the knot on fuel, because a macro may expand without end (\<open>ADiv\<close>).
\<close>

subsection \<open>The monad of an analysis\<close>

datatype 'a ares = AOk 'a | AErr aerr | ADiv

record 's astate =
  gensymCounter :: nat
  world :: 's

type_synonym ('s, 'a) am = "'s astate \<Rightarrow> 'a ares \<times> 's astate"

definition ret :: "'a \<Rightarrow> ('s, 'a) am" where
  "ret x s = (AOk x, s)"

definition fail :: "aerr \<Rightarrow> ('s, 'a) am" where
  "fail e s = (AErr e, s)"

definition diverge :: "('s, 'a) am" where
  "diverge s = (ADiv, s)"

definition abind :: "('s, 'a) am \<Rightarrow> ('a \<Rightarrow> ('s, 'b) am) \<Rightarrow> ('s, 'b) am" where
  "abind m f s = (case m s of (AOk x, s') \<Rightarrow> f x s' | (AErr e, s') \<Rightarrow> (AErr e, s') | (ADiv, s') \<Rightarrow> (ADiv, s'))"

fun amap :: "('x \<Rightarrow> ('s, 'y) am) \<Rightarrow> 'x list \<Rightarrow> ('s, 'y list) am" where
  "amap f [] = ret []"
| "amap f (x # xs) = abind (f x) (\<lambda>y. abind (amap f xs) (\<lambda>ys. ret (y # ys)))"

text \<open>A hook's call, which changes the world only; \<open>attempt\<close> hands its error on as a value.\<close>

definition in_world :: "('s \<Rightarrow> 'a \<times> 's) \<Rightarrow> ('s, 'a) am" where
  "in_world f s = (let (x, w) = f (world s) in (AOk x, s\<lparr>world := w\<rparr>))"

definition gensym :: "string \<Rightarrow> ('s, string) am" where
  "gensym prefix s =
     (let n = gensymCounter s + 1 in (AOk (prefix @ nat_str n), s\<lparr>gensymCounter := n\<rparr>))"

subsection \<open>Environment and injection points\<close>

datatype ctx = CtxExpr | CtxStatement | CtxReturn

record recurFrame =
  rfLoopID :: string
  rfArity :: nat
  rfBlocked :: string

type_synonym locals = "(string \<times> binding) list"

record env =
  Locals :: locals
  Context :: ctx
  RecurFrame :: "recurFrame option"
  IsTopLevel :: bool

definition withLocal :: "binding \<Rightarrow> env \<Rightarrow> env" where
  "withLocal b e = e\<lparr>Locals := AList.update (bname b) b (Locals e)\<rparr>"

definition withContext :: "ctx \<Rightarrow> env \<Rightarrow> env" where
  "withContext c e = e\<lparr>Context := c\<rparr>"

text \<open>The body of a try or a binding: recur must not cross it.\<close>

definition blocked :: "env \<Rightarrow> env" where
  "blocked e = e\<lparr>IsTopLevel := False,
                RecurFrame := map_option (\<lambda>f. f\<lparr>rfBlocked := ''try''\<rparr>) (RecurFrame e)\<rparr>"

text \<open>
  The optional hooks are options, nil when not wired.  \<open>Macroexpand1\<close> answers \<open>None\<close> for the
  identical form, \<open>Some\<close> the expansion otherwise.  \<open>VarSetMeta\<close> and \<open>VarSetDynamic\<close> are the
  calls on the interned \<^verbatim>\<open>*lang.Var\<close>.
  A macro may call the analyzer again, so \<open>Macroexpand1\<close> also has its counter.
\<close>

record 's hooks =
  Macroexpand1 :: "(val \<Rightarrow> locals \<Rightarrow> ('s, val option) am) option"
  ResolveVar :: "val \<Rightarrow> 's \<Rightarrow> (aerr + nat) \<times> 's"
  InternVar :: "val \<Rightarrow> 's \<Rightarrow> (aerr + nat) \<times> 's"
  ResolveHost :: "(val \<Rightarrow> 's \<Rightarrow> (string \<times> string) option) option"
  ResolveHostType :: "(val \<Rightarrow> 's \<Rightarrow> (string \<times> string) option) option"
  VarSetMeta :: "nat \<Rightarrow> (val \<times> val) list \<Rightarrow> 's \<Rightarrow> 's"
  VarSetDynamic :: "nat \<Rightarrow> 's \<Rightarrow> 's"

definition host_lookup :: "(val \<Rightarrow> 's \<Rightarrow> (string \<times> string) option) \<Rightarrow> val \<Rightarrow> ('s, (string \<times> string) option) am" where
  "host_lookup f x = in_world (\<lambda>w. (f x w, w))"

subsection \<open>Positions\<close>

definition formPos :: "val \<Rightarrow> string \<times> int \<times> int" where
  "formPos form =
     (case form_meta form of
        None \<Rightarrow> ([], 0, 0)
      | Some m \<Rightarrow>
          (case meta_get m ''file'' of VStr f \<Rightarrow> f | _ \<Rightarrow> [],
           case meta_get m ''line'' of VInt l \<Rightarrow> l | _ \<Rightarrow> 0,
           case meta_get m ''column'' of VInt c \<Rightarrow> c | _ \<Rightarrow> 0))"

definition errPos :: "val \<Rightarrow> aerr \<Rightarrow> aerr" where
  "errPos form e =
     (if is_positioned e then e
      else let (file, line, col) = formPos form in ACompiler file line col e)"

definition errf :: "val \<Rightarrow> string \<Rightarrow> marg list \<Rightarrow> ('s, 'a) am" where
  "errf form fmt args = fail (errPos form (AMsg fmt args))"

definition full_name :: "val \<Rightarrow> string" where
  "full_name v = (case v of VSym _ None n \<Rightarrow> n | VSym _ (Some ns) n \<Rightarrow> ns @ ''/'' @ n | _ \<Rightarrow> [])"

fun seq_items :: "val \<Rightarrow> val list" where
  "seq_items (VList _ xs) = xs"
| "seq_items _ = []"

definition seq_args :: "val \<Rightarrow> val list" where
  "seq_args form = tl (seq_items form)"

subsection \<open>Symbols and collection literals\<close>

definition analyzeSymbol :: "'s hooks \<Rightarrow> val \<Rightarrow> env \<Rightarrow> ('s, node) am" where
  "analyzeSymbol h s env =
     (case s of
        VSym _ ns name \<Rightarrow>
          (case if ns = None then map_of (Locals env) name else None of
             Some b \<Rightarrow> ret (OpLocal name b)
           | None \<Rightarrow>
               abind (in_world (ResolveVar h s)) (\<lambda>r.
                 case r of
                   Inr v \<Rightarrow> ret (OpVar v)
                 | Inl e \<Rightarrow>
                     (case (if ns = None then None else ResolveHost h) of
                        None \<Rightarrow> fail (errPos s e)
                      | Some f \<Rightarrow> abind (host_lookup f s) (\<lambda>r.
                          case r of Some (pkg, member) \<Rightarrow> ret (OpHostRef pkg member)
                          | None \<Rightarrow> fail (errPos s e)))))
      | _ \<Rightarrow> errf s ''not a symbol'' [])"

type_synonym 's rec = "val \<Rightarrow> env \<Rightarrow> ('s, node) am"

definition analyzeVector :: "'s rec \<Rightarrow> val \<Rightarrow> val list \<Rightarrow> env \<Rightarrow> ('s, node) am" where
  "analyzeVector rec form xs env =
     abind (amap (\<lambda>x. rec x (withContext CtxExpr env)) xs) (\<lambda>items. ret (OpVector form items))"

definition analyzeMap :: "'s rec \<Rightarrow> val \<Rightarrow> (val \<times> val) list \<Rightarrow> env \<Rightarrow> ('s, node) am" where
  "analyzeMap rec form es env =
     (let itemEnv = withContext CtxExpr env
      in abind (amap (\<lambda>(k, v). abind (rec k itemEnv) (\<lambda>kn. abind (rec v itemEnv) (\<lambda>vn. ret (kn, vn)))) es)
           (\<lambda>entries. ret (OpMap form entries)))"

definition analyzeSet :: "'s rec \<Rightarrow> val \<Rightarrow> val list \<Rightarrow> env \<Rightarrow> ('s, node) am" where
  "analyzeSet rec form xs env =
     abind (amap (\<lambda>x. rec x (withContext CtxExpr env)) xs) (\<lambda>items. ret (OpSet form items))"

subsection \<open>Special forms\<close>

definition parseQuote :: "val \<Rightarrow> ('s, node) am" where
  "parseQuote form =
     (case seq_args form of
        [x] \<Rightarrow> ret (OpQuote x)
      | args \<Rightarrow> errf form ''wrong number of args (%d) passed to quote'' [MInt (int (length args))])"

definition parseIf :: "'s rec \<Rightarrow> val \<Rightarrow> env \<Rightarrow> ('s, node) am" where
  "parseIf rec form env =
     (let args = seq_args form
      in if 3 < length args then errf form ''too many arguments to if'' []
         else if length args < 2 then errf form ''too few arguments to if'' []
         else abind (rec (args ! 0) (withContext CtxExpr env)) (\<lambda>test.
              abind (rec (args ! 1) env) (\<lambda>thn.
              abind (if length args = 3 then rec (args ! 2) env else ret constNil) (\<lambda>els.
              ret (OpIf test thn els)))))"

definition analyzeBody :: "'s rec \<Rightarrow> val list \<Rightarrow> env \<Rightarrow> ('s, node) am" where
  "analyzeBody rec body env =
     (if body = [] then ret (OpDo [] constNil)
      else abind (amap (\<lambda>f. rec f ((withContext CtxStatement env)\<lparr>IsTopLevel := False\<rparr>)) (butlast body)) (\<lambda>stmts.
           abind (rec (last body) (env\<lparr>IsTopLevel := False\<rparr>)) (\<lambda>r.
           ret (OpDo stmts r))))"

definition parseDo :: "'s rec \<Rightarrow> val \<Rightarrow> env \<Rightarrow> ('s, node) am" where
  "parseDo rec form env = analyzeBody rec (seq_args form) env"

definition exprEnv :: "env \<Rightarrow> env" where
  "exprEnv env = (withContext CtxExpr env)\<lparr>IsTopLevel := False\<rparr>"

text \<open>The three shapes of \<open>def\<close>: name, docstring and init.\<close>

definition def_args :: "val list \<Rightarrow> string + (val \<times> val option \<times> val option)" where
  "def_args args =
     (case args of
        [s] \<Rightarrow> Inr (s, None, None)
      | [s, i] \<Rightarrow> Inr (s, None, Some i)
      | [s, VStr d, i] \<Rightarrow> Inr (s, Some (VStr d), Some i)
      | [] \<Rightarrow> Inl ''too few arguments to def''
      | _ \<Rightarrow> Inl ''too many arguments to def'')"

definition meta_assoc :: "val \<Rightarrow> val \<Rightarrow> (val \<times> val) list \<Rightarrow> (val \<times> val) list" where
  "meta_assoc k v m = AList.update k v m"

definition def_meta :: "meta \<Rightarrow> val option \<Rightarrow> meta" where
  "def_meta m doc =
     (case doc of
        None \<Rightarrow> m
      | Some d \<Rightarrow> Some (case m of None \<Rightarrow> [(VKw None ''doc'', d)] | Some es \<Rightarrow> meta_assoc (VKw None ''doc'') d es))"

definition parseDef :: "'s hooks \<Rightarrow> 's rec \<Rightarrow> val \<Rightarrow> env \<Rightarrow> ('s, node) am" where
  "parseDef h rec form env =
     (case def_args (seq_args form) of
        Inl msg \<Rightarrow> errf form msg []
      | Inr (s, doc, ini) \<Rightarrow>
          if op_sym s = None then errf form ''first argument to def must be a symbol'' []
          else abind (in_world (InternVar h s)) (\<lambda>r.
               case r of
                 Inl e \<Rightarrow> fail (errPos form e)
               | Inr v \<Rightarrow>
                   (let m = def_meta (form_meta s) doc
                    in abind (case m of
                                None \<Rightarrow> ret ()
                              | Some es \<Rightarrow> in_world (\<lambda>w. let w' = VarSetMeta h v es w
                                                      in ((), if is_truthy (meta_get es ''dynamic'')
                                                              then VarSetDynamic h v w' else w'))) (\<lambda>_.
                       abind (case ini of None \<Rightarrow> ret None
                              | Some x \<Rightarrow> abind (rec x (exprEnv env)) (\<lambda>n. ret (Some n))) (\<lambda>init.
                       ret (OpDef s v init m))))))"

definition simpleBindingSym :: "val \<Rightarrow> val \<Rightarrow> ('s, string) am" where
  "simpleBindingSym form f =
     (case f of
        VSym _ ns name \<Rightarrow>
          if ns \<noteq> None then errf form ''can't let qualified name: %s'' [MStr (full_name f)]
          else if CHR ''.'' \<in> set name
          then errf form ''can't bind name containing a period: %s'' [MStr name]
          else ret name
      | _ \<Rightarrow> errf form ''bad binding form, expected symbol, got: %s'' [MForm f])"

definition mk_binding :: "string \<Rightarrow> bindKind \<Rightarrow> binding" where
  "mk_binding n k = \<lparr>bname = n, bkind = k, bargID = 0, bvariadic = False\<rparr>"

text \<open>The loop over the binding vector of let* and loop*, \<open>env\<close> growing as it goes.\<close>

fun let_bindings :: "'s rec \<Rightarrow> val \<Rightarrow> bindKind \<Rightarrow> val list \<Rightarrow> env \<Rightarrow> ('s, (binding \<times> node) list \<times> env) am" where
  "let_bindings rec form kind (nameForm # initForm # rest) env =
     abind (simpleBindingSym form nameForm) (\<lambda>name.
     abind (rec initForm (exprEnv env)) (\<lambda>init.
     (let b = mk_binding name kind
      in abind (let_bindings rec form kind rest (withLocal b env)) (\<lambda>(bs, env').
         ret ((b, init) # bs, env')))))"
| "let_bindings rec form kind _ env = ret ([], env)"

definition parseLetOrLoop :: "'s rec \<Rightarrow> val \<Rightarrow> env \<Rightarrow> bool \<Rightarrow> ('s, node) am" where
  "parseLetOrLoop rec form env isLoop =
     (let formName = (if isLoop then ''loop*'' else ''let*'');
          kind = (if isLoop then BindLoop else BindLet)
      in case seq_args form of
           [] \<Rightarrow> errf form ''%s requires a binding vector'' [MStr formName]
         | VVec _ bvec # body \<Rightarrow>
             if odd (length bvec)
             then errf form ''%s requires an even number of forms in binding vector'' [MStr formName]
             else abind (let_bindings rec form kind bvec env) (\<lambda>(bindings, bodyEnv).
                  if isLoop
                  then abind (gensym ''loop_'') (\<lambda>loopID.
                       abind (analyzeBody rec body
                               (bodyEnv\<lparr>Context := CtxReturn,
                                        RecurFrame := Some \<lparr>rfLoopID = loopID, rfArity = length bindings,
                                                           rfBlocked = []\<rparr>\<rparr>)) (\<lambda>b.
                       ret (OpLoop bindings b loopID)))
                  else abind (analyzeBody rec body bodyEnv) (\<lambda>b. ret (OpLet bindings b)))
         | _ \<Rightarrow> errf form ''%s requires a vector for its bindings'' [MStr formName])"

definition parseRecur :: "'s rec \<Rightarrow> val \<Rightarrow> env \<Rightarrow> ('s, node) am" where
  "parseRecur rec form env =
     (case RecurFrame env of
        None \<Rightarrow> errf form ''can only recur from tail position'' []
      | Some frame \<Rightarrow>
          if Context env \<noteq> CtxReturn then errf form ''can only recur from tail position'' []
          else if rfBlocked frame \<noteq> [] then errf form ''cannot recur across %s'' [MStr (rfBlocked frame)]
          else let args = seq_args form
               in if length args \<noteq> rfArity frame
                  then errf form ''mismatched argument count to recur, expected: %d args, got: %d''
                         [MInt (int (rfArity frame)), MInt (int (length args))]
                  else abind (amap (\<lambda>f. rec f ((exprEnv env)\<lparr>RecurFrame := None\<rparr>)) args) (\<lambda>exprs.
                       ret (OpRecur exprs (rfLoopID frame))))"

definition parseVar :: "'s hooks \<Rightarrow> val \<Rightarrow> ('s, node) am" where
  "parseVar h form =
     (case seq_args form of
        [s] \<Rightarrow>
          if op_sym s = None then errf form ''var requires a symbol, got: %s'' [MForm s]
          else abind (in_world (ResolveVar h s)) (\<lambda>r.
               case r of Inr v \<Rightarrow> ret (OpTheVar v)
               | Inl e \<Rightarrow> errf form ''unable to resolve var: %s in this context'' [MStr (full_name s)])
      | args \<Rightarrow> errf form ''wrong number of args (%d) passed to var'' [MInt (int (length args))])"

definition parseSetBang :: "'s rec \<Rightarrow> val \<Rightarrow> env \<Rightarrow> ('s, node) am" where
  "parseSetBang rec form env =
     (case seq_args form of
        [t, v] \<Rightarrow>
          abind (rec t (exprEnv env)) (\<lambda>target.
          if \<not> IsAssignable target
          then (case target of
                  OpLocal name _ \<Rightarrow> errf form ''cannot assign to non-mutable: %s'' [MStr name]
                | _ \<Rightarrow> errf form ''invalid assignment target'' [])
          else abind (rec v (exprEnv env)) (\<lambda>n. ret (OpSetBang target n)))
      | _ \<Rightarrow> errf form ''malformed assignment, expecting (set! target val)'' [])"

fun dyn_bindings :: "'s hooks \<Rightarrow> 's rec \<Rightarrow> val \<Rightarrow> val list \<Rightarrow> env \<Rightarrow> ('s, (nat \<times> node) list) am" where
  "dyn_bindings h rec form (s # x # rest) env =
     (if op_sym s = None then errf form ''bad binding form, expected symbol, got: %s'' [MForm s]
      else abind (in_world (ResolveVar h s)) (\<lambda>r.
           case r of
             Inl e \<Rightarrow> fail (errPos s e)
           | Inr v \<Rightarrow> abind (rec x env) (\<lambda>n.
                      abind (dyn_bindings h rec form rest env) (\<lambda>bs. ret ((v, n) # bs)))))"
| "dyn_bindings h rec form _ env = ret []"

definition parseBinding :: "'s hooks \<Rightarrow> 's rec \<Rightarrow> val \<Rightarrow> env \<Rightarrow> ('s, node) am" where
  "parseBinding h rec form env =
     (case seq_args form of
        [] \<Rightarrow> errf form ''binding requires a binding vector'' []
      | VVec _ bvec # body \<Rightarrow>
          if odd (length bvec)
          then errf form ''binding requires an even number of forms in binding vector'' []
          else abind (dyn_bindings h rec form bvec (exprEnv env)) (\<lambda>bs.
               abind (analyzeBody rec body (blocked env)) (\<lambda>b. ret (OpDynBind bs b)))
      | _ \<Rightarrow> errf form ''binding requires a vector for its bindings'' [])"

definition parseThrow :: "'s rec \<Rightarrow> val \<Rightarrow> env \<Rightarrow> ('s, node) am" where
  "parseThrow rec form env =
     (case seq_args form of
        [x] \<Rightarrow> abind (rec x (withContext CtxExpr env)) (\<lambda>n. ret (OpThrow n))
      | [] \<Rightarrow> errf form ''too few arguments to throw, throw expects a single Throwable instance'' []
      | _ \<Rightarrow> errf form ''too many arguments to throw, throw expects a single Throwable instance'' [])"

definition parseCatchFinallyMisplaced :: "val \<Rightarrow> ('s, node) am" where
  "parseCatchFinallyMisplaced form =
     errf form ''%s outside of try''
       [MStr (case seq_items form of VSym _ _ n # _ \<Rightarrow> n | _ \<Rightarrow> ''catch/finally'')]"

definition clauseOp :: "val \<Rightarrow> string" where
  "clauseOp f =
     (case f of
        VList _ (VSym _ None name # _) \<Rightarrow> if name = ''catch'' \<or> name = ''finally'' then name else []
      | _ \<Rightarrow> [])"

definition parseCatch :: "'s rec \<Rightarrow> val \<Rightarrow> env \<Rightarrow> ('s, node catch_clause) am" where
  "parseCatch rec form env =
     (case seq_args form of
        c # bform # body \<Rightarrow>
          if op_sym c = None
          then errf form ''catch clause requires a class name symbol, got: %s'' [MForm c]
          else abind (simpleBindingSym form bform) (\<lambda>name.
               (let b = mk_binding name BindCatch
                in abind (analyzeBody rec body (withLocal b env)) (\<lambda>n.
                   ret (CatchClause (full_name c) b n))))
      | _ \<Rightarrow> errf form ''catch clause requires a class name and a binding: (catch Class e body*)'' [])"

text \<open>The loop over the forms of a try: the body's forms, the catch nodes, the finally node.\<close>

fun try_forms ::
  "'s rec \<Rightarrow> val \<Rightarrow> env \<Rightarrow> val list \<Rightarrow> val list \<Rightarrow> node catch_clause list \<Rightarrow> node option \<Rightarrow> bool \<Rightarrow>
   ('s, val list \<times> node catch_clause list \<times> node option) am" where
  "try_forms rec form env [] bodyForms catches fin inClauses = ret (bodyForms, catches, fin)"
| "try_forms rec form env (f # fs) bodyForms catches fin inClauses =
     (if clauseOp f = []
      then if inClauses
           then errf form ''only catch or finally clause can follow catch in try expression'' []
           else try_forms rec form env fs (bodyForms @ [f]) catches fin inClauses
      else if fin \<noteq> None then errf form ''finally clause must be last in try expression'' []
      else if clauseOp f = ''catch''
      then abind (parseCatch rec f env) (\<lambda>c.
           try_forms rec form env fs bodyForms (catches @ [c]) fin True)
      else abind (analyzeBody rec (seq_args f) (withContext CtxStatement env)) (\<lambda>n.
           try_forms rec form env fs bodyForms catches (Some n) True))"

definition parseTry :: "'s rec \<Rightarrow> val \<Rightarrow> env \<Rightarrow> ('s, node) am" where
  "parseTry rec form env =
     abind (try_forms rec form (blocked env) (seq_args form) [] [] None False) (\<lambda>(bodyForms, catches, fin).
     abind (analyzeBody rec bodyForms (blocked env)) (\<lambda>body.
     ret (OpTry body catches fin)))"

subsection \<open>Functions\<close>

text \<open>The loop over a parameter vector of \<open>n\<close> forms; \<open>i\<close> is the index of the first of \<open>ps\<close>.\<close>

fun fn_params ::
  "val \<Rightarrow> nat \<Rightarrow> nat \<Rightarrow> val list \<Rightarrow> nat \<Rightarrow> nat \<Rightarrow> bool \<Rightarrow> env \<Rightarrow>
   ('s, binding list \<times> nat \<times> bool \<times> env) am" where
  "fn_params form n i [] argID fixedArity isVariadic env = ret ([], fixedArity, isVariadic, env)"
| "fn_params form n i (p # ps) argID fixedArity isVariadic env =
     (if op_sym p = Some (None, ''&'')
      then if isVariadic then errf form ''invalid parameter list: multiple &'' []
           else if int i \<noteq> int n - 2
           then errf form ''invalid parameter list: & must be followed by exactly one rest param'' []
           else fn_params form n (i + 1) ps argID fixedArity True env
      else abind (simpleBindingSym form p) (\<lambda>name.
           (let b = \<lparr>bname = name, bkind = BindArg, bargID = argID, bvariadic = isVariadic\<rparr>
            in abind (fn_params form n (i + 1) ps (argID + 1)
                       (if isVariadic then fixedArity else fixedArity + 1) isVariadic (withLocal b env))
                 (\<lambda>(bs, fa, var, env'). ret (b # bs, fa, var, env')))))"

definition parseFnMethod :: "'s rec \<Rightarrow> val \<Rightarrow> env \<Rightarrow> ('s, node fn_method) am" where
  "parseFnMethod rec form env =
     (case seq_items form of
        [] \<Rightarrow> errf form ''fn* method requires a parameter vector'' []
      | VVec _ pvec # body \<Rightarrow>
          abind (fn_params form (length pvec) 0 pvec 0 0 False env) (\<lambda>(params, fixedArity, isVariadic, bodyEnv).
          abind (gensym ''fn_method_'') (\<lambda>loopID.
          abind (analyzeBody rec body
                  (bodyEnv\<lparr>Context := CtxReturn,
                           RecurFrame := Some \<lparr>rfLoopID = loopID, rfArity = length params,
                                              rfBlocked = []\<rparr>\<rparr>)) (\<lambda>b.
          ret (FnMethod params fixedArity isVariadic b loopID))))
      | _ \<Rightarrow> errf form ''fn* method requires a vector for its parameters'' [])"

text \<open>
  The loop over the methods: \<open>arities\<close> are the fixed arities seen, \<open>variadic\<close> the fixed part
  of the variadic method seen.
\<close>

fun fn_methods ::
  "'s rec \<Rightarrow> val \<Rightarrow> env \<Rightarrow> val list \<Rightarrow> nat option \<Rightarrow> nat \<Rightarrow> nat list \<Rightarrow>
   ('s, node fn_method list \<times> nat option \<times> nat) am" where
  "fn_methods rec form env [] variadic maxFixed arities = ret ([], variadic, maxFixed)"
| "fn_methods rec form env (m # ms) variadic maxFixed arities =
     (case m of
        VList _ _ \<Rightarrow>
          abind (parseFnMethod rec m env) (\<lambda>mn.
          if mvariadic mn
          then if variadic \<noteq> None
               then errf form ''can't have more than 1 variadic overload'' []
               else abind (fn_methods rec form env ms (Some (mfixed mn)) maxFixed arities)
                      (\<lambda>(mns, var, mx). ret (mn # mns, var, mx))
          else if mfixed mn \<in> set arities
          then errf form ''can't have 2 overloads with same arity'' []
          else abind (fn_methods rec form env ms variadic (max maxFixed (mfixed mn)) (mfixed mn # arities))
                 (\<lambda>(mns, var, mx). ret (mn # mns, var, mx)))
      | _ \<Rightarrow> errf form ''invalid fn* method form: %s'' [MForm m])"

definition fn_self :: "val list \<Rightarrow> string + (binding option \<times> val list)" where
  "fn_self rest =
     (case rest of
        VSym m ns name # params \<Rightarrow>
          if ns \<noteq> None then Inl (full_name (VSym m ns name))
          else Inr (Some (mk_binding name BindFn), params)
      | _ \<Rightarrow> Inr (None, rest))"

definition fn_shorthand :: "val list \<Rightarrow> val list" where
  "fn_shorthand rest = (case rest of VVec _ _ # _ \<Rightarrow> [VList None rest] | _ \<Rightarrow> rest)"

definition parseFnStar :: "'s rec \<Rightarrow> val \<Rightarrow> env \<Rightarrow> ('s, node) am" where
  "parseFnStar rec form env =
     (case fn_self (seq_args form) of
        Inl name \<Rightarrow> errf form ''can't use qualified name as fn name: %s'' [MStr name]
      | Inr (self, rest0) \<Rightarrow>
          (let rest = fn_shorthand rest0
           in if rest = [] then errf form ''fn* requires at least one method body'' []
              else abind (fn_methods rec form (case self of None \<Rightarrow> env | Some b \<Rightarrow> withLocal b env) rest None 0 [])
                     (\<lambda>(methods, variadic, maxFixed).
                   case variadic of
                     Some k \<Rightarrow>
                       if k < maxFixed
                       then errf form ''can't have fixed arity function with more params than variadic function'' []
                       else ret (OpFn form methods True maxFixed self)
                   | None \<Rightarrow> ret (OpFn form methods False maxFixed self))))"

subsection \<open>Invocations and host interop\<close>

definition isCtorName :: "string \<Rightarrow> bool" where
  "isCtorName n \<longleftrightarrow> 1 < length n \<and> has_suffix n (CHR ''.'') \<and> \<not> has_suffix (butlast n) (CHR ''.'')"

definition isDotMethodName :: "string \<Rightarrow> bool" where
  "isDotMethodName name \<longleftrightarrow>
     2 \<le> length name \<and> name ! 0 = CHR ''.'' \<and> name ! 1 \<noteq> CHR ''-'' \<and> name ! 1 \<noteq> CHR ''.''"

definition parseHostNew :: "'s hooks \<Rightarrow> 's rec \<Rightarrow> (val \<Rightarrow> 's \<Rightarrow> (string \<times> string) option) \<Rightarrow>
    string option \<times> string \<Rightarrow> val \<Rightarrow> env \<Rightarrow> ('s, node) am" where
  "parseHostNew h rec resolve opn form env =
     (let base = VSym None (fst opn) (butlast (snd opn))
      in abind (host_lookup resolve base) (\<lambda>r.
         case r of
           None \<Rightarrow> errf form ''unable to resolve Go type: %s'' [MForm base]
         | Some (pkg, typeName) \<Rightarrow>
             (case seq_args form of
                [] \<Rightarrow> ret (OpHostNew pkg typeName None False)
              | [x] \<Rightarrow> abind (rec x env) (\<lambda>f.
                       case f of
                         OpMap _ _ \<Rightarrow> ret (OpHostNew pkg typeName (Some f) False)
                       | _ \<Rightarrow> errf form ''struct constructor %s requires a map of fields'' [MStr (snd opn)])
              | _ \<Rightarrow> errf form ''struct constructor %s takes a single field map'' [MStr (snd opn)])))"

definition parseGoNew :: "(val \<Rightarrow> 's \<Rightarrow> (string \<times> string) option) \<Rightarrow> val \<Rightarrow> ('s, node) am" where
  "parseGoNew resolve form =
     (case seq_args form of
        [t] \<Rightarrow>
          if op_sym t = None
          then errf form ''go/new type argument must be a symbol, got: %s'' [MForm t]
          else abind (host_lookup resolve t) (\<lambda>r.
               case r of
                 None \<Rightarrow> errf form ''unable to resolve Go type: %s'' [MForm t]
               | Some (pkg, typeName) \<Rightarrow> ret (OpHostNew pkg typeName None True))
      | _ \<Rightarrow> errf form ''go/new takes a single type argument'' [])"

text \<open>\<open>None\<close> when the operator is no host member; the flag is \<^verbatim>\<open>Throw\<close>.\<close>

definition host_member :: "(val \<Rightarrow> 's \<Rightarrow> (string \<times> string) option) \<Rightarrow> string option \<times> string \<Rightarrow> val \<Rightarrow>
    ('s, (string \<times> string \<times> bool) option) am" where
  "host_member resolve opn s =
     abind (host_lookup resolve s) (\<lambda>r.
     case r of
       Some (pkg, member) \<Rightarrow> ret (Some (pkg, member, False))
     | None \<Rightarrow>
         if has_suffix (snd opn) (CHR ''!'')
         then abind (host_lookup resolve (VSym None (fst opn) (butlast (snd opn)))) (\<lambda>r.
              ret (map_option (\<lambda>(pkg, member). (pkg, member, True)) r))
         else ret None)"

definition parseHostCall :: "(val \<Rightarrow> 's \<Rightarrow> (string \<times> string) option) \<Rightarrow> 's rec \<Rightarrow> string option \<times> string \<Rightarrow>
    val \<Rightarrow> env \<Rightarrow> ('s, node option) am" where
  "parseHostCall resolve rec opn form env =
     abind (host_member resolve opn (hd (seq_items form))) (\<lambda>r.
     case r of
       None \<Rightarrow> ret None
     | Some (pkg, member, throw) \<Rightarrow>
         abind (amap (\<lambda>x. rec x env) (seq_args form)) (\<lambda>args.
         ret (Some (OpHostCall pkg member args throw))))"

definition parseHostMethod :: "'s rec \<Rightarrow> string \<Rightarrow> val \<Rightarrow> env \<Rightarrow> ('s, node) am" where
  "parseHostMethod rec name form env =
     (let full = tl name;
          throw = has_suffix full (CHR ''!'');
          method = (if throw then butlast full else full)
      in if method = [] then errf form ''malformed member expression: %s'' [MStr name]
         else case seq_args form of
                [] \<Rightarrow> errf form ''method call %s requires a receiver'' [MStr name]
              | r # rest \<Rightarrow>
                  abind (rec r env) (\<lambda>recv.
                  abind (amap (\<lambda>x. rec x env) rest) (\<lambda>args.
                  ret (OpHostMethod method recv args throw))))"

definition parseHostField :: "'s rec \<Rightarrow> string \<Rightarrow> val \<Rightarrow> env \<Rightarrow> ('s, node) am" where
  "parseHostField rec name form env =
     (let field = drop 2 name
      in if field = [] then errf form ''malformed member expression: %s'' [MStr name]
         else case seq_args form of
                [] \<Rightarrow> errf form ''field access %s requires a receiver'' [MStr name]
              | [r] \<Rightarrow> abind (rec r env) (\<lambda>recv. ret (OpHostField field recv))
              | _ \<Rightarrow> errf form ''field access %s takes a single receiver'' [MStr name])"

text \<open>What is left of \<open>parseInvoke\<close> after the constructor tests.\<close>

definition parseCall :: "'s hooks \<Rightarrow> 's rec \<Rightarrow> val \<Rightarrow> env \<Rightarrow> ('s, node) am" where
  "parseCall h rec form env =
     (let plain = abind (rec (hd (seq_items form)) env) (\<lambda>fn.
                  abind (amap (\<lambda>x. rec x env) (seq_args form)) (\<lambda>args. ret (OpInvoke form fn args)));
          dotted = (case op_sym (hd (seq_items form)) of
                      Some (None, name) \<Rightarrow>
                        if isDotMethodName name then parseHostMethod rec name form env
                        else if take 2 name = ''.-'' then parseHostField rec name form env
                        else plain
                    | _ \<Rightarrow> plain)
      in case (op_sym (hd (seq_items form)), ResolveHost h) of
           (Some (Some ns, name), Some resolve) \<Rightarrow>
             abind (parseHostCall resolve rec (Some ns, name) form env) (\<lambda>r.
             case r of Some n \<Rightarrow> ret n | None \<Rightarrow> dotted)
         | _ \<Rightarrow> dotted)"

definition is_ctor_call :: "val \<Rightarrow> bool" where
  "is_ctor_call form = (case op_sym (hd (seq_items form)) of None \<Rightarrow> False | Some (_, name) \<Rightarrow> isCtorName name)"

text \<open>\<open>(T. a b)\<close> is \<open>(->T a b)\<close> when \<open>->T\<close> resolves; that call is no constructor call again.\<close>

lemma positional_ctor_no_ctor: "isCtorName name \<Longrightarrow> \<not> isCtorName (''->'' @ butlast name)"
  by (auto simp: isCtorName_def has_suffix_def)

function (sequential) parseInvoke :: "'s hooks \<Rightarrow> 's rec \<Rightarrow> val \<Rightarrow> env \<Rightarrow> ('s, node) am" where
  "parseInvoke h rec form env =
     (if hd (seq_items form) = VNil then errf form ''can't call nil'' []
      else case (op_sym (hd (seq_items form)), ResolveHostType h) of
             (Some (ns, name), Some resolve) \<Rightarrow>
               if isCtorName name
               then (let ctorSym = VSym None ns (''->'' @ butlast name)
                     in abind (in_world (ResolveVar h ctorSym)) (\<lambda>r.
                        case r of
                          Inr _ \<Rightarrow> parseInvoke h rec (VList None (ctorSym # seq_args form)) env
                        | Inl _ \<Rightarrow> parseHostNew h rec resolve (ns, name) form (exprEnv env)))
               else if ns = Some ''go'' \<and> name = ''new'' then parseGoNew resolve form
               else parseCall h rec form (exprEnv env)
           | _ \<Rightarrow> parseCall h rec form (exprEnv env))"
  by pat_completeness auto
termination
  by (relation "measure (\<lambda>(h, rec, form, env). if is_ctor_call form then 1 else 0)",
      auto simp: is_ctor_call_def positional_ctor_no_ctor [simplified] split: option.splits) metis

declare parseInvoke.simps [simp del]

subsection \<open>The dispatch\<close>

datatype special =
  SpQuote | SpIf | SpDo | SpDef | SpLet | SpLoop | SpRecur | SpVar | SpSetBang | SpBinding | SpFn |
  SpThrow | SpTry | SpClause

definition specialParser :: "string \<Rightarrow> special option" where
  "specialParser name =
     map_of [(''quote'', SpQuote), (''if'', SpIf), (''do'', SpDo), (''def'', SpDef), (''let*'', SpLet),
             (''loop*'', SpLoop), (''recur'', SpRecur), (''var'', SpVar), (''set!'', SpSetBang),
             (''binding'', SpBinding), (''fn*'', SpFn), (''throw'', SpThrow), (''try'', SpTry),
             (''catch'', SpClause), (''finally'', SpClause)] name"

definition IsSpecial :: "string \<Rightarrow> bool" where
  "IsSpecial name \<longleftrightarrow> specialParser name \<noteq> None"

definition parseSpecial :: "'s hooks \<Rightarrow> 's rec \<Rightarrow> special \<Rightarrow> val \<Rightarrow> env \<Rightarrow> ('s, node) am" where
  "parseSpecial h rec sp form env =
     (case sp of
        SpQuote \<Rightarrow> parseQuote form
      | SpIf \<Rightarrow> parseIf rec form env
      | SpDo \<Rightarrow> parseDo rec form env
      | SpDef \<Rightarrow> parseDef h rec form env
      | SpLet \<Rightarrow> parseLetOrLoop rec form env False
      | SpLoop \<Rightarrow> parseLetOrLoop rec form env True
      | SpRecur \<Rightarrow> parseRecur rec form env
      | SpVar \<Rightarrow> parseVar h form
      | SpSetBang \<Rightarrow> parseSetBang rec form env
      | SpBinding \<Rightarrow> parseBinding h rec form env
      | SpFn \<Rightarrow> parseFnStar rec form env
      | SpThrow \<Rightarrow> parseThrow rec form env
      | SpTry \<Rightarrow> parseTry rec form env
      | SpClause \<Rightarrow> parseCatchFinallyMisplaced form)"

definition isQualifiedCoreMacroSpecial :: "string option \<Rightarrow> string \<Rightarrow> bool" where
  "isQualifiedCoreMacroSpecial ns name \<longleftrightarrow> ns = Some ''clojure.core'' \<and> name = ''binding''"

definition special_call :: "val \<Rightarrow> special option" where
  "special_call form =
     (case op_sym (hd (seq_items form)) of
        Some (ns, name) \<Rightarrow>
          if ns = None \<or> isQualifiedCoreMacroSpecial ns name then specialParser name else None
      | None \<Rightarrow> None)"

definition maxMacroExpansions :: nat where
  "maxMacroExpansions = 1000"

definition expand_once :: "(val \<Rightarrow> locals \<Rightarrow> ('s, val option) am) \<Rightarrow> val \<Rightarrow> env \<Rightarrow> ('s, val option) am" where
  "expand_once expand form env s =
     (case expand form (Locals env) s of
        (AOk r, s') \<Rightarrow> (AOk r, s')
      | (AErr e, s') \<Rightarrow> (AErr (errPos form e), s')
      | (ADiv, s') \<Rightarrow> (ADiv, s'))"

text \<open>The macroexpansion loop; \<open>left\<close> counts the rounds that remain, \<open>seq\<close> is the form it began with.\<close>

fun expand_loop :: "'s hooks \<Rightarrow> 's rec \<Rightarrow> val \<Rightarrow> nat \<Rightarrow> val \<Rightarrow> env \<Rightarrow> ('s, node) am" where
  "expand_loop h rec seq 0 form env =
     errf seq ''too many macroexpansions (limit %d) expanding: %s''
       [MInt (int maxMacroExpansions), MForm (hd (seq_items seq))]"
| "expand_loop h rec seq (Suc left) form env =
     (case special_call form of
        Some sp \<Rightarrow> parseSpecial h rec sp form env
      | None \<Rightarrow>
          (case Macroexpand1 h of
             None \<Rightarrow> parseInvoke h rec form env
           | Some expand \<Rightarrow>
               abind (expand_once expand form env) (\<lambda>r.
               case r of
                 None \<Rightarrow> parseInvoke h rec form env
               | Some expanded \<Rightarrow>
                   (case expanded of
                      VList _ (_ # _) \<Rightarrow> expand_loop h rec seq left expanded env
                    | _ \<Rightarrow> rec expanded env))))"

definition analyzeSeq :: "'s hooks \<Rightarrow> 's rec \<Rightarrow> val \<Rightarrow> env \<Rightarrow> ('s, node) am" where
  "analyzeSeq h rec form env =
     (if seq_items form = [] then ret (OpConst form)
      else expand_loop h rec form maxMacroExpansions form env)"

definition analyze_step :: "'s hooks \<Rightarrow> 's rec \<Rightarrow> 's rec" where
  "analyze_step h rec form env =
     (case form of
        VSym _ _ _ \<Rightarrow> analyzeSymbol h form env
      | VVec _ xs \<Rightarrow> analyzeVector rec form xs env
      | VMap _ es \<Rightarrow> analyzeMap rec form es env
      | VSet _ xs \<Rightarrow> analyzeSet rec form xs env
      | VList _ _ \<Rightarrow> analyzeSeq h rec form env
      | _ \<Rightarrow> ret (OpConst form))"

fun analyzeForm :: "'s hooks \<Rightarrow> nat \<Rightarrow> 's rec" where
  "analyzeForm h 0 form env = diverge"
| "analyzeForm h (Suc fuel) form env = analyze_step h (analyzeForm h fuel) form env"

definition Analyze :: "'s hooks \<Rightarrow> nat \<Rightarrow> val \<Rightarrow> ('s, node) am" where
  "Analyze h fuel form =
     analyzeForm h fuel form \<lparr>Locals = [], Context = CtxExpr, RecurFrame = None, IsTopLevel = True\<rparr>"

end
