(* ===== verification/AnalyzerSound.thy ===== *)
theory AnalyzerSound
  imports Analyzer
begin

text \<open>
  Every node the analyzer returns is well formed (\<open>ok_node\<close>): what the comments of the
  evaluator claim that analysis guarantees.

  \<open>returns m P\<close> is the partial-correctness triple of the analysis monad.  The locale
  \<open>sound_rec\<close> is the contract of the recursive call, under which each parse function is
  proved sound; \<open>analyze_step\<close> hands the contract on, so \<open>analyzeForm\<close> has it on any fuel.
\<close>

subsection \<open>Triples\<close>

named_theorems rets \<open>rules for the results of an analysis\<close>

definition returns :: "('s, 'a) am \<Rightarrow> ('a \<Rightarrow> bool) \<Rightarrow> bool" where
  "returns m P \<longleftrightarrow> (\<forall>s x s'. m s = (AOk x, s') \<longrightarrow> P x)"

lemma returns_ret [rets]: "P x \<Longrightarrow> returns (ret x) P"
  by (simp add: returns_def ret_def)

lemma returns_fail [rets]: "returns (fail e) P"
  by (simp add: returns_def fail_def)

lemma returns_errf [rets]: "returns (errf form fmt args) P"
  by (simp add: errf_def returns_fail)

lemma returns_diverge [rets]: "returns diverge P"
  by (simp add: returns_def diverge_def)

lemma returns_bind:
  "returns m Q \<Longrightarrow> (\<And>x. Q x \<Longrightarrow> returns (f x) P) \<Longrightarrow> returns (abind m f) P"
  by (fastforce simp: returns_def abind_def split: prod.splits ares.splits)

lemma returns_any: "returns m (\<lambda>_. True)"
  by (simp add: returns_def)

lemma returns_weaken: "returns m Q \<Longrightarrow> (\<And>x. Q x \<Longrightarrow> P x) \<Longrightarrow> returns m P"
  by (auto simp: returns_def)

lemma abind_ret [simp]: "abind (ret x) f = f x"
  by (simp add: abind_def ret_def fun_eq_iff)

text \<open>A step whose result is unconstrained, such as a hook's call.\<close>

lemmas returns_seq = returns_bind [OF returns_any]

lemma returns_amap:
  "(\<And>x. x \<in> set xs \<Longrightarrow> returns (f x) P) \<Longrightarrow>
     returns (amap f xs) (\<lambda>ys. length ys = length xs \<and> (\<forall>y\<in>set ys. P y))"
proof (induction xs)
  case (Cons x xs)
  then have "returns (f x) P"
    "returns (amap f xs) (\<lambda>ys. length ys = length xs \<and> (\<forall>y\<in>set ys. P y))" by auto
  then show ?case by (auto intro!: returns_bind [of "f x" P] returns_bind [of "amap f xs"] returns_ret)
qed (simp add: returns_ret)

subsection \<open>Environments\<close>

definition names :: "env \<Rightarrow> string set" where
  "names e = fst ` set (Locals e)"

definition tail_frame :: "env \<Rightarrow> frame option" where
  "tail_frame e =
     (case RecurFrame e of
        None \<Rightarrow> None
      | Some f \<Rightarrow> if Context e = CtxReturn \<and> rfBlocked f = [] then Some (rfLoopID f, rfArity f) else None)"

lemma names_simps [simp]:
  "names (withLocal b e) = insert (bname b) (names e)"
  "names (withContext c e) = names e" "names (e\<lparr>IsTopLevel := t\<rparr>) = names e"
  "names (e\<lparr>Context := c\<rparr>) = names e" "names (e\<lparr>RecurFrame := r\<rparr>) = names e"
  "names (blocked e) = names e" "names (exprEnv e) = names e"
  by (auto simp: names_def withLocal_def withContext_def blocked_def exprEnv_def
      dom_update dom_map_of_conv_image_fst [symmetric] update_conv' simp del: dom_map_of_conv_image_fst)

lemma tail_frame_expr [simp]:
  "tail_frame (withContext CtxExpr e) = None" "tail_frame (withContext CtxStatement e) = None"
  "tail_frame (exprEnv e) = None" "tail_frame ((exprEnv e)\<lparr>RecurFrame := r\<rparr>) = None"
  "tail_frame ((withContext CtxStatement e)\<lparr>IsTopLevel := t\<rparr>) = None"
  "tail_frame (blocked e) = None" "tail_frame (e\<lparr>IsTopLevel := t\<rparr>) = tail_frame e"
  "tail_frame (withLocal b e) = tail_frame e"
  "tail_frame (e\<lparr>Context := CtxReturn, RecurFrame := Some \<lparr>rfLoopID = i, rfArity = k, rfBlocked = []\<rparr>\<rparr>)
     = Some (i, k)"
  by (auto simp: tail_frame_def withContext_def exprEnv_def blocked_def withLocal_def split: option.splits)

subsection \<open>Loops that do not recurse into the analysis\<close>

lemma returns_simpleBindingSym: "returns (simpleBindingSym form f) (\<lambda>_. True)"
  by (rule returns_any)

text \<open>A parameter list: without \<open>&\<close> every parameter counts, with it all but the last.\<close>

lemma returns_fn_params_rest:
  "returns (fn_params form n i ps argID fa True env)
     (\<lambda>(bs, fa', var, env'). var \<and> fa' = fa \<and> length bs = length ps \<and>
        names env' = names env \<union> bname ` set bs)"
proof (induction ps arbitrary: i argID env)
  case (Cons p ps)
  show ?case
  proof (cases "op_sym p = Some (None, ''&'')")
    case False
    show ?thesis
      unfolding fn_params.simps Let_def if_not_P [OF False] if_True if_False
      by (rule returns_seq, rule returns_bind [OF Cons.IH]) (auto intro!: returns_ret)
  qed (simp add: returns_errf)
qed (simp add: returns_ret)

lemma returns_fn_params:
  "i + length ps = n \<Longrightarrow>
   returns (fn_params form n i ps argID fa False env)
     (\<lambda>(bs, fa', var, env'). length bs + fa = fa' + (if var then 1 else 0) \<and>
        names env' = names env \<union> bname ` set bs)"
proof (induction ps arbitrary: i argID fa env)
  case (Cons p ps)
  show ?case
  proof (cases "op_sym p = Some (None, ''&'')")
    case True
    show ?thesis
    proof (cases "int i = int n - 2")
      case True
      with Cons.prems have "length ps = 1" by simp
      then show ?thesis
        using \<open>op_sym p = _\<close> True
        by (auto intro!: returns_weaken [OF returns_fn_params_rest])
    qed (use True in \<open>simp add: returns_errf\<close>)
  next
    case False
    show ?thesis
      unfolding fn_params.simps Let_def if_not_P [OF False] if_True if_False
      by (rule returns_seq, rule returns_bind [OF Cons.IH])
        (use Cons.prems in \<open>auto intro!: returns_ret\<close>)
  qed
qed (simp add: returns_ret)

definition catch_ok :: "env \<Rightarrow> node catch_clause \<Rightarrow> bool" where
  "catch_ok env c \<longleftrightarrow> ok_node (cbody c) (insert (bname (cbind c)) (names env)) None"

definition method_ok :: "env \<Rightarrow> node fn_method \<Rightarrow> bool" where
  "method_ok env m \<longleftrightarrow>
     ok_node (mbody m) (names env \<union> bname ` set (mparams m)) (Some (mloop m, length (mparams m))) \<and>
     length (mparams m) = mfixed m + (if mvariadic m then 1 else 0)"

text \<open>What the loop over the methods has established of the methods it returns.\<close>

definition methods_ok ::
  "env \<Rightarrow> nat option \<Rightarrow> nat \<Rightarrow> nat list \<Rightarrow> node fn_method list \<Rightarrow> nat option \<Rightarrow> nat \<Rightarrow> bool" where
  "methods_ok env variadic mx0 arities ms variadic' mx \<longleftrightarrow>
     (\<forall>m\<in>set ms. method_ok env m) \<and>
     distinct (map mfixed (filter (Not \<circ> mvariadic) ms)) \<and>
     set (map mfixed (filter (Not \<circ> mvariadic) ms)) \<inter> set arities = {} \<and>
     (\<forall>m\<in>set ms. \<not> mvariadic m \<longrightarrow> mfixed m \<le> mx) \<and> mx0 \<le> mx \<and>
     (\<forall>m\<in>set ms. mvariadic m \<longrightarrow> variadic' = Some (mfixed m)) \<and>
     (\<forall>k. variadic = Some k \<longrightarrow> variadic' = Some k) \<and>
     length (filter mvariadic ms) = (if variadic = None \<and> variadic' \<noteq> None then 1 else 0)"

lemma methods_ok_arities:
  assumes "methods_ok env None 0 [] ms variadic mx" and "ms \<noteq> []" and "\<forall>k. variadic = Some k \<longrightarrow> mx \<le> k"
  shows "ok_arities ms (variadic \<noteq> None) mx"
  using assms by (auto simp: methods_ok_def ok_arities_def method_ok_def split: if_splits)

lemma methods_ok_variadic:
  assumes "methods_ok env (Some (mfixed m)) mx0 arities ms variadic' mx" and "method_ok env m" and "mvariadic m"
  shows "methods_ok env None mx0 arities (m # ms) variadic' mx"
  using assms by (auto simp: methods_ok_def)

lemma methods_ok_fixed:
  assumes "methods_ok env variadic (max mx0 (mfixed m)) (mfixed m # arities) ms variadic' mx"
    and "method_ok env m" and "\<not> mvariadic m" and "mfixed m \<notin> set arities"
  shows "methods_ok env variadic mx0 arities (m # ms) variadic' mx"
  using assms unfolding methods_ok_def by (auto simp: o_def)

subsection \<open>The parse functions, given the contract of the recursive call\<close>

locale sound_rec =
  fixes rec :: "'s rec"
  assumes rec_ok: "returns (rec form env) (\<lambda>n. ok_node n (names env) (tail_frame env))"
begin

lemma rec_expr:
  "tail_frame env' = None \<Longrightarrow> names env' = names env \<Longrightarrow>
     returns (rec form env') (\<lambda>n. ok_node n (names env) None)"
  using rec_ok [of form env'] by simp

lemma recs_expr:
  "tail_frame env' = None \<Longrightarrow> names env' = names env \<Longrightarrow>
     returns (amap (\<lambda>x. rec x env') xs) (\<lambda>ns. length ns = length xs \<and> ok_nodes ns (names env))"
  unfolding ok_nodes_def by (intro returns_amap rec_expr)

lemma analyzeVector_ok: "returns (analyzeVector rec form xs env) (\<lambda>n. ok_node n (names env) R)"
  unfolding analyzeVector_def
  by (rule returns_bind [OF recs_expr [of _ env]]) (auto intro!: returns_ret)

lemma analyzeSet_ok: "returns (analyzeSet rec form xs env) (\<lambda>n. ok_node n (names env) R)"
  unfolding analyzeSet_def
  by (rule returns_bind [OF recs_expr [of _ env]]) (auto intro!: returns_ret)

lemma analyzeMap_ok: "returns (analyzeMap rec form es env) (\<lambda>n. ok_node n (names env) R)"
proof -
  let ?P = "\<lambda>e. ok_node (fst e) (names env) None \<and> ok_node (snd e) (names env) None"
  have "returns ((\<lambda>(k, v). abind (rec k (withContext CtxExpr env)) (\<lambda>kn.
           abind (rec v (withContext CtxExpr env)) (\<lambda>vn. ret (kn, vn)))) e) ?P" for e
    by (cases e) (auto intro!: returns_bind [OF rec_expr [of _ env]] returns_ret)
  then show ?thesis
    unfolding analyzeMap_def Let_def
    by (intro returns_bind [OF returns_amap [of es _ ?P]]) (auto intro!: returns_ret)
qed

lemma parseIf_ok: "returns (parseIf rec form env) (\<lambda>n. ok_node n (names env) (tail_frame env))"
  unfolding parseIf_def Let_def
  by (cases "length (seq_args form) = 3")
    (auto intro!: returns_errf returns_bind [OF rec_expr [of _ env]] returns_bind [OF rec_ok]
      returns_ret)

lemma analyzeBody_ok: "returns (analyzeBody rec body env) (\<lambda>n. ok_node n (names env) (tail_frame env))"
proof -
  have "returns (rec f (env\<lparr>IsTopLevel := False\<rparr>)) (\<lambda>n. ok_node n (names env) (tail_frame env))" for f
    using rec_ok [of f "env\<lparr>IsTopLevel := False\<rparr>"] by simp
  then show ?thesis
    unfolding analyzeBody_def
    by (auto intro!: returns_bind [OF recs_expr [of _ env]] returns_ret
        returns_bind [of "rec _ (env\<lparr>IsTopLevel := False\<rparr>)"])
qed

lemma optional_ok:
  "returns (case ini of None \<Rightarrow> ret None | Some x \<Rightarrow> abind (rec x (exprEnv env)) (\<lambda>n. ret (Some n)))
     (\<lambda>i. \<forall>n. i = Some n \<longrightarrow> ok_node n (names env) None)"
  by (cases ini) (auto intro!: returns_ret returns_bind [OF rec_expr [of _ env]])

lemma parseDef_ok: "returns (parseDef h rec form env) (\<lambda>n. ok_node n (names env) R)"
proof -
  have "returns (abind m (\<lambda>_. abind (case ini of None \<Rightarrow> ret None
          | Some x \<Rightarrow> abind (rec x (exprEnv env)) (\<lambda>n. ret (Some n))) (\<lambda>init. ret (OpDef s v init mt))))
        (\<lambda>n. ok_node n (names env) R)" for m :: "('s, unit) am" and ini s v mt
    by (rule returns_seq, rule returns_bind [OF optional_ok]) (auto intro!: returns_ret)
  then show ?thesis
    unfolding parseDef_def Let_def
    by (auto intro!: returns_errf returns_seq [where m = "in_world (InternVar h _)"] returns_fail
        split: sum.splits prod.splits)
qed

lemma let_bindings_ok:
  "returns (let_bindings rec form kind bs env)
     (\<lambda>(bindings, env'). ok_lets bindings (names env) \<and> names env' = names env \<union> bnames bindings \<and>
        tail_frame env' = tail_frame env)"
proof (induction bs arbitrary: env rule: induct_list012)
  case (3 nameForm initForm rest)
  show ?case
    unfolding let_bindings.simps Let_def
    by (rule returns_seq, rule returns_bind [OF rec_expr [of _ env]], simp, simp,
        rule returns_bind [OF "3.IH"(1)], clarify, rule returns_ret, clarsimp simp: mk_binding_def)
qed (auto intro!: returns_ret)

lemma body_ok:
  "names env' = L \<Longrightarrow> tail_frame env' = R \<Longrightarrow> returns (analyzeBody rec body env') (\<lambda>n. ok_node n L R)"
  using analyzeBody_ok by auto

lemma parseLetOrLoop_ok:
  "returns (parseLetOrLoop rec form env isLoop) (\<lambda>n. ok_node n (names env) (tail_frame env))"
proof -
  have "returns (abind (let_bindings rec form k bvec env) (\<lambda>(bindings, bodyEnv).
      if isLoop
      then abind (gensym ''loop_'') (\<lambda>loopID.
           abind (analyzeBody rec body
                   (bodyEnv\<lparr>Context := CtxReturn,
                            RecurFrame := Some \<lparr>rfLoopID = loopID, rfArity = length bindings, rfBlocked = []\<rparr>\<rparr>)) (\<lambda>b.
           ret (OpLoop bindings b loopID)))
      else abind (analyzeBody rec body bodyEnv) (\<lambda>b. ret (OpLet bindings b))))
    (\<lambda>n. ok_node n (names env) (tail_frame env))" for k bvec body
    by (rule returns_bind [OF let_bindings_ok], cases isLoop)
      (auto intro!: returns_seq [where m = "gensym _"] returns_bind [OF body_ok] returns_ret)
  then show ?thesis
    unfolding parseLetOrLoop_def Let_def
    by (auto intro!: returns_errf split: list.splits val.splits)
qed

lemma parseRecur_ok: "returns (parseRecur rec form env) (\<lambda>n. ok_node n (names env) (tail_frame env))"
  unfolding parseRecur_def Let_def
  by (auto intro!: returns_errf returns_bind [OF recs_expr [of _ env]] returns_ret
      simp: tail_frame_def split: option.splits)

lemma parseVar_ok: "returns (parseVar h form) (\<lambda>n. ok_node n L R)"
  unfolding parseVar_def
  by (auto intro!: returns_errf returns_seq returns_ret split: list.splits sum.splits)

lemma parseQuote_ok: "returns (parseQuote form) (\<lambda>n. ok_node n L R)"
  unfolding parseQuote_def by (auto intro!: returns_errf returns_ret split: list.splits)

lemma parseSetBang_ok: "returns (parseSetBang rec form env) (\<lambda>n. ok_node n (names env) R)"
  unfolding parseSetBang_def
  by (auto intro!: returns_errf returns_bind [OF rec_expr [of _ env]] returns_ret
      split: list.splits node.splits)

lemma dyn_bindings_ok:
  assumes "tail_frame env' = None" and "names env' = names env"
  shows "returns (dyn_bindings h rec form bs env') (\<lambda>vs. \<forall>v\<in>set vs. ok_node (snd v) (names env) None)"
proof (induction bs rule: induct_list012)
  case (3 x y bs)
  have "returns (abind (rec y env') (\<lambda>n. abind (dyn_bindings h rec form bs env') (\<lambda>vs. ret ((v, n) # vs))))
     (\<lambda>vs. \<forall>v\<in>set vs. ok_node (snd v) (names env) None)" for v
    by (rule returns_bind [OF rec_expr [OF assms]], rule returns_bind [OF "3.IH"(1)])
      (auto intro!: returns_ret)
  then show ?case by (auto intro!: returns_errf returns_seq [where m = "in_world _"] returns_fail split: sum.splits)
qed (auto intro!: returns_ret)

lemma parseBinding_ok: "returns (parseBinding h rec form env) (\<lambda>n. ok_node n (names env) R)"
  unfolding parseBinding_def
  by (auto intro!: returns_errf returns_bind [OF dyn_bindings_ok [of _ env]] returns_bind [OF body_ok] returns_ret
      split: list.splits val.splits)

lemma parseThrow_ok: "returns (parseThrow rec form env) (\<lambda>n. ok_node n (names env) R)"
  unfolding parseThrow_def
  by (auto intro!: returns_errf returns_bind [OF rec_expr [of _ env]] returns_ret split: list.splits)

lemma parseCatch_ok:
  "tail_frame env = None \<Longrightarrow> returns (parseCatch rec form env) (catch_ok env)"
  unfolding parseCatch_def Let_def
  by (auto intro!: returns_errf returns_seq [where m = "simpleBindingSym _ _"] returns_bind [OF body_ok] returns_ret
      simp: catch_ok_def mk_binding_def split: list.splits)

lemma try_forms_ok:
  assumes "tail_frame env = None"
  shows "\<forall>c\<in>set catches. catch_ok env c \<Longrightarrow> \<forall>n. fin = Some n \<longrightarrow> ok_node n (names env) None \<Longrightarrow>
    returns (try_forms rec form env fs bodyForms catches fin inClauses)
      (\<lambda>(bf, cs, fin). (\<forall>c\<in>set cs. catch_ok env c) \<and> (\<forall>n. fin = Some n \<longrightarrow> ok_node n (names env) None))"
proof (induction fs arbitrary: bodyForms catches fin inClauses)
  case Nil
  then show ?case by (auto intro!: returns_ret)
next
  case (Cons f fs)
  have "returns (abind (parseCatch rec f env)
           (\<lambda>c. try_forms rec form env fs bodyForms (catches @ [c]) fin True))
      (\<lambda>(bf, cs, fin). (\<forall>c\<in>set cs. catch_ok env c) \<and> (\<forall>n. fin = Some n \<longrightarrow> ok_node n (names env) None))"
    by (rule returns_bind [OF parseCatch_ok [OF assms]], rule Cons.IH) (use Cons.prems in auto)
  moreover have "returns (abind (analyzeBody rec (seq_args f) (withContext CtxStatement env))
           (\<lambda>n. try_forms rec form env fs bodyForms catches (Some n) True))
      (\<lambda>(bf, cs, fin). (\<forall>c\<in>set cs. catch_ok env c) \<and> (\<forall>n. fin = Some n \<longrightarrow> ok_node n (names env) None))"
    by (rule returns_bind [OF body_ok [of _ "names env" None]], simp, simp, rule Cons.IH)
      (use Cons.prems in auto)
  moreover have "returns (try_forms rec form env fs (bodyForms @ [f]) catches fin inClauses)
      (\<lambda>(bf, cs, fin). (\<forall>c\<in>set cs. catch_ok env c) \<and> (\<forall>n. fin = Some n \<longrightarrow> ok_node n (names env) None))"
    by (rule Cons.IH [OF Cons.prems])
  ultimately show ?case
    by (simp only: try_forms.simps returns_errf split: if_split) blast
qed

lemma parseTry_ok: "returns (parseTry rec form env) (\<lambda>n. ok_node n (names env) R)"
  unfolding parseTry_def
  by (rule returns_bind [OF try_forms_ok])
    (auto intro!: returns_bind [OF body_ok] returns_ret simp: catch_ok_def)

lemma parseFnMethod_ok: "returns (parseFnMethod rec form env) (method_ok env)"
proof -
  have "returns (abind (fn_params form (length pvec) 0 pvec 0 0 False env) (\<lambda>(params, fixedArity, isVariadic, bodyEnv).
          abind (gensym ''fn_method_'') (\<lambda>loopID.
          abind (analyzeBody rec body
                  (bodyEnv\<lparr>Context := CtxReturn,
                           RecurFrame := Some \<lparr>rfLoopID = loopID, rfArity = length params, rfBlocked = []\<rparr>\<rparr>)) (\<lambda>b.
          ret (FnMethod params fixedArity isVariadic b loopID))))) (method_ok env)" for pvec body
    by (rule returns_bind [OF returns_fn_params], simp)
      (auto intro!: returns_seq [where m = "gensym _"] returns_bind [OF body_ok] returns_ret simp: method_ok_def)
  then show ?thesis
    unfolding parseFnMethod_def by (auto intro!: returns_errf split: list.splits val.splits)
qed

lemma fn_methods_ok:
  "returns (fn_methods rec form env ms variadic mx0 arities)
     (\<lambda>(mns, variadic', mx). methods_ok env variadic mx0 arities mns variadic' mx \<and> length mns = length ms)"
proof (induction ms arbitrary: variadic mx0 arities)
  case Nil
  then show ?case by (auto intro!: returns_ret simp: methods_ok_def)
next
  case (Cons m ms)
  let ?Q = "\<lambda>v (mns, variadic', mx). methods_ok env v mx0 arities mns variadic' mx \<and>
              length mns = Suc (length ms)"
  have var: "returns (abind (fn_methods rec form env ms (Some (mfixed mn)) mx0 arities)
      (\<lambda>(mns, var, mx). ret (mn # mns, var, mx))) (?Q None)"
    if "method_ok env mn" "mvariadic mn" for mn
    by (rule returns_bind [OF Cons.IH], clarify, rule returns_ret)
      (use that in \<open>auto intro: methods_ok_variadic\<close>)
  have fixd: "returns (abind (fn_methods rec form env ms v (max mx0 (mfixed mn)) (mfixed mn # arities))
      (\<lambda>(mns, var, mx). ret (mn # mns, var, mx))) (?Q v)"
    if "method_ok env mn" "\<not> mvariadic mn" "mfixed mn \<notin> set arities" for mn v
    by (rule returns_bind [OF Cons.IH], clarify, rule returns_ret)
      (use that in \<open>auto intro: methods_ok_fixed\<close>)
  show ?case
    by (cases m) (auto intro!: returns_errf returns_bind [OF parseFnMethod_ok] var fixd)
qed

lemma parseFnStar_ok: "returns (parseFnStar rec form env) (\<lambda>n. ok_node n (names env) R)"
proof -
  have "returns (abind (fn_methods rec form (case self of None \<Rightarrow> env | Some b \<Rightarrow> withLocal b env) rest None 0 [])
           (\<lambda>(methods, variadic, maxFixed).
              case variadic of
                Some k \<Rightarrow>
                  if k < maxFixed
                  then errf form ''can't have fixed arity function with more params than variadic function'' []
                  else ret (OpFn form methods True maxFixed self)
              | None \<Rightarrow> ret (OpFn form methods False maxFixed self)))
        (\<lambda>n. ok_node n (names env) R)" if "rest \<noteq> []" for self rest
  proof (rule returns_bind [OF fn_methods_ok], clarify)
    fix mns variadic mx
    let ?env = "case self of None \<Rightarrow> env | Some b \<Rightarrow> withLocal b env"
    assume ok: "methods_ok ?env None 0 [] mns variadic mx" and "length mns = length rest"
    then have "mns \<noteq> []" using that by auto
    moreover have "names ?env = names env \<union> self_names self"
      by (cases self) (auto simp: self_names_def)
    ultimately have "ok_node (OpFn form mns (variadic \<noteq> None) mx self) (names env) R"
      if "\<forall>k. variadic = Some k \<longrightarrow> mx \<le> k"
      using methods_ok_arities [OF ok] that ok by (auto simp: methods_ok_def method_ok_def)
    then show "returns (case variadic of
                Some k \<Rightarrow>
                  if k < mx
                  then errf form ''can't have fixed arity function with more params than variadic function'' []
                  else ret (OpFn form mns True mx self)
              | None \<Rightarrow> ret (OpFn form mns False mx self)) (\<lambda>n. ok_node n (names env) R)"
      by (cases variadic) (auto intro!: returns_errf returns_ret)
  qed
  then show ?thesis
    unfolding parseFnStar_def Let_def by (auto intro!: returns_errf split: sum.splits prod.splits)
qed

lemma parseHostNew_ok:
  "tail_frame env = None \<Longrightarrow> returns (parseHostNew h rec resolve opn form env) (\<lambda>n. ok_node n (names env) R)"
  unfolding parseHostNew_def Let_def
  by (auto intro!: returns_seq [where m = "host_lookup _ _"] returns_errf returns_ret
      returns_bind [OF rec_expr [of _ env]] split: option.splits list.splits node.splits)

lemma parseGoNew_ok: "returns (parseGoNew resolve form) (\<lambda>n. ok_node n L R)"
  unfolding parseGoNew_def
  by (auto intro!: returns_seq [where m = "host_lookup _ _"] returns_errf returns_ret
      split: option.splits list.splits)

lemma parseHostMethod_ok:
  "tail_frame env = None \<Longrightarrow> returns (parseHostMethod rec name form env) (\<lambda>n. ok_node n (names env) R)"
  unfolding parseHostMethod_def Let_def
  by (auto intro!: returns_errf returns_ret returns_bind [OF rec_expr [of _ env]]
      returns_bind [OF recs_expr [of _ env]] split: list.splits)

lemma parseHostField_ok:
  "tail_frame env = None \<Longrightarrow> returns (parseHostField rec name form env) (\<lambda>n. ok_node n (names env) R)"
  unfolding parseHostField_def Let_def
  by (auto intro!: returns_errf returns_ret returns_bind [OF rec_expr [of _ env]] split: list.splits)

lemma parseHostCall_ok:
  "tail_frame env = None \<Longrightarrow>
     returns (parseHostCall resolve rec opn form env) (\<lambda>r. \<forall>n. r = Some n \<longrightarrow> ok_node n (names env) R)"
  unfolding parseHostCall_def
  by (auto intro!: returns_seq [where m = "host_member _ _ _"] returns_ret
      returns_bind [OF recs_expr [of _ env]] split: option.splits)

lemma parseCall_ok:
  assumes "tail_frame env = None"
  shows "returns (parseCall h rec form env) (\<lambda>n. ok_node n (names env) R)"
proof -
  have "returns (abind (rec f env) (\<lambda>fn. abind (amap (\<lambda>x. rec x env) xs) (\<lambda>args. ret (OpInvoke form fn args))))
      (\<lambda>n. ok_node n (names env) R)" for f xs
    using assms by (auto intro!: returns_ret returns_bind [OF rec_expr [of _ env]] returns_bind [OF recs_expr [of _ env]])
  then show ?thesis
    unfolding parseCall_def Let_def
    using assms by (auto intro!: parseHostMethod_ok parseHostField_ok returns_bind [OF parseHostCall_ok [where R = R]] returns_ret
        split: option.splits)
qed

lemma parseInvoke_ok: "returns (parseInvoke h rec form env) (\<lambda>n. ok_node n (names env) R)"
proof (induction "if is_ctor_call form then 1 else 0::nat" arbitrary: form rule: less_induct)
  case less
  have call: "returns (parseCall h rec form (exprEnv env)) (\<lambda>n. ok_node n (names env) R)"
    using parseCall_ok [of "exprEnv env" h form R] by simp
  have new: "returns (parseHostNew h rec resolve opn form (exprEnv env)) (\<lambda>n. ok_node n (names env) R)"
    for resolve opn
    using parseHostNew_ok [of "exprEnv env" h resolve opn form R] by simp
  have again: "returns (parseInvoke h rec (VList None (VSym None ns (''->'' @ butlast name) # xs)) env)
      (\<lambda>n. ok_node n (names env) R)"
    if "op_sym (hd (seq_items form)) = Some (ns, name)" "isCtorName name" for ns name xs
    using that positional_ctor_no_ctor [of name] by (intro less) (simp add: is_ctor_call_def)
  have "\<not> isCtorName ''new''" by (simp add: isCtorName_def has_suffix_def)
  then show ?case
    by (subst parseInvoke.simps)
      (auto intro!: returns_errf call new again parseGoNew_ok returns_seq [where m = "in_world _"]
        simp: Let_def simp del: append.simps split: option.splits sum.splits)
qed

lemma analyzeSymbol_ok: "returns (analyzeSymbol h s env) (\<lambda>n. ok_node n (names env) R)"
proof -
  have "map_of (Locals env) x = Some b \<Longrightarrow> x \<in> names env" for x b
    unfolding names_def by (metis fst_conv image_eqI map_of_SomeD)
  then show ?thesis
    unfolding analyzeSymbol_def
    by (auto intro!: returns_errf returns_fail returns_ret returns_seq [where m = "in_world _"]
        returns_seq [where m = "host_lookup _ _"] split: val.splits option.splits sum.splits if_splits)
qed

lemma parseSpecial_ok:
  "returns (parseSpecial h rec sp form env) (\<lambda>n. ok_node n (names env) (tail_frame env))"
  by (cases sp)
    (auto simp: parseSpecial_def parseDo_def parseCatchFinallyMisplaced_def
      intro!: parseQuote_ok parseIf_ok analyzeBody_ok parseDef_ok parseLetOrLoop_ok parseRecur_ok
        parseVar_ok parseSetBang_ok parseBinding_ok parseFnStar_ok parseThrow_ok parseTry_ok returns_errf)

lemma expand_loop_ok:
  "returns (expand_loop h rec seq left form env) (\<lambda>n. ok_node n (names env) (tail_frame env))"
proof (induction left arbitrary: form)
  case (Suc left)
  then show ?case
    by (auto intro!: parseSpecial_ok parseInvoke_ok rec_ok returns_seq [where m = "expand_once _ _ _"]
        split: option.splits val.splits list.splits)
qed (simp add: returns_errf)

lemma step_ok: "returns (analyze_step h rec form env) (\<lambda>n. ok_node n (names env) (tail_frame env))"
  by (cases form)
    (auto simp: analyze_step_def analyzeSeq_def
      intro!: analyzeSymbol_ok analyzeVector_ok analyzeMap_ok analyzeSet_ok expand_loop_ok returns_ret)

end

lemma analyzeForm_sound: "sound_rec (analyzeForm h fuel)"
proof (induction fuel)
  case (Suc fuel)
  from sound_rec.step_ok [OF this] show ?case by unfold_locales simp
qed (simp add: sound_rec_def returns_diverge)

interpretation analyzer: sound_rec "analyzeForm h fuel" for h :: "'s hooks" and fuel
  by (rule analyzeForm_sound)

subsection \<open>Properties\<close>

definition demo_hooks :: "unit hooks" where
  "demo_hooks = \<lparr>Macroexpand1 = None, ResolveVar = (\<lambda>_ w. (Inr 0, w)), InternVar = (\<lambda>_ w. (Inr 0, w)),
     ResolveHost = None, ResolveHostType = None, VarSetMeta = (\<lambda>_ _ w. w), VarSetDynamic = (\<lambda>_ w. w)\<rparr>"

definition demo_state :: "unit astate" where
  "demo_state = \<lparr>gensymCounter = 0, world = ()\<rparr>"

text \<open>\<open>(fn* [x] (recur x))\<close> and \<open>(fn* [x] (try (recur x)))\<close>.\<close>

definition demo_fn :: "val list \<Rightarrow> val" where
  "demo_fn body = VList None ([sym ''fn*'', VVec None [sym ''x'']] @ body)"

definition demo_recur :: val where
  "demo_recur = VList None [sym ''recur'', sym ''x'']"

lemma demo_analyze:
  "Analyze demo_hooks 5 (demo_fn [demo_recur]) demo_state =
     (AOk (OpFn (demo_fn [demo_recur])
        [FnMethod [\<lparr>bname = ''x'', bkind = BindArg, bargID = 0, bvariadic = False\<rparr>] 1 False
           (OpDo [] (OpRecur [OpLocal ''x'' \<lparr>bname = ''x'', bkind = BindArg, bargID = 0, bvariadic = False\<rparr>]
                      ''fn_method_1'')) ''fn_method_1''] False 1 None),
      \<lparr>gensymCounter = 1, world = ()\<rparr>)"
  by code_simp

lemma Analyze_ok: "returns (Analyze h fuel form) (\<lambda>n. ok_node n {} None)"
proof -
  let ?env = "\<lparr>Locals = [], Context = CtxExpr, RecurFrame = None, IsTopLevel = True\<rparr>"
  have "names ?env = {}" "tail_frame ?env = None" by (simp_all add: names_def tail_frame_def)
  then show ?thesis
    using analyzer.rec_ok [of h fuel form ?env] by (simp add: Analyze_def [abs_def])
qed

text \<open>C2. Whatever the hooks answer and whatever macros expand to, a node that the analyzer
  returns for a top-level form is well formed: every local it reads is bound around it, and a
  recur stands only in the tail position of the innermost loop or method, with that frame's id
  and as many arguments as the frame has bindings, never across a try or a binding form.\<close>

theorem analyzed_code_well_formed:
  assumes "fst (Analyze h fuel form s) = AOk n"
  shows "ok_node n {} None"
  using Analyze_ok [of h fuel form] assms by (cases "Analyze h fuel form s") (auto simp: returns_def)

lemma analyzed_code_well_formed_witness:
  "\<exists>n. fst (Analyze demo_hooks 5 (demo_fn [demo_recur]) demo_state) = AOk n \<and> ok_node n {} None"
  using analyzed_code_well_formed [of demo_hooks 5 "demo_fn [demo_recur]" demo_state]
  by (simp add: demo_analyze)

end
