(* ===== verification/AnalyzerTotal.thy ===== *)
theory AnalyzerTotal
  imports AnalyzerSound
begin

text \<open>
  Termination of the analysis.  Without macros the recursive calls go to smaller forms, so
  fuel above the depth of the form is enough and the analysis never diverges.  With macros the
  rounds of one expansion are bounded by \<open>maxMacroExpansions\<close>.
\<close>

subsection \<open>Depth of a form\<close>

primrec depth :: "val \<Rightarrow> nat" where
  "depth VNil = 0"
| "depth (VBool b) = 0"
| "depth (VInt i) = 0"
| "depth (VStr s) = 0"
| "depth (VKw ns n) = 0"
| "depth (VSym m ns n) = 0"
| "depth (VList m xs) = Suc (foldr max (map depth xs) 0)"
| "depth (VVec m xs) = Suc (foldr max (map depth xs) 0)"
| "depth (VMap m es) = Suc (foldr max (map (\<lambda>e. max (fst e) (snd e)) (map (map_prod depth depth) es)) 0)"
| "depth (VSet m xs) = Suc (foldr max (map depth xs) 0)"
| "depth (VVar v) = 0"
| "depth (VUnbound v) = 0"
| "depth (VFn v) = 0"
| "depth (VNative v) = 0"
| "depth (VOpaque v) = 0"
| "depth (VLit l) = 0"
| "depth (VData k xs) = 0"
| "depth (VThrown v) = 0"
| "depth (VArity n s r) = 0"
| "depth (VError k m) = 0"
| "depth (VNs n) = 0"
| "depth (VExInfo m d c) = 0"
| "depth (VCompiler f l c e) = 0"
| "depth (VWrap m e) = 0"

lemma depth_item: "x \<in> set xs \<Longrightarrow> f x \<le> foldr max (map f xs) (0::nat)"
  by (induction xs) auto

lemma depth_smaller:
  "x \<in> set xs \<Longrightarrow> depth x < depth (VList m xs)"
  "x \<in> set xs \<Longrightarrow> depth x < depth (VVec m xs)"
  "x \<in> set xs \<Longrightarrow> depth x < depth (VSet m xs)"
  "(k, v) \<in> set es \<Longrightarrow> depth k < depth (VMap m es) \<and> depth v < depth (VMap m es)"
  using depth_item [of x xs depth] depth_item [of "(k, v)" es "\<lambda>e. max (depth (fst e)) (depth (snd e))"]
  by (auto simp: comp_def)

subsection \<open>Analyses that do not diverge\<close>

definition halts :: "('s, 'a) am \<Rightarrow> bool" where
  "halts m \<longleftrightarrow> (\<forall>s. fst (m s) \<noteq> ADiv)"

lemma halts_basic [simp]: "halts (ret x)" "halts (fail e)" "halts (errf form fmt args)"
  "halts (in_world f)" "halts (gensym p)"
  by (simp_all add: halts_def ret_def fail_def errf_def in_world_def gensym_def split_def Let_def)

lemma halts_bind [intro!]: "halts m \<Longrightarrow> (\<And>x. halts (f x)) \<Longrightarrow> halts (abind m f)"
  unfolding halts_def abind_def by (auto split: prod.splits ares.splits) (metis fst_conv)

text \<open>Case distinctions on what an earlier step returned.\<close>

lemma halts_cases [intro!]:
  "(\<And>a b. halts (f a b)) \<Longrightarrow> halts (case p of (a, b) \<Rightarrow> f a b)"
  "halts none \<Longrightarrow> (\<And>x. halts (some x)) \<Longrightarrow> halts (case_option none some r)"
  "(\<And>e. halts (inl e)) \<Longrightarrow> (\<And>y. halts (inr y)) \<Longrightarrow> halts (case_sum inl inr q)"
  by (auto split: prod.split option.split sum.split)

lemma halts_bind_returns:
  assumes "halts m" and "returns m Q" and "\<And>x. Q x \<Longrightarrow> halts (f x)"
  shows "halts (abind m f)"
  unfolding halts_def
proof
  fix s
  obtain r s' where ms: "m s = (r, s')" by fastforce
  have "r \<noteq> ADiv" using assms(1) ms by (metis fst_conv halts_def)
  then show "fst (abind m f s) \<noteq> ADiv"
    using assms(2,3) ms by (cases r) (auto simp: halts_def returns_def abind_def)
qed

lemma halts_amap: "(\<And>x. x \<in> set xs \<Longrightarrow> halts (f x)) \<Longrightarrow> halts (amap f xs)"
  by (induction xs) auto

lemma halts_host [intro!]: "halts (host_lookup f x)" "halts (host_member f opn x)"
  by (auto simp: host_lookup_def host_member_def split: option.splits)

lemma halts_sym [intro!]: "halts (simpleBindingSym form f)"
  by (auto simp: simpleBindingSym_def split: val.splits)

lemma halts_fn_params: "halts (fn_params form n i ps argID fa var env)"
  by (induction form n i ps argID fa var env rule: fn_params.induct) (auto simp: Let_def)

subsection \<open>The parse functions on forms below a depth\<close>

definition below :: "nat \<Rightarrow> val list \<Rightarrow> bool" where
  "below d xs \<longleftrightarrow> (\<forall>x\<in>set xs. depth x < d)"

lemma below_simps [simp]:
  "below d []" "below d (x # xs) \<longleftrightarrow> depth x < d \<and> below d xs"
  "below d (xs @ ys) \<longleftrightarrow> below d xs \<and> below d ys"
  by (auto simp: below_def)

lemma below_item: "depth form \<le> d \<Longrightarrow> below d (seq_items form)"
  by (cases form) (auto simp: below_def dest!: depth_smaller(1))

lemma below_arg: "depth form \<le> d \<Longrightarrow> below d (seq_args form)"
  unfolding seq_args_def using below_item [of form d] by (cases "seq_items form") auto

lemma below_vec: "depth (VVec m ys) < d \<Longrightarrow> below d ys"
  using depth_smaller(2) by (fastforce simp: below_def)

lemma below_list: "depth (VList m ys) < d \<Longrightarrow> below d ys"
  using depth_smaller(1) by (fastforce simp: below_def)

lemma below_nested: "depth f < d \<Longrightarrow> below d (seq_args f)"
  by (simp add: below_arg)

lemma below_nth: "below d xs \<Longrightarrow> i < length xs \<Longrightarrow> depth (xs ! i) < d"
  by (simp add: below_def)

lemma below_butlast: "below d xs \<Longrightarrow> below d (butlast xs) \<and> (xs \<noteq> [] \<longrightarrow> depth (last xs) < d)"
  by (auto simp: below_def dest: in_set_butlastD)

lemma below_subset: "set xs \<subseteq> set ys \<Longrightarrow> below d ys \<Longrightarrow> below d xs"
  by (auto simp: below_def)

lemma depth_of_items: "below d xs \<Longrightarrow> 0 < d \<Longrightarrow> depth (VList m xs) \<le> d"
  by (induction xs) (auto simp: less_eq_Suc_le)

locale halting_rec =
  fixes rec :: "'s rec" and d :: nat
  assumes rec_halts: "depth form < d \<Longrightarrow> halts (rec form env)"
begin

lemma halts_recs: "below d xs \<Longrightarrow> halts (amap (\<lambda>x. rec x env) xs)"
  by (auto simp: below_def intro: halts_amap rec_halts)

lemma halts_body: "below d body \<Longrightarrow> halts (analyzeBody rec body env)"
  using below_butlast [of d body]
  by (auto simp: analyzeBody_def intro!: halts_recs rec_halts)

lemma halts_let_bindings: "below d bs \<Longrightarrow> halts (let_bindings rec form kind bs env)"
  by (induction bs arbitrary: env rule: induct_list012) (auto simp: Let_def intro!: rec_halts)

lemma halts_dyn_bindings: "below d bs \<Longrightarrow> halts (dyn_bindings h rec form bs env)"
  by (induction bs rule: induct_list012) (auto intro!: rec_halts)

lemma halts_if: "depth form \<le> d \<Longrightarrow> halts (parseIf rec form env)"
  using below_arg [of form d]
  by (cases "length (seq_args form) = 3") (auto simp: parseIf_def Let_def intro!: rec_halts below_nth)

lemma halts_let: "depth form \<le> d \<Longrightarrow> halts (parseLetOrLoop rec form env isLoop)"
  using below_arg [of form d]
  by (auto simp: parseLetOrLoop_def Let_def
      intro!: halts_let_bindings halts_body split: list.splits val.splits intro: below_vec)

lemma halts_def_special: "depth form \<le> d \<Longrightarrow> halts (parseDef h rec form env)"
proof -
  assume "depth form \<le> d"
  then have "depth x < d" if "def_args (seq_args form) = Inr (s, doc, Some x)" for s doc x
    using that below_arg [of form d] by (auto simp: def_args_def split: list.splits val.splits)
  then show ?thesis
    by (auto simp: parseDef_def Let_def intro!: rec_halts split: sum.split prod.split option.split)
qed

lemma halts_recur: "depth form \<le> d \<Longrightarrow> halts (parseRecur rec form env)"
  using below_arg [of form d]
  by (auto simp: parseRecur_def Let_def intro!: halts_recs)

lemma halts_set_bang: "depth form \<le> d \<Longrightarrow> halts (parseSetBang rec form env)"
  using below_arg [of form d]
  by (auto simp: parseSetBang_def intro!: rec_halts split: list.splits node.splits)

lemma halts_dyn_bind: "depth form \<le> d \<Longrightarrow> halts (parseBinding h rec form env)"
  using below_arg [of form d]
  by (auto simp: parseBinding_def intro!: halts_dyn_bindings halts_body split: list.splits val.splits
      intro: below_vec)

lemma halts_throw: "depth form \<le> d \<Longrightarrow> halts (parseThrow rec form env)"
  using below_arg [of form d]
  by (auto simp: parseThrow_def intro!: rec_halts split: list.splits)

lemma halts_catch: "depth form < d \<Longrightarrow> halts (parseCatch rec form env)"
  using below_nested [of form]
  by (auto simp: parseCatch_def Let_def intro!: halts_body split: list.splits)

lemma halts_try_forms:
  "below d fs \<Longrightarrow> halts (try_forms rec form env fs bodyForms catches fin inClauses)"
  by (induction fs arbitrary: bodyForms catches fin inClauses)
    (auto intro!: halts_catch halts_body below_nested)

lemma try_forms_body:
  "returns (try_forms rec form env fs bodyForms catches fin inClauses)
     (\<lambda>r. set (fst r) \<subseteq> set bodyForms \<union> set fs)"
proof (induction fs arbitrary: bodyForms catches fin inClauses)
  case (Cons f fs)
  have "returns (try_forms rec form env fs bodyForms cs fn True)
     (\<lambda>r. set (fst r) \<subseteq> set bodyForms \<union> set (f # fs))" for cs fn
    by (rule returns_weaken [OF Cons.IH]) auto
  moreover have "returns (try_forms rec form env fs (bodyForms @ [f]) cs fn b)
     (\<lambda>r. set (fst r) \<subseteq> set bodyForms \<union> set (f # fs))" for cs fn b
    by (rule returns_weaken [OF Cons.IH]) auto
  ultimately show ?case
    by (auto intro!: returns_errf returns_seq [where m = "parseCatch _ _ _"]
        returns_seq [where m = "analyzeBody _ _ _"])
qed (auto intro!: returns_ret)

lemma halts_try: "depth form \<le> d \<Longrightarrow> halts (parseTry rec form env)"
  unfolding parseTry_def
  by (rule halts_bind_returns [OF halts_try_forms try_forms_body])
    (auto intro!: halts_body below_arg dest: below_subset [OF _ below_arg])

lemma halts_fn_method: "below d (seq_items form) \<Longrightarrow> halts (parseFnMethod rec form env)"
  by (auto simp: parseFnMethod_def intro!: halts_fn_params halts_body split: list.splits val.splits)

lemma halts_fn_methods:
  "\<forall>m\<in>set ms. below d (seq_items m) \<Longrightarrow> halts (fn_methods rec form env ms variadic mx arities)"
proof (induction ms arbitrary: variadic mx arities)
  case (Cons m ms)
  then show ?case by (cases m) (auto intro!: halts_fn_method)
qed simp

lemma fn_rest_below:
  assumes "below d (seq_args form)" and "fn_self (seq_args form) = Inr (self, rest)"
  shows "\<forall>m\<in>set (fn_shorthand rest). below d (seq_items m)"
proof -
  have "set rest \<subseteq> set (seq_args form)"
    using assms(2)
    by (cases "seq_args form"; cases "hd (seq_args form)") (auto simp: fn_self_def split: if_splits)
  then have rest: "below d rest" using assms(1) by (rule below_subset)
  then have "\<forall>m\<in>set rest. below d (seq_items m)"
    by (meson below_def below_item less_imp_le)
  with rest show ?thesis by (auto simp: fn_shorthand_def split: list.splits val.splits)
qed

lemma halts_fn: "depth form \<le> d \<Longrightarrow> halts (parseFnStar rec form env)"
  using fn_rest_below [OF below_arg [of form]]
  by (auto simp: parseFnStar_def Let_def intro!: halts_fn_methods split: sum.split)

lemma halts_host_new: "depth form \<le> d \<Longrightarrow> halts (parseHostNew h rec resolve opn form env)"
  using below_arg [of form d]
  by (auto simp: parseHostNew_def Let_def intro!: rec_halts split: list.splits node.splits)

lemma halts_host_call: "depth form \<le> d \<Longrightarrow> halts (parseHostCall resolve rec opn form env)"
  using below_arg [of form d]
  by (auto simp: parseHostCall_def intro!: halts_recs)

lemma halts_host_method: "below d (seq_args form) \<Longrightarrow> halts (parseHostMethod rec name form env)"
  by (cases "seq_args form") (auto simp: parseHostMethod_def Let_def intro!: halts_recs rec_halts)

lemma halts_host_field: "below d (seq_args form) \<Longrightarrow> halts (parseHostField rec name form env)"
  by (auto simp: parseHostField_def Let_def intro!: rec_halts split: list.split)

lemma halts_call:
  assumes "depth form \<le> d" and "seq_items form \<noteq> []"
  shows "halts (parseCall h rec form env)"
proof -
  have "depth (hd (seq_items form)) < d"
    using below_item [OF assms(1)] assms(2) by (cases "seq_items form") auto
  with below_arg [OF assms(1)] halts_host_call [OF assms(1)] show ?thesis
    unfolding parseCall_def Let_def
    by (auto simp only: intro!: halts_cases halts_bind halts_basic halts_recs rec_halts halts_host_method
        halts_host_field split: option.split prod.split if_split)
qed

lemma halts_invoke:
  "depth form \<le> d \<Longrightarrow> 0 < d \<Longrightarrow> seq_items form \<noteq> [] \<Longrightarrow> halts (parseInvoke h rec form env)"
proof (induction "if is_ctor_call form then 1 else 0::nat" arbitrary: form rule: less_induct)
  case less
  have again: "halts (parseInvoke h rec (VList None (VSym None ns (''->'' @ butlast name) # seq_args form)) env)"
    if "op_sym (hd (seq_items form)) = Some (ns, name)" "isCtorName name" for ns name
    using that positional_ctor_no_ctor [of name] below_arg [OF less.prems(1)] less.prems
    by (intro less.hyps depth_of_items) (simp_all add: is_ctor_call_def)
  have "halts (parseGoNew resolve form)" for resolve :: "val \<Rightarrow> 's \<Rightarrow> (string \<times> string) option"
    by (auto simp: parseGoNew_def split: list.split)
  then show ?case
    using again halts_call [OF less.prems(1,3)] halts_host_new [OF less.prems(1)]
    by (subst parseInvoke.simps)
      (auto simp only: Let_def intro!: halts_cases halts_bind halts_basic split: option.split prod.split if_split)
qed

lemma halts_special: "depth form \<le> d \<Longrightarrow> halts (parseSpecial h rec sp form env)"
  by (cases sp)
    (auto simp: parseSpecial_def parseDo_def parseQuote_def parseVar_def parseCatchFinallyMisplaced_def
      intro!: halts_if halts_body below_arg halts_def_special halts_let halts_recur halts_set_bang
        halts_dyn_bind halts_fn halts_throw halts_try split: list.split)

text \<open>Without macros the expansion loop ends in its first round.\<close>

lemma halts_step:
  assumes "Macroexpand1 h = None" and "depth form \<le> d"
  shows "halts (analyze_step h rec form env)"
proof (cases form)
  case (VSym m ns n)
  then show ?thesis by (auto simp: analyze_step_def analyzeSymbol_def)
next
  case (VList m xs)
  with assms(2) have "0 < d" by simp
  have "halts (expand_loop h rec form maxMacroExpansions form env)" if "xs \<noteq> []"
    using that VList assms \<open>0 < d\<close> halts_special [OF assms(2)] halts_invoke [OF assms(2)]
    by (simp add: maxMacroExpansions_def eval_nat_numeral split: option.split)
  with VList show ?thesis by (auto simp: analyze_step_def analyzeSeq_def)
next
  case (VMap m es)
  then show ?thesis
    using assms(2) depth_smaller(4) [of _ _ es m]
    by (fastforce simp: analyze_step_def analyzeMap_def Let_def intro!: halts_amap rec_halts)
qed (use assms(2) depth_smaller in \<open>fastforce simp: analyze_step_def analyzeVector_def analyzeSet_def
  intro!: halts_amap rec_halts\<close>)+

end

subsection \<open>The analyzer on fuel above the depth\<close>

lemma analyzeForm_halting: "Macroexpand1 h = None \<Longrightarrow> halting_rec (analyzeForm h fuel) fuel"
proof (induction fuel)
  case (Suc fuel)
  from halting_rec.halts_step [OF Suc.IH [OF Suc.prems] Suc.prems]
  show ?case by unfold_locales (auto simp: less_Suc_eq_le)
qed (simp add: halting_rec_def)

interpretation plain: halting_rec "analyzeForm (h\<lparr>Macroexpand1 := None\<rparr>) fuel" fuel
  for h :: "'s hooks" and fuel
  by (rule analyzeForm_halting) simp

text \<open>C3. Without macros the analysis of every form terminates: on fuel above the depth of the
  form it returns a node or a positioned error and never runs out.\<close>

theorem analysis_terminates:
  assumes "Macroexpand1 h = None" and "depth form < fuel"
  shows "fst (Analyze h fuel form s) \<noteq> ADiv"
proof -
  have "h\<lparr>Macroexpand1 := None\<rparr> = h" using assms(1) by simp
  with plain.rec_halts [OF assms(2), of h] show ?thesis
    by (simp add: Analyze_def halts_def)
qed

lemma analysis_terminates_witness: "fst (Analyze demo_hooks 5 (demo_fn [demo_recur]) demo_state) \<noteq> ADiv"
  by (rule analysis_terminates) (simp_all add: demo_hooks_def demo_fn_def demo_recur_def sym_def)

subsection \<open>Runaway macros\<close>

text \<open>An expander that answers every call form with another one that is no special form.\<close>

definition runaway :: "(val \<Rightarrow> locals \<Rightarrow> ('s, val option) am) \<Rightarrow> bool" where
  "runaway expand \<longleftrightarrow>
     (\<forall>form locals w. special_call form = None \<longrightarrow>
        (\<exists>m x xs w'. expand form locals w = (AOk (Some (VList m (x # xs))), w') \<and>
           special_call (VList m (x # xs)) = None))"

lemma runaway_loop:
  assumes "Macroexpand1 h = Some expand" and "runaway expand" and "special_call form = None"
  shows "fst (expand_loop h rec seq left form env s) =
    AErr (errPos seq (AMsg ''too many macroexpansions (limit %d) expanding: %s''
            [MInt (int maxMacroExpansions), MForm (hd (seq_items seq))]))"
  using assms(3)
proof (induction left arbitrary: form s)
  case 0
  then show ?case by (simp add: errf_def fail_def)
next
  case (Suc left)
  from assms(2) Suc.prems obtain m x xs w' where
    "expand form (Locals env) s = (AOk (Some (VList m (x # xs))), w')"
    "special_call (VList m (x # xs)) = None"
    unfolding runaway_def by blast
  with Suc.IH [of "VList m (x # xs)"] show ?case
    using Suc.prems assms(1) by (simp add: abind_def expand_once_def)
qed



end
