(* ===== verification/Vars.thy ===== *)
theory Vars
  imports Forms
begin

text \<open>
  \<^verbatim>\<open>pkg/lang/var.go\<close>: vars, their roots, the dynamic binding frames of every goroutine, and
  the flags that let readers skip work: \<open>dynamicBound\<close> (no frame holds the var), \<open>isMacroCached\<close>,
  and \<open>direct\<close> (a compiled call site may call the published handle instead of the var).

  A var is a number, its fields are in \<open>vars\<close>; a \<^verbatim>\<open>*Box\<close> is an address in \<open>boxes\<close>, because two
  goroutines share the boxes of a conveyed frame.  \<open>gls\<close> maps a goroutine to its frames, innermost
  first.  A namespace object is its name.  A watch is recorded in \<open>calls\<close> with its arguments; the
  caller runs it.
\<close>

subsection \<open>State\<close>

record var =
  vns :: string
  vname :: string
  vroot :: val
  vmeta :: "(val \<times> val) list"
  dynamic :: bool
  dynamicBound :: bool
  isMacroCached :: nat
  sealed :: bool
  direct :: bool
  watches :: "(val \<times> val) list"

type_synonym bframe = "(nat \<times> nat) list"

record vstate =
  nvars :: nat
  vars :: "nat \<Rightarrow> var"
  nboxes :: nat
  boxes :: "nat \<Rightarrow> val"
  gls :: "nat \<Rightarrow> bframe list option"
  CoreArithDirty :: bool
  calls :: "(val \<times> val list) list"

definition upd_var :: "nat \<Rightarrow> (var \<Rightarrow> var) \<Rightarrow> vstate \<Rightarrow> vstate" where
  "upd_var v f st = st\<lparr>vars := (vars st)(v := f (vars st v))\<rparr>"

definition kw :: "string \<Rightarrow> val" where
  "kw n = VKw None n"

subsection \<open>Roots and flags\<close>

definition NewVar :: "string \<Rightarrow> string \<Rightarrow> vstate \<Rightarrow> nat \<times> vstate" where
  "NewVar ns name st =
     (nvars st,
      st\<lparr>nvars := nvars st + 1,
         vars := (vars st)(nvars st :=
           \<lparr>vns = ns, vname = name, vroot = VUnbound (nvars st), vmeta = [], dynamic = False,
            dynamicBound = False, isMacroCached = 0, sealed = False, direct = False, watches = []\<rparr>)\<rparr>)"

definition HasRoot :: "nat \<Rightarrow> vstate \<Rightarrow> bool" where
  "HasRoot v st = (case vroot (vars st v) of VUnbound _ \<Rightarrow> False | _ \<Rightarrow> True)"

definition Seal :: "nat \<Rightarrow> vstate \<Rightarrow> vstate" where
  "Seal v = upd_var v (\<lambda>x. x\<lparr>sealed := True\<rparr>)"

definition SealDirect :: "nat \<Rightarrow> vstate \<Rightarrow> vstate" where
  "SealDirect v = upd_var v (\<lambda>x. x\<lparr>direct := True\<rparr>)"

definition tripIfSealed :: "nat \<Rightarrow> vstate \<Rightarrow> vstate" where
  "tripIfSealed v st =
     (let st1 = (if sealed (vars st v) then st\<lparr>CoreArithDirty := True\<rparr> else st)
      in if direct (vars st1 v) then upd_var v (\<lambda>x. x\<lparr>direct := False\<rparr>) st1 else st1)"

definition notifyWatches :: "nat \<Rightarrow> val \<Rightarrow> val \<Rightarrow> vstate \<Rightarrow> vstate" where
  "notifyWatches v oldVal newVal st =
     st\<lparr>calls := calls st @ map (\<lambda>(k, f). (f, [k, VVar v, oldVal, newVal])) (watches (vars st v))\<rparr>"

definition BindRoot :: "nat \<Rightarrow> val \<Rightarrow> vstate \<Rightarrow> vstate" where
  "BindRoot v r st =
     (let old = vroot (vars st v);
          st1 = upd_var v (\<lambda>x. x\<lparr>vroot := r\<rparr>) st
      in notifyWatches v old r (tripIfSealed v st1))"

definition internVarRoot :: "nat \<Rightarrow> val \<Rightarrow> bool \<Rightarrow> vstate \<Rightarrow> vstate" where
  "internVarRoot v r replaceRoot st = (if \<not> HasRoot v st \<or> replaceRoot then BindRoot v r st else st)"

definition SetDynamic :: "nat \<Rightarrow> vstate \<Rightarrow> vstate" where
  "SetDynamic v st =
     (let st1 = upd_var v (\<lambda>x. x\<lparr>dynamic := True\<rparr>) st
      in if direct (vars st1 v) then upd_var v (\<lambda>x. x\<lparr>direct := False\<rparr>) st1 else st1)"

definition AddWatch :: "nat \<Rightarrow> val \<Rightarrow> val \<Rightarrow> vstate \<Rightarrow> vstate" where
  "AddWatch v k f = upd_var v (\<lambda>x. x\<lparr>watches := AList.update k f (watches x)\<rparr>)"

definition RemoveWatch :: "nat \<Rightarrow> val \<Rightarrow> vstate \<Rightarrow> vstate" where
  "RemoveWatch v k = upd_var v (\<lambda>x. x\<lparr>watches := AList.delete k (watches x)\<rparr>)"

subsection \<open>Dynamic bindings\<close>

text \<open>\<^verbatim>\<open>glStorage.get\<close>: the innermost frame that has the var.\<close>

fun frames_get :: "bframe list \<Rightarrow> nat \<Rightarrow> nat option" where
  "frames_get [] v = None"
| "frames_get (f # fs) v = (case map_of f v of Some b \<Rightarrow> Some b | None \<Rightarrow> frames_get fs v)"

definition getDynamicBinding :: "nat \<Rightarrow> nat \<Rightarrow> vstate \<Rightarrow> nat option" where
  "getDynamicBinding gid v st =
     (if \<not> dynamicBound (vars st v) then None
      else case gls st gid of None \<Rightarrow> None | Some fs \<Rightarrow> frames_get fs v)"

definition HasThreadBinding :: "nat \<Rightarrow> nat \<Rightarrow> vstate \<Rightarrow> bool" where
  "HasThreadBinding gid v st \<longleftrightarrow> getDynamicBinding gid v st \<noteq> None"

definition IsBound :: "nat \<Rightarrow> nat \<Rightarrow> vstate \<Rightarrow> bool" where
  "IsBound gid v st \<longleftrightarrow>
     HasRoot v st \<or> dynamicBound (vars st v) \<and> getDynamicBinding gid v st \<noteq> None"

definition Deref :: "nat \<Rightarrow> nat \<Rightarrow> vstate \<Rightarrow> val" where
  "Deref gid v st =
     (case getDynamicBinding gid v st of Some b \<Rightarrow> boxes st b | None \<Rightarrow> vroot (vars st v))"

definition Get :: "nat \<Rightarrow> nat \<Rightarrow> vstate \<Rightarrow> val" where
  "Get gid v st = (if \<not> dynamicBound (vars st v) then vroot (vars st v) else Deref gid v st)"

text \<open>\<open>None\<close> is the panic of a var without a thread binding.\<close>

definition SetVar :: "nat \<Rightarrow> nat \<Rightarrow> val \<Rightarrow> vstate \<Rightarrow> vstate option" where
  "SetVar gid v x st =
     (case getDynamicBinding gid v st of
        None \<Rightarrow> None
      | Some b \<Rightarrow> Some (notifyWatches v (boxes st b) x (st\<lparr>boxes := (boxes st)(b := x)\<rparr>)))"

text \<open>\<open>alter\<close> is the function's application to the old value and the remaining arguments.\<close>

definition AlterRoot :: "nat \<Rightarrow> nat \<Rightarrow> (val \<Rightarrow> val) \<Rightarrow> vstate \<Rightarrow> val \<times> vstate" where
  "AlterRoot gid v alter st =
     (let oldRoot = Get gid v st;
          newRoot = alter oldRoot;
          st1 = upd_var v (\<lambda>x. x\<lparr>vroot := newRoot\<rparr>) st
      in (newRoot, notifyWatches v oldRoot newRoot (tripIfSealed v st1)))"

text \<open>The loop over the entries; the flag is False when an entry panicked, and the frame then
  stays where it is, with the entries before it.\<close>

fun push_entries :: "(val \<times> val) list \<Rightarrow> bframe \<Rightarrow> vstate \<Rightarrow> bool \<times> bframe \<times> vstate" where
  "push_entries [] store st = (True, store, st)"
| "push_entries ((k, x) # es) store st =
     (case k of
        VVar v \<Rightarrow>
          if \<not> dynamic (vars st v) then (False, store, st)
          else push_entries es (AList.update v (nboxes st) store)
                 ((upd_var v (\<lambda>y. y\<lparr>dynamicBound := True\<rparr>) st)
                    \<lparr>nboxes := nboxes st + 1, boxes := (boxes st)(nboxes st := x)\<rparr>)
      | _ \<Rightarrow> (False, store, st))"

definition PushThreadBindings :: "nat \<Rightarrow> (val \<times> val) list \<Rightarrow> vstate \<Rightarrow> bool \<times> vstate" where
  "PushThreadBindings gid bindings st =
     (let frames = (case gls st gid of None \<Rightarrow> [] | Some fs \<Rightarrow> fs);
          (ok, store, st1) = push_entries bindings [] st
      in (ok, st1\<lparr>gls := (gls st1)(gid := Some (store # frames))\<rparr>))"

text \<open>\<open>None\<close> is the nil dereference of a goroutine without frames.\<close>

definition PopThreadBindings :: "nat \<Rightarrow> vstate \<Rightarrow> vstate option" where
  "PopThreadBindings gid st =
     (case gls st gid of
        None \<Rightarrow> None
      | Some fs \<Rightarrow>
          Some (if 1 < length fs then st\<lparr>gls := (gls st)(gid := Some (tl fs))\<rparr>
                else st\<lparr>gls := (gls st)(gid := None)\<rparr>))"

text \<open>The bindings in effect, the innermost winning.\<close>

fun collect_bindings :: "bframe list \<Rightarrow> vstate \<Rightarrow> (nat \<times> val) list \<Rightarrow> (nat \<times> val) list" where
  "collect_bindings [] st acc = acc"
| "collect_bindings (f # fs) st acc =
     collect_bindings fs st
       (foldl (\<lambda>a (v, b). if map_of a v = None then a @ [(v, boxes st b)] else a) acc f)"

definition GetThreadBindings :: "nat \<Rightarrow> vstate \<Rightarrow> (nat \<times> val) list" where
  "GetThreadBindings gid st =
     (case gls st gid of None \<Rightarrow> [] | Some fs \<Rightarrow> collect_bindings fs st [])"

definition CloneThreadBindingFrame :: "nat \<Rightarrow> vstate \<Rightarrow> bframe list option" where
  "CloneThreadBindingFrame gid st = gls st gid"

definition ResetThreadBindingFrame :: "nat \<Rightarrow> bframe list option \<Rightarrow> vstate \<Rightarrow> vstate" where
  "ResetThreadBindingFrame gid frame st = st\<lparr>gls := (gls st)(gid := frame)\<rparr>"

subsection \<open>Metadata and the macro flag\<close>

text \<open>\<open>SetMeta\<close> is two atomic stores, kept apart because a reader may run between them.\<close>

definition SetMeta_invalidate :: "nat \<Rightarrow> vstate \<Rightarrow> vstate" where
  "SetMeta_invalidate v = upd_var v (\<lambda>x. x\<lparr>isMacroCached := 0\<rparr>)"

definition SetMeta_store :: "nat \<Rightarrow> (val \<times> val) list \<Rightarrow> vstate \<Rightarrow> vstate" where
  "SetMeta_store v m = upd_var v (\<lambda>x. x\<lparr>vmeta := AList.update (kw ''ns'') (sym (vns x)) m\<rparr>)"

definition SetMeta :: "nat \<Rightarrow> (val \<times> val) list \<Rightarrow> vstate \<Rightarrow> vstate" where
  "SetMeta v m st = SetMeta_store v m (SetMeta_invalidate v st)"

definition meta_macro :: "nat \<Rightarrow> vstate \<Rightarrow> bool" where
  "meta_macro v st \<longleftrightarrow> map_of (vmeta (vars st v)) (kw ''macro'') = Some (VBool True)"

definition IsMacro :: "nat \<Rightarrow> vstate \<Rightarrow> bool \<times> vstate" where
  "IsMacro v st =
     (if isMacroCached (vars st v) \<noteq> 0 then (isMacroCached (vars st v) = 2, st)
      else let result = meta_macro v st
           in (result, upd_var v (\<lambda>x. x\<lparr>isMacroCached := if result then 2 else 1\<rparr>) st))"

definition SetMacro :: "nat \<Rightarrow> vstate \<Rightarrow> vstate" where
  "SetMacro v st = SetMeta v (AList.update (kw ''macro'') (VBool True) (vmeta (vars st v))) st"

definition IsPublic :: "nat \<Rightarrow> vstate \<Rightarrow> bool" where
  "IsPublic v st =
     (case map_of (vmeta (vars st v)) (kw ''private'') of None \<Rightarrow> True | Some x \<Rightarrow> \<not> is_truthy x)"

definition SetPrivate :: "nat \<Rightarrow> vstate \<Rightarrow> vstate" where
  "SetPrivate v st = SetMeta v (AList.update (kw ''private'') (VBool True) (vmeta (vars st v))) st"

end
