(* ===== verification/VarsInv.thy ===== *)
theory VarsInv
  imports Vars
begin

text \<open>
  Vars as a state machine: any goroutine may run any operation at any time, and every reachable
  state keeps the invariants that the flags stand for.

  A state of the machine is the \<open>vstate\<close> with the handles that compiled definitions published
  (\<open>handle\<close>, the typed Go closure of a var) and the frames captured by
  \<^verbatim>\<open>CloneThreadBindingFrame\<close> (\<open>snaps\<close>).
\<close>

subsection \<open>The machine\<close>

record vsys =
  vst :: vstate
  handle :: "nat \<Rightarrow> val"
  snaps :: "bframe list option list"

text \<open>A var as \<^verbatim>\<open>NewVar\<close> makes it.\<close>

definition fresh_var :: "nat \<Rightarrow> var" where
  "fresh_var v = \<lparr>vns = [], vname = [], vroot = VUnbound v, vmeta = [], dynamic = False,
                  dynamicBound = False, isMacroCached = 0, sealed = False, direct = False, watches = []\<rparr>"

definition initial :: "vsys \<Rightarrow> bool" where
  "initial s \<longleftrightarrow>
     (\<forall>v. \<exists>ns name. vars (vst s) v = (fresh_var v)\<lparr>vns := ns, vname := name\<rparr>) \<and>
     (\<forall>gid. gls (vst s) gid = None) \<and> snaps s = []"

text \<open>
  \<open>def_direct\<close> is what a compiled definition of a function emits: bind the root, publish the
  handle, arm the bit; the emitter does so for a var it does not know to be dynamic.
\<close>

inductive vstep :: "vsys \<Rightarrow> vsys \<Rightarrow> bool" where
  seal: "vstep s (s\<lparr>vst := Seal v (vst s)\<rparr>)"
| def_direct: "\<not> dynamic (vars (vst s) v) \<Longrightarrow>
    vstep s (s\<lparr>vst := SealDirect v (BindRoot v r (vst s)), handle := (handle s)(v := r)\<rparr>)"
| bind_root: "vstep s (s\<lparr>vst := BindRoot v r (vst s)\<rparr>)"
| intern: "vstep s (s\<lparr>vst := internVarRoot v r replace (vst s)\<rparr>)"
| set_dynamic: "vstep s (s\<lparr>vst := SetDynamic v (vst s)\<rparr>)"
| set_var: "SetVar gid v x (vst s) = Some st' \<Longrightarrow> vstep s (s\<lparr>vst := st'\<rparr>)"
| alter_root: "vstep s (s\<lparr>vst := snd (AlterRoot gid v alter (vst s))\<rparr>)"
| push: "vstep s (s\<lparr>vst := snd (PushThreadBindings gid bindings (vst s))\<rparr>)"
| pop: "PopThreadBindings gid (vst s) = Some st' \<Longrightarrow> vstep s (s\<lparr>vst := st'\<rparr>)"
| clone: "vstep s (s\<lparr>snaps := CloneThreadBindingFrame gid (vst s) # snaps s\<rparr>)"
| reset: "fr \<in> set (snaps s) \<Longrightarrow> vstep s (s\<lparr>vst := ResetThreadBindingFrame gid fr (vst s)\<rparr>)"
| set_meta: "vstep s (s\<lparr>vst := SetMeta v m (vst s)\<rparr>)"
| is_macro: "vstep s (s\<lparr>vst := snd (IsMacro v (vst s))\<rparr>)"
| add_watch: "vstep s (s\<lparr>vst := AddWatch v k f (vst s)\<rparr>)"
| remove_watch: "vstep s (s\<lparr>vst := RemoveWatch v k (vst s)\<rparr>)"

inductive reachable :: "vsys \<Rightarrow> bool" where
  start: "initial s \<Longrightarrow> reachable s"
| step: "reachable s \<Longrightarrow> vstep s t \<Longrightarrow> reachable t"

subsection \<open>What an operation changes\<close>

named_theorems var_ops \<open>the fields of the state after an operation\<close>

lemma upd_var_fields [simp]:
  "vars (upd_var v f st) = (vars st)(v := f (vars st v))" "gls (upd_var v f st) = gls st"
  "boxes (upd_var v f st) = boxes st" "nboxes (upd_var v f st) = nboxes st"
  by (simp_all add: upd_var_def)

lemma notify_fields [simp]:
  "vars (notifyWatches v a b st) = vars st" "gls (notifyWatches v a b st) = gls st"
  "boxes (notifyWatches v a b st) = boxes st" "nboxes (notifyWatches v a b st) = nboxes st"
  by (simp_all add: notifyWatches_def)

lemma trip_fields [simp]:
  "vars (tripIfSealed v st) = (vars st)(v := (vars st v)\<lparr>direct := False\<rparr>)"
  "gls (tripIfSealed v st) = gls st" "boxes (tripIfSealed v st) = boxes st"
  "nboxes (tripIfSealed v st) = nboxes st"
  by (auto simp: tripIfSealed_def Let_def fun_eq_iff)

lemma BindRoot_fields [var_ops]:
  "vars (BindRoot v r st) = (vars st)(v := (vars st v)\<lparr>vroot := r, direct := False\<rparr>)"
  "gls (BindRoot v r st) = gls st" "boxes (BindRoot v r st) = boxes st"
  "nboxes (BindRoot v r st) = nboxes st"
  by (auto simp: BindRoot_def Let_def)

lemma AlterRoot_fields [var_ops]:
  "vars (snd (AlterRoot gid v f st)) =
     (vars st)(v := (vars st v)\<lparr>vroot := f (Get gid v st), direct := False\<rparr>)"
  "gls (snd (AlterRoot gid v f st)) = gls st" "boxes (snd (AlterRoot gid v f st)) = boxes st"
  "nboxes (snd (AlterRoot gid v f st)) = nboxes st"
  by (auto simp: AlterRoot_def Let_def)

lemma SetDynamic_fields [var_ops]:
  "vars (SetDynamic v st) = (vars st)(v := (vars st v)\<lparr>dynamic := True, direct := False\<rparr>)"
  "gls (SetDynamic v st) = gls st" "nboxes (SetDynamic v st) = nboxes st"
  by (auto simp: SetDynamic_def Let_def fun_eq_iff)

lemma SetVar_fields:
  "SetVar gid v x st = Some st' \<Longrightarrow> vars st' = vars st \<and> gls st' = gls st \<and> nboxes st' = nboxes st"
  by (auto simp: SetVar_def split: option.splits)

lemma Pop_fields:
  "PopThreadBindings gid st = Some st' \<Longrightarrow> vars st' = vars st \<and> nboxes st' = nboxes st \<and> boxes st' = boxes st \<and>
     (\<exists>fs. gls st gid = Some fs \<and> gls st' = (gls st)(gid := if 1 < length fs then Some (tl fs) else None))"
  by (auto simp: PopThreadBindings_def split: option.splits if_splits)

text \<open>A push turns on the flag of every var it binds and touches nothing else of a var.\<close>

definition flags_grow :: "vstate \<Rightarrow> vstate \<Rightarrow> bool" where
  "flags_grow st st' \<longleftrightarrow> nboxes st \<le> nboxes st' \<and> (\<forall>b<nboxes st. boxes st' b = boxes st b) \<and>
     (\<forall>v. \<exists>b. vars st' v = (vars st v)\<lparr>dynamicBound := b\<rparr> \<and> (dynamicBound (vars st v) \<longrightarrow> b))"

lemma flags_growI:
  assumes "nboxes st \<le> nboxes st'" and "\<And>b. b < nboxes st \<Longrightarrow> boxes st' b = boxes st b"
    and "\<And>v. \<exists>b. vars st' v = (vars st v)\<lparr>dynamicBound := b\<rparr> \<and> (dynamicBound (vars st v) \<longrightarrow> b)"
  shows "flags_grow st st'"
  using assms by (auto simp: flags_grow_def)

lemma flags_grow_refl: "flags_grow st st"
proof (rule flags_growI)
  fix v
  show "\<exists>b. vars st v = (vars st v)\<lparr>dynamicBound := b\<rparr> \<and> (dynamicBound (vars st v) \<longrightarrow> b)"
    by (rule exI [of _ "dynamicBound (vars st v)"]) simp
qed auto

lemma flags_grow_trans:
  assumes "flags_grow a b" and "flags_grow b c"
  shows "flags_grow a c"
proof (rule flags_growI)
  fix v
  obtain x y where "vars b v = (vars a v)\<lparr>dynamicBound := x\<rparr>" "dynamicBound (vars a v) \<longrightarrow> x"
    "vars c v = (vars b v)\<lparr>dynamicBound := y\<rparr>" "dynamicBound (vars b v) \<longrightarrow> y"
    using assms unfolding flags_grow_def by blast
  then show "\<exists>b. vars c v = (vars a v)\<lparr>dynamicBound := b\<rparr> \<and> (dynamicBound (vars a v) \<longrightarrow> b)"
    by (intro exI [of _ y]) auto
qed (use assms in \<open>auto simp: flags_grow_def\<close>)

lemma flags_growD:
  assumes "flags_grow st st'"
  shows "dynamic (vars st' v) = dynamic (vars st v)" "direct (vars st' v) = direct (vars st v)"
    "vroot (vars st' v) = vroot (vars st v)" "vmeta (vars st' v) = vmeta (vars st v)"
    "isMacroCached (vars st' v) = isMacroCached (vars st v)"
    "dynamicBound (vars st v) \<Longrightarrow> dynamicBound (vars st' v)"
    "nboxes st \<le> nboxes st'" "b < nboxes st \<Longrightarrow> boxes st' b = boxes st b"
proof -
  obtain x where "vars st' v = (vars st v)\<lparr>dynamicBound := x\<rparr>" "dynamicBound (vars st v) \<longrightarrow> x"
    using assms unfolding flags_grow_def by blast
  then show "dynamic (vars st' v) = dynamic (vars st v)" "direct (vars st' v) = direct (vars st v)"
    "vroot (vars st' v) = vroot (vars st v)" "vmeta (vars st' v) = vmeta (vars st v)"
    "isMacroCached (vars st' v) = isMacroCached (vars st v)"
    "dynamicBound (vars st v) \<Longrightarrow> dynamicBound (vars st' v)" by auto
qed (use assms in \<open>auto simp: flags_grow_def\<close>)

text \<open>A frame whose vars are dynamic and have their flag on, and whose boxes exist.\<close>

definition frame_ok :: "vstate \<Rightarrow> bframe \<Rightarrow> bool" where
  "frame_ok st f \<longleftrightarrow>
     (\<forall>e\<in>set f. dynamic (vars st (fst e)) \<and> dynamicBound (vars st (fst e)) \<and> snd e < nboxes st)"

lemma frame_ok_mono: "flags_grow st st' \<Longrightarrow> frame_ok st f \<Longrightarrow> frame_ok st' f"
  unfolding frame_ok_def by (metis flags_growD(1,6,7) order_less_le_trans)

lemma push_entries_fields:
  "push_entries es store st = (ok, store', st') \<Longrightarrow>
     flags_grow st st' \<and> gls st' = gls st \<and> (frame_ok st store \<longrightarrow> frame_ok st' store')"
proof (induction es store st rule: push_entries.induct)
  case (2 k x es store st)
  show ?case
  proof (cases "\<exists>v. k = VVar v \<and> dynamic (vars st v)")
    case True
    then obtain v where v: "k = VVar v" "dynamic (vars st v)" by blast
    let ?st1 = "(upd_var v (\<lambda>y. y\<lparr>dynamicBound := True\<rparr>) st)\<lparr>nboxes := nboxes st + 1, boxes := (boxes st)(nboxes st := x)\<rparr>"
    let ?store1 = "AList.update v (nboxes st) store"
    have vars1: "vars ?st1 = (vars st)(v := (vars st v)\<lparr>dynamicBound := True\<rparr>)"
      and gls1: "gls ?st1 = gls st" and n1: "nboxes ?st1 = nboxes st + 1"
      by (simp_all add: upd_var_def)
    have grow: "flags_grow st ?st1"
    proof (rule flags_growI)
      fix w
      show "\<exists>b. vars ?st1 w = (vars st w)\<lparr>dynamicBound := b\<rparr> \<and> (dynamicBound (vars st w) \<longrightarrow> b)"
        unfolding vars1 by (cases "w = v") (auto intro: exI [of _ "dynamicBound (vars st w)"])
    qed (simp_all add: n1)
    have upd: "e \<in> set (AList.update v b al) \<Longrightarrow> e = (v, b) \<or> e \<in> set al" for e b and al :: bframe
      by (induction al) (auto split: if_splits)
    have "push_entries es ?store1 ?st1 = (ok, store', st')" using "2.prems" v by simp
    from "2.IH" [OF v(1) _ this] v have
      ih: "flags_grow ?st1 st'" "gls st' = gls ?st1" "frame_ok ?st1 ?store1 \<Longrightarrow> frame_ok st' store'" by auto
    have "frame_ok ?st1 ?store1" if "frame_ok st store"
      unfolding frame_ok_def vars1 n1 using that v
      by (auto simp: frame_ok_def dest!: upd)
    with ih gls1 flags_grow_trans [OF grow] show ?thesis by auto
  next
    case False
    with "2.prems" show ?thesis by (auto simp: flags_grow_refl split: val.splits)
  qed
qed (auto simp: flags_grow_refl)

lemma Push_fields:
  fixes st gid bindings
  defines "st' \<equiv> snd (PushThreadBindings gid bindings st)"
  shows "flags_grow st st'"
    and "\<exists>f. frame_ok st' f \<and>
           gls st' = (gls st)(gid := Some (f # (case gls st gid of None \<Rightarrow> [] | Some fs \<Rightarrow> fs)))"
proof -
  obtain ok store st1 where p: "push_entries bindings [] st = (ok, store, st1)"
    by (cases "push_entries bindings [] st") auto
  have "frame_ok st []" by (simp add: frame_ok_def)
  with push_entries_fields [OF p] have g: "flags_grow st st1" "gls st1 = gls st" "frame_ok st1 store" by auto
  moreover have "vars st' = vars st1" "nboxes st' = nboxes st1" "boxes st' = boxes st1"
    by (simp_all add: st'_def PushThreadBindings_def p)
  ultimately show "flags_grow st st'" by (simp add: flags_grow_def)
  show "\<exists>f. frame_ok st' f \<and>
      gls st' = (gls st)(gid := Some (f # (case gls st gid of None \<Rightarrow> [] | Some fs \<Rightarrow> fs)))"
    using g \<open>vars st' = vars st1\<close> \<open>nboxes st' = nboxes st1\<close>
    by (intro exI [of _ store]) (auto simp: st'_def PushThreadBindings_def p frame_ok_def)
qed

subsection \<open>The invariant\<close>

text \<open>
  Frames hold dynamic vars with their flag on; an armed var is not dynamic and its root is the
  published handle; the macro flag, when known, is what the metadata says.
\<close>

definition frames_ok :: "vstate \<Rightarrow> bframe list option \<Rightarrow> bool" where
  "frames_ok st fr \<longleftrightarrow> (\<forall>f\<in>\<Union> (set ` set_option fr). frame_ok st f)"

definition var_ok :: "var \<Rightarrow> val \<Rightarrow> bool" where
  "var_ok x h \<longleftrightarrow>
     (direct x \<longrightarrow> \<not> dynamic x \<and> vroot x = h) \<and>
     (isMacroCached x \<noteq> 0 \<longrightarrow>
        isMacroCached x = (if map_of (vmeta x) (kw ''macro'') = Some (VBool True) then 2 else 1))"

definition vinvariant :: "vsys \<Rightarrow> bool" where
  "vinvariant s \<longleftrightarrow>
     (\<forall>gid. frames_ok (vst s) (gls (vst s) gid)) \<and> (\<forall>fr\<in>set (snaps s). frames_ok (vst s) fr) \<and>
     (\<forall>v. var_ok (vars (vst s) v) (handle s v))"

lemma frames_ok_mono:
  assumes "\<And>v. dynamic (vars st v) \<Longrightarrow> dynamic (vars st' v)"
    and "\<And>v. dynamicBound (vars st v) \<Longrightarrow> dynamicBound (vars st' v)"
    and "nboxes st \<le> nboxes st'" and "frames_ok st fr"
  shows "frames_ok st' fr"
  using assms by (fastforce simp: frames_ok_def frame_ok_def)

text \<open>An operation that keeps the frames, and the two flags of every var, keeps their part.\<close>

lemma vinvariant_vars:
  assumes "vinvariant s" and "gls st' = gls (vst s)" and "nboxes (vst s) \<le> nboxes st'"
    and "\<And>v. dynamic (vars (vst s) v) \<Longrightarrow> dynamic (vars st' v)"
    and "\<And>v. dynamicBound (vars (vst s) v) \<Longrightarrow> dynamicBound (vars st' v)"
    and "\<And>v. var_ok (vars (vst s) v) (handle s v) \<Longrightarrow> var_ok (vars st' v) (h v)"
  shows "vinvariant (s\<lparr>vst := st', handle := h\<rparr>)"
  using assms frames_ok_mono [of "vst s" st'] unfolding vinvariant_def by simp

lemmas vinvariant_state = vinvariant_vars [where h = "handle s" and s = s for s, simplified]

lemma vinvariant_push:
  assumes "vinvariant s"
  shows "vinvariant (s\<lparr>vst := snd (PushThreadBindings gid bindings (vst s))\<rparr>)"
proof -
  let ?st = "snd (PushThreadBindings gid bindings (vst s))"
  note grow = Push_fields(1) [of "vst s" gid bindings]
  obtain f where f: "frame_ok ?st f"
    "gls ?st = (gls (vst s))(gid := Some (f # (case gls (vst s) gid of None \<Rightarrow> [] | Some fs \<Rightarrow> fs)))"
    using Push_fields(2) by blast
  have old: "frames_ok (vst s) fr \<Longrightarrow> frames_ok ?st fr" for fr
    by (rule frames_ok_mono) (use flags_growD [OF grow] in auto)
  have "frames_ok ?st (gls ?st g)" for g
    using assms f old [of "gls (vst s) g"] unfolding vinvariant_def
    by (auto simp: frames_ok_def split: option.splits)
  moreover have "\<forall>fr\<in>set (snaps s). frames_ok ?st fr"
    using assms old unfolding vinvariant_def by blast
  moreover have "var_ok (vars ?st v) (handle s v)" for v
    using assms unfolding vinvariant_def var_ok_def by (simp add: flags_growD [OF grow])
  ultimately show ?thesis by (simp add: vinvariant_def)
qed

lemma vinvariant_pop:
  assumes "vinvariant s" and "PopThreadBindings gid (vst s) = Some st'"
  shows "vinvariant (s\<lparr>vst := st'\<rparr>)"
proof -
  from Pop_fields [OF assms(2)] obtain fs where
    fs: "vars st' = vars (vst s)" "nboxes st' = nboxes (vst s)" "gls (vst s) gid = Some fs"
      "gls st' = (gls (vst s))(gid := if 1 < length fs then Some (tl fs) else None)" by blast
  have same: "frames_ok st' fr = frames_ok (vst s) fr" for fr
    by (simp add: frames_ok_def frame_ok_def fs)
  have "frames_ok (vst s) (Some (tl fs))" if "frames_ok (vst s) (Some fs)"
    using that by (cases fs) (auto simp: frames_ok_def)
  with assms(1) fs same show ?thesis
    by (auto simp: vinvariant_def) (auto simp: frames_ok_def)
qed

lemma vinvariant_step: "vstep s t \<Longrightarrow> vinvariant s \<Longrightarrow> vinvariant t"
proof (induction rule: vstep.induct)
  case (set_var gid v x s st')
  with SetVar_fields [OF set_var(1)] show ?case by (intro vinvariant_state) auto
next
  case (reset fr s gid)
  then show ?case by (auto simp: vinvariant_def ResetThreadBindingFrame_def frames_ok_def frame_ok_def)
next
  case (clone s gid)
  then show ?case by (auto simp: vinvariant_def CloneThreadBindingFrame_def)
next
  case (def_direct s v r)
  then show ?case
    by (intro vinvariant_vars) (auto simp: SealDirect_def var_ops var_ok_def)
next
  case (is_macro s v)
  then show ?case
    by (intro vinvariant_state) (auto simp: IsMacro_def Let_def meta_macro_def var_ok_def)
next
  case (push s gid bindings)
  then show ?case by (intro vinvariant_push)
next
  case (pop gid s st')
  then show ?case by (intro vinvariant_pop)
qed (auto intro!: vinvariant_state
    simp: Seal_def var_ops internVarRoot_def SetMeta_def SetMeta_store_def
      SetMeta_invalidate_def AddWatch_def RemoveWatch_def var_ok_def)

lemma reachable_invariant: "reachable s \<Longrightarrow> vinvariant s"
proof (induction rule: reachable.induct)
  case (start s)
  have "var_ok (vars (vst s) v) h" for v h
  proof -
    from start obtain ns name where "vars (vst s) v = (fresh_var v)\<lparr>vns := ns, vname := name\<rparr>"
      unfolding initial_def by blast
    then show ?thesis by (simp add: var_ok_def fresh_var_def)
  qed
  with start show ?case by (simp add: initial_def vinvariant_def frames_ok_def)
qed (rule vinvariant_step)

subsection \<open>Consequences\<close>

lemma frames_get_in: "frames_get fs v = Some b \<Longrightarrow> \<exists>f\<in>set fs. (v, b) \<in> set f"
proof (induction fs)
  case (Cons f fs)
  then show ?case by (cases "map_of f v") (auto dest!: map_of_SomeD)
qed simp

lemma binding_flags:
  assumes "vinvariant s" and "gls (vst s) gid = Some fs" and "frames_get fs v = Some b"
  shows "dynamic (vars (vst s) v)" "dynamicBound (vars (vst s) v)" "b < nboxes (vst s)"
  using assms frames_get_in [OF assms(3)]
  by (fastforce simp: vinvariant_def frames_ok_def frame_ok_def dest!: spec [of _ gid])+

text \<open>A concrete history: a dynamic var bound in a frame, and a function var defined directly.\<close>

definition vst0 :: vstate where
  "vst0 = \<lparr>nvars = 0, vars = fresh_var, nboxes = 0, boxes = (\<lambda>_. VNil), gls = (\<lambda>_. None),
           CoreArithDirty = False, calls = []\<rparr>"

definition vsys0 :: vsys where
  "vsys0 = \<lparr>vst = vst0, handle = (\<lambda>_. VNil), snaps = []\<rparr>"

lemma vsys0_reachable: "reachable vsys0"
proof (rule start)
  have "fresh_var v = (fresh_var v)\<lparr>vns := [], vname := []\<rparr>" for v by (simp add: fresh_var_def)
  then show "initial vsys0" unfolding initial_def vsys0_def vst0_def by simp metis
qed

lemma vsys0_steps:
  "reachable (vsys0\<lparr>vst := snd (PushThreadBindings 1 [(VVar 2, VInt 5)] (SetDynamic 2 vst0))\<rparr>)"
  "reachable (vsys0\<lparr>vst := SealDirect 3 (BindRoot 3 (VFn 9) vst0), handle := (\<lambda>_. VNil)(3 := VFn 9)\<rparr>)"
proof -
  have "reachable (vsys0\<lparr>vst := SetDynamic 2 vst0\<rparr>)"
    using step [OF vsys0_reachable set_dynamic [of vsys0 2]] by (simp add: vsys0_def)
  from step [OF this push [of _ 1 "[(VVar 2, VInt 5)]"]]
  show "reachable (vsys0\<lparr>vst := snd (PushThreadBindings 1 [(VVar 2, VInt 5)] (SetDynamic 2 vst0))\<rparr>)" by simp
  have "vstep vsys0 (vsys0\<lparr>vst := SealDirect 3 (BindRoot 3 (VFn 9) (vst vsys0)), handle := (handle vsys0)(3 := VFn 9)\<rparr>)"
    by (rule def_direct) (simp add: vsys0_def vst0_def fresh_var_def)
  from step [OF vsys0_reachable this]
  show "reachable (vsys0\<lparr>vst := SealDirect 3 (BindRoot 3 (VFn 9) vst0), handle := (\<lambda>_. VNil)(3 := VFn 9)\<rparr>)"
    by (simp add: vsys0_def)
qed

text \<open>C5. The flag \<open>dynamicBound\<close> never hides a binding: in every reachable state, on every
  goroutine, a read of a var that skips the frames because the flag is off returns what a scan of
  the goroutine's frames would have returned.\<close>

theorem dynamicBound_sound:
  assumes "reachable s"
  shows "Get gid v (vst s) =
    (case gls (vst s) gid of
       None \<Rightarrow> vroot (vars (vst s) v)
     | Some fs \<Rightarrow> (case frames_get fs v of None \<Rightarrow> vroot (vars (vst s) v) | Some b \<Rightarrow> boxes (vst s) b))"
  using binding_flags [OF reachable_invariant [OF assms], of gid _ v]
  by (auto simp: Get_def Deref_def getDynamicBinding_def split: option.splits)

lemma dynamicBound_sound_witness:
  "Get 1 2 (snd (PushThreadBindings 1 [(VVar 2, VInt 5)] (SetDynamic 2 vst0))) = VInt 5"
  using dynamicBound_sound [OF vsys0_steps(1), of 1 2]
  by (simp add: PushThreadBindings_def SetDynamic_def vst0_def fresh_var_def upd_var_def vsys0_def)



text \<open>C9. Run one after the other, the operations keep the macro cache honest: in every reachable
  state \<open>IsMacro\<close> answers what the var's metadata says.\<close>

theorem IsMacro_correct:
  assumes "reachable s"
  shows "fst (IsMacro v (vst s)) \<longleftrightarrow> meta_macro v (vst s)"
  using reachable_invariant [OF assms]
  by (auto simp: vinvariant_def var_ok_def IsMacro_def meta_macro_def Let_def split: if_splits
      dest!: spec [of _ v])

lemma IsMacro_correct_witness: "\<not> fst (IsMacro 3 (vst vsys0))"
  using IsMacro_correct [OF vsys0_reachable, of 3]
  by (simp add: meta_macro_def vsys0_def vst0_def fresh_var_def)

text \<open>The two stores of \<open>SetMeta\<close> are not one step: a reader between them caches the old
  answer, and a var that has just become a macro is never seen as one again.\<close>

theorem SetMeta_race:
  "\<exists>st st1 st2. isMacroCached (vars st v) = 0 \<and> \<not> meta_macro v st \<and>
     st1 = snd (IsMacro v (SetMeta_invalidate v st)) \<and>
     st2 = SetMeta_store v [(kw ''macro'', VBool True)] st1 \<and>
     meta_macro v st2 \<and> \<not> fst (IsMacro v st2)"
  by (rule exI [of _ vst0])
    (simp add: vst0_def fresh_var_def IsMacro_def meta_macro_def SetMeta_invalidate_def
      SetMeta_store_def upd_var_def kw_def)

text \<open>\<open>AlterRoot\<close> applies its function to what the calling goroutine reads, its thread
  binding when it has one, so a root altered inside a binding form is computed from the binding
  and not from the root.\<close>

theorem AlterRoot_reads_binding:
  assumes "getDynamicBinding gid v st = Some b"
  shows "vroot (vars (snd (AlterRoot gid v f st)) v) = f (boxes st b)"
  using assms by (auto simp: var_ops Get_def Deref_def getDynamicBinding_def split: if_splits)

lemma AlterRoot_reads_binding_witness:
  "vroot (vars (snd (AlterRoot 1 2 (\<lambda>x. x) (snd (PushThreadBindings 1 [(VVar 2, VInt 5)] (SetDynamic 2 vst0))))) 2)
     = VInt 5"
  by (subst AlterRoot_reads_binding [of 1 2 _ 0])
    (simp_all add: PushThreadBindings_def SetDynamic_def vst0_def fresh_var_def upd_var_def getDynamicBinding_def)

subsection \<open>Push and pop\<close>

text \<open>C7. Push then pop is invisible: whatever the bindings, and also when the push panicked
  half way, after the pop every var reads on every goroutine as it did before the push.\<close>

theorem push_pop_restores:
  assumes "reachable s"
    and "PopThreadBindings gid (snd (PushThreadBindings gid bindings (vst s))) = Some st2"
  shows "Get g v st2 = Get g v (vst s)"
proof -
  let ?st1 = "snd (PushThreadBindings gid bindings (vst s))"
  note grow = flags_growD [OF Push_fields(1) [of "vst s" gid bindings]]
  note old = binding_flags [OF reachable_invariant [OF assms(1)], of g _ v]
  obtain f where "gls ?st1 = (gls (vst s))(gid := Some (f # (case gls (vst s) gid of None \<Rightarrow> [] | Some fs \<Rightarrow> fs)))"
    using Push_fields(2) by blast
  with Pop_fields [OF assms(2)] have st2: "vars st2 = vars ?st1" "boxes st2 = boxes ?st1"
    "(case gls st2 g of None \<Rightarrow> [] | Some fs \<Rightarrow> fs) = (case gls (vst s) g of None \<Rightarrow> [] | Some fs \<Rightarrow> fs)"
    by (auto split: option.splits if_splits)
  have get: "Get g v st = (if dynamicBound (vars st v)
      then case frames_get (case gls st g of None \<Rightarrow> [] | Some fs \<Rightarrow> fs) v of
             None \<Rightarrow> vroot (vars st v) | Some b \<Rightarrow> boxes st b
      else vroot (vars st v))" for st
    by (auto simp: Get_def Deref_def getDynamicBinding_def split: option.split)
  show ?thesis
    unfolding get st2 using grow old by (auto split: option.splits)
qed

lemma push_pop_restores_witness:
  "\<exists>st2. PopThreadBindings 1 (snd (PushThreadBindings 1 [(VVar 2, VInt 5)] (vst vsys0))) = Some st2 \<and>
     Get 1 2 st2 = Get 1 2 (vst vsys0)"
proof -
  obtain st2 where "PopThreadBindings 1 (snd (PushThreadBindings 1 [(VVar 2, VInt 5)] (vst vsys0))) = Some st2"
    by (simp add: PopThreadBindings_def PushThreadBindings_def vsys0_def vst0_def fresh_var_def)
  with push_pop_restores [OF vsys0_reachable this] show ?thesis by blast
qed

end
