(* ===== verification/Namespaces.thy ===== *)
theory Namespaces
  imports VarsInv
begin

text \<open>
  \<^verbatim>\<open>pkg/lang/namespace.go\<close> and the var resolution of \<^verbatim>\<open>pkg/corelib/resolve.go\<close>:
  mappings and aliases of namespaces, interning, referring, and the lookup of a symbol.

  A namespace is its name (removing a namespace is left out, so a name always means the same
  namespace); the compare-and-swap loops are single steps.
\<close>

record nspace =
  nmappings :: "string \<Rightarrow> val option"
  naliases :: "string \<Rightarrow> string option"

record nworld =
  namespaces :: "string \<Rightarrow> nspace option"
  nvst :: vstate

definition FindNamespace :: "string \<Rightarrow> nworld \<Rightarrow> nspace option" where
  "FindNamespace name w = namespaces w name"

definition empty_ns :: nspace where
  "empty_ns = \<lparr>nmappings = (\<lambda>_. None), naliases = (\<lambda>_. None)\<rparr>"

definition FindOrCreateNamespace :: "string \<Rightarrow> nworld \<Rightarrow> nspace \<times> nworld" where
  "FindOrCreateNamespace name w =
     (case FindNamespace name w of
        Some ns \<Rightarrow> (ns, w)
      | None \<Rightarrow> (empty_ns, w\<lparr>namespaces := (namespaces w)(name \<mapsto> empty_ns)\<rparr>))"

text \<open>The mappings and aliases of the namespace named; a namespace that a symbol was found in exists.\<close>

definition the_ns :: "string \<Rightarrow> nworld \<Rightarrow> nspace" where
  "the_ns name w = (case namespaces w name of Some ns \<Rightarrow> ns | None \<Rightarrow> empty_ns)"

definition set_mapping :: "string \<Rightarrow> string \<Rightarrow> val option \<Rightarrow> nworld \<Rightarrow> nworld" where
  "set_mapping ns s v w =
     w\<lparr>namespaces := (namespaces w)(ns \<mapsto> (the_ns ns w)\<lparr>nmappings := (nmappings (the_ns ns w))(s := v)\<rparr>)\<rparr>"

definition set_alias :: "string \<Rightarrow> string \<Rightarrow> string option \<Rightarrow> nworld \<Rightarrow> nworld" where
  "set_alias ns a t w =
     w\<lparr>namespaces := (namespaces w)(ns \<mapsto> (the_ns ns w)\<lparr>naliases := (naliases (the_ns ns w))(a := t)\<rparr>)\<rparr>"

definition isInternedMapping :: "string \<Rightarrow> string \<Rightarrow> val \<Rightarrow> nworld \<Rightarrow> bool" where
  "isInternedMapping ns s o' w =
     (case o' of VVar v \<Rightarrow> vns (vars (nvst w) v) = ns \<and> vname (vars (nvst w) v) = s | _ \<Rightarrow> False)"

text \<open>The warnings go to the error stream and are left out.\<close>

definition checkReplacement :: "string \<Rightarrow> string \<Rightarrow> val \<Rightarrow> nworld \<Rightarrow> bool" where
  "checkReplacement ns s old w \<longleftrightarrow>
     \<not> (case old of VVar _ \<Rightarrow> isInternedMapping ns s old w | _ \<Rightarrow> False)"

text \<open>\<open>VVar\<close> or another host value that a name is mapped to; the last result is the panic of
  \<^verbatim>\<open>o.(*Var)\<close> when the name is mapped to a value that is no var.\<close>

definition Intern :: "string \<Rightarrow> string \<Rightarrow> nworld \<Rightarrow> nat option \<times> nworld" where
  "Intern ns s w =
     (case nmappings (the_ns ns w) s of
        None \<Rightarrow>
          (let (v, st) = NewVar ns s (nvst w)
           in (Some v, set_mapping ns s (Some (VVar v)) (w\<lparr>nvst := st\<rparr>)))
      | Some o' \<Rightarrow>
          if isInternedMapping ns s o' w then (case o' of VVar v \<Rightarrow> (Some v, w) | _ \<Rightarrow> (None, w))
          else (let (v, st) = NewVar ns s (nvst w); w1 = w\<lparr>nvst := st\<rparr>
                in if checkReplacement ns s o' w1
                   then (Some v, set_mapping ns s (Some (VVar v)) w1)
                   else (case o' of VVar v' \<Rightarrow> (Some v', w1) | _ \<Rightarrow> (None, w1))))"

text \<open>\<^verbatim>\<open>reference\<close>, which \<^verbatim>\<open>Refer\<close> calls; the symbol has no namespace and the value is not nil.\<close>

definition reference :: "string \<Rightarrow> string \<Rightarrow> val \<Rightarrow> nworld \<Rightarrow> val \<times> nworld" where
  "reference ns s v w =
     (case nmappings (the_ns ns w) s of
        None \<Rightarrow> (v, set_mapping ns s (Some v) w)
      | Some o' \<Rightarrow>
          if isInternedMapping ns s o' w then (o', w)
          else if o' = v then (o', w)
          else if checkReplacement ns s o' w then (v, set_mapping ns s (Some v) w)
          else (o', w))"

definition Refer :: "string \<Rightarrow> string \<Rightarrow> nat \<Rightarrow> nworld \<Rightarrow> val \<times> nworld" where
  "Refer ns s v w = reference ns s (VVar v) w"

definition Unmap :: "string \<Rightarrow> string \<Rightarrow> nworld \<Rightarrow> nworld" where
  "Unmap ns s w = (if nmappings (the_ns ns w) s \<noteq> None then set_mapping ns s None w else w)"

definition FindInternedVar :: "string \<Rightarrow> string \<Rightarrow> nworld \<Rightarrow> nat option" where
  "FindInternedVar ns s w =
     (case nmappings (the_ns ns w) s of
        Some (VVar v) \<Rightarrow> if vns (vars (nvst w) v) = ns then Some v else None
      | _ \<Rightarrow> None)"

definition LookupAlias :: "string \<Rightarrow> string \<Rightarrow> nworld \<Rightarrow> string option" where
  "LookupAlias ns a w = naliases (the_ns ns w) a"

text \<open>\<open>None\<close> is the panic of an alias that already names another namespace.\<close>

definition AddAlias :: "string \<Rightarrow> string \<Rightarrow> string \<Rightarrow> nworld \<Rightarrow> nworld option" where
  "AddAlias ns a t w =
     (case LookupAlias ns a w of
        None \<Rightarrow> Some (set_alias ns a (Some t) w)
      | Some t' \<Rightarrow> if t' = t then Some w else None)"

definition RemoveAlias :: "string \<Rightarrow> string \<Rightarrow> nworld \<Rightarrow> nworld" where
  "RemoveAlias ns a w = (if LookupAlias ns a w \<noteq> None then set_alias ns a None w else w)"

text \<open>
  \<^verbatim>\<open>corelib.ResolveVar\<close> in the current namespace \<open>cur\<close>; \<open>classVar\<close> stands for the two last
  resorts, the table of class names.
\<close>

definition resolve_var :: "(string \<Rightarrow> nat option) \<Rightarrow> string \<Rightarrow> val \<Rightarrow> nworld \<Rightarrow> aerr + nat" where
  "resolve_var classVar cur s w =
     (case s of
        VSym _ (Some q) n \<Rightarrow>
          (case (case LookupAlias cur q w of
                   Some t \<Rightarrow> Some t
                 | None \<Rightarrow> if FindNamespace q w \<noteq> None then Some q else None) of
             None \<Rightarrow> Inl (AMsg ''no such namespace: %s'' [MStr q])
           | Some ns \<Rightarrow>
               (case FindInternedVar ns n w of
                  Some v \<Rightarrow> Inr v
                | None \<Rightarrow> Inl (AMsg ''no such var: %s'' [MStr (q @ ''/'' @ n)])))
      | VSym _ None n \<Rightarrow>
          (case nmappings (the_ns cur w) n of
             Some (VVar v) \<Rightarrow> Inr v
           | _ \<Rightarrow>
               (case classVar n of
                  Some v \<Rightarrow> Inr v
                | None \<Rightarrow> Inl (AMsg ''unable to resolve symbol: %s in this context'' [MStr n])))
      | _ \<Rightarrow> Inl (AMsg ''not a symbol'' []))"

subsection \<open>Properties\<close>

text \<open>Vars are numbered in the order they are made, and mappings name vars that exist.\<close>

definition mapped_below :: "nworld \<Rightarrow> bool" where
  "mapped_below w \<longleftrightarrow>
     (\<forall>ns s v. nmappings (the_ns ns w) s = Some (VVar v) \<longrightarrow> v < nvars (nvst w))"

lemma the_ns_set_mapping [simp]:
  "nmappings (the_ns ns (set_mapping ns' s v w)) =
     (if ns = ns' then (nmappings (the_ns ns w))(s := v) else nmappings (the_ns ns w))"
  "naliases (the_ns ns (set_mapping ns' s v w)) = naliases (the_ns ns w)"
  "nvst (set_mapping ns' s v w) = nvst w"
  by (auto simp: the_ns_def set_mapping_def)

lemma the_ns_vst [simp]: "the_ns ns (w\<lparr>nvst := st\<rparr>) = the_ns ns w"
  by (simp add: the_ns_def)

lemma NewVar_fields:
  "NewVar ns s st = (v, st') \<Longrightarrow> v = nvars st \<and> nvars st' = nvars st + 1 \<and>
     vns (vars st' v) = ns \<and> vname (vars st' v) = s \<and> (\<forall>u. u \<noteq> v \<longrightarrow> vars st' u = vars st u)"
  by (auto simp: NewVar_def)

text \<open>Interning returns a var of the namespace, under the name, that the mapping now names.\<close>

lemma Intern_owns:
  assumes "\<And>o'. nmappings (the_ns ns w) s = Some o' \<Longrightarrow> \<exists>v. o' = VVar v"
  shows "\<exists>v w'. Intern ns s w = (Some v, w') \<and> nmappings (the_ns ns w') s = Some (VVar v) \<and>
    vns (vars (nvst w') v) = ns \<and> vname (vars (nvst w') v) = s"
proof (cases "nmappings (the_ns ns w) s")
  case None
  then show ?thesis by (auto simp: Intern_def NewVar_def)
next
  case (Some o')
  with assms obtain u where u: "o' = VVar u" by blast
  show ?thesis
  proof (cases "isInternedMapping ns s o' w")
    case True
    then show ?thesis using Some u by (simp add: Intern_def isInternedMapping_def)
  next
    case False
    obtain v st where nv: "NewVar ns s (nvst w) = (v, st)" by fastforce
    have f: "vns (vars st v) = ns" "vname (vars st v) = s" using NewVar_fields [OF nv] by auto
    have i: "Intern ns s w = (if checkReplacement ns s o' (w\<lparr>nvst := st\<rparr>)
        then (Some v, set_mapping ns s (Some (VVar v)) (w\<lparr>nvst := st\<rparr>)) else (Some u, w\<lparr>nvst := st\<rparr>))"
      using Some u False nv by (simp add: Intern_def Let_def)
    show ?thesis
    proof (cases "checkReplacement ns s o' (w\<lparr>nvst := st\<rparr>)")
      case True
      then show ?thesis using i f by simp
    next
      case False
      then have "vns (vars st u) = ns \<and> vname (vars st u) = s"
        using u by (simp add: checkReplacement_def isInternedMapping_def)
      then show ?thesis using False i Some u by simp
    qed
  qed
qed


definition nworld0 :: nworld where
  "nworld0 = \<lparr>namespaces = (\<lambda>_. None), nvst = vst0\<rparr>"


text \<open>Referring never takes a name away from the namespace that owns it: when a name is mapped to
  a var interned there, a refer of any other var under that name is refused and changes nothing.\<close>

theorem refer_keeps_own_vars:
  assumes "FindInternedVar ns s w = Some u" and "vname (vars (nvst w) u) = s"
  shows "Refer ns s v w = (VVar u, w)"
proof -
  have "nmappings (the_ns ns w) s = Some (VVar u)" "vns (vars (nvst w) u) = ns"
    using assms(1) by (auto simp: FindInternedVar_def split: option.splits val.splits if_splits)
  with assms(2) show ?thesis by (simp add: Refer_def reference_def isInternedMapping_def)
qed

lemma refer_keeps_own_vars_witness:
  "Refer ''user'' ''x'' 9 (snd (Intern ''user'' ''x'' nworld0)) = (VVar 0, snd (Intern ''user'' ''x'' nworld0))"
  by (rule refer_keeps_own_vars)
    (simp_all add: FindInternedVar_def Intern_def nworld0_def the_ns_def empty_ns_def NewVar_def vst0_def
      set_mapping_def)

end
