(* ===== verification/Eval.thy ===== *)
theory Eval
  imports Exceptions AnalyzerTotal Namespaces
begin

text \<open>
  \<^verbatim>\<open>pkg/eval\<close>: the tree-walk evaluator (\<^verbatim>\<open>eval.go\<close>, \<^verbatim>\<open>fn.go\<close>, \<^verbatim>\<open>scope.go\<close>,
  \<^verbatim>\<open>recur.go\<close>, \<^verbatim>\<open>exceptions.go\<close>, \<^verbatim>\<open>macro.go\<close>, \<^verbatim>\<open>host.go\<close>, \<^verbatim>\<open>builtins.go\<close>).

  A Go call returns, panics, or (in the model) runs out of fuel: the monad \<open>go\<close> over the
  evaluator's whole state.  \<^verbatim>\<open>Eval\<close> returns \<^verbatim>\<open>(any, error)\<close>, a sum inside that monad;
  \<^verbatim>\<open>IFn.Invoke\<close> returns \<^verbatim>\<open>any\<close> only.  The two internal errors of the evaluator are
  constructors of their own, so that a statement can say they never occur.

  Every operation takes \<open>ev\<close> and \<open>ap\<close>, the recursive calls of \<^verbatim>\<open>Eval\<close> and
  \<^verbatim>\<open>lang.Apply\<close>; the last section ties the knot on fuel.
\<close>

subsection \<open>State\<close>

type_synonym scope = "(string \<times> val) list list"

record closure =
  cmethods :: "node fn_method list"
  cself :: "binding option"
  cform :: val
  cenv :: scope
  cdefName :: string

text \<open>\<open>heap\<close> holds the closures made so far, under the numbers below \<open>nheap\<close>; \<open>nat_world\<close> is
  whatever the functions written in Go keep.\<close>

record 'w estate =
  nsw :: nworld
  heap :: "nat \<Rightarrow> closure option"
  nheap :: nat
  gid :: nat
  hostAliases :: "(string \<times> (string \<times> string) list) list"
  nat_world :: 'w

type_synonym 'w gstate = "'w estate astate"

text \<open>\<open>GRecur\<close> is a panic whose value is a \<^verbatim>\<open>*recurSignal\<close>.\<close>

datatype 'a gres = GRet 'a | GPanic val | GRecur string "val list" | GFuel

type_synonym ('w, 'a) go = "'w gstate \<Rightarrow> 'a gres \<times> 'w gstate"

datatype goerr = ErrRecur string "val list" | ErrUnbound string | Err val

type_synonym ('w, 'a) em = "('w, goerr + 'a) go"

definition gret :: "'a \<Rightarrow> ('w, 'a) go" where
  "gret x s = (GRet x, s)"

definition gpanic :: "val \<Rightarrow> ('w, 'a) go" where
  "gpanic p s = (GPanic p, s)"

definition gfuel :: "('w, 'a) go" where
  "gfuel s = (GFuel, s)"

definition gbind :: "('w, 'a) go \<Rightarrow> ('a \<Rightarrow> ('w, 'b) go) \<Rightarrow> ('w, 'b) go" where
  "gbind m f s = (case m s of (GRet x, s') \<Rightarrow> f x s' | (GPanic p, s') \<Rightarrow> (GPanic p, s')
     | (GRecur i vs, s') \<Rightarrow> (GRecur i vs, s') | (GFuel, s') \<Rightarrow> (GFuel, s'))"

definition eret :: "'a \<Rightarrow> ('w, 'a) em" where
  "eret x = gret (Inr x)"

definition eerr :: "goerr \<Rightarrow> ('w, 'a) em" where
  "eerr e = gret (Inl e)"

text \<open>\<^verbatim>\<open>if err != nil { return nil, err }\<close>\<close>

definition ebind :: "('w, 'a) em \<Rightarrow> ('a \<Rightarrow> ('w, 'b) em) \<Rightarrow> ('w, 'b) em" where
  "ebind m f = gbind m (\<lambda>r. case r of Inl e \<Rightarrow> eerr e | Inr x \<Rightarrow> f x)"

definition ecall :: "('w, 'a) go \<Rightarrow> ('w, 'a) em" where
  "ecall m = gbind m eret"

definition get_world :: "('w estate \<Rightarrow> 'a) \<Rightarrow> ('w, 'a) go" where
  "get_world f s = (GRet (f (world s)), s)"

definition upd_world :: "('w estate \<Rightarrow> 'w estate) \<Rightarrow> ('w, unit) go" where
  "upd_world f s = (GRet (), s\<lparr>world := f (world s)\<rparr>)"

definition upd_vst :: "(vstate \<Rightarrow> vstate) \<Rightarrow> 'w estate \<Rightarrow> 'w estate" where
  "upd_vst f w = w\<lparr>nsw := (nsw w)\<lparr>nvst := f (nvst (nsw w))\<rparr>\<rparr>"

abbreviation vst_of :: "'w estate \<Rightarrow> vstate" where
  "vst_of w \<equiv> nvst (nsw w)"

fun emap :: "('x \<Rightarrow> ('w, 'y) em) \<Rightarrow> 'x list \<Rightarrow> ('w, 'y list) em" where
  "emap f [] = eret []"
| "emap f (x # xs) = ebind (f x) (\<lambda>y. ebind (emap f xs) (\<lambda>ys. eret (y # ys)))"

text \<open>Errors as the values they are in Go's \<^verbatim>\<open>any\<close>; the panic with an error.\<close>

definition recur_error :: "string \<Rightarrow> val" where
  "recur_error i = VError ''recurSignal'' (''internal error: recur signal for '' @ i @ '' escaped its loop'')"

fun err_val :: "goerr \<Rightarrow> val" where
  "err_val (ErrRecur i vs) = recur_error i"
| "err_val (ErrUnbound x) = VError ''errorString'' (''internal error: unbound local: '' @ x)"
| "err_val (Err v) = v"

definition panic_err :: "goerr \<Rightarrow> ('w, 'a) go" where
  "panic_err e s = (case e of ErrRecur i vs \<Rightarrow> (GRecur i vs, s) | _ \<Rightarrow> (GPanic (err_val e), s))"

definition errorf :: "string \<Rightarrow> ('w, 'a) em" where
  "errorf msg = eerr (Err (VError ''errorString'' msg))"

definition panicf :: "string \<Rightarrow> ('w, 'a) go" where
  "panicf msg = gpanic (VError ''errorString'' msg)"

text \<open>Panics of the Go runtime: a nil dereference, a failed type assertion, an index out of range.\<close>

definition runtime_panic :: "('w, 'a) go" where
  "runtime_panic = gpanic (VError ''runtime.Error'' [])"

subsection \<open>What the evaluator calls\<close>

text \<open>The reflective operations of \<^verbatim>\<open>corelib\<close>, and the evaluator's own builtins.\<close>

datatype hostop =
    CallHostFn string string "val list" bool
  | HostFnValue string string
  | HostConst string string
  | CallGoMethod val string bool "val list"
  | GoFieldGet val string
  | GoFieldSet val string val
  | NewGoStruct string string
  | MakeGoStruct string string val

datatype builtin = BEval | BMacroexpand1 | BMacroexpand | BRequireGo

type_synonym 'w applyfn = "val \<Rightarrow> val list \<Rightarrow> ('w, val) go"
type_synonym 'w evalfn = "node \<Rightarrow> scope \<Rightarrow> ('w, val) em"

text \<open>
  \<open>native\<close> is the body of a function written in Go, \<open>invoke_other\<close> the application of keywords,
  symbols, collections and other objects; both may call back through the function they get.
  \<open>hash_map\<close> and \<open>hash_set\<close> are the contents of the persistent maps and sets built from
  entries, \<open>host_kind\<close> is \<^verbatim>\<open>LookupHostMember\<close>, whether the member is a function, and
  \<open>show_val\<close> and \<open>PrintString\<close> the text of a value.  \<open>identical\<close> says whether a macro handed back the very call form.
\<close>

record 'w rt =
  native :: "nat \<Rightarrow> 'w applyfn \<Rightarrow> val list \<Rightarrow> ('w, val) go"
  builtins :: "nat \<Rightarrow> builtin option"
  invoke_other :: "val \<Rightarrow> 'w applyfn \<Rightarrow> val list \<Rightarrow> ('w, val) go"
  host :: "hostop \<Rightarrow> 'w applyfn \<Rightarrow> ('w, val) go"
  host_kind :: "string \<Rightarrow> string \<Rightarrow> bool option"
  host_type :: "string \<Rightarrow> string \<Rightarrow> bool"
  hash_map :: "(val \<times> val) list \<Rightarrow> (val \<times> val) list"
  hash_set :: "val list \<Rightarrow> val list"
  class_var :: "string \<Rightarrow> nat option"
  is_ifn_opaque :: "nat \<Rightarrow> bool"
  identical :: "val \<Rightarrow> val \<Rightarrow> bool"
  show_val :: "val \<Rightarrow> string"
  PrintString :: "val \<Rightarrow> string"
  Sprintf :: "string \<Rightarrow> marg list \<Rightarrow> string"
  VarCurrentNS :: nat
  VarFile :: nat
  HostUnlinkedTolerant :: bool

subsection \<open>Scopes\<close>

definition NewScope :: scope where
  "NewScope = [[]]"

definition Push :: "scope \<Rightarrow> scope" where
  "Push s = [] # s"

definition Define :: "string \<Rightarrow> val \<Rightarrow> scope \<Rightarrow> scope" where
  "Define name v s = (case s of [] \<Rightarrow> [] | f # fs \<Rightarrow> AList.update name v f # fs)"

fun Lookup :: "string \<Rightarrow> scope \<Rightarrow> val option" where
  "Lookup name [] = None"
| "Lookup name (f # fs) = (case map_of f name of Some v \<Rightarrow> Some v | None \<Rightarrow> Lookup name fs)"

subsection \<open>Vars\<close>

definition currentGid :: "('w, nat) go" where
  "currentGid = get_world gid"

definition var_Deref :: "nat \<Rightarrow> ('w, val) go" where
  "var_Deref v = get_world (\<lambda>w. Deref (gid w) v (vst_of w))"

definition var_string :: "nat \<Rightarrow> vstate \<Rightarrow> string" where
  "var_string v st = CHR ''#'' # CHR 0x27 # vns (vars st v) @ ''/'' @ vname (vars st v)"

text \<open>The watches that a change of a var calls, in order, after the change.\<close>

fun run_watches :: "'w applyfn \<Rightarrow> (val \<times> val list) list \<Rightarrow> ('w, unit) go" where
  "run_watches ap [] = gret ()"
| "run_watches ap ((f, args) # cs) = gbind (ap f args) (\<lambda>_. run_watches ap cs)"

definition notify :: "'w applyfn \<Rightarrow> ('w, unit) go" where
  "notify ap = gbind (get_world (\<lambda>w. calls (vst_of w))) (\<lambda>cs.
               gbind (upd_world (upd_vst (\<lambda>st. st\<lparr>calls := []\<rparr>))) (\<lambda>_. run_watches ap cs))"

definition var_BindRoot :: "'w applyfn \<Rightarrow> nat \<Rightarrow> val \<Rightarrow> ('w, unit) go" where
  "var_BindRoot ap v x = gbind (upd_world (upd_vst (BindRoot v x))) (\<lambda>_. notify ap)"

definition var_Set :: "'w applyfn \<Rightarrow> nat \<Rightarrow> val \<Rightarrow> ('w, val) go" where
  "var_Set ap v x =
     gbind (get_world (\<lambda>w. (SetVar (gid w) v x (vst_of w) = None, var_string v (vst_of w)))) (\<lambda>(no_binding, name).
       if no_binding
       then gpanic (VStr (CHR ''c'' # ''an'' @ CHR 0x27 # ''t change/establish root binding of: '' @ name))
       else gbind (upd_world (\<lambda>w. case SetVar (gid w) v x (vst_of w) of
                                   Some st \<Rightarrow> upd_vst (\<lambda>_. st) w | None \<Rightarrow> w)) (\<lambda>_.
            gbind (notify ap) (\<lambda>_. gret x)))"

fun is_ifn :: "'w rt \<Rightarrow> val \<Rightarrow> bool" where
  "is_ifn rt (VFn _) = True"
| "is_ifn rt (VNative _) = True"
| "is_ifn rt (VVar _) = True"
| "is_ifn rt (VKw _ _) = True"
| "is_ifn rt (VSym _ _ _) = True"
| "is_ifn rt (VVec _ _) = True"
| "is_ifn rt (VMap _ _) = True"
| "is_ifn rt (VSet _ _) = True"
| "is_ifn rt (VOpaque k) = is_ifn_opaque rt k"
| "is_ifn rt _ = False"

text \<open>\<^verbatim>\<open>Var.Invoke\<close> with \<^verbatim>\<open>Var.fn\<close>.\<close>

definition var_Invoke :: "'w rt \<Rightarrow> 'w applyfn \<Rightarrow> nat \<Rightarrow> val list \<Rightarrow> ('w, val) go" where
  "var_Invoke rt ap v args =
     gbind (get_world (\<lambda>w. (IsBound (gid w) v (vst_of w), vns (vars (vst_of w) v) @ ''/'' @ vname (vars (vst_of w) v))))
       (\<lambda>(bound, name).
         if \<not> bound then panicf (''cannot call unbound var: '' @ name)
         else gbind (var_Deref v) (\<lambda>f.
           case f of
             VUnbound _ \<Rightarrow> panicf (''cannot call unbound var: '' @ name)
           | VNil \<Rightarrow> panicf (''var '' @ name @ '' is bound to nil'')
           | _ \<Rightarrow> if is_ifn rt f then ap f args else runtime_panic))"

subsection \<open>Closures\<close>

text \<open>\<open>pick\<close> is the loop: the variadic method met so far is carried along.\<close>

fun pick :: "node fn_method list \<Rightarrow> nat \<Rightarrow> node fn_method option \<Rightarrow> node fn_method option" where
  "pick [] nargs variadic =
     (case variadic of Some m \<Rightarrow> if mfixed m \<le> nargs then Some m else None | None \<Rightarrow> None)"
| "pick (m # ms) nargs variadic =
     (if mvariadic m then pick ms nargs (Some m)
      else if mfixed m = nargs then Some m else pick ms nargs variadic)"

definition pickMethod :: "closure \<Rightarrow> nat \<Rightarrow> node fn_method option" where
  "pickMethod c nargs = pick (cmethods c) nargs None"

definition fn_name :: "closure \<Rightarrow> string" where
  "fn_name c = (if cdefName c \<noteq> [] then cdefName c
                else case cself c of Some b \<Rightarrow> bname b | None \<Rightarrow> ''fn'')"

definition method_vals :: "node fn_method \<Rightarrow> val list \<Rightarrow> val list" where
  "method_vals m args =
     take (mfixed m) args @
     (if mvariadic m
      then [case drop (mfixed m) args of [] \<Rightarrow> VNil | rest \<Rightarrow> VList None rest] else [])"

text \<open>\<open>None\<close> is the panic of \<^verbatim>\<open>vals[i]\<close> out of range.\<close>

fun define_params :: "binding list \<Rightarrow> val list \<Rightarrow> scope \<Rightarrow> scope option" where
  "define_params [] vs s = Some s"
| "define_params (b # bs) (v # vs) s = define_params bs vs (Define (bname b) v s)"
| "define_params (b # bs) [] s = None"

definition method_scope :: "nat \<Rightarrow> closure \<Rightarrow> node fn_method \<Rightarrow> val list \<Rightarrow> scope option" where
  "method_scope k c m vals =
     (let s0 = Push (cenv c);
          s1 = (case cself c of Some b \<Rightarrow> Define (bname b) (VFn k) s0 | None \<Rightarrow> s0)
      in define_params (mparams m) vals s1)"

text \<open>The loop of \<^verbatim>\<open>Invoke\<close>; \<open>left\<close> bounds its rounds.\<close>

fun method_loop :: "nat \<Rightarrow> 'w evalfn \<Rightarrow> nat \<Rightarrow> closure \<Rightarrow> node fn_method \<Rightarrow> val list \<Rightarrow> ('w, val) go" where
  "method_loop 0 ev k c m vals = gfuel"
| "method_loop (Suc left) ev k c m vals =
     (case method_scope k c m vals of
        None \<Rightarrow> runtime_panic
      | Some s \<Rightarrow> gbind (ev (mbody m) s) (\<lambda>r.
          case r of
            Inr v \<Rightarrow> gret v
          | Inl (ErrRecur i vs) \<Rightarrow>
              if i = mloop m then method_loop left ev k c m vs else panic_err (ErrRecur i vs)
          | Inl e \<Rightarrow> panic_err e))"

definition fn_Invoke :: "nat \<Rightarrow> 'w evalfn \<Rightarrow> nat \<Rightarrow> val list \<Rightarrow> ('w, val) go" where
  "fn_Invoke fuel ev k args =
     gbind (get_world (\<lambda>w. heap w k)) (\<lambda>r.
       case r of
         None \<Rightarrow> runtime_panic
       | Some c \<Rightarrow>
           (case pickMethod c (length args) of
              None \<Rightarrow> gpanic (VArity (int (length args)) (fn_name c) (Some k))
            | Some m \<Rightarrow> method_loop fuel ev k c m (method_vals m args)))"

subsection \<open>Literals, locals, definitions\<close>

definition withFormMeta :: "val \<Rightarrow> val \<Rightarrow> val" where
  "withFormMeta form v = (case form_meta form of None \<Rightarrow> v | Some m \<Rightarrow> with_meta m v)"

definition NewMap :: "'w rt \<Rightarrow> (val \<times> val) list \<Rightarrow> (val \<times> val) list" where
  "NewMap rt kvs = (if 16 \<le> 2 * length kvs then hash_map rt kvs else kvs)"

definition eval_pair :: "'w evalfn \<Rightarrow> scope \<Rightarrow> node \<times> node \<Rightarrow> ('w, val \<times> val) em" where
  "eval_pair ev s kv = ebind (ev (fst kv) s) (\<lambda>k. ebind (ev (snd kv) s) (\<lambda>v. eret (k, v)))"

definition eval_vector :: "'w evalfn \<Rightarrow> val \<Rightarrow> node list \<Rightarrow> scope \<Rightarrow> ('w, val) em" where
  "eval_vector ev form items s =
     ebind (emap (\<lambda>n. ev n s) items) (\<lambda>vs. eret (withFormMeta form (VVec None vs)))"

definition eval_map :: "'w rt \<Rightarrow> 'w evalfn \<Rightarrow> val \<Rightarrow> (node \<times> node) list \<Rightarrow> scope \<Rightarrow> ('w, val) em" where
  "eval_map rt ev form es s =
     ebind (emap (eval_pair ev s) es) (\<lambda>kvs. eret (withFormMeta form (VMap None (NewMap rt kvs))))"

definition eval_set :: "'w rt \<Rightarrow> 'w evalfn \<Rightarrow> val \<Rightarrow> node list \<Rightarrow> scope \<Rightarrow> ('w, val) em" where
  "eval_set rt ev form items s =
     ebind (emap (\<lambda>n. ev n s) items) (\<lambda>vs. eret (withFormMeta form (VSet None (hash_set rt vs))))"

definition eval_local :: "string \<Rightarrow> scope \<Rightarrow> ('w, val) em" where
  "eval_local name s = (case Lookup name s of Some v \<Rightarrow> eret v | None \<Rightarrow> eerr (ErrUnbound name))"

fun eval_do :: "'w evalfn \<Rightarrow> node list \<Rightarrow> node \<Rightarrow> scope \<Rightarrow> ('w, val) em" where
  "eval_do ev [] r s = ev r s"
| "eval_do ev (n # ns) r s = ebind (ev n s) (\<lambda>_. eval_do ev ns r s)"

definition eval_if :: "'w evalfn \<Rightarrow> node \<Rightarrow> node \<Rightarrow> node \<Rightarrow> scope \<Rightarrow> ('w, val) em" where
  "eval_if ev c t e s = ebind (ev c s) (\<lambda>v. if is_truthy v then ev t s else ev e s)"

definition set_defName :: "nat \<Rightarrow> nat \<Rightarrow> 'w estate \<Rightarrow> 'w estate" where
  "set_defName k v w =
     w\<lparr>heap := (heap w)(k := map_option
        (\<lambda>c. c\<lparr>cdefName := vns (vars (vst_of w) v) @ ''/'' @ vname (vars (vst_of w) v)\<rparr>) (heap w k))\<rparr>"

definition name_closure :: "val \<Rightarrow> node \<Rightarrow> nat \<Rightarrow> ('w, unit) go" where
  "name_closure x ini v =
     (case (x, ini) of (VFn k, OpFn _ _ _ _ _) \<Rightarrow> upd_world (set_defName k v) | _ \<Rightarrow> gret ())"

definition eval_def :: "'w evalfn \<Rightarrow> 'w applyfn \<Rightarrow> nat \<Rightarrow> node option \<Rightarrow> scope \<Rightarrow> ('w, val) em" where
  "eval_def ev ap v ini s =
     (case ini of
        None \<Rightarrow> eret (VVar v)
      | Some n \<Rightarrow> ebind (ev n s) (\<lambda>x.
                  ebind (ecall (name_closure x n v)) (\<lambda>_.
                  ebind (ecall (var_BindRoot ap v x)) (\<lambda>_. eret (VVar v)))))"

definition new_closure :: "node fn_method list \<Rightarrow> binding option \<Rightarrow> val \<Rightarrow> scope \<Rightarrow> ('w, val) go" where
  "new_closure ms self form s =
     gbind (get_world nheap) (\<lambda>k.
     gbind (upd_world (\<lambda>w. w\<lparr>nheap := k + 1,
        heap := (heap w)(k \<mapsto> \<lparr>cmethods = ms, cself = self, cform = form, cenv = s, cdefName = []\<rparr>)\<rparr>)) (\<lambda>_.
     gret (VFn k)))"

subsection \<open>let, loop and recur\<close>

fun eval_lets :: "'w evalfn \<Rightarrow> (binding \<times> node) list \<Rightarrow> scope \<Rightarrow> ('w, scope) em" where
  "eval_lets ev [] cur = eret cur"
| "eval_lets ev ((b, n) # bs) cur =
     ebind (ev n cur) (\<lambda>v. eval_lets ev bs (Define (bname b) v (Push cur)))"

definition eval_let :: "'w evalfn \<Rightarrow> (binding \<times> node) list \<Rightarrow> node \<Rightarrow> scope \<Rightarrow> ('w, val) em" where
  "eval_let ev bs body s = ebind (eval_lets ev bs s) (\<lambda>cur. ev body cur)"

text \<open>One frame per value; \<open>None\<close> is the panic of \<^verbatim>\<open>names[i]\<close> out of range.\<close>

fun rebind :: "string list \<Rightarrow> val list \<Rightarrow> scope \<Rightarrow> scope option" where
  "rebind nms [] cur = Some cur"
| "rebind (n # ns) (v # vs) cur = rebind ns vs (Define n v (Push cur))"
| "rebind [] (v # vs) cur = None"

fun loop_rounds :: "nat \<Rightarrow> 'w evalfn \<Rightarrow> node \<Rightarrow> string \<Rightarrow> string list \<Rightarrow> scope \<Rightarrow> scope \<Rightarrow> ('w, val) em" where
  "loop_rounds 0 ev body loopID nms s cur = gfuel"
| "loop_rounds (Suc left) ev body loopID nms s cur =
     gbind (ev body cur) (\<lambda>r.
       case r of
         Inl (ErrRecur i vs) \<Rightarrow>
           if i = loopID
           then (case rebind nms vs s of
                   None \<Rightarrow> runtime_panic
                 | Some cur' \<Rightarrow> loop_rounds left ev body loopID nms s cur')
           else gret r
       | _ \<Rightarrow> gret r)"

definition eval_loop :: "nat \<Rightarrow> 'w evalfn \<Rightarrow> (binding \<times> node) list \<Rightarrow> node \<Rightarrow> string \<Rightarrow> scope \<Rightarrow> ('w, val) em" where
  "eval_loop fuel ev bs body loopID s =
     ebind (eval_lets ev bs s) (\<lambda>cur. loop_rounds fuel ev body loopID (map (bname \<circ> fst) bs) s cur)"

definition eval_recur :: "'w evalfn \<Rightarrow> node list \<Rightarrow> string \<Rightarrow> scope \<Rightarrow> ('w, val) em" where
  "eval_recur ev exprs loopID s = ebind (emap (\<lambda>n. ev n s) exprs) (\<lambda>vs. eerr (ErrRecur loopID vs))"

subsection \<open>Calls, assignment, dynamic binding\<close>

text \<open>The position that \<^verbatim>\<open>invokeAt\<close> adds to an arity error's diagnostic is left out.\<close>

definition eval_invoke :: "'w evalfn \<Rightarrow> 'w applyfn \<Rightarrow> node \<Rightarrow> node list \<Rightarrow> scope \<Rightarrow> ('w, val) em" where
  "eval_invoke ev ap fn args s =
     ebind (ev fn s) (\<lambda>f. ebind (emap (\<lambda>n. ev n s) args) (\<lambda>vs. ecall (ap f vs)))"

definition eval_setbang :: "'w rt \<Rightarrow> 'w evalfn \<Rightarrow> 'w applyfn \<Rightarrow> node \<Rightarrow> node \<Rightarrow> scope \<Rightarrow> ('w, val) em" where
  "eval_setbang rt ev ap target n s =
     (case target of
        OpHostField f recv \<Rightarrow>
          ebind (ev recv s) (\<lambda>r. ebind (ev n s) (\<lambda>v. ecall (host rt (GoFieldSet r f v) ap)))
      | OpVar v \<Rightarrow> ebind (ev n s) (\<lambda>x. ecall (var_Set ap v x))
      | _ \<Rightarrow> ecall runtime_panic)"

definition eval_dyn_entry :: "'w evalfn \<Rightarrow> scope \<Rightarrow> nat \<times> node \<Rightarrow> ('w, val \<times> val) em" where
  "eval_dyn_entry ev s vn = ebind (ev (snd vn) s) (\<lambda>x. eret (VVar (fst vn), x))"

text \<open>The var that \<^verbatim>\<open>PushThreadBindings\<close> panics for.\<close>

definition push_error :: "(val \<times> val) list \<Rightarrow> vstate \<Rightarrow> val" where
  "push_error kvs st =
     (case filter (\<lambda>k. case k of VVar v \<Rightarrow> \<not> dynamic (vars st v) | _ \<Rightarrow> True) (map fst kvs) of
        VVar v # _ \<Rightarrow> VError ''errorString'' (''cannot dynamically bind non-dynamic var: '' @ var_string v st)
      | _ \<Rightarrow> VError ''runtime.Error'' [])"

definition pop_bindings :: "('w, unit) go" where
  "pop_bindings s =
     (case PopThreadBindings (gid (world s)) (vst_of (world s)) of
        None \<Rightarrow> runtime_panic s
      | Some st \<Rightarrow> upd_world (upd_vst (\<lambda>_. st)) s)"

text \<open>\<^verbatim>\<open>pushThreadBindings\<close>: on a panic the partial frame is popped and the panic is an error.\<close>

definition pushThreadBindings :: "(val \<times> val) list \<Rightarrow> ('w, unit) em" where
  "pushThreadBindings kvs =
     gbind (get_world (\<lambda>w. (fst (PushThreadBindings (gid w) kvs (vst_of w)), push_error kvs (vst_of w)))) (\<lambda>(ok, e).
     gbind (upd_world (\<lambda>w. upd_vst (snd \<circ> PushThreadBindings (gid w) kvs) w)) (\<lambda>_.
     if ok then eret () else gbind pop_bindings (\<lambda>_. eerr (Err e))))"

text \<open>\<^verbatim>\<open>defer\<close>: \<open>d\<close> runs after \<open>m\<close> whether \<open>m\<close> returned or panicked; its own panic replaces the
  outcome.  Running out of fuel unwinds too.\<close>

definition deferring :: "('w, 'a) go \<Rightarrow> ('w, unit) go \<Rightarrow> ('w, 'a) go" where
  "deferring m d s =
     (case m s of
        (GFuel, s1) \<Rightarrow> (GFuel, snd (d s1))
      | (r, s1) \<Rightarrow>
          (case d s1 of (GRet _, s2) \<Rightarrow> (r, s2) | (GPanic q, s2) \<Rightarrow> (GPanic q, s2)
           | (GRecur i vs, s2) \<Rightarrow> (GRecur i vs, s2) | (GFuel, s2) \<Rightarrow> (GFuel, s2)))"

definition eval_dynbind :: "'w rt \<Rightarrow> 'w evalfn \<Rightarrow> (nat \<times> node) list \<Rightarrow> node \<Rightarrow> scope \<Rightarrow> ('w, val) em" where
  "eval_dynbind rt ev bs body s =
     ebind (emap (eval_dyn_entry ev s) bs) (\<lambda>kvs.
     ebind (pushThreadBindings (NewMap rt kvs)) (\<lambda>_.
     deferring (ev body s) pop_bindings))"

subsection \<open>throw and try\<close>

definition eval_throw :: "'w evalfn \<Rightarrow> node \<Rightarrow> scope \<Rightarrow> ('w, val) em" where
  "eval_throw ev n s = ebind (ev n s) (\<lambda>v. gpanic (Throw v))"

definition evalProtected :: "'w rt \<Rightarrow> 'w evalfn \<Rightarrow> node \<Rightarrow> scope \<Rightarrow> ('w, val) em" where
  "evalProtected rt ev body s st =
     (case ev body s st of
        (GPanic p, st') \<Rightarrow> (GRet (Inl (Err (Recover (show_val rt) p))), st')
      | (GRecur i vs, st') \<Rightarrow> (GRet (Inl (ErrRecur i vs)), st')
      | r \<Rightarrow> r)"

fun run_catches :: "'w evalfn \<Rightarrow> node catch_clause list \<Rightarrow> goerr \<Rightarrow> scope \<Rightarrow> ('w, val) em" where
  "run_catches ev [] e s = eerr e"
| "run_catches ev (c # cs) e s =
     (if CatchMatches (cclass c) (err_val e)
      then ev (cbody c) (Define (bname (cbind c)) (err_val e) (Push s))
      else run_catches ev cs e s)"

text \<open>The deferred \<open>finally\<close>: an error that it returns replaces the results, which are lost when the
  function is already panicking.\<close>

definition with_finally :: "('w, val) em \<Rightarrow> ('w, val) em \<Rightarrow> ('w, val) em" where
  "with_finally m fin s =
     (case m s of
        (GFuel, s1) \<Rightarrow> (GFuel, s1)
      | (r, s1) \<Rightarrow>
          (case fin s1 of
             (GRet (Inl e), s2) \<Rightarrow> (case r of GRet _ \<Rightarrow> GRet (Inl e) | _ \<Rightarrow> r, s2)
           | (GRet (Inr _), s2) \<Rightarrow> (r, s2)
           | (GPanic q, s2) \<Rightarrow> (GPanic q, s2)
           | (GRecur i vs, s2) \<Rightarrow> (GRecur i vs, s2)
           | (GFuel, s2) \<Rightarrow> (GFuel, s2)))"

definition evalTry :: "'w rt \<Rightarrow> 'w evalfn \<Rightarrow> node \<Rightarrow> node catch_clause list \<Rightarrow> node option \<Rightarrow> scope \<Rightarrow> ('w, val) em" where
  "evalTry rt ev body catches fin s =
     (let main = gbind (evalProtected rt ev body s) (\<lambda>r.
                   case r of
                     Inr v \<Rightarrow> eret v
                   | Inl (ErrRecur i vs) \<Rightarrow> eerr (ErrRecur i vs)
                   | Inl e \<Rightarrow> run_catches ev catches e s)
      in case fin of None \<Rightarrow> main | Some f \<Rightarrow> with_finally main (ev f s))"

end
