(* ===== verification/Interp.thy ===== *)
theory Interp
  imports Eval
begin

text \<open>
  The rest of \<^verbatim>\<open>pkg/eval\<close>: host nodes (\<^verbatim>\<open>host.go\<close>), macroexpansion (\<^verbatim>\<open>macro.go\<close>), the
  evaluator's builtins, \<^verbatim>\<open>EvalForm\<close>, the dispatch of \<^verbatim>\<open>Eval\<close> and \<^verbatim>\<open>lang.Apply\<close>, and the
  knot that ties them.
\<close>

subsection \<open>Namespaces in the evaluator\<close>

definition CurrentNS :: "'w rt \<Rightarrow> 'w estate \<Rightarrow> string" where
  "CurrentNS rt w =
     (case Deref (gid w) (VarCurrentNS rt) (vst_of w) of VNs n \<Rightarrow> n | _ \<Rightarrow> ''clojure.core'')"

definition resolveVar :: "'w rt \<Rightarrow> val \<Rightarrow> 'w estate \<Rightarrow> (aerr + nat) \<times> 'w estate" where
  "resolveVar rt s w = (resolve_var (class_var rt) (CurrentNS rt w) s (nsw w), w)"

definition intern_in :: "string \<Rightarrow> string \<Rightarrow> 'w estate \<Rightarrow> (aerr + nat) \<times> 'w estate" where
  "intern_in ns name w =
     (case Intern ns name (nsw w) of
        (Some v, nw) \<Rightarrow> (Inr v, w\<lparr>nsw := nw\<rparr>)
      | (None, nw) \<Rightarrow> (Inl (AMsg ''interface conversion'' []), w\<lparr>nsw := nw\<rparr>))"

definition internVar :: "'w rt \<Rightarrow> val \<Rightarrow> 'w estate \<Rightarrow> (aerr + nat) \<times> 'w estate" where
  "internVar rt s w =
     (case s of
        VSym _ (Some ns) name \<Rightarrow>
          if ns \<noteq> CurrentNS rt w
          then (Inl (AMsg (CHR ''c'' # ''an'' @ CHR 0x27 # ''t create defs outside of current ns: %s'') [MStr (ns @ ''/'' @ name)]), w)
          else intern_in (CurrentNS rt w) name w
      | VSym _ None name \<Rightarrow> intern_in (CurrentNS rt w) name w
      | _ \<Rightarrow> (Inl (AMsg ''not a symbol'' []), w))"

subsection \<open>Go interop\<close>

text \<open>Some namespace has an alias for the import path.\<close>

definition isDeclaredGoPkg :: "string \<Rightarrow> 'w estate \<Rightarrow> bool" where
  "isDeclaredGoPkg path w \<longleftrightarrow> (\<exists>(ns, aliases)\<in>set (hostAliases w). \<exists>(a, p)\<in>set aliases. p = path)"

text \<open>The aliases of a namespace.\<close>

definition aliases_of :: "string \<Rightarrow> 'w estate \<Rightarrow> (string \<times> string) list" where
  "aliases_of ns w = (case map_of (hostAliases w) ns of Some al \<Rightarrow> al | None \<Rightarrow> [])"

text \<open>The import path that an alias of the current namespace stands for, when no Clojure alias or
  namespace has that name.\<close>

definition host_path :: "'w rt \<Rightarrow> string \<Rightarrow> 'w estate \<Rightarrow> string option" where
  "host_path rt nsName w =
     (if nsName = [] then None
      else if LookupAlias (CurrentNS rt w) nsName (nsw w) \<noteq> None then None
      else if FindNamespace nsName (nsw w) \<noteq> None then None
      else map_of (aliases_of (CurrentNS rt w) w) nsName)"

definition resolveHost :: "'w rt \<Rightarrow> val \<Rightarrow> 'w estate \<Rightarrow> (string \<times> string) option" where
  "resolveHost rt s w =
     (case s of
        VSym _ (Some nsName) name \<Rightarrow>
          (case host_path rt nsName w of
             None \<Rightarrow> None
           | Some path \<Rightarrow>
               if host_kind rt path name \<noteq> None then Some (path, name)
               else if \<not> has_suffix name (CHR ''!'') then Some (path, name)
               else None)
      | _ \<Rightarrow> None)"

definition resolveHostType :: "'w rt \<Rightarrow> val \<Rightarrow> 'w estate \<Rightarrow> (string \<times> string) option" where
  "resolveHostType rt s w =
     (case s of
        VSym _ (Some nsName) name \<Rightarrow>
          (case host_path rt nsName w of
             None \<Rightarrow> None
           | Some path \<Rightarrow> if host_type rt path name then Some (path, name) else None)
      | _ \<Rightarrow> None)"

text \<open>\<^verbatim>\<open>unlinkedGoError\<close>; the two bytes are the section sign.\<close>

definition unlinkedGoError :: "'w rt \<Rightarrow> string \<Rightarrow> string \<Rightarrow> 'w estate \<Rightarrow> val" where
  "unlinkedGoError rt pkg member w =
     (let loc = (case Deref (gid w) (VarFile rt) (vst_of w) of
                   VStr f \<Rightarrow> if f \<noteq> [] \<and> f \<noteq> ''NO_SOURCE_FILE'' \<and> f \<noteq> ''NO_SOURCE_PATH''
                             then '' (at '' @ f @ '')'' else []
                 | _ \<Rightarrow> [])
      in VError ''errorString''
           (''go module '' @ pkg @ '' is not linked into the interpreter (accessing member '' @ member @ '')'' @
            loc @ ''; build it (cljgo build), or use the self-rebuild flow (design/05 '' @
            [CHR 0xC2, CHR 0xA7] @ ''1)''))"

text \<open>A member that is not in the registry.\<close>

definition unknown_member :: "'w rt \<Rightarrow> string \<Rightarrow> string \<Rightarrow> ('w, val) em" where
  "unknown_member rt pkg member =
     gbind (get_world (\<lambda>w. (isDeclaredGoPkg pkg w, unlinkedGoError rt pkg member w))) (\<lambda>(d, e).
       if d then if HostUnlinkedTolerant rt then eret VNil else eerr (Err e)
       else errorf (''unable to resolve Go member: '' @ pkg @ ''.'' @ member))"

definition eval_hostref :: "'w rt \<Rightarrow> 'w applyfn \<Rightarrow> string \<Rightarrow> string \<Rightarrow> ('w, val) em" where
  "eval_hostref rt ap pkg member =
     (case host_kind rt pkg member of
        None \<Rightarrow> unknown_member rt pkg member
      | Some True \<Rightarrow> ecall (host rt (HostFnValue pkg member) ap)
      | Some False \<Rightarrow> ecall (host rt (HostConst pkg member) ap))"

definition eval_hostcall :: "'w rt \<Rightarrow> 'w evalfn \<Rightarrow> 'w applyfn \<Rightarrow>
    string \<Rightarrow> string \<Rightarrow> node list \<Rightarrow> bool \<Rightarrow> scope \<Rightarrow> ('w, val) em" where
  "eval_hostcall rt ev ap pkg member args throw s =
     ebind (emap (\<lambda>n. ev n s) args) (\<lambda>vs.
       case host_kind rt pkg member of
         None \<Rightarrow> unknown_member rt pkg member
       | Some False \<Rightarrow> errorf (''Go member is not callable: '' @ pkg @ ''.'' @ member)
       | Some True \<Rightarrow> ecall (host rt (CallHostFn pkg member vs throw) ap))"

definition eval_hostmethod :: "'w rt \<Rightarrow> 'w evalfn \<Rightarrow> 'w applyfn \<Rightarrow> string \<Rightarrow> node \<Rightarrow> node list \<Rightarrow> bool \<Rightarrow> scope \<Rightarrow> ('w, val) em" where
  "eval_hostmethod rt ev ap method recv args throw s =
     ebind (ev recv s) (\<lambda>r. ebind (emap (\<lambda>n. ev n s) args) (\<lambda>vs.
       if r = VNil \<and> HostUnlinkedTolerant rt then eret VNil
       else ecall (host rt (CallGoMethod r method throw vs) ap)))"

definition eval_hostfield :: "'w rt \<Rightarrow> 'w evalfn \<Rightarrow> 'w applyfn \<Rightarrow> string \<Rightarrow> node \<Rightarrow> scope \<Rightarrow> ('w, val) em" where
  "eval_hostfield rt ev ap field recv s =
     ebind (ev recv s) (\<lambda>r.
       if r = VNil \<and> HostUnlinkedTolerant rt then eret VNil
       else ecall (host rt (GoFieldGet r field) ap))"

definition eval_hostnew :: "'w rt \<Rightarrow> 'w evalfn \<Rightarrow> 'w applyfn \<Rightarrow> string \<Rightarrow> string \<Rightarrow> node option \<Rightarrow> bool \<Rightarrow> scope \<Rightarrow> ('w, val) em" where
  "eval_hostnew rt ev ap pkg ty flds zero s =
     (if zero then ecall (host rt (NewGoStruct pkg ty) ap)
      else ebind (case flds of None \<Rightarrow> eret VNil | Some n \<Rightarrow> ev n s) (\<lambda>v.
           ecall (host rt (MakeGoStruct pkg ty v) ap)))"

subsection \<open>require-go\<close>

definition defaultHostAlias :: "string \<Rightarrow> string" where
  "defaultHostAlias path = rev (takeWhile (\<lambda>x. x \<noteq> CHR ''/'') (rev path))"

definition hostPathOf :: "string option \<Rightarrow> string \<Rightarrow> string" where
  "hostPathOf ns name = (case ns of Some q \<Rightarrow> if q \<noteq> [] then q @ ''/'' @ name else name | None \<Rightarrow> name)"

text \<open>The options after the path, the last \<open>:as\<close> winning; \<open>Inl\<close> is the message of a panic, and
  \<open>show\<close> the printing of a value.\<close>

fun libspec_alias :: "string \<Rightarrow> (val \<Rightarrow> string) \<Rightarrow> val list \<Rightarrow> string \<Rightarrow> string + string" where
  "libspec_alias vec show [] alias = Inr alias"
| "libspec_alias vec show (x # xs) alias =
     (if x = VKw None ''as''
      then (case xs of
              [] \<Rightarrow> Inl (''require-go :as requires an alias, in libspec: '' @ vec)
            | VSym _ _ n # rest \<Rightarrow> libspec_alias vec show rest n
            | y # _ \<Rightarrow> Inl (''require-go :as alias must be a symbol, got: '' @ show y))
      else libspec_alias vec show xs alias)"

definition parseRequireGoSpec :: "(val \<Rightarrow> string) \<Rightarrow> val \<Rightarrow> string + string \<times> string" where
  "parseRequireGoSpec show spec =
     (case spec of
        VSym _ ns n \<Rightarrow> Inr (hostPathOf ns n, defaultHostAlias (hostPathOf ns n))
      | VStr p \<Rightarrow> Inr (p, defaultHostAlias p)
      | VVec _ (x # xs) \<Rightarrow>
          (case (case x of VSym _ ns n \<Rightarrow> Some (hostPathOf ns n) | VStr p \<Rightarrow> Some p | _ \<Rightarrow> None) of
             None \<Rightarrow> Inl (''require-go path must be a symbol or string, got: '' @ show x)
           | Some path \<Rightarrow> map_sum id (Pair path) (libspec_alias (show spec) show xs (defaultHostAlias path)))
      | _ \<Rightarrow> Inl (''require-go expects a libspec vector, got: '' @ show spec))"

fun registerRequireGo :: "'w rt \<Rightarrow> val list \<Rightarrow> ('w, unit) go" where
  "registerRequireGo rt [] = gret ()"
| "registerRequireGo rt (spec # specs) =
     (case parseRequireGoSpec (PrintString rt) spec of
        Inl msg \<Rightarrow> panicf msg
      | Inr (path, alias) \<Rightarrow>
          gbind (upd_world (\<lambda>w. w\<lparr>hostAliases := AList.update (CurrentNS rt w)
                   (AList.update alias path (aliases_of (CurrentNS rt w) w)) (hostAliases w)\<rparr>)) (\<lambda>_. registerRequireGo rt specs))"

subsection \<open>Macroexpansion\<close>

definition localsEnvMap :: "'w rt \<Rightarrow> locals \<Rightarrow> val" where
  "localsEnvMap rt ls =
     (if ls = [] then VNil else VMap None (NewMap rt (map (\<lambda>(n, _). (VSym None None n, VNil)) ls)))"

text \<open>The first \<^verbatim>\<open>*arityError\<close> that an error unwraps to.\<close>

definition find_arity :: "val \<Rightarrow> (int \<times> string) option" where
  "find_arity e =
     (case filter (\<lambda>x. case x of VArity _ _ _ \<Rightarrow> True | _ \<Rightarrow> False) (unwrap_chain e) of
        VArity n name _ # _ \<Rightarrow> Some (n, name) | _ \<Rightarrow> None)"

text \<open>An arity error of the macro itself counts \<open>&form\<close> and \<open>&env\<close>; they are taken off.\<close>

definition macro_error :: "'w estate \<Rightarrow> nat \<Rightarrow> val \<Rightarrow> val" where
  "macro_error w v e =
     (case find_arity e of
        None \<Rightarrow> e
      | Some (n, name) \<Rightarrow>
          (case Deref (gid w) v (vst_of w) of
             VFn k \<Rightarrow>
               (case heap w k of
                  Some c \<Rightarrow> if fn_name c = name then VArity (n - 2) name None else e
                | None \<Rightarrow> e)
           | _ \<Rightarrow> e))"

definition expand_call :: "'w rt \<Rightarrow> 'w applyfn \<Rightarrow> nat \<Rightarrow> val \<Rightarrow> string \<Rightarrow> locals \<Rightarrow> ('w estate, val option) am" where
  "expand_call rt ap v form opname ls s =
     (case ap (Deref (gid (world s)) v (vst_of (world s))) (form # localsEnvMap rt ls # seq_args form) s of
        (GRet x, s') \<Rightarrow> (AOk (if identical rt x form then None else Some x), s')
      | (GPanic p, s') \<Rightarrow>
          (AErr (AWrap (''macroexpanding '' @ opname @ '': '')
             (AValue (macro_error (world s') v (Recover (show_val rt) p)))), s')
      | (GRecur i vs, s') \<Rightarrow> (AErr (AWrap (''macroexpanding '' @ opname @ '': '') (AValue (recur_error i))), s')
      | (GFuel, s') \<Rightarrow> (ADiv, s'))"

definition is_macro :: "nat \<Rightarrow> 'w estate \<Rightarrow> bool \<times> 'w estate" where
  "is_macro v w = (let (m, st) = IsMacro v (vst_of w) in (m, upd_vst (\<lambda>_. st) w))"

definition macroexpand1 :: "'w rt \<Rightarrow> 'w applyfn \<Rightarrow> val \<Rightarrow> locals \<Rightarrow> ('w estate, val option) am" where
  "macroexpand1 rt ap form ls =
     (case op_sym (case seq_items form of [] \<Rightarrow> VNil | x # _ \<Rightarrow> x) of
        None \<Rightarrow> ret None
      | Some (ns, opname) \<Rightarrow>
          if ns = None \<and> IsSpecial opname then ret None
          else if ns = None \<and> map_of ls opname \<noteq> None then ret None
          else abind (in_world (resolveVar rt (VSym None ns opname))) (\<lambda>r.
               case r of
                 Inl _ \<Rightarrow> ret None
               | Inr v \<Rightarrow> abind (in_world (is_macro v)) (\<lambda>m.
                   if m then expand_call rt ap v form opname ls else ret None)))"

subsection \<open>Evaluating a form\<close>

definition eval_hooks :: "'w rt \<Rightarrow> 'w applyfn \<Rightarrow> 'w estate hooks" where
  "eval_hooks rt ap =
     \<lparr>Macroexpand1 = Some (macroexpand1 rt ap), ResolveVar = resolveVar rt, InternVar = internVar rt,
      ResolveHost = Some (resolveHost rt), ResolveHostType = Some (resolveHostType rt),
      VarSetMeta = (\<lambda>v m. upd_vst (SetMeta v m)), VarSetDynamic = (\<lambda>v. upd_vst (SetDynamic v))\<rparr>"

text \<open>An analysis error as a Go error value.\<close>

fun aerr_val :: "'w rt \<Rightarrow> aerr \<Rightarrow> val" where
  "aerr_val rt (AMsg fmt args) = VError ''errorString'' (Sprintf rt fmt args)"
| "aerr_val rt (ACompiler f l c e) = VCompiler f l c (aerr_val rt e)"
| "aerr_val rt (AWrap m e) = VWrap m (aerr_val rt e)"
| "aerr_val rt (AValue v) = v"

definition evalTop :: "'w rt \<Rightarrow> 'w evalfn \<Rightarrow> node \<Rightarrow> ('w, val) em" where
  "evalTop rt ev n s =
     (case ev n NewScope s of
        (GPanic p, s') \<Rightarrow> (GRet (Inl (Err (Recover (show_val rt) p))), s')
      | (GRecur i vs, s') \<Rightarrow> (GRet (Inl (ErrRecur i vs)), s')
      | r \<Rightarrow> r)"

definition analyze_form :: "'w rt \<Rightarrow> nat \<Rightarrow> 'w applyfn \<Rightarrow> val \<Rightarrow> ('w, node) em" where
  "analyze_form rt fuel ap form s =
     (case Analyze (eval_hooks rt ap) fuel form s of
        (AOk n, s') \<Rightarrow> (GRet (Inr n), s')
      | (AErr e, s') \<Rightarrow> (GRet (Inl (Err (aerr_val rt e))), s')
      | (ADiv, s') \<Rightarrow> (GFuel, s'))"

text \<open>The forms after \<open>do\<close>, none of them being no top-level \<open>do\<close>.\<close>

fun asTopLevelDo :: "val \<Rightarrow> val list" where
  "asTopLevelDo (VList _ (VSym _ None n # body)) = (if n = ''do'' then body else [])"
| "asTopLevelDo _ = []"

lemma asTopLevelDo_size: "asTopLevelDo form = x # xs \<Longrightarrow> size_list size (x # xs) < size form"
  by (cases form rule: asTopLevelDo.cases) (auto split: if_splits)

function EvalForm :: "'w rt \<Rightarrow> nat \<Rightarrow> 'w evalfn \<Rightarrow> 'w applyfn \<Rightarrow> val \<Rightarrow> ('w, val) em"
  and EvalForms :: "'w rt \<Rightarrow> nat \<Rightarrow> 'w evalfn \<Rightarrow> 'w applyfn \<Rightarrow> val \<Rightarrow> val list \<Rightarrow> ('w, val) em" where
  "EvalForm rt fuel ev ap form =
     (case asTopLevelDo form of
        [] \<Rightarrow> ebind (analyze_form rt fuel ap form) (evalTop rt ev)
      | x # xs \<Rightarrow> EvalForms rt fuel ev ap VNil (x # xs))"
| "EvalForms rt fuel ev ap res [] = eret res"
| "EvalForms rt fuel ev ap res (x # xs) =
     ebind (EvalForm rt fuel ev ap x) (\<lambda>r. EvalForms rt fuel ev ap r xs)"
  by pat_completeness auto
termination
  by (relation "measure (\<lambda>x. case x of Inl (_, _, _, _, form) \<Rightarrow> size form
                                      | Inr (_, _, _, _, _, forms) \<Rightarrow> size_list size forms)")
    (auto dest: asTopLevelDo_size)

declare EvalForm.simps [simp del]

subsection \<open>The builtins of the evaluator\<close>

text \<open>The user-facing \<^verbatim>\<open>macroexpand\<close>; \<open>left\<close> counts down from its limit.\<close>

fun macroexpand :: "'w rt \<Rightarrow> 'w applyfn \<Rightarrow> nat \<Rightarrow> val \<Rightarrow> ('w estate, val) am" where
  "macroexpand rt ap 0 form = fail (AMsg ''too many macroexpansions (limit %d)'' [MInt 1000])"
| "macroexpand rt ap (Suc left) form =
     abind (macroexpand1 rt ap form []) (\<lambda>r.
       case r of None \<Rightarrow> ret form | Some x \<Rightarrow> macroexpand rt ap left x)"

text \<open>An analysis-time computation called from a builtin: its error is a panic.\<close>

definition from_am :: "'w rt \<Rightarrow> ('w estate, 'a) am \<Rightarrow> ('w, 'a) go" where
  "from_am rt m s =
     (case m s of (AOk x, s') \<Rightarrow> (GRet x, s') | (AErr e, s') \<Rightarrow> (GPanic (aerr_val rt e), s') | (ADiv, s') \<Rightarrow> (GFuel, s'))"

definition must :: "('w, 'a) em \<Rightarrow> ('w, 'a) go" where
  "must m = gbind m (\<lambda>r. case r of Inr x \<Rightarrow> gret x | Inl e \<Rightarrow> panic_err e)"

definition one_arg :: "string \<Rightarrow> val list \<Rightarrow> (val \<Rightarrow> ('w, 'a) go) \<Rightarrow> ('w, 'a) go" where
  "one_arg opname args k =
     (case args of [x] \<Rightarrow> k x
      | _ \<Rightarrow> panicf (''wrong number of args ('' @ nat_str (length args) @ '') passed to: '' @ opname))"

definition run_builtin :: "'w rt \<Rightarrow> nat \<Rightarrow> 'w evalfn \<Rightarrow> 'w applyfn \<Rightarrow> builtin \<Rightarrow> val list \<Rightarrow> ('w, val) go" where
  "run_builtin rt fuel ev ap b args =
     (case b of
        BEval \<Rightarrow> one_arg ''eval'' args (\<lambda>x. must (EvalForm rt fuel ev ap x))
      | BMacroexpand1 \<Rightarrow> one_arg ''macroexpand-1'' args (\<lambda>x.
          from_am rt (abind (macroexpand1 rt ap x []) (\<lambda>r. ret (case r of None \<Rightarrow> x | Some y \<Rightarrow> y))))
      | BMacroexpand \<Rightarrow> one_arg ''macroexpand'' args (\<lambda>x. from_am rt (macroexpand rt ap 1000 x))
      | BRequireGo \<Rightarrow> gbind (registerRequireGo rt args) (\<lambda>_. gret VNil))"

subsection \<open>Eval and Apply\<close>

definition eval_step :: "'w rt \<Rightarrow> nat \<Rightarrow> 'w evalfn \<Rightarrow> 'w applyfn \<Rightarrow> 'w evalfn" where
  "eval_step rt fuel ev ap n s =
     (case n of
        OpConst v \<Rightarrow> eret v
      | OpQuote v \<Rightarrow> eret v
      | OpVector form items \<Rightarrow> eval_vector ev form items s
      | OpMap form es \<Rightarrow> eval_map rt ev form es s
      | OpSet form items \<Rightarrow> eval_set rt ev form items s
      | OpVar v \<Rightarrow> ecall (var_Deref v)
      | OpLocal x b \<Rightarrow> eval_local x s
      | OpDo ss r \<Rightarrow> eval_do ev ss r s
      | OpIf c t e \<Rightarrow> eval_if ev c t e s
      | OpDef sy v ini m \<Rightarrow> eval_def ev ap v ini s
      | OpLet bs body \<Rightarrow> eval_let ev bs body s
      | OpFn form ms variadic mx self \<Rightarrow> ecall (new_closure ms self form s)
      | OpInvoke form fn args \<Rightarrow> eval_invoke ev ap fn args s
      | OpLoop bs body i \<Rightarrow> eval_loop fuel ev bs body i s
      | OpRecur exprs i \<Rightarrow> eval_recur ev exprs i s
      | OpTheVar v \<Rightarrow> eret (VVar v)
      | OpSetBang target x \<Rightarrow> eval_setbang rt ev ap target x s
      | OpDynBind bs body \<Rightarrow> eval_dynbind rt ev bs body s
      | OpHostRef pkg member \<Rightarrow> eval_hostref rt ap pkg member
      | OpHostCall pkg member args throw \<Rightarrow> eval_hostcall rt ev ap pkg member args throw s
      | OpHostMethod m recv args throw \<Rightarrow> eval_hostmethod rt ev ap m recv args throw s
      | OpHostField f recv \<Rightarrow> eval_hostfield rt ev ap f recv s
      | OpHostNew pkg ty flds zero \<Rightarrow> eval_hostnew rt ev ap pkg ty flds zero s
      | OpThrow x \<Rightarrow> eval_throw ev x s
      | OpTry body catches fin \<Rightarrow> evalTry rt ev body catches fin s)"

definition apply_step :: "'w rt \<Rightarrow> nat \<Rightarrow> 'w evalfn \<Rightarrow> 'w applyfn \<Rightarrow> 'w applyfn" where
  "apply_step rt fuel ev ap f args =
     (case f of
        VFn k \<Rightarrow> fn_Invoke fuel ev k args
      | VNative i \<Rightarrow> (case builtins rt i of Some b \<Rightarrow> run_builtin rt fuel ev ap b args | None \<Rightarrow> native rt i ap args)
      | VVar v \<Rightarrow> var_Invoke rt ap v args
      | VNil \<Rightarrow> panicf ''cannot call nil - this may be an unbound var or a function that returned nil''
      | VUnbound v \<Rightarrow> gbind (get_world (\<lambda>w. var_string v (vst_of w))) (\<lambda>name.
                        panicf (''cannot call unbound var: Unbound: '' @ name))
      | _ \<Rightarrow> invoke_other rt f ap args)"

text \<open>The knot: one unit of fuel per nested call, and as many rounds per loop.\<close>

primrec run :: "'w rt \<Rightarrow> nat \<Rightarrow> 'w evalfn \<times> 'w applyfn" where
  "run rt 0 = ((\<lambda>n s. gfuel), (\<lambda>f args. gfuel))"
| "run rt (Suc fuel) =
     (eval_step rt fuel (fst (run rt fuel)) (snd (run rt fuel)),
      apply_step rt fuel (fst (run rt fuel)) (snd (run rt fuel)))"

definition eval :: "'w rt \<Rightarrow> nat \<Rightarrow> 'w evalfn" where
  "eval rt fuel = fst (run rt fuel)"

definition apply_val :: "'w rt \<Rightarrow> nat \<Rightarrow> 'w applyfn" where
  "apply_val rt fuel = snd (run rt fuel)"

definition eval_form :: "'w rt \<Rightarrow> nat \<Rightarrow> val \<Rightarrow> ('w, val) em" where
  "eval_form rt fuel form = EvalForm rt fuel (eval rt fuel) (apply_val rt fuel) form"

lemma eval_simps [simp]:
  "eval rt 0 n s = gfuel" "apply_val rt 0 f args = gfuel"
  "eval rt (Suc fuel) n s = eval_step rt fuel (eval rt fuel) (apply_val rt fuel) n s"
  "apply_val rt (Suc fuel) f args = apply_step rt fuel (eval rt fuel) (apply_val rt fuel) f args"
  by (simp_all add: eval_def apply_val_def)

end
