(* ===== verification/AnalyzerRel.thy ===== *)
theory AnalyzerRel
  imports AnalyzerTotal
begin

text \<open>
  How an analysis depends on what it calls, shown once for both uses.  \<open>le K m m'\<close> says that a run
  of \<open>m\<close> moves the state along the relation \<open>K\<close>, and that \<open>m'\<close> does the same as \<open>m\<close> unless \<open>m\<close>
  diverges.  With \<open>m' = m\<close> it is a frame rule: what the hooks keep the analysis keeps.  With
  \<open>m'\<close> an analysis on more fuel it is monotonicity.
\<close>

definition le :: "('s astate \<Rightarrow> 's astate \<Rightarrow> bool) \<Rightarrow> ('s, 'a) am \<Rightarrow> ('s, 'a) am \<Rightarrow> bool" where
  "le K m m' \<longleftrightarrow> (\<forall>s. K s (snd (m s)) \<and> (fst (m s) = ADiv \<or> m' s = m s))"

definition hooks_le :: "('s astate \<Rightarrow> 's astate \<Rightarrow> bool) \<Rightarrow> 's hooks \<Rightarrow> 's hooks \<Rightarrow> bool" where
  "hooks_le K h h' \<longleftrightarrow>
     h' = h\<lparr>Macroexpand1 := Macroexpand1 h'\<rparr> \<and>
     (\<forall>f s. K s (s\<lparr>world := snd (ResolveVar h f (world s))\<rparr>)) \<and>
     (\<forall>f s. K s (s\<lparr>world := snd (InternVar h f (world s))\<rparr>)) \<and>
     (\<forall>v m s. K s (s\<lparr>world := VarSetMeta h v m (world s)\<rparr>)) \<and>
     (\<forall>v s. K s (s\<lparr>world := VarSetDynamic h v (world s)\<rparr>)) \<and>
     rel_option (\<lambda>e e'. \<forall>form ls. le K (e form ls) (e' form ls)) (Macroexpand1 h) (Macroexpand1 h')"

locale analysis_rel =
  fixes K :: "'s astate \<Rightarrow> 's astate \<Rightarrow> bool"
  assumes K_refl: "K s s"
    and K_trans: "K s1 s2 \<Longrightarrow> K s2 s3 \<Longrightarrow> K s1 s3"
    and K_gensym: "K s (s\<lparr>gensymCounter := n\<rparr>)"
begin

lemma le_basic [intro!, simp]: "le K (ret x) (ret x)" "le K (fail e) (fail e)"
  "le K (errf form fmt args) (errf form fmt args)" "le K (gensym p) (gensym p)"
  by (simp_all add: le_def ret_def fail_def errf_def gensym_def Let_def K_refl K_gensym)

lemma le_host_lookup [intro!]: "le K (host_lookup f x) (host_lookup f x)"
  by (simp add: le_def host_lookup_def in_world_def K_refl)

lemma le_bind [intro!]:
  assumes "le K m m'" and "\<And>x. le K (f x) (f' x)"
  shows "le K (abind m f) (abind m' f')"
  unfolding le_def
proof
  fix s
  obtain r t where ms: "m s = (r, t)" by fastforce
  have m: "K s t" "r = ADiv \<or> m' s = (r, t)" using assms(1) ms by (auto simp: le_def dest: spec [of _ s])
  show "K s (snd (abind m f s)) \<and> (fst (abind m f s) = ADiv \<or> abind m' f' s = abind m f s)"
  proof (cases r)
    case (AOk x)
    with assms(2) [of x] m ms show ?thesis by (auto simp: le_def abind_def intro: K_trans)
  qed (use ms m in \<open>auto simp: abind_def\<close>)
qed

lemma le_cases [intro!]:
  "(\<And>a b. le K (f a b) (f' a b)) \<Longrightarrow> le K (case p of (a, b) \<Rightarrow> f a b) (case p of (a, b) \<Rightarrow> f' a b)"
  "le K none none' \<Longrightarrow> (\<And>x. le K (some x) (some' x)) \<Longrightarrow>
     le K (case_option none some r) (case_option none' some' r)"
  "(\<And>e. le K (inl e) (inl' e)) \<Longrightarrow> (\<And>y. le K (inr y) (inr' y)) \<Longrightarrow>
     le K (case_sum inl inr q) (case_sum inl' inr' q)"
  "(b \<Longrightarrow> le K x x') \<Longrightarrow> (\<not> b \<Longrightarrow> le K y y') \<Longrightarrow> le K (if b then x else y) (if b then x' else y')"
  by (auto split: prod.split option.split sum.split)

lemma le_amap: "(\<And>x. le K (f x) (f' x)) \<Longrightarrow> le K (amap f xs) (amap f' xs)"
  by (induction xs) auto

lemma le_sym [intro!]: "le K (simpleBindingSym form f) (simpleBindingSym form f)"
  by (auto simp: simpleBindingSym_def split: val.splits)

lemma le_fn_params: "le K (fn_params form n i ps a fa var env) (fn_params form n i ps a fa var env)"
  by (induction form n i ps a fa var env rule: fn_params.induct) (auto simp: Let_def)

lemma le_host_member [intro!]: "le K (host_member f opn x) (host_member f opn x)"
  unfolding host_member_def by (auto simp del: le_cases split: option.split)

end

locale analysis_calls = analysis_rel K for K :: "'s astate \<Rightarrow> 's astate \<Rightarrow> bool" +
  fixes h h' :: "'s hooks" and rec rec' :: "'s rec"
  assumes hooks: "hooks_le K h h'" and rec_le: "le K (rec form env) (rec' form env)"
begin

lemma hooks_same [simp]: "ResolveVar h' = ResolveVar h" "InternVar h' = InternVar h"
  "ResolveHost h' = ResolveHost h" "ResolveHostType h' = ResolveHostType h"
  "VarSetMeta h' = VarSetMeta h" "VarSetDynamic h' = VarSetDynamic h"
proof -
  have e: "h' = h\<lparr>Macroexpand1 := Macroexpand1 h'\<rparr>" using hooks by (simp add: hooks_le_def)
  show "ResolveVar h' = ResolveVar h" by (subst e) simp
  show "InternVar h' = InternVar h" by (subst e) simp
  show "ResolveHost h' = ResolveHost h" by (subst e) simp
  show "ResolveHostType h' = ResolveHostType h" by (subst e) simp
  show "VarSetMeta h' = VarSetMeta h" by (subst e) simp
  show "VarSetDynamic h' = VarSetDynamic h" by (subst e) simp
qed

lemma le_resolve [intro!]: "le K (in_world (ResolveVar h f)) (in_world (ResolveVar h f))"
  using hooks by (simp add: hooks_le_def le_def in_world_def split_def Let_def)

lemma le_intern [intro!]: "le K (in_world (InternVar h f)) (in_world (InternVar h f))"
  using hooks by (simp add: hooks_le_def le_def in_world_def split_def Let_def)

lemma le_set_meta:
  "le K (in_world (\<lambda>w. let w' = VarSetMeta h v es w in ((), if b then VarSetDynamic h v w' else w')))
        (in_world (\<lambda>w. let w' = VarSetMeta h v es w in ((), if b then VarSetDynamic h v w' else w')))"
proof -
  have m: "K s (s\<lparr>world := VarSetMeta h v es (world s)\<rparr>)" for s
    using hooks by (simp add: hooks_le_def)
  have "K (s\<lparr>world := w\<rparr>) (s\<lparr>world := VarSetDynamic h v w\<rparr>)" for s w
  proof -
    have "K (s\<lparr>world := w\<rparr>) ((s\<lparr>world := w\<rparr>)\<lparr>world := VarSetDynamic h v (world (s\<lparr>world := w\<rparr>))\<rparr>)"
      using hooks unfolding hooks_le_def by blast
    then show ?thesis by simp
  qed
  with m show ?thesis by (auto simp: le_def in_world_def Let_def intro: K_trans)
qed

lemma le_recs: "le K (amap (\<lambda>x. rec x env) xs) (amap (\<lambda>x. rec' x env) xs)"
  by (rule le_amap) (rule rec_le)

lemma le_body: "le K (analyzeBody rec body env) (analyzeBody rec' body env)"
  by (auto simp: analyzeBody_def intro!: le_recs rec_le)

lemma le_let_bindings: "le K (let_bindings rec form kind bs env) (let_bindings rec' form kind bs env)"
  by (induction bs arbitrary: env rule: induct_list012) (auto simp: Let_def intro!: rec_le)

lemma le_dyn_bindings: "le K (dyn_bindings h rec form bs env) (dyn_bindings h' rec' form bs env)"
  by (induction bs rule: induct_list012) (auto intro!: rec_le)

lemma le_if: "le K (parseIf rec form env) (parseIf rec' form env)"
  unfolding parseIf_def Let_def by (intro le_cases le_bind le_basic rec_le)

lemma le_let: "le K (parseLetOrLoop rec form env isLoop) (parseLetOrLoop rec' form env isLoop)"
  by (auto simp: parseLetOrLoop_def Let_def intro!: le_let_bindings le_body split: list.splits val.splits)

lemma le_def_special: "le K (parseDef h rec form env) (parseDef h' rec' form env)"
  unfolding parseDef_def hooks_same
  by (auto simp only: Let_def [of "def_meta _ _"] intro!: le_cases le_bind le_basic le_intern
      le_set_meta rec_le)

lemma le_recur: "le K (parseRecur rec form env) (parseRecur rec' form env)"
  by (auto simp: parseRecur_def Let_def intro!: le_recs split: option.split)

lemma le_var: "le K (parseVar h form) (parseVar h' form)"
  by (auto simp: parseVar_def split: list.split)

lemma le_set_bang: "le K (parseSetBang rec form env) (parseSetBang rec' form env)"
  by (auto simp: parseSetBang_def intro!: rec_le split: list.splits node.splits)

lemma le_dyn_bind: "le K (parseBinding h rec form env) (parseBinding h' rec' form env)"
  by (auto simp: parseBinding_def intro!: le_dyn_bindings le_body split: list.splits val.splits)

lemma le_throw: "le K (parseThrow rec form env) (parseThrow rec' form env)"
  by (auto simp: parseThrow_def intro!: rec_le split: list.splits)

lemma le_catch: "le K (parseCatch rec form env) (parseCatch rec' form env)"
  by (auto simp: parseCatch_def Let_def intro!: le_body split: list.splits)

lemma le_try_forms:
  "le K (try_forms rec form env fs bodyForms catches fin inC) (try_forms rec' form env fs bodyForms catches fin inC)"
  by (induction fs arbitrary: bodyForms catches fin inC) (auto intro!: le_catch le_body)

lemma le_try: "le K (parseTry rec form env) (parseTry rec' form env)"
  by (auto simp: parseTry_def intro!: le_try_forms le_body)

lemma le_fn_method: "le K (parseFnMethod rec form env) (parseFnMethod rec' form env)"
  by (auto simp: parseFnMethod_def intro!: le_fn_params le_body split: list.splits val.splits)

lemma le_fn_methods: "le K (fn_methods rec form env ms var mx ar) (fn_methods rec' form env ms var mx ar)"
proof (induction ms arbitrary: var mx ar)
  case (Cons m ms)
  then show ?case by (cases m) (auto intro!: le_fn_method)
qed simp

lemma le_fn: "le K (parseFnStar rec form env) (parseFnStar rec' form env)"
  by (auto simp: parseFnStar_def Let_def intro!: le_fn_methods split: sum.split)

lemma le_host_new: "le K (parseHostNew h rec resolve opn form env) (parseHostNew h' rec' resolve opn form env)"
  by (auto simp: parseHostNew_def Let_def intro!: rec_le split: list.splits node.splits)

lemma le_host_call: "le K (parseHostCall resolve rec opn form env) (parseHostCall resolve rec' opn form env)"
  by (auto simp: parseHostCall_def intro!: le_recs)

lemma le_host_method: "le K (parseHostMethod rec name form env) (parseHostMethod rec' name form env)"
  by (auto simp: parseHostMethod_def Let_def intro!: le_recs rec_le split: list.split)

lemma le_host_field: "le K (parseHostField rec name form env) (parseHostField rec' name form env)"
  by (auto simp: parseHostField_def Let_def intro!: rec_le split: list.split)

lemma le_go_new: "le K (parseGoNew resolve form) (parseGoNew resolve form)"
  by (auto simp: parseGoNew_def split: list.split)

lemma le_call: "le K (parseCall h rec form env) (parseCall h' rec' form env)"
proof -
  have plain: "le K (abind (rec (hd (seq_items form)) env) (\<lambda>fn.
        abind (amap (\<lambda>x. rec x env) (seq_args form)) (\<lambda>args. ret (OpInvoke form fn args))))
      (abind (rec' (hd (seq_items form)) env) (\<lambda>fn.
        abind (amap (\<lambda>x. rec' x env) (seq_args form)) (\<lambda>args. ret (OpInvoke form fn args))))"
    by (intro le_bind rec_le le_recs le_basic)
  show ?thesis
  proof (cases "op_sym (hd (seq_items form))")
    case None
    with plain show ?thesis by (simp add: parseCall_def)
  next
    case (Some nn)
    obtain ns name where nn: "nn = (ns, name)" by (cases nn)
    show ?thesis
    proof (cases ns)
      case None
      with Some nn plain show ?thesis by (simp add: parseCall_def le_host_method le_host_field)
    next
      case (Some ns')
      with \<open>op_sym _ = Some nn\<close> nn plain show ?thesis
        by (cases "ResolveHost h") (auto simp: parseCall_def intro!: le_bind le_host_call split: option.split)
    qed
  qed
qed

lemma le_invoke: "le K (parseInvoke h rec form env) (parseInvoke h' rec' form env)"
proof (induction "if is_ctor_call form then 1 else 0::nat" arbitrary: form rule: less_induct)
  case less
  have again: "le K (parseInvoke h rec (VList None (VSym None ns (''->'' @ butlast name) # seq_args form)) env)
      (parseInvoke h' rec' (VList None (VSym None ns (''->'' @ butlast name) # seq_args form)) env)"
    if "op_sym (hd (seq_items form)) = Some (ns, name)" "isCtorName name" for ns name
    using that positional_ctor_no_ctor [of name]
    by (intro less.hyps) (simp_all add: is_ctor_call_def)
  show ?case
  proof (cases "op_sym (hd (seq_items form))")
    case None
    then show ?thesis by (simp add: parseInvoke.simps [of _ _ form] le_call)
  next
    case (Some nn)
    obtain ns name where nn: "nn = (ns, name)" by (cases nn)
    with Some show ?thesis
      using again [of ns name]
      by (cases "ResolveHostType h")
        (auto simp: parseInvoke.simps [of _ _ form] le_call le_go_new Let_def intro!: le_bind le_resolve le_host_new
          split: sum.split)
  qed
qed

lemma le_quote: "le K (parseQuote form) (parseQuote form)"
  by (simp add: parseQuote_def split: list.split)

lemma le_special: "le K (parseSpecial h rec sp form env) (parseSpecial h' rec' sp form env)"
  by (cases sp)
    (simp_all only: parseSpecial_def special.case parseDo_def parseCatchFinallyMisplaced_def le_quote
      le_if le_body le_def_special le_let le_recur le_set_bang le_dyn_bind le_fn le_throw le_try le_var le_basic)

lemma le_expand_once:
  assumes "le K (e form (Locals env)) (e' form (Locals env))"
  shows "le K (expand_once e form env) (expand_once e' form env)"
  unfolding le_def
proof
  fix s
  show "K s (snd (expand_once e form env s)) \<and>
      (fst (expand_once e form env s) = ADiv \<or> expand_once e' form env s = expand_once e form env s)"
    using assms by (cases "e form (Locals env) s"; cases "fst (e form (Locals env) s)")
      (auto simp: le_def expand_once_def dest: spec [of _ s])
qed

lemma le_expand: "le K (expand_loop h rec seq left form env) (expand_loop h' rec' seq left form env)"
proof (induction left arbitrary: form)
  case (Suc left)
  have m: "rel_option (\<lambda>e e'. \<forall>form ls. le K (e form ls) (e' form ls)) (Macroexpand1 h) (Macroexpand1 h')"
    using hooks by (simp add: hooks_le_def)
  show ?case
  proof (cases "Macroexpand1 h")
    case None
    with m show ?thesis by (auto intro!: le_special le_invoke split: option.split)
  next
    case (Some e)
    with m obtain e' where e': "Macroexpand1 h' = Some e'" "\<And>form ls. le K (e form ls) (e' form ls)"
      by (auto simp: option_rel_Some1)
    have rest: "le K (case x of VList m (y # ys) \<Rightarrow> expand_loop h rec seq left x env | _ \<Rightarrow> rec x env)
        (case x of VList m (y # ys) \<Rightarrow> expand_loop h' rec' seq left x env | _ \<Rightarrow> rec' x env)" for x
      by (auto intro!: Suc rec_le split: val.split list.split)
    show ?thesis
      using Some e' by (auto intro!: le_special le_bind le_invoke le_expand_once rest split: option.split
          simp del: le_cases)
  qed
qed simp

lemma le_step: "le K (analyze_step h rec form env) (analyze_step h' rec' form env)"
proof (cases form)
  case (VSym m ns n)
  then show ?thesis by (auto simp: analyze_step_def analyzeSymbol_def split: option.split)
next
  case (VList m xs)
  then show ?thesis by (auto simp: analyze_step_def analyzeSeq_def intro!: le_expand)
next
  case (VMap m es)
  then show ?thesis
    by (auto simp: analyze_step_def analyzeMap_def Let_def intro!: le_amap rec_le)
qed (auto simp: analyze_step_def analyzeVector_def analyzeSet_def intro!: le_recs)

end

context analysis_rel begin

lemma le_diverge: "le K (analyzeForm h 0 form env) m"
  by (simp add: le_def diverge_def K_refl)

lemma le_analyze:
  assumes "hooks_le K h h'" and "fuel \<le> fuel'"
  shows "le K (analyzeForm h fuel form env) (analyzeForm h' fuel' form env)"
  using assms(2)
proof (induction fuel arbitrary: fuel' form env)
  case 0
  show ?case by (rule le_diverge)
next
  case (Suc fuel)
  then obtain fuel'' where f: "fuel' = Suc fuel''" "fuel \<le> fuel''" by (cases fuel') auto
  have "analysis_calls K h h' (analyzeForm h fuel) (analyzeForm h' fuel'')"
    using Suc.IH [OF f(2)] assms(1) by unfold_locales
  from analysis_calls.le_step [OF this] show ?case by (simp add: f(1))
qed

end

text \<open>The two instances: states that a relation on worlds connects, and all states.\<close>

interpretation any_state: analysis_rel "\<lambda>s s'. True"
  by unfold_locales auto

lemma no_macros_le: "hooks_le (\<lambda>s s'. True) (h\<lparr>Macroexpand1 := None\<rparr>) (h\<lparr>Macroexpand1 := None\<rparr>)"
  by (simp add: hooks_le_def)

interpretation no_macros: analysis_calls "\<lambda>s s'. True" "h\<lparr>Macroexpand1 := None\<rparr>" "h\<lparr>Macroexpand1 := None\<rparr>"
    "analyzeForm (h\<lparr>Macroexpand1 := None\<rparr>) fuel" "analyzeForm (h\<lparr>Macroexpand1 := None\<rparr>) (fuel + k)"
  for h :: "'s hooks" and fuel k
  by unfold_locales (simp_all add: no_macros_le any_state.le_analyze)

end
