(* ===== verification/EvalSafe.thy ===== *)
theory EvalSafe
  imports Interp AnalyzerRel
begin

text \<open>
  What the evaluator keeps.  \<open>closures_ok\<close>: the body of every closure is well-formed code in the
  scope that the closure captured.  \<open>stack\<close>: the dynamic binding frames of the running goroutine.
  \<open>safe Q R P m\<close> is the triple of the proofs: \<open>m\<close> keeps \<open>closures_ok\<close> and moves the world along
  \<open>Q\<close>, never meets an unbound local, returns a recur signal only for the frame \<open>R\<close>, with as many
  values as it binds, and otherwise returns what \<open>P\<close> describes.
\<close>

subsection \<open>Invariant and triple\<close>

definition scope_names :: "scope \<Rightarrow> string set" where
  "scope_names s = {x. Lookup x s \<noteq> None}"

definition closure_ok :: "closure \<Rightarrow> bool" where
  "closure_ok c \<longleftrightarrow>
     (\<forall>m\<in>set (cmethods c).
        ok_node (mbody m) (scope_names (cenv c) \<union> self_names (cself c) \<union> bname ` set (mparams m))
          (Some (mloop m, length (mparams m))) \<and>
        length (mparams m) = mfixed m + (if mvariadic m then 1 else 0))"

definition closures_ok :: "'w estate \<Rightarrow> bool" where
  "closures_ok w \<longleftrightarrow> (\<forall>k c. heap w k = Some c \<longrightarrow> closure_ok c)"

definition stack :: "'w estate \<Rightarrow> nat \<times> bframe list" where
  "stack w = (gid w, case gls (vst_of w) (gid w) of None \<Rightarrow> [] | Some fs \<Rightarrow> fs)"

definition moves :: "('w estate \<Rightarrow> 'w estate \<Rightarrow> bool) \<Rightarrow> 'w gstate \<Rightarrow> 'w gstate \<Rightarrow> bool" where
  "moves Q s s' \<longleftrightarrow> (closures_ok (world s) \<longrightarrow> closures_ok (world s') \<and> Q (world s) (world s'))"

text \<open>A frame may be passed by an error only as \<open>R\<close> allows.\<close>

fun err_allowed :: "frame option \<Rightarrow> goerr \<Rightarrow> bool" where
  "err_allowed R (ErrRecur i vs) \<longleftrightarrow> R = Some (i, length vs)"
| "err_allowed R (ErrUnbound x) \<longleftrightarrow> False"
| "err_allowed R (Err v) \<longleftrightarrow> True"

fun outcome :: "frame option \<Rightarrow> ('a \<Rightarrow> bool) \<Rightarrow> (goerr + 'a) gres \<Rightarrow> bool" where
  "outcome R P (GRet (Inl e)) \<longleftrightarrow> err_allowed R e"
| "outcome R P (GRet (Inr x)) \<longleftrightarrow> P x"
| "outcome R P (GRecur i vs) \<longleftrightarrow> False"
| "outcome R P _ \<longleftrightarrow> True"

definition safe :: "('w estate \<Rightarrow> 'w estate \<Rightarrow> bool) \<Rightarrow> frame option \<Rightarrow> ('a \<Rightarrow> bool) \<Rightarrow> ('w, 'a) em \<Rightarrow> bool" where
  "safe Q R P m \<longleftrightarrow>
     (\<forall>s. moves Q s (snd (m s)) \<and> (closures_ok (world s) \<longrightarrow> outcome R P (fst (m s))))"

text \<open>A Go call that returns a value: it keeps the invariant and never panics with a recur signal.\<close>

definition calm :: "('w estate \<Rightarrow> 'w estate \<Rightarrow> bool) \<Rightarrow> ('w, 'a) go \<Rightarrow> bool" where
  "calm Q m \<longleftrightarrow>
     (\<forall>s. moves Q s (snd (m s)) \<and> (closures_ok (world s) \<longrightarrow> (\<forall>i vs. fst (m s) \<noteq> GRecur i vs)))"

text \<open>What is asked of the functions written in Go: they keep what every call they make keeps.\<close>

definition natives_calm :: "('w estate \<Rightarrow> 'w estate \<Rightarrow> bool) \<Rightarrow> 'w rt \<Rightarrow> bool" where
  "natives_calm Q rt \<longleftrightarrow>
     (\<forall>ap. (\<forall>f args. calm Q (ap f args)) \<longrightarrow>
        (\<forall>i args. calm Q (native rt i ap args)) \<and> (\<forall>f args. calm Q (invoke_other rt f ap args)) \<and>
        (\<forall>op. calm Q (host rt op ap)))"

subsection \<open>Scopes\<close>

lemma Lookup_Define: "s \<noteq> [] \<Longrightarrow> Lookup x (Define n v s) = (if x = n then Some v else Lookup x s)"
  by (cases s) (auto simp: Define_def update_conv')

lemma scope_names_Define [simp]: "s \<noteq> [] \<Longrightarrow> scope_names (Define n v s) = insert n (scope_names s)"
  by (auto simp: scope_names_def Lookup_Define)

lemma scope_names_Push [simp]: "scope_names (Push s) = scope_names s"
  by (simp add: scope_names_def Push_def)

lemma scope_nonempty [simp]: "Push s \<noteq> []" "Define n v s = [] \<longleftrightarrow> s = []"
  by (auto simp: Push_def Define_def split: list.split)

lemma define_params_names:
  "define_params bs vs s = Some s' \<Longrightarrow> s \<noteq> [] \<Longrightarrow> scope_names s' = scope_names s \<union> bname ` set bs"
  by (induction bs vs s rule: define_params.induct) auto

lemma define_params_total: "length vs = length bs \<Longrightarrow> define_params bs vs s \<noteq> None"
  by (induction bs vs s rule: define_params.induct) auto

lemma rebind_names:
  "rebind nms vs s = Some s' \<Longrightarrow> length vs = length nms \<Longrightarrow> scope_names s' = scope_names s \<union> set nms"
  by (induction nms vs s rule: rebind.induct) auto

lemma rebind_total: "length vs = length nms \<Longrightarrow> rebind nms vs s \<noteq> None"
  by (induction nms vs s rule: rebind.induct) auto

lemma method_scope_names:
  "method_scope k c m vals = Some s \<Longrightarrow>
     scope_names s = scope_names (cenv c) \<union> self_names (cself c) \<union> bname ` set (mparams m)"
  by (auto simp: method_scope_def Let_def self_names_def dest!: define_params_names split: option.splits)

lemma pick_in: "pick ms n v = Some m \<Longrightarrow> m \<in> set ms \<or> v = Some m"
  by (induction ms n v rule: pick.induct) (auto split: option.splits if_splits)

lemma pick_fits: "pick ms n v = Some m \<Longrightarrow> (\<And>m. v = Some m \<Longrightarrow> mvariadic m) \<Longrightarrow>
    if mvariadic m then mfixed m \<le> n else mfixed m = n"
  by (induction ms n v rule: pick.induct) (auto split: option.splits if_splits)

lemma method_vals_length:
  assumes "closure_ok c" and "pickMethod c (length args) = Some m"
  shows "length (method_vals m args) = length (mparams m)"
proof -
  have "m \<in> set (cmethods c)" using assms(2) pick_in [of "cmethods c" "length args" None m]
    by (auto simp: pickMethod_def)
  moreover have "if mvariadic m then mfixed m \<le> length args else mfixed m = length args"
    using assms(2) pick_fits [of "cmethods c" "length args" None m] by (auto simp: pickMethod_def)
  ultimately show ?thesis using assms(1) by (auto simp: closure_ok_def method_vals_def split: if_splits)
qed

subsection \<open>Relations between worlds\<close>

text \<open>\<open>Q\<close> sees no more than the stack of frames, and a frame pushed and popped is not seen.\<close>

locale world_relation =
  fixes Q :: "'w estate \<Rightarrow> 'w estate \<Rightarrow> bool"
  assumes Q_trans: "Q w1 w2 \<Longrightarrow> Q w2 w3 \<Longrightarrow> Q w1 w3"
    and Q_stack: "stack w = stack w' \<Longrightarrow> Q w w'"
    and Q_pop: "stack w1 = (gid w, f # snd (stack w)) \<Longrightarrow> Q w1 w2 \<Longrightarrow>
      stack w3 = (gid w2, tl (snd (stack w2))) \<Longrightarrow> Q w w3"
begin

lemma Q_refl: "Q w w"
  by (rule Q_stack) simp

lemma moves_refl [simp]: "moves Q s s"
  by (simp add: moves_def Q_refl)

lemma moves_trans: "moves Q s1 s2 \<Longrightarrow> moves Q s2 s3 \<Longrightarrow> moves Q s1 s3"
  unfolding moves_def using Q_trans by blast

lemma moves_same: "heap (world s') = heap (world s) \<Longrightarrow> stack (world s) = stack (world s') \<Longrightarrow> moves Q s s'"
  by (simp add: moves_def closures_ok_def Q_stack)

lemma safe_weaken: "safe Q R P m \<Longrightarrow> (\<And>x. P x \<Longrightarrow> P' x) \<Longrightarrow> safe Q R P' m"
proof -
  assume "safe Q R P m" and w: "\<And>x. P x \<Longrightarrow> P' x"
  moreover have "outcome R P r \<Longrightarrow> outcome R P' r" for r
    using w by (cases "(R, P, r)" rule: outcome.cases) auto
  ultimately show ?thesis by (auto simp: safe_def)
qed

lemma safe_frame: "safe Q None P m \<Longrightarrow> safe Q R P m"
proof -
  assume "safe Q None P m"
  moreover have "err_allowed None e \<Longrightarrow> err_allowed R e" for e by (cases e) auto
  then have "outcome None P r \<Longrightarrow> outcome R P r" for r
    by (cases "(R, P, r)" rule: outcome.cases) auto
  ultimately show ?thesis by (auto simp: safe_def)
qed

lemma safe_eret [intro]: "P x \<Longrightarrow> safe Q R P (eret x)"
  by (simp add: safe_def eret_def gret_def)

lemma safe_eerr [intro]: "err_allowed R e \<Longrightarrow> safe Q R P (eerr e)"
  by (simp add: safe_def eerr_def gret_def)

lemma safe_errorf [intro]: "safe Q R P (errorf msg)"
  by (simp add: errorf_def safe_eerr)

text \<open>A panic, or running out of fuel, is always allowed.\<close>

lemma safe_gpanic [intro]: "safe Q R P (gpanic p)" "safe Q R P gfuel"
  by (simp_all add: safe_def gpanic_def gfuel_def)

lemma calm_basic [intro]: "calm Q (gret x)" "calm Q (gpanic p)" "calm Q gfuel" "calm Q (panicf msg)"
  "calm Q runtime_panic" "calm Q (get_world f)"
  by (simp_all add: calm_def gret_def gpanic_def gfuel_def panicf_def runtime_panic_def get_world_def)

lemma calm_bind [intro]:
  assumes "calm Q m" and "\<And>x. calm Q (f x)"
  shows "calm Q (gbind m f)"
  unfolding calm_def
proof (intro allI conjI impI)
  fix s
  obtain r t where ms: "m s = (r, t)" by fastforce
  have 1: "moves Q s t" "closures_ok (world s) \<Longrightarrow> r \<noteq> GRecur i vs" for i vs
    using assms(1) ms by (auto simp: calm_def dest: spec [of _ s])
  show "moves Q s (snd (gbind m f s))"
    using 1(1) assms(2) ms by (cases r) (auto simp: gbind_def calm_def intro: moves_trans)
  fix i vs
  assume ok: "closures_ok (world s)"
  then have "closures_ok (world t)" using 1(1) by (simp add: moves_def)
  with 1(2) [OF ok] assms(2) ms show "fst (gbind m f s) \<noteq> GRecur i vs"
    by (cases r) (auto simp: gbind_def calm_def)
qed

lemma safe_bind:
  assumes "safe Q R' P m" and "\<And>x. P x \<Longrightarrow> safe Q R P' (f x)" and "R' = None \<or> R' = R"
  shows "safe Q R P' (ebind m f)"
  unfolding safe_def
proof (intro allI conjI impI)
  fix s
  have m: "safe Q R P m" using assms(1,3) safe_frame by blast
  obtain r t where ms: "m s = (r, t)" by fastforce
  have 1: "moves Q s t" "closures_ok (world s) \<Longrightarrow> outcome R P r"
    using m ms by (auto simp: safe_def dest: spec [of _ s])
  show "moves Q s (snd (ebind m f s))"
  proof (cases "closures_ok (world s)")
    case False
    then show ?thesis by (simp add: moves_def)
  next
    case True
    with 1(2) assms(2) ms show ?thesis
      using moves_trans [OF 1(1)] 1(1)
      by (cases r) (auto simp: gbind_def ebind_def safe_def eerr_def gret_def split: sum.split)
  qed
  assume ok: "closures_ok (world s)"
  then have "closures_ok (world t)" using 1(1) by (simp add: moves_def)
  with 1(2) [OF ok] assms(2) ms show "outcome R P' (fst (ebind m f s))"
    by (cases r) (auto simp: gbind_def ebind_def safe_def eerr_def gret_def split: sum.split)
qed

lemma safe_seq: "safe Q None P m \<Longrightarrow> (\<And>x. P x \<Longrightarrow> safe Q R P' (f x)) \<Longrightarrow> safe Q R P' (ebind m f)"
  by (rule safe_bind [where R' = None and P = P]) simp_all

lemma safe_call: "calm Q m \<Longrightarrow> (\<And>x. P x) \<Longrightarrow> safe Q R P (ecall m)"
  unfolding safe_def
proof (intro allI conjI impI)
  fix s assume "calm Q m" "\<And>x. P x"
  then show "moves Q s (snd (ecall m s))"
    by (cases "m s"; cases "fst (m s)") (auto simp: ecall_def gbind_def calm_def eret_def gret_def dest: spec [of _ s])
  assume "closures_ok (world s)"
  with \<open>calm Q m\<close> \<open>\<And>x. P x\<close> show "outcome R P (fst (ecall m s))"
    by (cases "m s"; cases "fst (m s)") (auto simp: ecall_def gbind_def calm_def eret_def gret_def dest: spec [of _ s])
qed

lemma safe_emap: "(\<And>x. x \<in> set xs \<Longrightarrow> safe Q None P (f x)) \<Longrightarrow>
    safe Q None (\<lambda>ys. length ys = length xs \<and> list_all P ys) (emap f xs)"
proof (induction xs)
  case (Cons x xs)
  have "safe Q None P (f x)" using Cons.prems by simp
  moreover have "safe Q None (\<lambda>ys. length ys = length xs \<and> list_all P ys) (emap f xs)"
    using Cons by simp
  ultimately show ?case by (auto intro!: safe_seq safe_eret)
qed auto

lemma calm_upd: "(\<And>w. heap (f w) = heap w \<and> stack (f w) = stack w) \<Longrightarrow> calm Q (upd_world f)"
  by (auto simp: calm_def upd_world_def intro: moves_same)

lemma stack_vst [simp]: "stack (upd_vst f w) = (gid w, case gls (f (vst_of w)) (gid w) of None \<Rightarrow> [] | Some fs \<Rightarrow> fs)"
  "heap (upd_vst f w) = heap w" "gid (upd_vst f w) = gid w"
  by (simp_all add: stack_def upd_vst_def)

lemma calm_upd_vst: "(\<And>st. gls (f st) = gls st) \<Longrightarrow> calm Q (upd_world (upd_vst f))"
  by (rule calm_upd) (simp add: stack_def upd_vst_def del: stack_vst)

end

end
