(* ===== verification/EvalSteps.thy ===== *)
theory EvalSteps
  imports EvalSafe
begin

text \<open>
  The evaluator keeps its invariant: the rules of \<open>EvalSafe\<close> applied to every operation of
  \<open>Eval\<close> and \<open>Interp\<close>, first for any relation on worlds, then by induction on the fuel.
\<close>

subsection \<open>Rules that look at the state\<close>

context world_relation begin

lemma safe_gbind:
  assumes "safe Q Rb P0 m"
    and "\<And>e. err_allowed Rb e \<Longrightarrow> safe Q R P (f (Inl e))" and "\<And>x. P0 x \<Longrightarrow> safe Q R P (f (Inr x))"
  shows "safe Q R P (gbind m f)"
  unfolding safe_def
proof (intro allI conjI impI)
  fix s
  obtain r t where ms: "m s = (r, t)" by fastforce
  have 1: "moves Q s t" "closures_ok (world s) \<Longrightarrow> outcome Rb P0 r"
    using assms(1) ms by (auto simp: safe_def dest: spec [of _ s])
  have f: "safe Q R P (f x)" if "closures_ok (world s)" "r = GRet x" for x
    using 1(2) that assms(2,3) by (cases x) auto
  show "moves Q s (snd (gbind m f s))"
  proof (cases "closures_ok (world s)")
    case False
    then show ?thesis by (simp add: moves_def)
  next
    case True
    with f ms 1(1) show ?thesis
      using moves_trans [OF 1(1)] by (cases r) (auto simp: gbind_def safe_def)
  qed
  assume ok: "closures_ok (world s)"
  then have "closures_ok (world t)" using 1(1) by (simp add: moves_def)
  with 1(2) [OF ok] f [OF ok] ms show "outcome R P (fst (gbind m f s))"
    by (cases r) (auto simp: gbind_def safe_def)
qed

lemma calm_of_safe:
  assumes "safe Q Rb P0 m"
    and "\<And>e. err_allowed Rb e \<Longrightarrow> calm Q (f (Inl e))" and "\<And>x. P0 x \<Longrightarrow> calm Q (f (Inr x))"
  shows "calm Q (gbind m f)"
  unfolding calm_def
proof (intro allI conjI impI)
  fix s
  obtain r t where ms: "m s = (r, t)" by fastforce
  have 1: "moves Q s t" "closures_ok (world s) \<Longrightarrow> outcome Rb P0 r"
    using assms(1) ms by (auto simp: safe_def dest: spec [of _ s])
  have f: "calm Q (f x)" if "closures_ok (world s)" "r = GRet x" for x
    using 1(2) that assms(2,3) by (cases x) auto
  show "moves Q s (snd (gbind m f s))"
  proof (cases "closures_ok (world s)")
    case False
    then show ?thesis by (simp add: moves_def)
  next
    case True
    with f ms 1(1) show ?thesis
      using moves_trans [OF 1(1)] by (cases r) (auto simp: gbind_def calm_def)
  qed
  fix i vs
  assume ok: "closures_ok (world s)"
  then have "closures_ok (world t)" using 1(1) by (simp add: moves_def)
  with 1(2) [OF ok] f [OF ok] ms show "fst (gbind m f s) \<noteq> GRecur i vs"
    by (cases r) (auto simp: gbind_def calm_def)
qed

lemma calm_closure:
  assumes "calm Q (f None)" and "\<And>c. closure_ok c \<Longrightarrow> calm Q (f (Some c))"
  shows "calm Q (gbind (get_world (\<lambda>w. heap w k)) f)"
  unfolding calm_def
proof
  fix s :: "'w gstate"
  have "calm Q (f (heap (world s) k))" if "closures_ok (world s)"
    using assms that by (cases "heap (world s) k") (auto simp: closures_ok_def)
  then show "moves Q s (snd (gbind (get_world (\<lambda>w. heap w k)) f s)) \<and>
      (closures_ok (world s) \<longrightarrow> (\<forall>i vs. fst (gbind (get_world (\<lambda>w. heap w k)) f s) \<noteq> GRecur i vs))"
    by (auto simp: gbind_def get_world_def calm_def moves_def)
qed

lemma calm_upd_heap:
  "(\<And>w. closures_ok w \<Longrightarrow> closures_ok (f w)) \<Longrightarrow> (\<And>w. stack (f w) = stack w) \<Longrightarrow> calm Q (upd_world f)"
  by (auto simp: calm_def upd_world_def moves_def intro: Q_stack)

lemma calm_prod [intro]: "(\<And>a b. calm Q (f a b)) \<Longrightarrow> calm Q (case p of (a, b) \<Rightarrow> f a b)"
  by (cases p) simp

lemma calm_option [intro]: "calm Q n \<Longrightarrow> (\<And>x. calm Q (f x)) \<Longrightarrow> calm Q (case_option n f r)"
  by (cases r) auto

lemma safe_prod: "(\<And>a b. safe Q R P (f a b)) \<Longrightarrow> safe Q R P (case p of (a, b) \<Rightarrow> f a b)"
  by (cases p) simp

lemma safe_get_world: "(\<And>x. safe Q R P (g x)) \<Longrightarrow> safe Q R P (gbind (get_world f) g)"
  by (simp add: safe_def gbind_def get_world_def)

lemma calm_var_Deref [intro]: "calm Q (var_Deref v)"
  by (auto simp: var_Deref_def)

lemma calm_panic_err: "err_allowed None e \<Longrightarrow> calm Q (panic_err e)"
  by (cases e) (auto simp: panic_err_def calm_def)

subsection \<open>Push and pop\<close>

lemma short_tl: "\<not> Suc 0 < length xs \<Longrightarrow> tl xs = []"
  by (cases xs) auto

lemma pop_stack:
  "fst (pop_bindings s) = GRet () \<Longrightarrow>
     heap (world (snd (pop_bindings s))) = heap (world s) \<and>
     stack (world (snd (pop_bindings s))) = (gid (world s), tl (snd (stack (world s))))"
  by (auto simp: pop_bindings_def upd_world_def stack_def upd_vst_def runtime_panic_def gpanic_def
      PopThreadBindings_def short_tl split: option.splits if_splits list.splits)

lemma pop_panics:
  "fst (pop_bindings s) \<noteq> GRet () \<Longrightarrow> (\<exists>p. fst (pop_bindings s) = GPanic p) \<and> snd (pop_bindings s) = s \<and>
     snd (stack (world s)) = []"
  by (auto simp: pop_bindings_def upd_world_def stack_def runtime_panic_def gpanic_def
      PopThreadBindings_def split: option.splits if_splits)

lemma pop_moves:
  fixes s s1 s2 :: "'w gstate"
  assumes "stack (world s1) = (gid (world s), f # snd (stack (world s)))"
    and "closures_ok (world s) \<Longrightarrow> closures_ok (world s1)" and "moves Q s1 s2"
  shows "moves Q s (snd (pop_bindings s2))"
proof (cases "closures_ok (world s)")
  case True
  then have 2: "closures_ok (world s2)" "Q (world s1) (world s2)" using assms(2,3) by (auto simp: moves_def)
  have "closures_ok (world (snd (pop_bindings s2)))"
    using 2 pop_stack [of s2] pop_panics [of s2]
    by (cases "fst (pop_bindings s2) = GRet ()") (auto simp: closures_ok_def)
  moreover have "Q (world s) (world (snd (pop_bindings s2)))"
  proof (rule Q_pop [OF assms(1) 2(2)])
    show "stack (world (snd (pop_bindings s2))) = (gid (world s2), tl (snd (stack (world s2))))"
      using pop_stack [of s2] pop_panics [of s2]
      by (cases "fst (pop_bindings s2) = GRet ()") (auto simp: stack_def)
  qed
  ultimately show ?thesis by (simp add: moves_def)
qed (simp add: moves_def)

lemma push_stack:
  fixes s :: "'w gstate" and kvs
  defines "s1 \<equiv> s\<lparr>world := upd_vst (snd \<circ> PushThreadBindings (gid (world s)) kvs) (world s)\<rparr>"
  shows "\<exists>f. stack (world s1) = (gid (world s), f # snd (stack (world s)))"
    and "heap (world s1) = heap (world s)"
  using Push_fields(2) [where gid = "gid (world s)" and bindings = kvs and st = "vst_of (world s)"]
  by (auto simp: s1_def stack_def upd_vst_def)

lemma safe_bracket:
  assumes "safe Q R P m"
  shows "safe Q R P (ebind (pushThreadBindings kvs) (\<lambda>_. deferring m pop_bindings))"
  unfolding safe_def
proof (intro allI)
  fix s :: "'w gstate"
  let ?s1 = "s\<lparr>world := upd_vst (snd \<circ> PushThreadBindings (gid (world s)) kvs) (world s)\<rparr>"
  let ?ok = "fst (PushThreadBindings (gid (world s)) kvs (vst_of (world s)))"
  obtain f where f: "stack (world ?s1) = (gid (world s), f # snd (stack (world s)))"
    using push_stack(1) [of s kvs] by blast
  have c1: "closures_ok (world ?s1)" if "closures_ok (world s)"
    using that push_stack(2) [of s kvs] by (simp add: closures_ok_def)
  note pops = pop_moves [OF f c1]
  show "moves Q s (snd (ebind (pushThreadBindings kvs) (\<lambda>_. deferring m pop_bindings) s)) \<and>
    (closures_ok (world s) \<longrightarrow>
       outcome R P (fst (ebind (pushThreadBindings kvs) (\<lambda>_. deferring m pop_bindings) s)))"
  proof (cases ?ok)
    case False
    obtain r t where pop: "pop_bindings ?s1 = (r, t)" by fastforce
    have "moves Q s t" using pops [OF _ moves_refl] pop by simp
    moreover have "r = GRet () \<or> (\<exists>p. r = GPanic p)" using pop_panics [of ?s1] pop by auto
    ultimately show ?thesis
      using False pop
      by (auto simp: ebind_def pushThreadBindings_def gbind_def get_world_def upd_world_def eerr_def gret_def)
  next
    case True
    obtain r t where ms: "m ?s1 = (r, t)" by fastforce
    have m: "moves Q ?s1 t" "closures_ok (world ?s1) \<Longrightarrow> outcome R P r"
      using assms ms by (auto simp: safe_def dest: spec [of _ ?s1])
    have eq: "ebind (pushThreadBindings kvs) (\<lambda>_. deferring m pop_bindings) s =
        (case deferring m pop_bindings ?s1 of (r, t) \<Rightarrow> (r, t))"
      using True by (simp add: ebind_def pushThreadBindings_def gbind_def get_world_def upd_world_def eret_def gret_def)
    obtain d u where pop: "pop_bindings t = (d, u)" by fastforce
    have "moves Q s u" using pops [OF _ m(1)] pop by simp
    moreover have "d = GRet () \<or> (\<exists>p. d = GPanic p)" using pop_panics [of t] pop by auto
    ultimately show ?thesis using c1 m ms pop
      unfolding eq by (cases r) (auto simp: deferring_def)
  qed
qed

end

subsection \<open>Every operation, given calls that are safe\<close>

locale eval_calls = world_relation Q for Q :: "'w estate \<Rightarrow> 'w estate \<Rightarrow> bool" +
  fixes rt :: "'w rt" and ev :: "'w evalfn" and ap :: "'w applyfn"
  assumes ev_safe: "ok_node n L R \<Longrightarrow> L \<subseteq> scope_names s \<Longrightarrow> safe Q R (\<lambda>_. True) (ev n s)"
    and ap_calm: "calm Q (ap f args)"
    and natives: "natives_calm Q rt"
begin

lemma ev_arg: "ok_node n L None \<Longrightarrow> L \<subseteq> scope_names s \<Longrightarrow> safe Q None (\<lambda>_. True) (ev n s)"
  by (rule ev_safe)

lemma native_calm: "calm Q (native rt i ap args)" "calm Q (invoke_other rt f ap args)" "calm Q (host rt op ap)"
  using natives ap_calm by (auto simp: natives_calm_def)

lemma safe_args:
  assumes "ok_nodes ns L" and "L \<subseteq> scope_names s"
  shows "safe Q None (\<lambda>vs. length vs = length ns) (emap (\<lambda>n. ev n s) ns)"
  by (rule safe_weaken [OF safe_emap [where P = "\<lambda>_. True"]])
    (use assms in \<open>auto simp: ok_nodes_def intro: ev_arg\<close>)

subsubsection \<open>Vars\<close>

lemma calm_watches: "calm Q (run_watches ap cs)"
proof (induction cs)
  case (Cons c cs)
  then show ?case by (cases c) (auto intro!: calm_bind ap_calm)
qed auto

lemma calm_notify: "calm Q (notify ap)"
  unfolding notify_def by (intro calm_bind calm_basic calm_upd_vst calm_watches) simp

lemma calm_BindRoot: "calm Q (var_BindRoot ap v x)"
  unfolding var_BindRoot_def by (intro calm_bind calm_upd_vst calm_notify) (simp add: BindRoot_fields)

lemma calm_Set: "calm Q (var_Set ap v x)"
  unfolding var_Set_def
  by (intro calm_bind calm_basic calm_prod)
    (auto intro!: calm_bind calm_basic calm_notify calm_upd split: option.split
      dest!: SetVar_fields simp: stack_def upd_vst_def)

lemma calm_Invoke: "calm Q (var_Invoke rt ap v args)"
  unfolding var_Invoke_def
  by (intro calm_bind calm_basic calm_prod)
    (auto intro!: calm_bind calm_basic ap_calm calm_var_Deref split: val.split)

subsubsection \<open>Closures\<close>

lemma calm_method_loop:
  "closure_ok c \<Longrightarrow> m \<in> set (cmethods c) \<Longrightarrow> length vals = length (mparams m) \<Longrightarrow>
     calm Q (method_loop left ev k c m vals)"
proof (induction left arbitrary: vals)
  case (Suc left)
  obtain s where s: "method_scope k c m vals = Some s"
    using define_params_total [OF Suc.prems(3)] by (auto simp: method_scope_def Let_def)
  have "safe Q (Some (mloop m, length (mparams m))) (\<lambda>_. True) (ev (mbody m) s)"
    by (rule ev_safe) (use Suc.prems method_scope_names [OF s] in \<open>auto simp: closure_ok_def\<close>)
  then have "calm Q (gbind (ev (mbody m) s) (\<lambda>r.
          case r of
            Inr v \<Rightarrow> gret v
          | Inl (ErrRecur i vs) \<Rightarrow>
              if i = mloop m then method_loop left ev k c m vs else panic_err (ErrRecur i vs)
          | Inl e \<Rightarrow> panic_err e))"
  proof (rule calm_of_safe)
    fix e assume "err_allowed (Some (mloop m, length (mparams m))) e"
    then show "calm Q (case Inl e of Inr v \<Rightarrow> gret v
          | Inl (ErrRecur i vs) \<Rightarrow>
              if i = mloop m then method_loop left ev k c m vs else panic_err (ErrRecur i vs)
          | Inl e \<Rightarrow> panic_err e)"
      using Suc by (cases e) (auto intro!: calm_panic_err)
  qed auto
  with s show ?case by simp
qed auto

lemma calm_fn_Invoke: "calm Q (fn_Invoke fuel ev k args)"
  unfolding fn_Invoke_def
proof (rule calm_closure)
  fix c assume c: "closure_ok c"
  show "calm Q (case Some c of None \<Rightarrow> runtime_panic
       | Some c \<Rightarrow> (case pickMethod c (length args) of
            None \<Rightarrow> gpanic (VArity (int (length args)) (fn_name c) (Some k))
          | Some m \<Rightarrow> method_loop fuel ev k c m (method_vals m args)))"
    using c pick_in [of "cmethods c" "length args" None]
    by (auto intro!: calm_method_loop calm_basic method_vals_length split: option.split simp: pickMethod_def)
qed auto

lemma calm_new_closure:
  assumes "ok_node (OpFn form ms variadic mx self) L R" and "L \<subseteq> scope_names s"
  shows "calm Q (new_closure ms self form s)"
proof -
  have c: "closure_ok \<lparr>cmethods = ms, cself = self, cform = form, cenv = s, cdefName = []\<rparr>"
    unfolding closure_ok_def closure.select_convs
  proof
    fix m assume m: "m \<in> set ms"
    have "ok_node (mbody m) (L \<union> self_names self \<union> bname ` set (mparams m)) (Some (mloop m, length (mparams m)))"
      using assms(1) m by (simp only: ok_node_lists)
    moreover have "length (mparams m) = mfixed m + (if mvariadic m then 1 else 0)"
      using assms(1) m by (simp only: ok_node_lists ok_arities_def)
    moreover have "L \<union> self_names self \<union> bname ` set (mparams m) \<subseteq>
        scope_names s \<union> self_names self \<union> bname ` set (mparams m)" using assms(2) by auto
    ultimately show "ok_node (mbody m) (scope_names s \<union> self_names self \<union> bname ` set (mparams m))
          (Some (mloop m, length (mparams m))) \<and>
        length (mparams m) = mfixed m + (if mvariadic m then 1 else 0)"
      using ok_node_mono by blast
  qed
  show ?thesis
    unfolding new_closure_def
    by (intro calm_bind calm_basic calm_upd_heap)
      (use c in \<open>auto simp: closures_ok_def stack_def split: if_splits\<close>)
qed

lemma calm_name_closure: "calm Q (name_closure x n v)"
proof -
  have "closure_ok (c\<lparr>cdefName := d\<rparr>) \<longleftrightarrow> closure_ok c" for c d by (simp add: closure_ok_def)
  then have set: "calm Q (upd_world (set_defName k v))" for k
    by (intro calm_upd_heap) (auto simp: set_defName_def closures_ok_def stack_def split: if_splits)
  show ?thesis
  proof (cases x)
    case (VFn k)
    with set show ?thesis by (cases n) (auto simp: name_closure_def)
  qed (auto simp: name_closure_def)
qed

subsubsection \<open>Nodes\<close>

lemma safe_items:
  assumes "ok_nodes ns L" and "L \<subseteq> scope_names s" and "\<And>vs. length vs = length ns \<Longrightarrow> safe Q R P (f vs)"
  shows "safe Q R P (ebind (emap (\<lambda>n. ev n s) ns) f)"
  by (rule safe_seq [OF safe_args]) (use assms in auto)

lemma safe_one:
  "ok_node n L None \<Longrightarrow> L \<subseteq> scope_names s \<Longrightarrow> (\<And>v. safe Q R P (f v)) \<Longrightarrow> safe Q R P (ebind (ev n s) f)"
  by (rule safe_seq [OF ev_arg]) auto

lemma safe_true: "calm Q m \<Longrightarrow> safe Q R (\<lambda>_. True) (ecall m)"
  by (rule safe_call) auto

lemma safe_map:
  assumes "\<forall>e\<in>set es. ok_node (fst e) L None \<and> ok_node (snd e) L None" and "L \<subseteq> scope_names s"
  shows "safe Q R (\<lambda>_. True) (eval_map rt ev form es s)"
proof -
  have "safe Q None (\<lambda>_. True) (eval_pair ev s e)" if "e \<in> set es" for e
    unfolding eval_pair_def using assms that by (intro safe_one safe_eret) auto
  from safe_emap [OF this] show ?thesis
    unfolding eval_map_def by (rule safe_seq) auto
qed

lemma safe_local: "x \<in> scope_names s \<Longrightarrow> safe Q R (\<lambda>_. True) (eval_local x s)"
  by (auto simp: eval_local_def scope_names_def)

lemma safe_do:
  assumes "ok_nodes ns L" and "ok_node r L R" and "L \<subseteq> scope_names s"
  shows "safe Q R (\<lambda>_. True) (eval_do ev ns r s)"
  using assms by (induction ns) (auto intro: ev_safe safe_one)

lemma safe_if: "ok_node (OpIf c t e) L R \<Longrightarrow> L \<subseteq> scope_names s \<Longrightarrow> safe Q R (\<lambda>_. True) (eval_if ev c t e s)"
  unfolding eval_if_def by (rule safe_one) (auto simp: ok_node.simps intro: ev_safe)

lemma safe_def_node: "\<forall>n. ini = Some n \<longrightarrow> ok_node n L None \<Longrightarrow> L \<subseteq> scope_names s \<Longrightarrow>
    safe Q R (\<lambda>_. True) (eval_def ev ap v ini s)"
  unfolding eval_def_def
  by (cases ini) (auto intro!: safe_seq [where P = "\<lambda>_. True"] safe_true calm_name_closure calm_BindRoot
      intro: ev_arg)

lemma safe_lets:
  "ok_lets bs L \<Longrightarrow> L \<subseteq> scope_names s \<Longrightarrow>
     safe Q None (\<lambda>s'. L \<union> bnames bs \<subseteq> scope_names s') (eval_lets ev bs s)"
proof (induction bs arbitrary: L s)
  case (Cons bn bs)
  obtain b n where bn: "bn = (b, n)" by (cases bn)
  have "safe Q None (\<lambda>s'. insert (bname b) L \<union> bnames bs \<subseteq> scope_names s') (eval_lets ev bs (Define (bname b) v (Push s)))" for v
    by (rule Cons.IH) (use Cons.prems bn in auto)
  then show ?case using Cons.prems bn by (auto intro!: safe_one [where L = L])
qed auto

lemma safe_let: "ok_lets bs L \<Longrightarrow> ok_node n (L \<union> bnames bs) R \<Longrightarrow> L \<subseteq> scope_names s \<Longrightarrow>
    safe Q R (\<lambda>_. True) (eval_let ev bs n s)"
  unfolding eval_let_def by (rule safe_seq [OF safe_lets]) (auto intro: ev_safe)

lemma safe_rounds:
  assumes "ok_node body (L \<union> set nms) (Some (i, length nms))" and "L \<subseteq> scope_names s"
  shows "L \<union> set nms \<subseteq> scope_names cur \<Longrightarrow> safe Q None (\<lambda>_. True) (loop_rounds left ev body i nms s cur)"
proof (induction left arbitrary: cur)
  case (Suc left)
  show ?case unfolding loop_rounds.simps
  proof (rule safe_gbind [OF ev_safe [OF assms(1) Suc.prems]])
    fix e assume e: "err_allowed (Some (i, length nms)) e"
    show "safe Q None (\<lambda>_. True) (case Inl e of
         Inl (ErrRecur j vs) \<Rightarrow>
           if j = i
           then (case rebind nms vs s of
                   None \<Rightarrow> runtime_panic
                 | Some cur' \<Rightarrow> loop_rounds left ev body i nms s cur')
           else gret (Inl e)
       | _ \<Rightarrow> gret (Inl e))"
    proof (cases e)
      case (ErrRecur j vs)
      with e obtain cur' where c: "rebind nms vs s = Some cur'" using rebind_total [of vs nms s] by auto
      have "safe Q None (\<lambda>_. True) (loop_rounds left ev body i nms s cur')"
        by (rule Suc.IH) (use rebind_names [OF c] e ErrRecur assms(2) in auto)
      with ErrRecur e c show ?thesis by simp
    qed (use e safe_eerr [of None e] in \<open>auto simp: eerr_def\<close>)
  qed (auto simp: eret_def [symmetric])
qed auto

lemma safe_loop:
  assumes "ok_node (OpLoop bs body i) L R" and "L \<subseteq> scope_names s"
  shows "safe Q R (\<lambda>_. True) (eval_loop fuel ev bs body i s)"
proof -
  have "safe Q R (\<lambda>_. True) (loop_rounds fuel ev body i (map (bname \<circ> fst) bs) s cur)"
    if "L \<union> bnames bs \<subseteq> scope_names cur" for cur
    by (rule safe_frame, rule safe_rounds) (use assms that in \<open>auto simp: bnames_def image_comp\<close>)
  then show ?thesis
    unfolding eval_loop_def using assms by (intro safe_seq [OF safe_lets]) auto
qed

lemma safe_recur: "ok_nodes ns L \<Longrightarrow> R = Some (i, length ns) \<Longrightarrow> L \<subseteq> scope_names s \<Longrightarrow>
    safe Q R (\<lambda>_. True) (eval_recur ev ns i s)"
  unfolding eval_recur_def by (rule safe_items) auto

lemma safe_setbang: "ok_node (OpSetBang t n) L R \<Longrightarrow> L \<subseteq> scope_names s \<Longrightarrow>
    safe Q R (\<lambda>_. True) (eval_setbang rt ev ap t n s)"
  unfolding eval_setbang_def
  by (cases t) (auto simp: ok_node.simps intro!: safe_one safe_true native_calm calm_Set calm_basic)

lemma safe_dynbind: "\<forall>b\<in>set bs. ok_node (snd b) L None \<Longrightarrow> ok_node n L None \<Longrightarrow> L \<subseteq> scope_names s \<Longrightarrow>
    safe Q R (\<lambda>_. True) (eval_dynbind rt ev bs n s)"
proof -
  assume a: "\<forall>b\<in>set bs. ok_node (snd b) L None" "ok_node n L None" "L \<subseteq> scope_names s"
  have "safe Q None (\<lambda>_. True) (eval_dyn_entry ev s b)" if "b \<in> set bs" for b
    unfolding eval_dyn_entry_def using a that by (intro safe_one) auto
  then have "safe Q None (\<lambda>ys. length ys = length bs \<and> list_all (\<lambda>_. True) ys) (emap (eval_dyn_entry ev s) bs)"
    by (rule safe_emap)
  then show ?thesis
    unfolding eval_dynbind_def
    by (rule safe_seq) (rule safe_frame, rule safe_bracket, rule ev_arg [OF a(2,3)])
qed

subsubsection \<open>throw and try\<close>

lemma safe_throw: "ok_node n L None \<Longrightarrow> L \<subseteq> scope_names s \<Longrightarrow> safe Q R (\<lambda>_. True) (eval_throw ev n s)"
  unfolding eval_throw_def by (rule safe_one) auto

lemma safe_protected:
  assumes "safe Q None (\<lambda>_. True) (ev n s)"
  shows "safe Q None (\<lambda>_. True) (evalProtected rt ev n s)"
  unfolding safe_def
proof
  fix st :: "'w gstate"
  obtain r t where "ev n s st = (r, t)" by fastforce
  then show "moves Q st (snd (evalProtected rt ev n s st)) \<and>
      (closures_ok (world st) \<longrightarrow> outcome None (\<lambda>_. True) (fst (evalProtected rt ev n s st)))"
    using assms by (cases r) (auto simp: safe_def evalProtected_def dest!: spec [of _ st])
qed

lemma safe_catches:
  "\<forall>c\<in>set cs. ok_node (cbody c) (insert (bname (cbind c)) L) None \<Longrightarrow> L \<subseteq> scope_names s \<Longrightarrow>
     err_allowed None e \<Longrightarrow> safe Q None (\<lambda>_. True) (run_catches ev cs e s)"
  by (induction cs) (auto intro!: ev_arg)

lemma safe_finally:
  assumes "safe Q R P m" and "safe Q R P' f"
  shows "safe Q R P (with_finally m f)"
  unfolding safe_def
proof
  fix st :: "'w gstate"
  obtain r t where m: "m st = (r, t)" by fastforce
  obtain r' u where f: "f t = (r', u)" by fastforce
  have 1: "moves Q st t" "closures_ok (world st) \<Longrightarrow> outcome R P r"
    using assms(1) m by (auto simp: safe_def dest: spec [of _ st])
  have 2: "moves Q t u" "closures_ok (world t) \<Longrightarrow> outcome R P' r'"
    using assms(2) f by (auto simp: safe_def dest: spec [of _ t])
  have "closures_ok (world st) \<Longrightarrow> closures_ok (world t)" using 1(1) by (simp add: moves_def)
  with 1 2 m f moves_trans [OF 1(1) 2(1)] show "moves Q st (snd (with_finally m f st)) \<and>
      (closures_ok (world st) \<longrightarrow> outcome R P (fst (with_finally m f st)))"
    by (cases r; cases r') (auto simp: with_finally_def split: sum.split)
qed

lemma safe_try:
  assumes "ok_node (OpTry n cs fin) L R" and "L \<subseteq> scope_names s"
  shows "safe Q R (\<lambda>_. True) (evalTry rt ev n cs fin s)"
proof -
  have "safe Q None (\<lambda>_. True) (gbind (evalProtected rt ev n s) (\<lambda>r.
                   case r of
                     Inr v \<Rightarrow> eret v
                   | Inl (ErrRecur i vs) \<Rightarrow> eerr (ErrRecur i vs)
                   | Inl e \<Rightarrow> run_catches ev cs e s))"
  proof (rule safe_gbind [OF safe_protected])
    show "safe Q None (\<lambda>_. True) (ev n s)" using assms by (auto intro: ev_arg)
    fix e assume "err_allowed None e"
    then show "safe Q None (\<lambda>_. True) (case Inl e of
                     Inr v \<Rightarrow> eret v
                   | Inl (ErrRecur i vs) \<Rightarrow> eerr (ErrRecur i vs)
                   | Inl e \<Rightarrow> run_catches ev cs e s)"
      using assms safe_catches [of cs L s e] by (cases e) auto
  qed auto
  note main = safe_frame [OF this]
  show ?thesis
  proof (cases fin)
    case (Some f)
    then have "safe Q R (\<lambda>_. True) (ev f s)" using assms by (auto intro: safe_frame ev_arg)
    with Some main show ?thesis by (simp add: evalTry_def Let_def safe_finally)
  qed (use main in \<open>simp add: evalTry_def Let_def\<close>)
qed

end

end
