(* ===== verification/EvalCorrect.thy ===== *)
theory EvalCorrect
  imports EvalSteps
begin

text \<open>
  The evaluator as a whole: macroexpansion, analysis and evaluation of a form, the builtins, and
  the knot.  At the end, what this shows of \<^verbatim>\<open>EvalForm\<close>: internal errors never occur, and the
  dynamic bindings are balanced.
\<close>

subsection \<open>The analysis inside the evaluator\<close>

sublocale world_relation \<subseteq> analysis_rel "moves Q"
proof
  show "moves Q s (s\<lparr>gensymCounter := n\<rparr>)" for s :: "'w gstate" and n
    by (rule moves_same) simp_all
qed (auto intro: moves_trans)

lemma Intern_gls: "Intern ns s w = (r, w') \<Longrightarrow> gls (nvst w') = gls (nvst w)"
  by (auto simp: Intern_def NewVar_def Let_def split: option.splits val.splits if_splits)

context eval_calls begin

lemma le_moves: "(\<And>s. moves Q s (snd (m s))) \<Longrightarrow> le (moves Q) m m"
  by (simp add: le_def)

lemma le_expand_call: "le (moves Q) (expand_call rt ap v form opname ls) (expand_call rt ap v form opname ls)"
proof (rule le_moves)
  fix s :: "'w gstate"
  let ?f = "Deref (gid (world s)) v (vst_of (world s))" and ?args = "form # localsEnvMap rt ls # seq_args form"
  obtain r t where rt: "ap ?f ?args s = (r, t)" by fastforce
  have "moves Q s t" using ap_calm [of ?f ?args] rt by (auto simp: calm_def dest: spec [of _ s])
  then show "moves Q s (snd (expand_call rt ap v form opname ls s))"
    using rt by (cases r) (auto simp: expand_call_def)
qed

lemma le_is_macro: "le (moves Q) (in_world (is_macro v)) (in_world (is_macro v))"
  by (rule le_moves, rule moves_same)
    (auto simp: in_world_def is_macro_def IsMacro_def Let_def stack_def upd_vst_def)

lemma le_resolveVar: "le (moves Q) (in_world (resolveVar rt f)) (in_world (resolveVar rt f))"
  by (rule le_moves, rule moves_same) (simp_all add: in_world_def resolveVar_def)

lemma le_macroexpand1: "le (moves Q) (macroexpand1 rt ap form ls) (macroexpand1 rt ap form ls)"
  unfolding macroexpand1_def
  by (auto simp only: intro!: le_cases le_bind le_basic le_resolveVar le_is_macro le_expand_call)

lemma hooks_ok: "hooks_le (moves Q) (eval_hooks rt ap) (eval_hooks rt ap)"
proof -
  have "moves Q s (s\<lparr>world := snd (internVar rt f (world s))\<rparr>)" for f and s :: "'w gstate"
    by (rule moves_same)
      (auto simp: internVar_def intern_in_def stack_def dest!: Intern_gls split: val.split option.split prod.split)
  moreover have "moves Q s (s\<lparr>world := snd (resolveVar rt f (world s))\<rparr>)" for f and s :: "'w gstate"
    by (simp add: resolveVar_def)
  moreover have "moves Q s (s\<lparr>world := upd_vst (SetMeta v m) (world s)\<rparr>)" for v m and s :: "'w gstate"
    by (rule moves_same) (simp_all add: stack_def upd_vst_def SetMeta_def SetMeta_store_def SetMeta_invalidate_def)
  moreover have "moves Q s (s\<lparr>world := upd_vst (SetDynamic v) (world s)\<rparr>)" for v and s :: "'w gstate"
    by (rule moves_same) (simp_all add: stack_def upd_vst_def SetDynamic_fields)
  ultimately show ?thesis
    by (simp add: hooks_le_def eval_hooks_def le_macroexpand1)
qed

lemma safe_analyze: "safe Q None (\<lambda>n. ok_node n {} None) (analyze_form rt fuel ap form)"
  unfolding safe_def
proof
  fix s :: "'w gstate"
  obtain r t where a: "Analyze (eval_hooks rt ap) fuel form s = (r, t)" by fastforce
  have "moves Q s t"
    using le_analyze [OF hooks_ok, of fuel fuel form] a by (auto simp: le_def Analyze_def) (metis snd_conv)
  moreover have "ok_node n {} None" if "r = AOk n" for n
    using Analyze_ok [of "eval_hooks rt ap" fuel form] a that by (auto simp: returns_def)
  ultimately show "moves Q s (snd (analyze_form rt fuel ap form s)) \<and>
      (closures_ok (world s) \<longrightarrow> outcome None (\<lambda>n. ok_node n {} None) (fst (analyze_form rt fuel ap form s)))"
    using a by (cases r) (auto simp: analyze_form_def)
qed

lemma safe_top: "ok_node n {} None \<Longrightarrow> safe Q None (\<lambda>_. True) (evalTop rt ev n)"
  unfolding safe_def
proof
  fix s :: "'w gstate"
  assume n: "ok_node n {} None"
  obtain r t where "ev n NewScope s = (r, t)" by fastforce
  with ev_arg [OF n, of NewScope]
  show "moves Q s (snd (evalTop rt ev n s)) \<and>
      (closures_ok (world s) \<longrightarrow> outcome None (\<lambda>_. True) (fst (evalTop rt ev n s)))"
    by (cases r) (auto simp: safe_def evalTop_def dest!: spec [of _ s])
qed

lemma safe_forms:
  "\<forall>x\<in>set xs. safe Q None (\<lambda>_. True) (EvalForm rt fuel ev ap x) \<Longrightarrow>
     safe Q None (\<lambda>_. True) (EvalForms rt fuel ev ap res xs)"
  by (induction xs arbitrary: res) (auto intro!: safe_seq [where P = "\<lambda>_. True"])

lemma safe_form: "safe Q None (\<lambda>_. True) (EvalForm rt fuel ev ap form)"
proof (induction form rule: measure_induct_rule [of size])
  case (less form)
  show ?case
  proof (cases "asTopLevelDo form")
    case Nil
    then show ?thesis
      by (simp add: EvalForm.simps) (rule safe_seq [OF safe_analyze safe_top])
  next
    case (Cons x xs)
    have "size y < size form" if "y \<in> set (x # xs)" for y
      using asTopLevelDo_size [OF Cons] size_list_estimation' [OF that, of "size y" size] by simp
    then have "safe Q None (\<lambda>_. True) (EvalForms rt fuel ev ap VNil (x # xs))"
      using less.IH by (intro safe_forms) blast
    with Cons show ?thesis by (simp add: EvalForm.simps)
  qed
qed

subsection \<open>Builtins and host nodes\<close>

lemma calm_from_am:
  assumes "le (moves Q) m m"
  shows "calm Q (from_am rt m)"
  unfolding calm_def
proof
  fix s :: "'w gstate"
  obtain r t where "m s = (r, t)" by fastforce
  with assms show "moves Q s (snd (from_am rt m s)) \<and>
      (closures_ok (world s) \<longrightarrow> (\<forall>i vs. fst (from_am rt m s) \<noteq> GRecur i vs))"
    by (cases r) (auto simp: le_def from_am_def dest!: spec [of _ s])
qed

lemma calm_must: "safe Q None P m \<Longrightarrow> calm Q (must m)"
  unfolding must_def by (rule calm_of_safe [of None P]) (auto intro: calm_panic_err)

lemma le_macroexpand: "le (moves Q) (macroexpand rt ap left form) (macroexpand rt ap left form)"
  by (induction left arbitrary: form) (auto intro!: le_bind le_macroexpand1 split: option.split)

lemma calm_require_go: "calm Q (registerRequireGo rt specs)"
  by (induction specs) (auto intro!: calm_bind calm_upd split: sum.split simp: stack_def)

lemma calm_one_arg: "(\<And>x. calm Q (k x)) \<Longrightarrow> calm Q (one_arg opname args k)"
  by (auto simp: one_arg_def intro: calm_basic split: list.split)

lemma calm_builtin: "calm Q (run_builtin rt fuel ev ap b args)"
proof (cases b)
  case BEval
  then show ?thesis by (simp add: run_builtin_def calm_one_arg calm_must [OF safe_form])
next
  case BMacroexpand1
  show ?thesis
    unfolding BMacroexpand1 run_builtin_def builtin.case
    by (intro calm_one_arg calm_from_am le_bind le_macroexpand1 le_basic)
next
  case BMacroexpand
  then show ?thesis by (simp add: run_builtin_def calm_one_arg calm_from_am le_macroexpand)
next
  case BRequireGo
  have "calm Q (gbind (registerRequireGo rt args) (\<lambda>_. gret VNil))"
    by (rule calm_bind [OF calm_require_go]) auto
  with BRequireGo show ?thesis by (simp add: run_builtin_def)
qed

lemma safe_unknown: "safe Q R (\<lambda>_. True) (unknown_member rt pkg member)"
  unfolding unknown_member_def
  by (rule safe_get_world, rule safe_prod) (simp add: safe_eret safe_eerr safe_errorf)

lemma safe_hostref: "safe Q R (\<lambda>_. True) (eval_hostref rt ap pkg member)"
  by (auto simp: eval_hostref_def intro!: safe_unknown safe_true native_calm split: option.split bool.split)

lemma safe_hostcall: "ok_nodes ns L \<Longrightarrow> L \<subseteq> scope_names s \<Longrightarrow>
    safe Q R (\<lambda>_. True) (eval_hostcall rt ev ap pkg member ns throw s)"
  unfolding eval_hostcall_def
  by (rule safe_items) (auto intro!: safe_unknown safe_true native_calm split: option.split bool.split)

lemma safe_hostmethod: "ok_node r L None \<Longrightarrow> ok_nodes ns L \<Longrightarrow> L \<subseteq> scope_names s \<Longrightarrow>
    safe Q R (\<lambda>_. True) (eval_hostmethod rt ev ap m r ns throw s)"
  unfolding eval_hostmethod_def
  by (rule safe_one, assumption+, rule safe_items) (auto intro!: safe_true native_calm)

lemma safe_hostfield: "ok_node r L None \<Longrightarrow> L \<subseteq> scope_names s \<Longrightarrow>
    safe Q R (\<lambda>_. True) (eval_hostfield rt ev ap f r s)"
  unfolding eval_hostfield_def by (rule safe_one) (auto intro!: safe_true native_calm)

lemma safe_hostnew: "\<forall>n. flds = Some n \<longrightarrow> ok_node n L None \<Longrightarrow> L \<subseteq> scope_names s \<Longrightarrow>
    safe Q R (\<lambda>_. True) (eval_hostnew rt ev ap pkg ty flds zero s)"
  unfolding eval_hostnew_def
  by (auto intro!: safe_seq [where P = "\<lambda>_. True"] safe_true native_calm split: option.split intro: ev_arg)

subsection \<open>One unfolding of the knot\<close>

lemma safe_step:
  assumes "ok_node n L R" and "L \<subseteq> scope_names s"
  shows "safe Q R (\<lambda>_. True) (eval_step rt fuel ev ap n s)"
proof (cases n)
  case (OpVector f ns)
  with assms show ?thesis
    by (auto simp: eval_step_def eval_vector_def intro!: safe_items [of ns L])
next
  case (OpSet f ns)
  with assms show ?thesis
    by (auto simp: eval_step_def eval_set_def intro!: safe_items [of ns L])
next
  case (OpInvoke f fn ns)
  with assms show ?thesis
    by (auto simp: eval_step_def eval_invoke_def intro!: safe_one [of fn L] safe_items [of ns L] safe_true ap_calm)
next
  case (OpFn f ms var mx self)
  with assms calm_new_closure [of f ms var mx self L R s] show ?thesis
    by (auto simp: eval_step_def intro!: safe_true)
next
  case (OpIf c t e)
  with assms safe_if show ?thesis by (simp add: eval_step_def)
next
  case (OpTry b cs fin)
  with assms safe_try show ?thesis by (simp add: eval_step_def)
next
  case (OpLoop bs b i)
  with assms safe_loop show ?thesis by (simp add: eval_step_def)
next
  case (OpSetBang t x)
  with assms safe_setbang show ?thesis by (simp add: eval_step_def)
next
  case (OpThrow x)
  with assms show ?thesis by (auto simp: eval_step_def ok_node.simps intro: safe_throw)
next
  case (OpHostField f r)
  with assms show ?thesis by (auto simp: eval_step_def ok_node.simps intro: safe_hostfield)
next
  case (OpLocal x b)
  with assms show ?thesis by (auto simp: eval_step_def intro: safe_local)
qed (use assms in \<open>auto simp: eval_step_def intro: safe_map safe_do safe_def_node safe_let safe_recur safe_dynbind
  safe_hostref safe_hostcall safe_hostmethod safe_hostnew safe_true calm_var_Deref\<close>)

lemma calm_apply_step: "calm Q (apply_step rt fuel ev ap f args)"
  by (cases f) (auto simp: apply_step_def intro!: native_calm calm_fn_Invoke calm_builtin calm_Invoke calm_bind
      split: option.split)

end

subsection \<open>The knot\<close>

context world_relation begin

lemma run_safe:
  assumes "natives_calm Q rt"
  shows "eval_calls Q rt (eval rt fuel) (apply_val rt fuel)"
proof (induction fuel)
  case 0
  show ?case by unfold_locales (use assms in auto)
next
  case (Suc fuel)
  from eval_calls.safe_step [OF Suc] eval_calls.calm_apply_step [OF Suc] assms
  show ?case by unfold_locales simp_all
qed

end

end
