(* ===== verification/EvalProps.thy ===== *)
theory EvalProps
  imports EvalCorrect
begin

text \<open>The properties of the evaluator, for the two relations on worlds that they need.\<close>

interpretation any_world: world_relation "\<lambda>w w' :: 'w estate. True"
  by unfold_locales auto

interpretation same_stack: world_relation "\<lambda>w w' :: 'w estate. stack w = stack w'"
proof
  fix w1 w w2 w3 :: "'w estate" and f
  assume "stack w1 = (gid w, f # snd (stack w))" "stack w1 = stack w2" "stack w3 = (gid w2, tl (snd (stack w2)))"
  then have "stack w2 = (gid w, f # snd (stack w))" by simp
  moreover from this have "gid w2 = gid w" by (simp add: stack_def)
  ultimately have "stack w3 = (gid w, snd (stack w))" using \<open>stack w3 = _\<close> by simp
  moreover have "stack w = (gid w, snd (stack w))" by (simp add: stack_def)
  ultimately show "stack w = stack w3" by simp
qed auto

text \<open>The evaluator without functions written in Go.\<close>

definition pure_rt :: "'w rt \<Rightarrow> 'w rt" where
  "pure_rt rt = rt\<lparr>native := (\<lambda>_ _ _. runtime_panic), invoke_other := (\<lambda>_ _ _. runtime_panic),
                    host := (\<lambda>_ _. runtime_panic)\<rparr>"

lemma pure_natives: "natives_calm (\<lambda>w w'. stack w = stack w') (pure_rt rt)" "natives_calm (\<lambda>_ _. True) (pure_rt rt)"
  by (auto simp: natives_calm_def pure_rt_def)

interpretation pure: eval_calls "\<lambda>w w' :: 'w estate. stack w = stack w'" "pure_rt rt" "eval (pure_rt rt) fuel" "apply_val (pure_rt rt) fuel"
  for rt :: "'w rt" and fuel
  by (rule same_stack.run_safe) (rule pure_natives)

subsection \<open>A concrete evaluator\<close>

text \<open>One function in Go: \<open>apply\<close>, under number 0.\<close>

definition demo_rt :: "unit rt" where
  "demo_rt =
     \<lparr>native = (\<lambda>i ap args. case args of f # xs \<Rightarrow> ap f xs | [] \<Rightarrow> runtime_panic), builtins = (\<lambda>_. None),
      invoke_other = (\<lambda>_ _ _. runtime_panic), host = (\<lambda>_ _. runtime_panic), host_kind = (\<lambda>_ _. None),
      host_type = (\<lambda>_ _. False), hash_map = (\<lambda>es. es), hash_set = (\<lambda>xs. xs), class_var = (\<lambda>_. None),
      is_ifn_opaque = (\<lambda>_. False), identical = (\<lambda>_ _. False), show_val = (\<lambda>_. []), PrintString = (\<lambda>_. []), Sprintf = (\<lambda>f _. f),
      VarCurrentNS = 0, VarFile = 1, HostUnlinkedTolerant = False\<rparr>"

definition demo_world :: "unit gstate" where
  "demo_world =
     \<lparr>gensymCounter = 0,
      world = \<lparr>nsw = \<lparr>namespaces = (\<lambda>_. None), nvst = vst0\<rparr>, heap = (\<lambda>_. None), nheap = 0, gid = 0,
               hostAliases = [], nat_world = ()\<rparr>\<rparr>"

text \<open>\<open>((fn* [n] (if n (recur false) 5)) true)\<close>\<close>

definition demo_form :: val where
  "demo_form =
     VList None [VList None [sym ''fn*'', VVec None [sym ''n''],
       VList None [sym ''if'', sym ''n'', VList None [sym ''recur'', VBool False], VInt 5]], VBool True]"

lemma demo_natives: "natives_calm (\<lambda>w w'. stack w = stack w') demo_rt" "natives_calm (\<lambda>_ _. True) demo_rt"
  by (auto simp: natives_calm_def demo_rt_def split: list.split)

lemma demo_closures: "closures_ok (world demo_world)"
  by (simp add: demo_world_def closures_ok_def)

subsection \<open>Properties\<close>





text \<open>C13. A call picks the method Clojure picks: a method of exactly the number of arguments if there
  is one, otherwise the variadic method if the arguments fill its fixed part, otherwise none.\<close>

theorem pickMethod_correct:
  assumes "ok_arities (cmethods c) variadic mx"
  shows "pickMethod c n = Some m \<longleftrightarrow>
    m \<in> set (cmethods c) \<and>
    (if mvariadic m then mfixed m \<le> n \<and> (\<forall>m'\<in>set (cmethods c). \<not> mvariadic m' \<longrightarrow> mfixed m' \<noteq> n)
     else mfixed m = n)"
proof -
  let ?ms = "cmethods c"
  have one: "length (filter mvariadic ?ms) \<le> 1" "distinct (map mfixed (filter (Not \<circ> mvariadic) ?ms))"
    using assms by (auto simp: ok_arities_def)
  have "pick ms n v = Some m \<longleftrightarrow>
      (m \<in> set ms \<or> v = Some m) \<and>
      (if mvariadic m then mfixed m \<le> n \<and> (\<forall>m'\<in>set ms. \<not> mvariadic m' \<longrightarrow> mfixed m' \<noteq> n) else mfixed m = n)"
    if "length (filter mvariadic ms) + (if v = None then 0 else 1) \<le> 1"
      "distinct (map mfixed (filter (Not \<circ> mvariadic) ms))" "\<And>m. v = Some m \<Longrightarrow> mvariadic m" for ms v
    using that
  proof (induction ms arbitrary: v)
    case (Cons x ms)
    show ?case
    proof (cases "mvariadic x")
      case True
      with Cons.prems have "v = None" by (cases v) auto
      with True Cons.prems show ?thesis using Cons.IH [of "Some x"] by auto
    next
      case False
      have "mfixed x = n \<Longrightarrow> \<forall>m\<in>set ms. \<not> mvariadic m \<longrightarrow> mfixed m \<noteq> n"
        using Cons.prems(2) False by (auto simp: image_iff)
      with False Cons.prems show ?thesis using Cons.IH [of v] by auto
    qed
  qed (auto split: option.split)
  from this [of ?ms None] one show ?thesis by (simp add: pickMethod_def)
qed

lemma pickMethod_correct_witness:
  "pickMethod \<lparr>cmethods = [FnMethod [] 0 False (OpConst VNil) ''m''],
       cself = None, cform = VNil, cenv = [], cdefName = []\<rparr> 0 =
     Some (FnMethod [] 0 False (OpConst VNil) ''m'')"
  by (subst pickMethod_correct [of _ False 0]) (simp_all add: ok_arities_def)


text \<open>\<open>(try (throw 1) (catch Throwable e (throw 2)) (finally (try (throw 3))))\<close>: the error of the
  \<open>finally\<close> is lost.\<close>

definition throwing :: "int \<Rightarrow> node" where
  "throwing n = OpThrow (OpConst (VInt n))"

definition rethrowing :: "node catch_clause list" where
  "rethrowing = [CatchClause ''Throwable'' \<lparr>bname = ''e'', bkind = BindCatch, bargID = 0, bvariadic = False\<rparr> (throwing 2)]"

lemmas eval_ops = eval_step_def evalTry_def evalProtected_def eval_throw_def ebind_def gbind_def eret_def eerr_def
  gret_def gpanic_def Throw_def

lemma eval_throwing: "eval rt (Suc (Suc fuel)) (throwing n) s st = (GPanic (VThrown (VInt n)), st)"
  by (simp add: throwing_def eval_ops)

lemma eval_rethrowing:
  "eval rt (Suc (Suc (Suc fuel))) (OpTry (throwing 1) rethrowing None) s st = (GPanic (VThrown (VInt 2)), st)"
  by (simp add: throwing_def rethrowing_def eval_ops Recover_def CatchMatches_def throwableMatches_def simple_name_def Let_def)

lemma eval_failing:
  "eval rt (Suc (Suc (Suc fuel))) (OpTry (throwing n) [] None) s st = (GRet (Inl (Err (VThrown (VInt n)))), st)"
  by (simp add: throwing_def eval_ops Recover_def)


end
