(* ===== verification/EvalFuel.thy ===== *)
theory EvalFuel
  imports EvalProps
begin

text \<open>
  The fuel is no part of the meaning: a run that answers gives the same answer, and leaves the same
  state, on any more fuel.  \<open>gle m m'\<close>: \<open>m'\<close> does what \<open>m\<close> does unless \<open>m\<close> runs out.
\<close>

definition gle :: "('w, 'a) go \<Rightarrow> ('w, 'a) go \<Rightarrow> bool" where
  "gle m m' \<longleftrightarrow> (\<forall>s. fst (m s) = GFuel \<or> m' s = m s)"

text \<open>A function in Go that calls back gives the same answer when the calls it makes do.\<close>

definition natives_mono :: "'w rt \<Rightarrow> bool" where
  "natives_mono rt \<longleftrightarrow>
     (\<forall>ap ap'. (\<forall>f args. gle (ap f args) (ap' f args)) \<longrightarrow>
        (\<forall>i args. gle (native rt i ap args) (native rt i ap' args)) \<and>
        (\<forall>f args. gle (invoke_other rt f ap args) (invoke_other rt f ap' args)) \<and>
        (\<forall>op. gle (host rt op ap) (host rt op ap')))"

lemma gle_refl [simp, intro]: "gle m m"
  by (simp add: gle_def)

lemma gle_fuel [simp, intro]: "gle gfuel m"
  by (simp add: gle_def gfuel_def)

lemma gle_gbind [intro]:
  assumes "gle m m'" and "\<And>x. gle (f x) (f' x)"
  shows "gle (gbind m f) (gbind m' f')"
  unfolding gle_def
proof
  fix s
  obtain r t where m: "m s = (r, t)" by fastforce
  then have "r = GFuel \<or> m' s = (r, t)" using assms(1) by (auto simp: gle_def dest: spec [of _ s])
  then show "fst (gbind m f s) = GFuel \<or> gbind m' f' s = gbind m f s"
    using m assms(2) by (cases r) (auto simp: gle_def gbind_def)
qed

lemma gle_sum: "(\<And>e. gle (f e) (f' e)) \<Longrightarrow> (\<And>x. gle (g x) (g' x)) \<Longrightarrow> gle (case_sum f g r) (case_sum f' g' r)"
  by (cases r) auto

lemma gle_option: "gle n n' \<Longrightarrow> (\<And>x. gle (f x) (f' x)) \<Longrightarrow> gle (case_option n f r) (case_option n' f' r)"
  by (cases r) auto

lemma gle_prod: "(\<And>a b. gle (f a b) (f' a b)) \<Longrightarrow> gle (case_prod f p) (case_prod f' p)"
  by (cases p) auto

lemma gle_if: "(b \<Longrightarrow> gle x x') \<Longrightarrow> (\<not> b \<Longrightarrow> gle y y') \<Longrightarrow> gle (if b then x else y) (if b then x' else y')"
  by auto

lemma gle_ebind [intro]: "gle m m' \<Longrightarrow> (\<And>x. gle (f x) (f' x)) \<Longrightarrow> gle (ebind m f) (ebind m' f')"
  unfolding ebind_def by (intro gle_gbind gle_sum) auto

lemma gle_ecall [intro]: "gle m m' \<Longrightarrow> gle (ecall m) (ecall m')"
  unfolding ecall_def by (intro gle_gbind) auto

lemma gle_emap: "(\<And>x. gle (f x) (f' x)) \<Longrightarrow> gle (emap f xs) (emap f' xs)"
  by (induction xs) auto

lemma gle_deferring: "gle m m' \<Longrightarrow> gle (deferring m d) (deferring m' d)"
  unfolding gle_def
proof
  fix s
  assume a: "\<forall>s. fst (m s) = GFuel \<or> m' s = m s"
  obtain r t where m: "m s = (r, t)" by fastforce
  then have "r = GFuel \<or> m' s = (r, t)" using spec [OF a, of s] by auto
  then show "fst (deferring m d s) = GFuel \<or> deferring m' d s = deferring m d s"
    using m by (cases r) (auto simp: deferring_def)
qed

lemma gle_finally:
  assumes "gle m m'" and "gle f f'"
  shows "gle (with_finally m f) (with_finally m' f')"
  unfolding gle_def
proof
  fix s
  obtain r t where m: "m s = (r, t)" by fastforce
  obtain r' u where f: "f t = (r', u)" by fastforce
  have "r = GFuel \<or> m' s = (r, t)" "r' = GFuel \<or> f' t = (r', u)"
    using assms m f by (auto simp: gle_def dest: spec [of _ s] spec [of _ t])
  then show "fst (with_finally m f s) = GFuel \<or> with_finally m' f' s = with_finally m f s"
    using m f by (cases r; cases r') (auto simp: with_finally_def split: sum.split)
qed

lemma gle_protected:
  assumes "gle (ev n s) (ev' n s)"
  shows "gle (evalProtected rt ev n s) (evalProtected rt ev' n s)"
  unfolding gle_def
proof
  fix st
  obtain r t where m: "ev n s st = (r, t)" by fastforce
  then have "r = GFuel \<or> ev' n s st = (r, t)" using assms by (auto simp: gle_def dest: spec [of _ st])
  then show "fst (evalProtected rt ev n s st) = GFuel \<or> evalProtected rt ev' n s st = evalProtected rt ev n s st"
    using m by (cases r) (auto simp: evalProtected_def)
qed

locale eval_mono =
  fixes rt :: "'w rt" and ev ev' :: "'w evalfn" and ap ap' :: "'w applyfn" and fuel fuel' :: nat
  assumes ev_mono: "gle (ev n s) (ev' n s)" and ap_mono: "gle (ap f args) (ap' f args)"
    and fuel_le: "fuel \<le> fuel'" and mono: "natives_mono rt"
begin

lemma native_mono: "gle (native rt i ap args) (native rt i ap' args)"
  "gle (invoke_other rt f ap args) (invoke_other rt f ap' args)" "gle (host rt op ap) (host rt op ap')"
  using mono ap_mono by (auto simp: natives_mono_def)

lemma gle_items: "gle (emap (\<lambda>n. ev n s) ns) (emap (\<lambda>n. ev' n s) ns)"
  by (rule gle_emap) (rule ev_mono)

lemma gle_watches: "gle (run_watches ap cs) (run_watches ap' cs)"
  by (induction cs) (auto intro!: ap_mono)

lemma gle_notify: "gle (notify ap) (notify ap')"
  unfolding notify_def by (intro gle_gbind gle_watches) auto

lemma gle_Set: "gle (var_Set ap v x) (var_Set ap' v x)"
  unfolding var_Set_def by (intro gle_gbind gle_prod gle_if gle_notify) auto

lemma gle_Invoke: "gle (var_Invoke rt ap v args) (var_Invoke rt ap' v args)"
  unfolding var_Invoke_def
  by (intro gle_gbind gle_prod gle_if gle_refl) (auto intro: ap_mono split: val.split)

lemma gle_method_loop: "l \<le> l' \<Longrightarrow> gle (method_loop l ev k c m vals) (method_loop l' ev' k c m vals)"
proof (induction l arbitrary: l' vals)
  case (Suc l)
  then obtain l2 where "l' = Suc l2" "l \<le> l2" by (cases l') auto
  then show ?case
    using Suc.IH [of l2] by (auto intro!: gle_gbind ev_mono split: option.split sum.split goerr.split)
qed simp

lemma gle_fn_Invoke: "gle (fn_Invoke fuel ev k args) (fn_Invoke fuel' ev' k args)"
  unfolding fn_Invoke_def by (intro gle_gbind gle_option gle_refl gle_method_loop fuel_le)

lemma gle_lets: "gle (eval_lets ev bs s) (eval_lets ev' bs s)"
proof (induction bs arbitrary: s)
  case (Cons b bs)
  then show ?case by (cases b) (auto intro!: ev_mono)
qed simp

lemma gle_do: "gle (eval_do ev ns r s) (eval_do ev' ns r s)"
  by (induction ns) (auto intro!: ev_mono)

lemma gle_rounds: "l \<le> l' \<Longrightarrow> gle (loop_rounds l ev b i nms s cur) (loop_rounds l' ev' b i nms s cur)"
proof (induction l arbitrary: l' cur)
  case (Suc l)
  then obtain l2 where "l' = Suc l2" "l \<le> l2" by (cases l') auto
  then show ?case
    using Suc.IH [of l2] by (auto intro!: gle_gbind ev_mono split: option.split sum.split goerr.split)
qed simp

lemma gle_catches: "gle (run_catches ev cs e s) (run_catches ev' cs e s)"
  by (induction cs) (auto intro: ev_mono)

lemma gle_try: "gle (evalTry rt ev b cs fin s) (evalTry rt ev' b cs fin s)"
proof -
  have "gle (gbind (evalProtected rt ev b s) (\<lambda>r. case r of Inr v \<Rightarrow> eret v
        | Inl (ErrRecur i vs) \<Rightarrow> eerr (ErrRecur i vs) | Inl e \<Rightarrow> run_catches ev cs e s))
      (gbind (evalProtected rt ev' b s) (\<lambda>r. case r of Inr v \<Rightarrow> eret v
        | Inl (ErrRecur i vs) \<Rightarrow> eerr (ErrRecur i vs) | Inl e \<Rightarrow> run_catches ev' cs e s))"
    by (intro gle_gbind gle_protected ev_mono) (auto intro: gle_catches split: sum.split goerr.split)
  then show ?thesis by (cases fin) (auto simp: evalTry_def Let_def intro!: gle_finally ev_mono)
qed

subsection \<open>Analysis and forms\<close>

lemma le_expand_call: "le (\<lambda>_ _. True) (expand_call rt ap v form n ls) (expand_call rt ap' v form n ls)"
  unfolding le_def
proof
  fix s :: "'w gstate"
  let ?f = "Deref (gid (world s)) v (vst_of (world s))" and ?args = "form # localsEnvMap rt ls # seq_args form"
  obtain r t where "ap ?f ?args s = (r, t)" by fastforce
  with ap_mono [of ?f ?args] show "True \<and> (fst (expand_call rt ap v form n ls s) = ADiv \<or>
      expand_call rt ap' v form n ls s = expand_call rt ap v form n ls s)"
    by (cases r) (auto simp: gle_def expand_call_def dest!: spec [of _ s])
qed

lemma le_macroexpand1: "le (\<lambda>_ _. True) (macroexpand1 rt ap form ls) (macroexpand1 rt ap' form ls)"
proof -
  have same: "le (\<lambda>_ _. True) m m" for m :: "('w estate, 'x) am" by (simp add: le_def)
  show ?thesis
    unfolding macroexpand1_def
    by (auto simp only: intro!: any_state.le_cases any_state.le_bind any_state.le_basic same le_expand_call)
qed

lemma gle_analyze: "gle (analyze_form rt fuel ap form) (analyze_form rt fuel' ap' form)"
  unfolding gle_def
proof
  fix s :: "'w gstate"
  have "hooks_le (\<lambda>_ _. True) (eval_hooks rt ap) (eval_hooks rt ap')"
    by (simp add: hooks_le_def eval_hooks_def le_macroexpand1)
  from any_state.le_analyze [OF this fuel_le]
  have le: "le (\<lambda>_ _. True) (Analyze (eval_hooks rt ap) fuel form) (Analyze (eval_hooks rt ap') fuel' form)"
    by (simp add: Analyze_def [abs_def])
  obtain r t where "Analyze (eval_hooks rt ap) fuel form s = (r, t)" by fastforce
  with le show "fst (analyze_form rt fuel ap form s) = GFuel \<or>
      analyze_form rt fuel' ap' form s = analyze_form rt fuel ap form s"
    by (cases r) (auto simp: le_def analyze_form_def dest!: spec [of _ s])
qed

lemma gle_top: "gle (evalTop rt ev n) (evalTop rt ev' n)"
  unfolding gle_def
proof
  fix s :: "'w gstate"
  obtain r t where "ev n NewScope s = (r, t)" by fastforce
  with ev_mono [of n NewScope] show "fst (evalTop rt ev n s) = GFuel \<or> evalTop rt ev' n s = evalTop rt ev n s"
    by (cases r) (auto simp: gle_def evalTop_def dest!: spec [of _ s])
qed

lemma gle_form: "gle (EvalForm rt fuel ev ap form) (EvalForm rt fuel' ev' ap' form)"
proof (induction form rule: measure_induct_rule [of size])
  case (less form)
  show ?case
  proof (cases "asTopLevelDo form")
    case Nil
    then show ?thesis by (simp add: EvalForm.simps) (intro gle_ebind gle_analyze gle_top)
  next
    case (Cons x xs)
    have "size y < size form" if "y \<in> set (x # xs)" for y
      using asTopLevelDo_size [OF Cons] size_list_estimation' [OF that, of "size y" size] by simp
    then have elems: "\<forall>y\<in>set (x # xs). gle (EvalForm rt fuel ev ap y) (EvalForm rt fuel' ev' ap' y)"
      using less.IH by blast
    have "\<forall>y\<in>set ys. gle (EvalForm rt fuel ev ap y) (EvalForm rt fuel' ev' ap' y) \<Longrightarrow>
        gle (EvalForms rt fuel ev ap res ys) (EvalForms rt fuel' ev' ap' res ys)" for ys res
      by (induction ys arbitrary: res) auto
    from this [OF elems] Cons show ?thesis
      by (simp add: EvalForm.simps [of _ _ _ _ form] del: EvalForms.simps)
  qed
qed

lemma gle_from_am: "le (\<lambda>_ _. True) m m' \<Longrightarrow> gle (from_am rt m) (from_am rt m')"
  unfolding gle_def
proof
  fix s :: "'w gstate"
  assume le: "le (\<lambda>_ _. True) m m'"
  obtain r t where "m s = (r, t)" by fastforce
  with le show "fst (from_am rt m s) = GFuel \<or> from_am rt m' s = from_am rt m s"
    by (cases r) (auto simp: le_def from_am_def dest!: spec [of _ s])
qed

lemma le_macroexpand: "le (\<lambda>_ _. True) (macroexpand rt ap left form) (macroexpand rt ap' left form)"
  by (induction left arbitrary: form)
    (auto intro!: any_state.le_bind le_macroexpand1 split: option.split)

lemma gle_one_arg: "(\<And>x. gle (k x) (k' x)) \<Longrightarrow> gle (one_arg n args k) (one_arg n args k')"
  by (auto simp: one_arg_def split: list.split)

lemma gle_builtin: "gle (run_builtin rt fuel ev ap b args) (run_builtin rt fuel' ev' ap' b args)"
proof (cases b)
  case BEval
  show ?thesis
    unfolding BEval run_builtin_def builtin.case must_def
    by (intro gle_one_arg gle_gbind gle_form gle_refl)
next
  case BMacroexpand1
  show ?thesis
    unfolding BMacroexpand1 run_builtin_def builtin.case
    by (intro gle_one_arg gle_from_am any_state.le_bind le_macroexpand1 any_state.le_basic)
next
  case BMacroexpand
  show ?thesis
    unfolding BMacroexpand run_builtin_def builtin.case
    by (intro gle_one_arg gle_from_am le_macroexpand)
qed (simp add: run_builtin_def)

subsection \<open>One unfolding of the knot\<close>

lemma gle_step: "gle (eval_step rt fuel ev ap n s) (eval_step rt fuel' ev' ap' n s)"
proof (cases n)
  case (OpTry b cs fin)
  then show ?thesis by (simp add: eval_step_def gle_try)
next
  case (OpLoop bs b i)
  then show ?thesis
    by (auto simp: eval_step_def eval_loop_def intro!: gle_lets gle_rounds fuel_le)
next
  case (OpDef sy v ini m)
  have "gle (var_BindRoot ap v x) (var_BindRoot ap' v x)" for x
    unfolding var_BindRoot_def by (intro gle_gbind gle_notify gle_refl)
  then show ?thesis
    unfolding OpDef eval_step_def node.case eval_def_def
    by (intro gle_option gle_ebind gle_ecall gle_refl ev_mono)
next
  case (OpDynBind bs b)
  show ?thesis
    unfolding OpDynBind eval_step_def node.case eval_dynbind_def eval_dyn_entry_def
    by (intro gle_ebind gle_emap gle_deferring ev_mono gle_refl)
next
  case (OpMap f es)
  show ?thesis
    unfolding OpMap eval_step_def node.case eval_map_def
    by (intro gle_ebind gle_emap gle_refl) (auto simp: eval_pair_def intro!: ev_mono)
next
  case (OpHostRef p m)
  then show ?thesis
    by (auto simp: eval_step_def eval_hostref_def intro!: native_mono split: option.split bool.split)
next
  case (OpHostCall p m ns t)
  show ?thesis
    unfolding OpHostCall eval_step_def node.case eval_hostcall_def
    by (intro gle_ebind gle_items) (auto intro!: native_mono split: option.split bool.split)
next
  case (OpHostNew p t flds z)
  then show ?thesis
    by (cases flds) (auto simp: eval_step_def eval_hostnew_def intro!: native_mono ev_mono)
next
  case (OpSetBang t x)
  then show ?thesis
    by (cases t) (auto simp: eval_step_def eval_setbang_def intro!: native_mono ev_mono gle_Set)
next
  case (OpHostMethod m r ns t)
  show ?thesis
    unfolding OpHostMethod eval_step_def node.case eval_hostmethod_def
    by (intro gle_ebind gle_items gle_if gle_ecall gle_refl ev_mono native_mono)
next
  case (OpHostField f r)
  show ?thesis
    unfolding OpHostField eval_step_def node.case eval_hostfield_def
    by (intro gle_ebind gle_if gle_ecall gle_refl ev_mono native_mono)
next
  case (OpIf c t e)
  then show ?thesis by (auto simp: eval_step_def eval_if_def intro!: ev_mono)
qed (auto simp: eval_step_def eval_vector_def eval_set_def eval_let_def eval_recur_def
  eval_invoke_def eval_throw_def
  intro!: gle_items gle_lets gle_do ev_mono ap_mono native_mono)

lemma gle_apply_step: "gle (apply_step rt fuel ev ap f args) (apply_step rt fuel' ev' ap' f args)"
  by (cases f) (auto simp: apply_step_def intro!: native_mono gle_fn_Invoke gle_builtin gle_Invoke split: option.split)

end

lemma run_mono: "natives_mono rt \<Longrightarrow> fuel \<le> fuel' \<Longrightarrow>
    eval_mono rt (eval rt fuel) (eval rt fuel') (apply_val rt fuel) (apply_val rt fuel') fuel fuel'"
proof (induction fuel arbitrary: fuel')
  case 0
  then show ?case by unfold_locales auto
next
  case (Suc fuel)
  then obtain f' where f: "fuel' = Suc f'" "fuel \<le> f'" by (cases fuel') auto
  note m = Suc.IH [OF Suc.prems(1) f(2)]
  show ?case
    by unfold_locales
      (use Suc.prems f eval_mono.gle_step [OF m] eval_mono.gle_apply_step [OF m] in auto)
qed

lemma pure_mono: "natives_mono (pure_rt rt)"
  by (simp add: natives_mono_def pure_rt_def)

interpretation pure_mono: eval_mono "pure_rt rt" "eval (pure_rt rt) fuel" "eval (pure_rt rt) (fuel + k)"
    "apply_val (pure_rt rt) fuel" "apply_val (pure_rt rt) (fuel + k)" fuel "fuel + k"
  for rt :: "'w rt" and fuel k
  by (rule run_mono [OF pure_mono]) simp



end
