(* ===== verification/Hashing.thy ===== *)
theory Hashing
  imports Prelude
begin

text \<open>
  \<^verbatim>\<open>pkg/lang/internal/murmur3/murmur3.go\<close> and the hashes of numbers, strings, symbols and
  keywords of \<^verbatim>\<open>pkg/lang/hashes.go\<close>, on 32-bit words.  A \<open>string\<close> is its bytes; Go's
  conversion to runes and \<^verbatim>\<open>utf16.Encode\<close> are written out.
\<close>

unbundle bit_operations_syntax

subsection \<open>Murmur3\<close>

definition mixK1 :: "32 word \<Rightarrow> 32 word" where
  "mixK1 k1 = word_rotl 15 (k1 * 0xcc9e2d51) * 0x1b873593"

definition mixH1 :: "32 word \<Rightarrow> 32 word \<Rightarrow> 32 word" where
  "mixH1 h1 k1 = word_rotl 13 (h1 XOR k1) * 5 + 0xe6546b64"

definition fmix :: "32 word \<Rightarrow> 32 word \<Rightarrow> 32 word" where
  "fmix h1 n =
     (let a = h1 XOR n;
          b = (a XOR drop_bit 16 a) * 0x85ebca6b;
          c = (b XOR drop_bit 13 b) * 0xc2b2ae35
      in c XOR drop_bit 16 c)"

definition HashInt :: "32 word \<Rightarrow> 32 word" where
  "HashInt i = (if i = 0 then 0 else fmix (mixH1 0 (mixK1 i)) 4)"

definition HashLong :: "64 word \<Rightarrow> 32 word" where
  "HashLong i =
     (if i = 0 then 0
      else fmix (mixH1 (mixH1 0 (mixK1 (ucast i))) (mixK1 (ucast (drop_bit 32 i)))) 8)"

definition MixCollHash :: "32 word \<Rightarrow> 32 word \<Rightarrow> 32 word" where
  "MixCollHash hash count = fmix (mixH1 0 (mixK1 hash)) count"

text \<open>The two folds over a sequence, given the hashes of its elements.\<close>

definition HashOrdered :: "32 word list \<Rightarrow> 32 word" where
  "HashOrdered hs = MixCollHash (foldl (\<lambda>hash eh. 31 * hash + eh) 1 hs) (of_nat (length hs))"

definition HashUnordered :: "32 word list \<Rightarrow> 32 word" where
  "HashUnordered hs = MixCollHash (foldl (\<lambda>hash eh. hash + eh) 0 hs) (of_nat (length hs))"

subsection \<open>Strings as UTF-16\<close>

text \<open>\<^verbatim>\<open>[]rune(s)\<close>: a byte that starts no well-formed sequence is U+FFFD.\<close>

definition cont :: "nat \<Rightarrow> bool" where
  "cont b \<longleftrightarrow> 0x80 \<le> b \<and> b \<le> 0xBF"

fun runes :: "nat list \<Rightarrow> nat list" where
  "runes [] = []"
| "runes (b # bs) =
     (if b < 0x80 then b # runes bs
      else case bs of
        c # bs1 \<Rightarrow>
          (if 0xC2 \<le> b \<and> b \<le> 0xDF \<and> cont c then ((b - 0xC0) * 64 + (c - 0x80)) # runes bs1
           else case bs1 of
             d # bs2 \<Rightarrow>
               (if 0xE0 \<le> b \<and> b \<le> 0xEF \<and> cont c \<and> cont d \<and> (b = 0xE0 \<longrightarrow> 0xA0 \<le> c) \<and> (b = 0xED \<longrightarrow> c \<le> 0x9F)
                then ((b - 0xE0) * 4096 + (c - 0x80) * 64 + (d - 0x80)) # runes bs2
                else case bs2 of
                  e # bs3 \<Rightarrow>
                    (if 0xF0 \<le> b \<and> b \<le> 0xF4 \<and> cont c \<and> cont d \<and> cont e \<and> (b = 0xF0 \<longrightarrow> 0x90 \<le> c) \<and> (b = 0xF4 \<longrightarrow> c \<le> 0x8F)
                     then ((b - 0xF0) * 262144 + (c - 0x80) * 4096 + (d - 0x80) * 64 + (e - 0x80)) # runes bs3
                     else 0xFFFD # runes bs)
                | [] \<Rightarrow> 0xFFFD # runes bs)
           | [] \<Rightarrow> 0xFFFD # runes bs)
      | [] \<Rightarrow> [0xFFFD])"

definition utf16_rune :: "nat \<Rightarrow> 32 word list" where
  "utf16_rune r =
     (if r < 0x10000 then [of_nat r]
      else [of_nat (0xD800 + (r - 0x10000) div 1024), of_nat (0xDC00 + (r - 0x10000) mod 1024)])"

definition utf16 :: "string \<Rightarrow> 32 word list" where
  "utf16 s = concat (map utf16_rune (runes (map of_char s)))"

fun mix_units :: "32 word \<Rightarrow> 32 word list \<Rightarrow> 32 word" where
  "mix_units h1 [] = h1"
| "mix_units h1 [u] = h1 XOR mixK1 u"
| "mix_units h1 (u # v # us) = mix_units (mixH1 h1 (mixK1 (u OR push_bit 16 v))) us"

definition HashUnencodedChars :: "string \<Rightarrow> 32 word" where
  "HashUnencodedChars s = (let units = utf16 s in fmix (mix_units 0 units) (2 * of_nat (length units)))"

definition hashString :: "string \<Rightarrow> 32 word" where
  "hashString s = foldl (\<lambda>h u. 31 * h + u) 0 (utf16 s)"

subsection \<open>Numbers, symbols, keywords\<close>

definition hashCombine :: "32 word \<Rightarrow> 32 word \<Rightarrow> 32 word" where
  "hashCombine seed hash = seed XOR (hash + 0x9e3779b9 + push_bit 6 seed + signed_drop_bit 2 seed)"

definition symbolHashEq :: "string \<Rightarrow> string \<Rightarrow> 32 word" where
  "symbolHashEq ns name = hashCombine (HashUnencodedChars name) (hashString ns)"

text \<open>The words of a magnitude, most significant first.\<close>

fun mag_words :: "nat \<Rightarrow> 32 word list" where
  "mag_words n = (if n = 0 then [] else mag_words (n div 2 ^ 32) @ [of_nat n])"

declare mag_words.simps [simp del]

definition javaBigIntegerHashCode :: "int \<Rightarrow> 32 word" where
  "javaBigIntegerHashCode x =
     (let h = foldl (\<lambda>h w. 31 * h + w) 0 (mag_words (nat \<bar>x\<bar>)) in if x < 0 then - h else h)"

definition fits_int64 :: "int \<Rightarrow> bool" where
  "fits_int64 n \<longleftrightarrow> - (2 ^ 63) \<le> n \<and> n < 2 ^ 63"

text \<open>\<^verbatim>\<open>hashNumber\<close> on an integer of any size.\<close>

definition hashInteger :: "int \<Rightarrow> 32 word" where
  "hashInteger n = (if fits_int64 n then HashLong (of_int n) else javaBigIntegerHashCode n)"

text \<open>The namespace and name of a keyword, split at the first slash.\<close>

definition splitKeywordName :: "string \<Rightarrow> string \<times> string" where
  "splitKeywordName s =
     (if CHR ''/'' \<in> set s
      then (takeWhile (\<lambda>c. c \<noteq> CHR ''/'') s, tl (dropWhile (\<lambda>c. c \<noteq> CHR ''/'') s))
      else ([], s))"

definition keyword_hashEq :: "string \<Rightarrow> 32 word" where
  "keyword_hashEq s = (let (ns, name) = splitKeywordName s in symbolHashEq ns name + 0x9e3779b9)"

subsection \<open>Keys of a hash table\<close>

text \<open>The contract between a hash table and its keys: on the keys that are \<open>good\<close>, equality is an
  equivalence and equal keys hash alike.\<close>

locale hash_keys =
  fixes equiv :: "'k \<Rightarrow> 'k \<Rightarrow> bool" and hasheq :: "'k \<Rightarrow> 32 word" and good :: "'k \<Rightarrow> bool"
  assumes equiv_refl: "good x \<Longrightarrow> equiv x x"
    and equiv_sym: "good x \<Longrightarrow> good y \<Longrightarrow> equiv x y \<Longrightarrow> equiv y x"
    and equiv_trans: "good x \<Longrightarrow> good y \<Longrightarrow> good z \<Longrightarrow> equiv x y \<Longrightarrow> equiv y z \<Longrightarrow> equiv x z"
    and equiv_hash: "good x \<Longrightarrow> good y \<Longrightarrow> equiv x y \<Longrightarrow> hasheq x = hasheq y"

subsection \<open>Facts\<close>

lemma foldl_add_sum: "foldl (\<lambda>h e. h + e) (a :: 'a :: comm_monoid_add) hs = a + sum_list hs"
  by (induction hs arbitrary: a) (auto simp: ac_simps)

lemma HashUnordered_sum: "HashUnordered hs = MixCollHash (sum_list hs) (of_nat (length hs))"
  by (simp add: HashUnordered_def foldl_add_sum)

text \<open>The Java hash codes of \<open>Aa\<close> and \<open>BB\<close> are equal, and so are those of the strings made
  from them.\<close>

lemma hashString_append_unit:
  assumes "\<forall>c\<in>set s. of_char c < (0x80 :: nat)"
  shows "hashString s = foldl (\<lambda>h c. 31 * h + of_char c) 0 s"
proof -
  have "runes (map of_char s) = map of_char s" using assms by (induction s) auto
  moreover have "concat (map utf16_rune (map of_char s)) = map of_char s"
    using assms by (induction s) (auto simp: utf16_rune_def of_char_def)
  ultimately show ?thesis by (simp add: hashString_def utf16_def foldl_map)
qed

lemma hashString_collisions:
  "hashString ''AaAa'' = hashString ''AaBB''" "hashString ''AaBB'' = hashString ''BBAa''"
  by (simp_all add: hashString_append_unit of_char_def)

end
