(* ===== verification/HashMap.thy ===== *)
theory HashMap
  imports Hashing "HOL-Library.Multiset"
begin

text \<open>
  \<^verbatim>\<open>pkg/lang/persistenthashmap.go\<close>: the hash array mapped trie.  Keys and values are type
  variables; what the trie uses of them is a parameter.

  The flat Go array of a node, keys and values alternating, is a list of pairs here: \<open>Leaf k v\<close>,
  or \<open>Child n\<close> for a nil key beside a node.  Go compares nodes by their address only to see
  whether anything changed; \<open>Same\<close> says that the very node came back.  The box \<^verbatim>\<open>addedLeaf\<close>
  is the boolean of the result.  \<open>edit\<close> is the owner token of a bulk build
  (\<^verbatim>\<open>hashmap_transient.go\<close>), which the persistent operations never read.
\<close>

unbundle bit_operations_syntax

subsection \<open>Nodes\<close>

text \<open>\<open>vsame\<close> is Go's \<open>==\<close> on two values, which panics when they are not comparable.\<close>

record ('k, 'v) kops =
  kequiv :: "'k \<Rightarrow> 'k \<Rightarrow> bool"
  khash :: "'k \<Rightarrow> 32 word"
  vsame :: "'v \<Rightarrow> 'v \<Rightarrow> bool option"
  knil :: 'k
  vnil :: 'v

datatype ('k, 'v) hnode =
    BitmapIndexedNode (edit: bool) (bitmap: nat) (entries: "('k, 'v) hentry list")
  | ArrayNode (edit: bool) (acount: nat) (children: "('k, 'v) hnode option list")
  | HashCollisionNode (edit: bool) (chash: "32 word") (ccount: nat) (pairs: "('k \<times> 'v) list")
  and ('k, 'v) hentry = Leaf 'k 'v | Child "('k, 'v) hnode"

datatype herr = HPanic | HFuel

datatype 'n upd = Same | New 'n

datatype 'n del = Kept | Shrunk 'n | Gone

definition emptyIndexedNode :: "('k, 'v) hnode" where
  "emptyIndexedNode = BitmapIndexedNode False 0 []"

definition upd_node :: "'n \<Rightarrow> 'n upd \<Rightarrow> 'n" where
  "upd_node n r = (case r of Same \<Rightarrow> n | New n' \<Rightarrow> n')"

subsection \<open>Bits\<close>

lemma and_pred_less: "0 < n \<Longrightarrow> n AND (n - 1) < (n :: nat)"
proof -
  assume "0 < n"
  have "int n AND int (n - 1) \<le> int (n - 1)" by (rule AND_upper2) simp
  then have "n AND (n - 1) \<le> n - 1" by (metis of_nat_and_eq of_nat_le_iff)
  with \<open>0 < n\<close> show ?thesis by linarith
qed

function bitCount :: "nat \<Rightarrow> nat" where
  "bitCount n = (if n = 0 then 0 else Suc (bitCount (n AND (n - 1))))"
  by auto
termination
  by (relation "measure id") (auto intro: and_pred_less simp flip: One_nat_def)

declare bitCount.simps [simp del]

definition mask :: "32 word \<Rightarrow> nat \<Rightarrow> nat" where
  "mask hash shift = unat (drop_bit shift hash AND 31)"

definition bitpos :: "32 word \<Rightarrow> nat \<Rightarrow> nat" where
  "bitpos hash shift = push_bit (mask hash shift) 1"

definition index :: "nat \<Rightarrow> nat \<Rightarrow> nat" where
  "index bm b = bitCount (bm AND (b - 1))"

subsection \<open>assoc\<close>

type_synonym ('k, 'v) assocfn =
  "('k, 'v) hnode \<Rightarrow> nat \<Rightarrow> 32 word \<Rightarrow> 'k \<Rightarrow> 'v \<Rightarrow> herr + ('k, 'v) hnode upd \<times> bool"

definition createNode :: "('k, 'v) kops \<Rightarrow> ('k, 'v) assocfn \<Rightarrow>
    nat \<Rightarrow> 'k \<Rightarrow> 'v \<Rightarrow> 32 word \<Rightarrow> 'k \<Rightarrow> 'v \<Rightarrow> herr + ('k, 'v) hnode" where
  "createNode K rec shift key1 val1 key2hash key2 val2 =
     (let key1hash = khash K key1 in
      if key1hash = key2hash then Inr (HashCollisionNode False key1hash 2 [(key1, val1), (key2, val2)])
      else bindE (rec emptyIndexedNode shift key1hash key1 val1) (\<lambda>(r1, _).
           let n1 = upd_node emptyIndexedNode r1 in
           bindE (rec n1 shift key2hash key2 val2) (\<lambda>(r2, _). Inr (upd_node n1 r2))))"

text \<open>The loop that spreads 16 entries over an array of 32 nodes.\<close>

fun spread :: "('k, 'v) kops \<Rightarrow> ('k, 'v) assocfn \<Rightarrow> nat \<Rightarrow> nat \<Rightarrow> nat list \<Rightarrow> ('k, 'v) hentry list \<Rightarrow>
    ('k, 'v) hnode option list \<Rightarrow> bool \<Rightarrow> herr + ('k, 'v) hnode option list \<times> bool" where
  "spread K rec shift bm [] es nodes added = Inr (nodes, added)"
| "spread K rec shift bm (i # is) es nodes added =
     (if drop_bit i bm AND 1 = 0 then spread K rec shift bm is es nodes added
      else case es of
        [] \<Rightarrow> Inl HPanic
      | Child n # es' \<Rightarrow> spread K rec shift bm is es' (nodes[i := Some n]) added
      | Leaf k v # es' \<Rightarrow>
          bindE (rec emptyIndexedNode shift (khash K k) k v) (\<lambda>(r, a).
          spread K rec shift bm is es' (nodes[i := Some (upd_node emptyIndexedNode r)]) (added \<or> a)))"

definition assoc_bitmap :: "('k, 'v) kops \<Rightarrow> ('k, 'v) assocfn \<Rightarrow> nat \<Rightarrow> ('k, 'v) hentry list \<Rightarrow>
    nat \<Rightarrow> 32 word \<Rightarrow> 'k \<Rightarrow> 'v \<Rightarrow> herr + ('k, 'v) hnode upd \<times> bool" where
  "assoc_bitmap K rec bm arr shift hash key val =
     (let b = bitpos hash shift; idx = index bm b; n = bitCount bm in
      if bm AND b \<noteq> 0 then
        case slice_get arr idx of
          None \<Rightarrow> Inl HPanic
        | Some (Child c) \<Rightarrow>
            bindE (rec c (shift + 5) hash key val) (\<lambda>(r, added).
            case r of Same \<Rightarrow> Inr (Same, added)
            | New c' \<Rightarrow> Inr (New (BitmapIndexedNode False bm (arr[idx := Child c'])), added))
        | Some (Leaf k v) \<Rightarrow>
            if kequiv K key k then
              case vsame K val v of
                None \<Rightarrow> Inl HPanic
              | Some True \<Rightarrow> Inr (Same, False)
              | Some False \<Rightarrow> Inr (New (BitmapIndexedNode False bm (arr[idx := Leaf k val])), False)
            else
              bindE (createNode K rec (shift + 5) k v hash key val) (\<lambda>c.
              Inr (New (BitmapIndexedNode False bm (arr[idx := Child c])), True))
      else if 16 \<le> n then
        bindE (rec emptyIndexedNode (shift + 5) hash key val) (\<lambda>(r, added).
        bindE (spread K rec (shift + 5) bm [0..<32] arr
                ((replicate 32 None)[mask hash shift := Some (upd_node emptyIndexedNode r)]) added) (\<lambda>(nodes, added').
        Inr (New (ArrayNode False (n + 1) nodes), added')))
      else
        Inr (New (BitmapIndexedNode False (bm OR b) (take idx arr @ Leaf key val # drop idx arr)), True))"

definition assoc_array :: "('k, 'v) assocfn \<Rightarrow> nat \<Rightarrow> ('k, 'v) hnode option list \<Rightarrow>
    nat \<Rightarrow> 32 word \<Rightarrow> 'k \<Rightarrow> 'v \<Rightarrow> herr + ('k, 'v) hnode upd \<times> bool" where
  "assoc_array rec cnt arr shift hash key val =
     (let idx = mask hash shift in
      case slice_get arr idx of
        None \<Rightarrow> Inl HPanic
      | Some None \<Rightarrow>
          bindE (rec emptyIndexedNode (shift + 5) hash key val) (\<lambda>(r, added).
          Inr (New (ArrayNode False (cnt + 1) (arr[idx := Some (upd_node emptyIndexedNode r)])), added))
      | Some (Some c) \<Rightarrow>
          bindE (rec c (shift + 5) hash key val) (\<lambda>(r, added).
          case r of Same \<Rightarrow> Inr (Same, added)
          | New c' \<Rightarrow> Inr (New (ArrayNode False cnt (arr[idx := Some c'])), added)))"

text \<open>The index of the pair whose key is equal, among the first \<open>count\<close>.\<close>

fun findIndex :: "('k, 'v) kops \<Rightarrow> 'k \<Rightarrow> nat \<Rightarrow> ('k \<times> 'v) list \<Rightarrow> nat option" where
  "findIndex K key (Suc n) ((k, v) # ps) =
     (if kequiv K key k then Some 0 else map_option Suc (findIndex K key n ps))"
| "findIndex K key _ _ = None"

definition assoc_collision :: "('k, 'v) kops \<Rightarrow> ('k, 'v) assocfn \<Rightarrow> bool \<Rightarrow> 32 word \<Rightarrow> nat \<Rightarrow> ('k \<times> 'v) list \<Rightarrow>
    nat \<Rightarrow> 32 word \<Rightarrow> 'k \<Rightarrow> 'v \<Rightarrow> herr + ('k, 'v) hnode upd \<times> bool" where
  "assoc_collision K rec ed h cnt ps shift hash key val =
     (if hash = h then
        case findIndex K key cnt ps of
          Some i \<Rightarrow>
            (case vsame K (snd (ps ! i)) val of
               None \<Rightarrow> Inl HPanic
             | Some True \<Rightarrow> Inr (Same, False)
             | Some False \<Rightarrow> Inr (New (HashCollisionNode False hash cnt (ps[i := (fst (ps ! i), val)])), False))
        | None \<Rightarrow> Inr (New (HashCollisionNode False hash (cnt + 1) (take cnt ps @ [(key, val)])), True)
      else
        let w = BitmapIndexedNode False (bitpos h shift) [Child (HashCollisionNode ed h cnt ps)] in
        bindE (rec w shift hash key val) (\<lambda>(r, added). Inr (New (upd_node w r), added)))"

text \<open>One unit of fuel per nested call.\<close>

primrec node_assoc :: "('k, 'v) kops \<Rightarrow> nat \<Rightarrow> ('k, 'v) assocfn" where
  "node_assoc K 0 = (\<lambda>n shift hash key val. Inl HFuel)"
| "node_assoc K (Suc fuel) = (\<lambda>n shift hash key val.
     case n of
       BitmapIndexedNode ed bm arr \<Rightarrow> assoc_bitmap K (node_assoc K fuel) bm arr shift hash key val
     | ArrayNode ed cnt arr \<Rightarrow> assoc_array (node_assoc K fuel) cnt arr shift hash key val
     | HashCollisionNode ed h cnt ps \<Rightarrow> assoc_collision K (node_assoc K fuel) ed h cnt ps shift hash key val)"

subsection \<open>find\<close>

lemma hentry_size: "slice_get arr i = Some (Child c) \<Longrightarrow> size c < Suc (size_list size arr)"
  using size_list_estimation' [of "Child c" arr "size c" size] by (auto dest!: slice_get_SomeD)

lemma hchild_size: "slice_get arr i = Some (Some c) \<Longrightarrow> size c < Suc (size_list (size_option size) arr)"
  using size_list_estimation' [of "Some c" arr "size c" "size_option size"] by (auto dest!: slice_get_SomeD)

text \<open>The outer \<open>None\<close> is a panic, the inner one says that the key is absent.\<close>

function node_find :: "('k, 'v) kops \<Rightarrow> ('k, 'v) hnode \<Rightarrow> nat \<Rightarrow> 32 word \<Rightarrow> 'k \<Rightarrow> ('k \<times> 'v) option option" where
  "node_find K (BitmapIndexedNode ed bm arr) shift hash key =
     (let b = bitpos hash shift in
      if bm AND b = 0 then Some None
      else case slice_get arr (index bm b) of
             None \<Rightarrow> None
           | Some (Child c) \<Rightarrow> node_find K c (shift + 5) hash key
           | Some (Leaf k v) \<Rightarrow> if kequiv K key k then Some (Some (k, v)) else Some None)"
| "node_find K (ArrayNode ed cnt arr) shift hash key =
     (case slice_get arr (mask hash shift) of
        None \<Rightarrow> None
      | Some None \<Rightarrow> Some None
      | Some (Some c) \<Rightarrow> node_find K c (shift + 5) hash key)"
| "node_find K (HashCollisionNode ed h cnt ps) shift hash key =
     (case findIndex K key cnt ps of None \<Rightarrow> Some None | Some i \<Rightarrow> Some (Some (ps ! i)))"
  by pat_completeness auto
termination
  by (relation "measure (\<lambda>(K, n, shift, hash, key). size n)") (auto dest: hentry_size hchild_size)

subsection \<open>without\<close>

definition removePair :: "'a list \<Rightarrow> nat \<Rightarrow> 'a list" where
  "removePair xs n = take n xs @ drop (n + 1) xs"

text \<open>The loops of \<^verbatim>\<open>pack\<close>: the new array has room for \<open>count - 1\<close> children; what is left of it
  holds nil keys and nil values, and a child too many is a panic.\<close>

fun pack_loop :: "('k, 'v) hnode option list \<Rightarrow> nat list \<Rightarrow> nat \<Rightarrow> nat \<Rightarrow> ('k, 'v) hentry list \<Rightarrow>
    (nat \<times> ('k, 'v) hentry list) option" where
  "pack_loop arr [] j bm es = Some (bm, es)"
| "pack_loop arr (i # is) j bm es =
     (case arr ! i of
        None \<Rightarrow> pack_loop arr is j bm es
      | Some c \<Rightarrow>
          (case slice_set es j (Child c) of
             None \<Rightarrow> None
           | Some es' \<Rightarrow> pack_loop arr is (j + 1) (bm OR push_bit i 1) es'))"

definition pack :: "('k, 'v) kops \<Rightarrow> nat \<Rightarrow> ('k, 'v) hnode option list \<Rightarrow> nat \<Rightarrow> ('k, 'v) hnode option" where
  "pack K cnt arr idx =
     map_option (\<lambda>(bm, es). BitmapIndexedNode False bm es)
       (pack_loop arr ([0..<idx] @ [idx + 1..<length arr]) 0 0 (replicate (cnt - 1) (Leaf (knil K) (vnil K))))"

definition without_bitmap :: "('k, 'v) kops \<Rightarrow> nat \<Rightarrow> ('k, 'v) hentry list \<Rightarrow> nat \<Rightarrow> nat \<Rightarrow>
    ('k, 'v) hnode del \<Rightarrow> ('k, 'v) hnode del" where
  "without_bitmap K bm arr b idx r =
     (case r of
        Kept \<Rightarrow> Kept
      | Shrunk c \<Rightarrow> Shrunk (BitmapIndexedNode False bm (arr[idx := Child c]))
      | Gone \<Rightarrow> if bm = b then Gone else Shrunk (BitmapIndexedNode False (bm XOR b) (removePair arr idx)))"

text \<open>The \<open>None\<close> is a panic.\<close>

function node_without :: "('k, 'v) kops \<Rightarrow> ('k, 'v) hnode \<Rightarrow> nat \<Rightarrow> 32 word \<Rightarrow> 'k \<Rightarrow> ('k, 'v) hnode del option" where
  "node_without K (BitmapIndexedNode ed bm arr) shift hash key =
     (let b = bitpos hash shift; idx = index bm b in
      if bm AND b = 0 then Some Kept
      else case slice_get arr idx of
             None \<Rightarrow> None
           | Some (Child c) \<Rightarrow> map_option (without_bitmap K bm arr b idx) (node_without K c (shift + 5) hash key)
           | Some (Leaf k v) \<Rightarrow>
               if kequiv K key k then Some (Shrunk (BitmapIndexedNode False (bm XOR b) (removePair arr idx)))
               else Some Kept)"
| "node_without K (ArrayNode ed cnt arr) shift hash key =
     (let idx = mask hash shift in
      case slice_get arr idx of
        None \<Rightarrow> None
      | Some None \<Rightarrow> Some Kept
      | Some (Some c) \<Rightarrow>
          (case node_without K c (shift + 5) hash key of
             None \<Rightarrow> None
           | Some Kept \<Rightarrow> Some Kept
           | Some Gone \<Rightarrow>
               if cnt \<le> 8 then map_option Shrunk (pack K cnt arr idx)
               else Some (Shrunk (ArrayNode False (cnt - 1) (arr[idx := None])))
           | Some (Shrunk c') \<Rightarrow> Some (Shrunk (ArrayNode False cnt (arr[idx := Some c'])))))"
| "node_without K (HashCollisionNode ed h cnt ps) shift hash key =
     (case findIndex K key cnt ps of
        None \<Rightarrow> Some Kept
      | Some i \<Rightarrow>
          if cnt = 1 then Some Gone
          else Some (Shrunk (HashCollisionNode False hash (cnt - 1) (removePair ps i))))"
  by pat_completeness auto
termination
  by (relation "measure (\<lambda>(K, n, shift, hash, key). size n)") (auto dest: hentry_size hchild_size)

subsection \<open>Sequences\<close>

text \<open>\<open>NodeSeq\<close> and \<open>ArrayNodeSeq\<close>; the seq of the child being walked is \<open>Some\<close> inside.\<close>

datatype ('k, 'v) hseq =
    NodeSeq "('k, 'v) hentry list" nat "('k, 'v) hseq option"
  | ArrayNodeSeq "('k, 'v) hnode option list" nat "('k, 'v) hseq"

text \<open>The entries of a collision node as a flat array; \<open>nodeSeq\<close> with the loops of
  \<^verbatim>\<open>newNodeSeq\<close> and \<^verbatim>\<open>newArrayNodeSeq\<close>, which look at what is left of the array from \<open>i\<close>.\<close>

definition pair_entries :: "('k \<times> 'v) list \<Rightarrow> ('k, 'v) hentry list" where
  "pair_entries ps = map (\<lambda>(k, v). Leaf k v) ps"

fun nodeSeq :: "('k, 'v) hnode \<Rightarrow> ('k, 'v) hseq option"
  and newNodeSeq :: "('k, 'v) hentry list \<Rightarrow> nat \<Rightarrow> ('k, 'v) hentry list \<Rightarrow> ('k, 'v) hseq option"
  and newArrayNodeSeq :: "('k, 'v) hnode option list \<Rightarrow> nat \<Rightarrow> ('k, 'v) hnode option list \<Rightarrow> ('k, 'v) hseq option" where
  "nodeSeq (BitmapIndexedNode ed bm arr) = newNodeSeq arr 0 arr"
| "nodeSeq (ArrayNode ed cnt arr) = newArrayNodeSeq arr 0 arr"
| "nodeSeq (HashCollisionNode ed h cnt ps) = (if ps = [] then None else Some (NodeSeq (pair_entries ps) 0 None))"
| "newNodeSeq arr i [] = None"
| "newNodeSeq arr i (Leaf k v # es) = Some (NodeSeq arr i None)"
| "newNodeSeq arr i (Child c # es) =
     (case nodeSeq c of Some s \<Rightarrow> Some (NodeSeq arr (i + 1) (Some s)) | None \<Rightarrow> newNodeSeq arr (i + 1) es)"
| "newArrayNodeSeq arr i [] = None"
| "newArrayNodeSeq arr i (None # cs) = newArrayNodeSeq arr (i + 1) cs"
| "newArrayNodeSeq arr i (Some c # cs) =
     (case nodeSeq c of Some s \<Rightarrow> Some (ArrayNodeSeq arr (i + 1) s) | None \<Rightarrow> newArrayNodeSeq arr (i + 1) cs)"

text \<open>\<^verbatim>\<open>First\<close>; \<open>None\<close> is a panic: an index out of range, or a child where a leaf should be.\<close>

fun seq_First :: "('k, 'v) hseq \<Rightarrow> ('k \<times> 'v) option" where
  "seq_First (NodeSeq arr i (Some s)) = seq_First s"
| "seq_First (NodeSeq arr i None) =
     (case slice_get arr i of Some (Leaf k v) \<Rightarrow> Some (k, v) | _ \<Rightarrow> None)"
| "seq_First (ArrayNodeSeq arr i s) = seq_First s"

fun seq_Next :: "('k, 'v) hseq \<Rightarrow> ('k, 'v) hseq option" where
  "seq_Next (NodeSeq arr i (Some s)) =
     (case seq_Next s of
        Some s' \<Rightarrow> Some (NodeSeq arr i (Some s'))
      | None \<Rightarrow> newNodeSeq arr i (drop i arr))"
| "seq_Next (NodeSeq arr i None) = newNodeSeq arr (i + 1) (drop (i + 1) arr)"
| "seq_Next (ArrayNodeSeq arr i s) =
     (case seq_Next s of
        Some s' \<Rightarrow> Some (ArrayNodeSeq arr i s')
      | None \<Rightarrow> newArrayNodeSeq arr i (drop i arr))"

subsection \<open>The map\<close>

record ('k, 'v, 'm) phm =
  pmeta :: "'m option"
  pcount :: nat
  proot :: "('k, 'v) hnode option"

definition emptyPersistentHashMap :: "('k, 'v, 'm) phm" where
  "emptyPersistentHashMap = \<lparr>pmeta = None, pcount = 0, proot = None\<rparr>"

definition PHM_Assoc :: "('k, 'v) kops \<Rightarrow> nat \<Rightarrow> ('k, 'v, 'm) phm \<Rightarrow> 'k \<Rightarrow> 'v \<Rightarrow> herr + ('k, 'v, 'm) phm" where
  "PHM_Assoc K fuel m key val =
     (let t = (case proot m of None \<Rightarrow> emptyIndexedNode | Some r \<Rightarrow> r) in
      bindE (node_assoc K fuel t 0 (khash K key) key val) (\<lambda>(r, added).
      if r = Same \<and> proot m \<noteq> None then Inr m
      else Inr \<lparr>pmeta = pmeta m, pcount = (if added then pcount m + 1 else pcount m), proot = Some (upd_node t r)\<rparr>))"

definition PHM_Without :: "('k, 'v) kops \<Rightarrow> ('k, 'v, 'm) phm \<Rightarrow> 'k \<Rightarrow> ('k, 'v, 'm) phm option" where
  "PHM_Without K m key =
     (case proot m of
        None \<Rightarrow> Some m
      | Some root \<Rightarrow>
          map_option (\<lambda>r. case r of
              Kept \<Rightarrow> m
            | Shrunk n \<Rightarrow> \<lparr>pmeta = pmeta m, pcount = pcount m - 1, proot = Some n\<rparr>
            | Gone \<Rightarrow> \<lparr>pmeta = pmeta m, pcount = pcount m - 1, proot = None\<rparr>)
            (node_without K root 0 (khash K key) key))"

definition PHM_EntryAt :: "('k, 'v) kops \<Rightarrow> ('k, 'v, 'm) phm \<Rightarrow> 'k \<Rightarrow> ('k \<times> 'v) option option" where
  "PHM_EntryAt K m key =
     (case proot m of None \<Rightarrow> Some None | Some r \<Rightarrow> node_find K r 0 (khash K key) key)"

definition PHM_ValAtDefault :: "('k, 'v) kops \<Rightarrow> ('k, 'v, 'm) phm \<Rightarrow> 'k \<Rightarrow> 'v \<Rightarrow> 'v option" where
  "PHM_ValAtDefault K m key notFound =
     (case proot m of
        None \<Rightarrow> Some notFound
      | Some r \<Rightarrow> map_option (\<lambda>e. case e of Some (k, v) \<Rightarrow> v | None \<Rightarrow> notFound) (node_find K r 0 (khash K key) key))"

definition PHM_ContainsKey :: "('k, 'v) kops \<Rightarrow> ('k, 'v, 'm) phm \<Rightarrow> 'k \<Rightarrow> bool option" where
  "PHM_ContainsKey K m key = map_option (\<lambda>e. e \<noteq> None) (PHM_EntryAt K m key)"

definition PHM_Seq :: "('k, 'v, 'm) phm \<Rightarrow> ('k, 'v) hseq option" where
  "PHM_Seq m = (case proot m of None \<Rightarrow> None | Some r \<Rightarrow> nodeSeq r)"

definition PHM_Empty :: "('k, 'v, 'm) phm \<Rightarrow> ('k, 'v, 'm) phm" where
  "PHM_Empty m = emptyPersistentHashMap\<lparr>pmeta := pmeta m\<rparr>"

end
