(* ===== verification/HashBits.thy ===== *)
theory HashBits
  imports HashMap
begin

text \<open>
  The bit arithmetic of the hash trie: a bitmap as the list of the slots it holds, the index of a
  slot in the compressed array, and the five bits of the hash that each level looks at.
\<close>

subsection \<open>Counting bits\<close>

definition bits :: "nat \<Rightarrow> nat list" where
  "bits bm = filter (bit bm) [0..<32]"

definition below :: "nat \<Rightarrow> nat \<Rightarrow> nat list" where
  "below bm i = filter (bit bm) [0..<i]"

definition above :: "nat \<Rightarrow> nat \<Rightarrow> nat list" where
  "above bm i = filter (bit bm) [Suc i..<32]"

lemma and_double: "0 < n \<Longrightarrow> (2 * n) AND (2 * n - Suc 0) = 2 * (n AND (n - Suc 0))" for n :: nat
proof (rule bit_eqI)
  fix j
  assume "0 < n"
  then have "2 * n - Suc 0 = Suc (2 * (n - Suc 0))" by simp
  then show "bit ((2 * n) AND (2 * n - Suc 0)) j = bit (2 * (n AND (n - Suc 0))) j"
    by (simp only: bit_and_iff) (cases j; simp add: bit_and_iff bit_Suc bit_0)
qed

lemma and_odd: "Suc (2 * n) AND (2 * n) = 2 * n" for n :: nat
proof (rule bit_eqI)
  show "bit (Suc (2 * n) AND (2 * n)) j = bit (2 * n) j" for j
    by (simp only: bit_and_iff) (cases j; simp add: bit_Suc bit_0)
qed

lemma bitCount_double: "bitCount (2 * n) = bitCount n"
proof (induction n rule: less_induct)
  case (less n)
  show ?case
  proof (cases "n = 0")
    case False
    then have "bitCount (2 * n) = Suc (bitCount (2 * (n AND (n - Suc 0))))"
      by (subst bitCount.simps) (simp add: and_double)
    also have "\<dots> = Suc (bitCount (n AND (n - Suc 0)))"
      using less.IH [of "n AND (n - Suc 0)"] and_pred_less [of n] False by simp
    also have "\<dots> = bitCount n" using False by (subst (2) bitCount.simps) simp
    finally show ?thesis .
  qed simp
qed

lemma bitCount_odd: "bitCount (Suc (2 * n)) = Suc (bitCount n)"
  by (subst bitCount.simps) (simp add: and_odd bitCount_double)

lemma filter_upt_Suc: "filter p [0..<Suc m] = (if p 0 then [0] else []) @ map Suc (filter (p \<circ> Suc) [0..<m])"
proof -
  have "[0..<Suc m] = 0 # map Suc [0..<m]" by (simp add: map_Suc_upt upt_conv_Cons del: upt_Suc)
  then show ?thesis by (simp add: filter_map del: upt_Suc)
qed

lemma bitCount_filter: "n < 2 ^ m \<Longrightarrow> bitCount n = length (filter (bit n) [0..<m])"
proof (induction m arbitrary: n)
  case 0
  then show ?case by (simp add: bitCount.simps)
next
  case (Suc m)
  define q where "q = n div 2"
  have "q < 2 ^ m" using Suc.prems by (simp add: q_def)
  note q = Suc.IH [OF this]
  have shift: "bit n \<circ> Suc = bit q" by (simp add: fun_eq_iff q_def bit_Suc)
  show ?case
  proof (cases "even n")
    case True
    then have "n = 2 * q" by (simp add: q_def)
    then show ?thesis
      using q True shift by (simp add: filter_upt_Suc bit_0 bitCount_double del: upt_Suc)
  next
    case False
    then have "n = Suc (2 * q)" by (simp add: q_def)
    then show ?thesis
      using q False shift by (simp add: filter_upt_Suc bit_0 bitCount_odd del: upt_Suc)
  qed
qed

lemma bounded_bits: "(\<And>i. bit n i \<Longrightarrow> i < m) \<Longrightarrow> n < 2 ^ m" for n :: nat
proof -
  assume "\<And>i. bit n i \<Longrightarrow> i < m"
  then have "take_bit m n = n" by (auto simp: bit_eq_iff bit_take_bit_iff)
  then show ?thesis by (simp add: take_bit_nat_eq_self_iff)
qed

lemma bitCount_bits: "(\<And>i. bit bm i \<Longrightarrow> i < 32) \<Longrightarrow> bitCount bm = length (bits bm)"
  using bitCount_filter [OF bounded_bits, of bm 32] by (simp add: bits_def)

subsection \<open>Slots\<close>

lemma index_below: "index bm (2 ^ i) = length (below bm i)"
proof -
  have "bm AND (2 ^ i - 1) = take_bit i bm"
    by (simp add: take_bit_eq_mask mask_eq_exp_minus_1)
  moreover have "filter (bit (take_bit i bm)) [0..<i] = filter (bit bm) [0..<i]"
    by (rule filter_cong) (auto simp: bit_take_bit_iff)
  ultimately show ?thesis
    using bitCount_filter [of "take_bit i bm" i] by (simp add: index_def below_def)
qed

lemma bit_test: "bm AND 2 ^ i = (0 :: nat) \<longleftrightarrow> \<not> bit bm i"
  by (simp add: and_exp_eq_0_iff_not_bit)

lemma bit_test': "drop_bit i bm AND 1 = (0 :: nat) \<longleftrightarrow> \<not> bit bm i"
  by (simp add: and_one_eq bit_iff_odd_drop_bit even_iff_mod_2_eq_zero)

lemma upt_split: "i < 32 \<Longrightarrow> [0..<32] = [0..<i] @ i # [Suc i..<32]"
  using upt_add_eq_append [of 0 i "32 - i"] upt_conv_Cons [of i 32] by simp

lemma bits_split: "i < 32 \<Longrightarrow> bits bm = below bm i @ (if bit bm i then [i] else []) @ above bm i"
  by (simp add: bits_def below_def above_def upt_split)

lemma bits_set: "i < 32 \<Longrightarrow> bits (bm OR 2 ^ i) = below bm i @ i # above bm i"
proof -
  assume "i < 32"
  moreover have "below (bm OR 2 ^ i) i = below bm i" "above (bm OR 2 ^ i) i = above bm i"
    unfolding below_def above_def by (rule filter_cong; auto simp: bit_simps)+
  moreover have "bit (bm OR 2 ^ i) i" by (simp add: bit_simps)
  ultimately show ?thesis by (simp add: bits_split)
qed

lemma bits_flip: "i < 32 \<Longrightarrow> bit bm i \<Longrightarrow> bits (bm XOR 2 ^ i) = below bm i @ above bm i"
proof -
  assume "i < 32" "bit bm i"
  moreover have "below (bm XOR 2 ^ i) i = below bm i" "above (bm XOR 2 ^ i) i = above bm i"
    unfolding below_def above_def by (rule filter_cong; auto simp: bit_simps)+
  moreover from \<open>bit bm i\<close> have "\<not> bit (bm XOR 2 ^ i) i" by (simp add: bit_simps)
  ultimately show ?thesis by (simp add: bits_split)
qed

lemma below_less: "j \<in> set (below bm i) \<Longrightarrow> j < i"
  by (simp add: below_def)

lemma above_greater: "j \<in> set (above bm i) \<Longrightarrow> i < j"
  by (simp add: above_def)

subsection \<open>Five bits of the hash\<close>

lemma bitpos_exp [simp]: "bitpos h s = 2 ^ mask h s"
  by (simp add: bitpos_def)

lemma mask_take_bit: "mask h s = unat (take_bit 5 (drop_bit s h))"
  by (simp add: HashMap.mask_def take_bit_eq_mask mask_eq_exp_minus_1)

lemma mask_less [simp, intro]: "mask h s < 32"
proof -
  have "take_bit 5 (unat (drop_bit s h)) < 2 ^ 5" by (rule take_bit_nat_less_exp)
  then show ?thesis by (simp add: mask_take_bit unsigned_take_bit_eq)
qed

lemma mask_eq_iff: "mask h s = mask h' s \<longleftrightarrow> (\<forall>j<5. bit h (s + j) = bit h' (s + j))"
proof -
  have "mask h s = mask h' s \<longleftrightarrow> take_bit 5 (drop_bit s h) = take_bit 5 (drop_bit s h')"
    by (simp add: mask_take_bit word_unat_eq_iff)
  moreover have "(\<forall>n<32. (n < 5 \<and> P n) = (n < 5 \<and> Q n)) = (\<forall>j<5. P j = Q j)" for P Q :: "nat \<Rightarrow> bool"
  proof -
    have "j < 32" if "j < 5" for j :: nat using that by simp
    then show ?thesis by blast
  qed
  ultimately show ?thesis by (simp add: bit_eq_iff [of "take_bit 5 _"] bit_take_bit_iff bit_drop_bit_eq)
qed

lemma agree_next:
  assumes "take_bit s h = take_bit s h'" and "mask h s = mask h' s"
  shows "take_bit (s + 5) h = take_bit (s + 5) (h' :: 32 word)"
proof (rule bit_eqI)
  fix j
  have low: "j < s \<Longrightarrow> bit h j = bit h' j" for j
    using assms(1) by (metis bit_take_bit_iff)
  have high: "\<not> j < s \<Longrightarrow> j < s + 5 \<Longrightarrow> bit h j = bit h' j" for j
    using assms(2) mask_eq_iff [of h s h'] by (metis add_less_cancel_left le_add_diff_inverse not_less)
  show "bit (take_bit (s + 5) h) j = bit (take_bit (s + 5) h') j"
    using low high by (auto simp: bit_take_bit_iff)
qed

lemma agree_all: "take_bit 35 h = take_bit 35 h' \<Longrightarrow> h = (h' :: 32 word)"
  by (simp add: take_bit_word_eq_self)

lemma mask_30: "mask h 30 < 4"
proof -
  have "drop_bit 30 h = take_bit 2 (drop_bit 30 h)"
    by (rule bit_eqI) (auto simp: bit_take_bit_iff bit_drop_bit_eq dest: bit_imp_le_length)
  then have "take_bit 5 (drop_bit 30 h) = take_bit 2 (drop_bit 30 h)"
    by (metis min.absorb2 numeral_le_iff semiring_norm(68) semiring_norm(72) take_bit_take_bit)
  then have "mask h 30 = take_bit 2 (unat (drop_bit 30 h))" by (simp add: mask_take_bit unsigned_take_bit_eq)
  moreover have "take_bit 2 (unat (drop_bit 30 h)) < 2 ^ 2" by (rule take_bit_nat_less_exp)
  ultimately show ?thesis by simp
qed

end
