(* ===== verification/HashMapInv.thy ===== *)
theory HashMapInv
  imports HashBits
begin

text \<open>
  The invariant of the hash trie and what \<^verbatim>\<open>assoc\<close> does to it: every key sits on the path
  that its hash spells, bitmaps and counts agree with the arrays, and the keys of a collision node
  have one hash and are pairwise different.  A node means the multiset of its pairs.
\<close>

subsection \<open>Contents and well-formedness\<close>

fun elems :: "('k, 'v) hnode \<Rightarrow> ('k \<times> 'v) list" and eelems :: "('k, 'v) hentry \<Rightarrow> ('k \<times> 'v) list" where
  "elems (BitmapIndexedNode ed bm arr) = concat (map eelems arr)"
| "elems (ArrayNode ed cnt arr) = concat (map (\<lambda>c. case c of None \<Rightarrow> [] | Some n \<Rightarrow> elems n) arr)"
| "elems (HashCollisionNode ed h cnt ps) = ps"
| "eelems (Leaf k v) = [(k, v)]"
| "eelems (Child c) = elems c"

definition oelems :: "('k, 'v) hnode option \<Rightarrow> ('k \<times> 'v) list" where
  "oelems c = (case c of None \<Rightarrow> [] | Some n \<Rightarrow> elems n)"

lemma elems_array [simp]: "elems (ArrayNode ed cnt arr) = concat (map oelems arr)"
  by (simp add: oelems_def [abs_def])

declare elems.simps(2) [simp del]

lemma oelems_simps [simp]: "oelems None = []" "oelems (Some n) = elems n"
  by (simp_all add: oelems_def)

text \<open>The slots that the bits of the hash left at a level can name.\<close>

definition width :: "nat \<Rightarrow> nat" where
  "width s = (if s = 30 then 4 else 32)"

lemma mask_width [simp]: "mask h s < width s"
  using mask_30 [of h] by (simp add: width_def)

fun hwf :: "('k, 'v) kops \<Rightarrow> ('k \<Rightarrow> bool) \<Rightarrow> nat \<Rightarrow> ('k, 'v) hnode \<Rightarrow> bool"
  and entry_ok :: "('k, 'v) kops \<Rightarrow> ('k \<Rightarrow> bool) \<Rightarrow> nat \<Rightarrow> nat \<Rightarrow> ('k, 'v) hentry \<Rightarrow> bool"
  and entries_ok :: "('k, 'v) kops \<Rightarrow> ('k \<Rightarrow> bool) \<Rightarrow> nat \<Rightarrow> nat list \<Rightarrow> ('k, 'v) hentry list \<Rightarrow> bool"
  and kids_ok :: "('k, 'v) kops \<Rightarrow> ('k \<Rightarrow> bool) \<Rightarrow> nat \<Rightarrow> nat \<Rightarrow> ('k, 'v) hnode option list \<Rightarrow> bool" where
  "hwf K g s (BitmapIndexedNode ed bm arr) \<longleftrightarrow>
     5 dvd s \<and> s \<le> 30 \<and> bm < 2 ^ width s \<and> entries_ok K g s (bits bm) arr"
| "hwf K g s (ArrayNode ed cnt arr) \<longleftrightarrow>
     5 dvd s \<and> s \<le> 25 \<and> length arr = 32 \<and> cnt = length (filter (\<lambda>c. c \<noteq> None) arr) \<and> kids_ok K g s 0 arr"
| "hwf K g s (HashCollisionNode ed h cnt ps) \<longleftrightarrow>
     5 dvd s \<and> s \<le> 35 \<and> ps \<noteq> [] \<and> cnt = length ps \<and> (\<forall>p\<in>set ps. g (fst p) \<and> khash K (fst p) = h) \<and>
     sorted_wrt (\<lambda>p q. \<not> kequiv K (fst p) (fst q)) ps"
| "entry_ok K g s i (Leaf k v) \<longleftrightarrow> g k \<and> mask (khash K k) s = i"
| "entry_ok K g s i (Child c) \<longleftrightarrow> hwf K g (s + 5) c \<and> (\<forall>e\<in>set (elems c). mask (khash K (fst e)) s = i)"
| "entries_ok K g s [] [] \<longleftrightarrow> True"
| "entries_ok K g s (i # is) (e # es) \<longleftrightarrow> entry_ok K g s i e \<and> entries_ok K g s is es"
| "entries_ok K g s is es \<longleftrightarrow> False"
| "kids_ok K g s i [] \<longleftrightarrow> True"
| "kids_ok K g s i (None # cs) \<longleftrightarrow> kids_ok K g s (Suc i) cs"
| "kids_ok K g s i (Some c # cs) \<longleftrightarrow>
     hwf K g (s + 5) c \<and> (\<forall>e\<in>set (elems c). mask (khash K (fst e)) s = i) \<and> kids_ok K g s (Suc i) cs"

lemma entries_ok_iff: "entries_ok K g s is es \<longleftrightarrow> list_all2 (entry_ok K g s) is es"
proof (induction "is" arbitrary: es)
  case (Cons i "is")
  then show ?case by (cases es) auto
qed (case_tac es; simp)

definition kid_ok :: "('k, 'v) kops \<Rightarrow> ('k \<Rightarrow> bool) \<Rightarrow> nat \<Rightarrow> nat \<Rightarrow> ('k, 'v) hnode option \<Rightarrow> bool" where
  "kid_ok K g s i c \<longleftrightarrow> (\<forall>n. c = Some n \<longrightarrow> entry_ok K g s i (Child n))"

lemma kid_ok_simps [simp]:
  "kid_ok K g s i None" "kid_ok K g s i (Some n) = entry_ok K g s i (Child n)"
  by (simp_all add: kid_ok_def)

lemma kids_ok_iff: "kids_ok K g s j cs \<longleftrightarrow> (\<forall>i<length cs. kid_ok K g s (j + i) (cs ! i))"
proof (induction cs arbitrary: j)
  case (Cons c cs)
  have "(\<forall>i<length (c # cs). kid_ok K g s (j + i) ((c # cs) ! i)) \<longleftrightarrow>
      kid_ok K g s j c \<and> (\<forall>i<length cs. kid_ok K g s (Suc j + i) (cs ! i))"
    by (auto simp: less_Suc_eq_0_disj)
  with Cons show ?case by (cases c) auto
qed simp

lemma bit_bound: "bm < 2 ^ m \<Longrightarrow> bit bm i \<Longrightarrow> i < m" for bm :: nat
  by (metis bit_take_bit_iff take_bit_nat_eq_self_iff)

lemma small_bits: "bm < 2 ^ width s \<Longrightarrow> bit bm i \<Longrightarrow> i < 32" for bm s :: nat
  using bit_bound [of bm "width s" i] by (simp add: width_def split: if_splits)

lemma mset_concat_update:
  "i < length xs \<Longrightarrow> mset (concat (map f (xs[i := x]))) + mset (f (xs ! i)) = mset (concat (map f xs)) + mset (f x)"
proof (induction xs arbitrary: i)
  case (Cons y xs)
  then show ?case by (cases i) (auto simp: ac_simps)
qed simp

lemma filter_update:
  "i < length xs \<Longrightarrow> length (filter p (xs[i := x])) + of_bool (p (xs ! i)) = length (filter p xs) + of_bool (p x)"
proof (induction xs arbitrary: i)
  case (Cons y xs)
  then show ?case by (cases i) (auto simp: of_bool_def split: if_splits)
qed simp

text \<open>What an operation does to the multiset of pairs.\<close>

definition inserted :: "('k, 'v) kops \<Rightarrow> 'k \<Rightarrow> 'v \<Rightarrow> ('k \<times> 'v) multiset \<Rightarrow> ('k \<times> 'v) multiset \<Rightarrow> bool \<Rightarrow> bool" where
  "inserted K key val E E' added \<longleftrightarrow>
     (if added then (\<forall>e\<in>#E. \<not> kequiv K key (fst e)) \<and> E' = add_mset (key, val) E
      else \<exists>k v R. E = add_mset (k, v) R \<and> kequiv K key k \<and> E' = add_mset (k, val) R)"

definition removed :: "('k, 'v) kops \<Rightarrow> 'k \<Rightarrow> ('k \<times> 'v) multiset \<Rightarrow> ('k \<times> 'v) multiset \<Rightarrow> bool" where
  "removed K key E E' \<longleftrightarrow> (\<exists>k v. E = add_mset (k, v) E' \<and> kequiv K key k)"

lemma inserted_frame: "inserted K key val E E' a \<Longrightarrow> \<forall>e\<in>#R. \<not> kequiv K key (fst e) \<Longrightarrow> inserted K key val (E + R) (E' + R) a"
  unfolding inserted_def by (cases a) (auto, metis union_mset_add_mset_left)

lemma inserted_keys: "inserted K key val E E' a \<Longrightarrow> e \<in># E' \<Longrightarrow> fst e = key \<or> fst e \<in> fst ` set_mset E"
  unfolding inserted_def by (auto split: if_splits)

lemma removed_frame: "removed K key E E' \<Longrightarrow> removed K key (E + R) (E' + R)"
  unfolding removed_def by auto

lemma removed_keys: "removed K key E E' \<Longrightarrow> e \<in># E' \<Longrightarrow> e \<in># E"
  unfolding removed_def by auto

subsection \<open>The parts of a bitmap node\<close>

lemma bitmap_hit:
  assumes "hwf K g s (BitmapIndexedNode ed bm arr)" and "bit bm i"
  obtains xs e ys where "arr = xs @ e # ys" and "length xs = index bm (2 ^ i)" and "entry_ok K g s i e"
    and "list_all2 (entry_ok K g s) (below bm i) xs" and "list_all2 (entry_ok K g s) (above bm i) ys"
proof -
  have "i < 32" using assms small_bits [of bm s i] by simp
  with assms have "list_all2 (entry_ok K g s) (below bm i @ i # above bm i) arr"
    by (simp add: entries_ok_iff bits_split)
  then obtain xs e ys where "arr = xs @ e # ys" "list_all2 (entry_ok K g s) (below bm i) xs"
    "entry_ok K g s i e" "list_all2 (entry_ok K g s) (above bm i) ys"
    by (auto simp: list_all2_append1 list_all2_Cons1)
  moreover from this(2) have "length xs = index bm (2 ^ i)"
    by (simp add: index_below list_all2_lengthD)
  ultimately show thesis using that by blast
qed

lemma bitmap_miss:
  assumes "hwf K g s (BitmapIndexedNode ed bm arr)" and "\<not> bit bm i" and "i < 32"
  obtains xs ys where "arr = xs @ ys" and "length xs = index bm (2 ^ i)"
    and "list_all2 (entry_ok K g s) (below bm i) xs" and "list_all2 (entry_ok K g s) (above bm i) ys"
proof -
  from assms have "list_all2 (entry_ok K g s) (below bm i @ above bm i) arr"
    by (simp add: entries_ok_iff bits_split)
  then obtain xs ys where "arr = xs @ ys" "list_all2 (entry_ok K g s) (below bm i) xs"
    "list_all2 (entry_ok K g s) (above bm i) ys"
    by (auto simp: list_all2_append1)
  moreover from this(2) have "length xs = index bm (2 ^ i)"
    by (simp add: index_below list_all2_lengthD)
  ultimately show thesis using that by blast
qed

lemma bitmap_put:
  assumes "hwf K g s (BitmapIndexedNode ed bm arr)" and "bit bm i" and "entry_ok K g s i e"
    and "list_all2 (entry_ok K g s) (below bm i) xs" and "list_all2 (entry_ok K g s) (above bm i) ys"
  shows "hwf K g s (BitmapIndexedNode ed' bm (xs @ e # ys))"
proof -
  have "i < 32" using assms(1,2) small_bits [of bm s i] by simp
  with assms show ?thesis
    by (simp add: entries_ok_iff bits_split [of i] list_all2_appendI)
qed

lemma bits_or_bound: "bm < 2 ^ m \<Longrightarrow> i < m \<Longrightarrow> bm OR 2 ^ i < 2 ^ m" for bm :: nat
  by (rule bounded_bits) (auto simp: bit_simps dest: bit_bound)

lemma bits_xor_bound: "bm < 2 ^ m \<Longrightarrow> i < m \<Longrightarrow> bm XOR 2 ^ i < 2 ^ m" for bm :: nat
  by (rule bounded_bits) (auto simp: bit_simps dest: bit_bound)

lemma bitmap_add:
  assumes "hwf K g s (BitmapIndexedNode ed bm arr)" and "i < width s" and "entry_ok K g s i e"
    and "list_all2 (entry_ok K g s) (below bm i) xs" and "list_all2 (entry_ok K g s) (above bm i) ys"
  shows "hwf K g s (BitmapIndexedNode ed' (bm OR 2 ^ i) (xs @ e # ys))"
proof -
  have "i < 32" using assms(2) by (simp add: width_def split: if_splits)
  with assms show ?thesis
    by (simp add: entries_ok_iff bits_set list_all2_appendI bits_or_bound)
qed

lemma bitmap_drop:
  assumes "hwf K g s (BitmapIndexedNode ed bm arr)" and "bit bm i"
    and "list_all2 (entry_ok K g s) (below bm i) xs" and "list_all2 (entry_ok K g s) (above bm i) ys"
  shows "hwf K g s (BitmapIndexedNode ed' (bm XOR 2 ^ i) (xs @ ys))"
proof -
  have "i < 32" "i < width s" using assms(1,2) small_bits [of bm s i] bit_bound [of bm "width s" i] by simp_all
  with assms show ?thesis
    by (simp add: entries_ok_iff bits_flip list_all2_appendI bits_xor_bound)
qed

subsection \<open>Keys\<close>

locale hash_map = hash_keys "kequiv K" "khash K" good
  for K :: "('k, 'v) kops" and good :: "'k \<Rightarrow> bool" +
  assumes same_eq: "vsame K v w = Some True \<Longrightarrow> v = w"
begin

abbreviation node_ok :: "nat \<Rightarrow> ('k, 'v) hnode \<Rightarrow> bool" where
  "node_ok \<equiv> hwf K good"

abbreviation slot_ok :: "nat \<Rightarrow> nat \<Rightarrow> ('k, 'v) hentry \<Rightarrow> bool" where
  "slot_ok \<equiv> entry_ok K good"

lemma node_keys_good:
  "hwf K' g s n \<Longrightarrow> K' = K \<Longrightarrow> g = good \<Longrightarrow> \<forall>e\<in>set (elems n). good (fst e)"
  "entry_ok K' g s i x \<Longrightarrow> K' = K \<Longrightarrow> g = good \<Longrightarrow> \<forall>e\<in>set (eelems x). good (fst e)"
  "entries_ok K' g s is es \<Longrightarrow> K' = K \<Longrightarrow> g = good \<Longrightarrow> \<forall>e\<in>set (concat (map eelems es)). good (fst e)"
  "kids_ok K' g s i cs \<Longrightarrow> K' = K \<Longrightarrow> g = good \<Longrightarrow> \<forall>e\<in>set (concat (map oelems cs)). good (fst e)"
  by (induction K' g s n and K' g s i x and K' g s "is" es and K' g s i cs
      rule: hwf_entry_ok_entries_ok_kids_ok.induct) auto

lemma elems_good: "node_ok s n \<Longrightarrow> e \<in> set (elems n) \<Longrightarrow> good (fst e)"
  using node_keys_good(1) by blast

lemma eelems_good: "slot_ok s i x \<Longrightarrow> e \<in> set (eelems x) \<Longrightarrow> good (fst e)"
  using node_keys_good(2) by blast

lemma slot_mask: "slot_ok s i x \<Longrightarrow> e \<in> set (eelems x) \<Longrightarrow> mask (khash K (fst e)) s = i"
  by (cases x) auto

text \<open>A key is found in no slot but its own.\<close>

lemma other_slot:
  assumes "good key" and "slot_ok s i x" and "i \<noteq> mask (khash K key) s" and "e \<in> set (eelems x)"
  shows "\<not> kequiv K key (fst e)"
  using equiv_hash [OF assms(1) eelems_good [OF assms(2,4)]] slot_mask [OF assms(2,4)] assms(3) by auto

lemma other_slots:
  assumes "good key" and "list_all2 (slot_ok s) is xs" and "mask (khash K key) s \<notin> set is"
  shows "\<forall>e\<in>#mset (concat (map eelems xs)). \<not> kequiv K key (fst e)"
  using assms(2,3)
proof (induction rule: list_all2_induct)
  case (Cons i "is" x xs)
  then show ?case using other_slot [OF assms(1)] by auto
qed simp

lemma around_slot:
  assumes "good key" and "list_all2 (slot_ok s) (below bm (mask (khash K key) s)) xs"
    and "list_all2 (slot_ok s) (above bm (mask (khash K key) s)) ys"
  shows "\<forall>e\<in>#mset (concat (map eelems xs)) + mset (concat (map eelems ys)). \<not> kequiv K key (fst e)"
  using other_slots [OF assms(1,2)] other_slots [OF assms(1,3)] below_less above_greater by fastforce

lemma other_kids:
  assumes "good key" and "\<forall>i<length cs. kid_ok K good s i (cs ! i)" and "i = mask (khash K key) s" and "i < length cs"
  shows "\<forall>e\<in>#mset (concat (map oelems (take i cs))) + mset (concat (map oelems (drop (Suc i) cs))). \<not> kequiv K key (fst e)"
proof -
  have "\<not> kequiv K key (fst e)" if "j < length cs" "j \<noteq> i" "e \<in> set (oelems (cs ! j))" for e j
    using assms(2,3) that other_slot [OF assms(1), of s j "Child (the (cs ! j))" e]
    by (cases "cs ! j") auto
  moreover have "\<exists>j<length cs. j \<noteq> i \<and> c = cs ! j" if "c \<in> set (take i cs) \<union> set (drop (Suc i) cs)" for c
  proof -
    from that consider j where "j < i" "c = cs ! j" | j where "Suc i + j < length cs" "c = cs ! (Suc i + j)"
      using assms(4) by (force simp: in_set_conv_nth)
    then show ?thesis
    proof cases
      case 1
      with assms(4) show ?thesis by (intro exI [of _ j]) simp
    next
      case 2
      then show ?thesis by (intro exI [of _ "Suc i + j"]) simp
    qed
  qed
  ultimately show ?thesis by fastforce
qed

lemma kids_around: "i < length cs \<Longrightarrow>
    mset (concat (map oelems cs)) =
      mset (oelems (cs ! i)) + (mset (concat (map oelems (take i cs))) + mset (concat (map oelems (drop (Suc i) cs))))"
  by (subst id_take_nth_drop [of i cs]) (simp_all add: ac_simps)

subsection \<open>assoc keeps the invariant and inserts\<close>

definition assoc_ok :: "nat \<Rightarrow> 'k \<Rightarrow> 'v \<Rightarrow> ('k, 'v) hnode \<Rightarrow> herr + ('k, 'v) hnode upd \<times> bool \<Rightarrow> bool" where
  "assoc_ok s key val n res \<longleftrightarrow>
     (case res of
        Inl HFuel \<Rightarrow> False
      | Inl HPanic \<Rightarrow> \<exists>e\<in>set (elems n). kequiv K key (fst e) \<and> (vsame K val (snd e) = None \<or> vsame K (snd e) val = None)
      | Inr (r, added) \<Rightarrow>
          node_ok s (upd_node n r) \<and> inserted K key val (mset (elems n)) (mset (elems (upd_node n r))) added)"

definition need :: "nat \<Rightarrow> ('k, 'v) hnode \<Rightarrow> nat" where
  "need s n = 2 * (40 - s) + (case n of HashCollisionNode ed h cnt ps \<Rightarrow> 1 | _ \<Rightarrow> 0)"

definition agree :: "nat \<Rightarrow> 'k \<Rightarrow> ('k, 'v) hnode \<Rightarrow> bool" where
  "agree s key n \<longleftrightarrow> (\<forall>e\<in>set (elems n). take_bit s (khash K (fst e)) = take_bit s (khash K key))"

definition rec_ok :: "nat \<Rightarrow> ('k, 'v) assocfn \<Rightarrow> bool" where
  "rec_ok fuel rec \<longleftrightarrow>
     (\<forall>n s key val. node_ok s n \<and> agree s key n \<and> good key \<and> need s n \<le> fuel \<longrightarrow>
        assoc_ok s key val n (rec n s (khash K key) key val))"

lemma empty_ok: "5 dvd s \<Longrightarrow> s \<le> 30 \<Longrightarrow> node_ok s emptyIndexedNode"
  by (simp add: emptyIndexedNode_def bits_def)

lemma elems_empty [simp]: "elems emptyIndexedNode = []"
  by (simp add: emptyIndexedNode_def)

text \<open>Insertion into the shared empty node.\<close>

lemma rec_empty:
  assumes "rec_ok fuel rec" and "5 dvd s" and "s \<le> 30" and "good key" and "2 * (40 - s) \<le> fuel"
  obtains r where "rec emptyIndexedNode s (khash K key) key val = Inr (r, True)"
    and "node_ok s (upd_node emptyIndexedNode r)" and "mset (elems (upd_node emptyIndexedNode r)) = {#(key, val)#}"
proof -
  have "assoc_ok s key val emptyIndexedNode (rec emptyIndexedNode s (khash K key) key val)"
    using assms empty_ok by (simp add: rec_ok_def agree_def need_def emptyIndexedNode_def)
  then show thesis
    using that by (auto simp: assoc_ok_def inserted_def split: sum.splits herr.splits prod.splits if_splits)
qed

lemma createNode_ok:
  assumes rec: "rec_ok fuel rec" and s: "5 dvd s" "s \<le> 35" and k: "good k1" "good k2" "\<not> kequiv K k2 k1"
    and agree: "take_bit s (khash K k1) = take_bit s (khash K k2)" and fuel: "2 * (40 - s) + 1 \<le> fuel"
  obtains n where "createNode K rec s k1 v1 (khash K k2) k2 v2 = Inr n" and "node_ok s n"
    and "mset (elems n) = {#(k1, v1), (k2, v2)#}"
proof (cases "khash K k1 = khash K k2")
  case True
  have "\<not> kequiv K k1 k2" using equiv_sym k by blast
  with True that s k show thesis by (simp add: createNode_def)
next
  case False
  have "s \<noteq> 35" using agree False agree_all by blast
  with s have "s \<le> 30" by presburger
  from rec_empty [OF rec s(1) this k(1), of v1] fuel obtain r
    where r: "rec emptyIndexedNode s (khash K k1) k1 v1 = Inr (r, True)" "node_ok s (upd_node emptyIndexedNode r)"
      "mset (elems (upd_node emptyIndexedNode r)) = {#(k1, v1)#}" by auto
  let ?n1 = "upd_node emptyIndexedNode r"
  have set1: "set (elems ?n1) = {(k1, v1)}" using r(3) by (metis set_mset_add_mset_insert set_mset_empty set_mset_mset)
  have "need s ?n1 \<le> fuel" using fuel by (auto simp: need_def split: hnode.split)
  then have "assoc_ok s k2 v2 ?n1 (rec ?n1 s (khash K k2) k2 v2)"
    using rec r(2) k set1 agree by (simp add: rec_ok_def agree_def)
  then obtain r2 where "rec ?n1 s (khash K k2) k2 v2 = Inr (r2, True)" "node_ok s (upd_node ?n1 r2)"
    "mset (elems (upd_node ?n1 r2)) = {#(k1, v1), (k2, v2)#}"
    using k(3) set1 r(3)
    by (auto simp: assoc_ok_def inserted_def add_mset_commute split: sum.splits herr.splits prod.splits if_splits)
  with that r(1) False show thesis by (simp add: createNode_def)
qed

lemma agree_child:
  assumes "agree s key n" and "set (elems c) \<subseteq> set (elems n)" and "\<forall>e\<in>set (elems c). mask (khash K (fst e)) s = mask (khash K key) s"
  shows "agree (s + 5) key c"
  unfolding agree_def
proof
  fix e
  assume "e \<in> set (elems c)"
  with assms show "take_bit (s + 5) (khash K (fst e)) = take_bit (s + 5) (khash K key)"
    by (intro agree_next) (auto simp: agree_def)
qed

lemma inserted_slot:
  assumes "inserted K key val E E' a" and "\<forall>e\<in>#E. mask (khash K (fst e)) s = mask (khash K key) s" and "e \<in># E'"
  shows "mask (khash K (fst e)) s = mask (khash K key) s"
  using inserted_keys [OF assms(1,3)] assms(2) by auto

text \<open>The pairs of an array node while the loop runs.\<close>

definition kids :: "nat \<Rightarrow> ('k, 'v) hnode option list \<Rightarrow> bool" where
  "kids s cs \<longleftrightarrow> length cs = 32 \<and> (\<forall>i<32. kid_ok K good s i (cs ! i))"

abbreviation kcount :: "('k, 'v) hnode option list \<Rightarrow> nat" where
  "kcount cs \<equiv> length (filter (\<lambda>c. c \<noteq> None) cs)"

lemma array_kids: "node_ok s (ArrayNode ed cnt cs) \<longleftrightarrow> 5 dvd s \<and> s \<le> 25 \<and> kids s cs \<and> cnt = kcount cs"
  by (auto simp: kids_def kids_ok_iff)

declare hwf.simps(2) [simp del]

lemma kids_update: "kids s cs \<Longrightarrow> i < 32 \<Longrightarrow> kid_ok K good s i c \<Longrightarrow> kids s (cs[i := c])"
  by (auto simp: kids_def nth_list_update)

lemma fill_slot:
  assumes "kids s cs" and "i < 32" and "cs ! i = None" and "slot_ok s i (Child c)"
  shows "kids s (cs[i := Some c])" and "kcount (cs[i := Some c]) = Suc (kcount cs)"
    and "mset (concat (map oelems (cs[i := Some c]))) = mset (concat (map oelems cs)) + mset (elems c)"
  using assms kids_update [of s cs i "Some c"] filter_update [of i cs "\<lambda>c. c \<noteq> None" "Some c"]
    mset_concat_update [of i cs oelems "Some c"]
  by (auto simp: kids_def)

lemma spread_ok:
  assumes rec: "rec_ok fuel rec" and s: "5 dvd s" "s \<le> 25" and fuel: "2 * (40 - s) \<le> fuel + 10"
  shows "list_all2 (slot_ok s) (filter (bit bm) is) es \<Longrightarrow> kids s cs \<Longrightarrow> distinct is \<Longrightarrow>
    \<forall>i\<in>set is. i < 32 \<and> (bit bm i \<longrightarrow> cs ! i = None) \<Longrightarrow>
    \<exists>cs' a'. spread K rec (s + 5) bm is es cs a = Inr (cs', a') \<and> (a \<longrightarrow> a') \<and> kids s cs' \<and>
      kcount cs' = kcount cs + length es \<and>
      mset (concat (map oelems cs')) = mset (concat (map oelems cs)) + mset (concat (map eelems es))"
proof (induction "is" arbitrary: es cs a)
  case (Cons i "is")
  show ?case
  proof (cases "bit bm i")
    case False
    then show ?thesis using Cons bit_test' [of i bm] by simp
  next
    case True
    with Cons.prems obtain e es' where es: "es = e # es'" "slot_ok s i e" "list_all2 (slot_ok s) (filter (bit bm) is) es'"
      by (auto simp: list_all2_Cons1)
    have i: "i < 32" "cs ! i = None" "i \<notin> set is" using Cons.prems(3,4) True by auto
    have "\<exists>c a2. slot_ok s i (Child c) \<and> mset (elems c) = mset (eelems e) \<and>
        spread K rec (s + 5) bm (i # is) es cs a = spread K rec (s + 5) bm is es' (cs[i := Some c]) (a \<or> a2)"
    proof (cases e)
      case (Child c)
      then have "spread K rec (s + 5) bm (i # is) es cs a = spread K rec (s + 5) bm is es' (cs[i := Some c]) (a \<or> False)"
        using es(1) True bit_test' [of i bm] by simp
      with es Child show ?thesis by (intro exI [of _ c] exI [of _ False]) simp
    next
      case (Leaf k v)
      have "5 dvd s + 5" "s + 5 \<le> 30" "2 * (40 - (s + 5)) \<le> fuel" using s fuel by auto
      with es(2) Leaf obtain r where "rec emptyIndexedNode (s + 5) (khash K k) k v = Inr (r, True)"
        "node_ok (s + 5) (upd_node emptyIndexedNode r)" "mset (elems (upd_node emptyIndexedNode r)) = {#(k, v)#}"
        using rec_empty [OF rec, of "s + 5" k v] by auto
      moreover from this(3) have "set (elems (upd_node emptyIndexedNode r)) = {(k, v)}"
        by (metis set_mset_add_mset_insert set_mset_empty set_mset_mset)
      ultimately show ?thesis
        using es Leaf True bit_test' [of i bm] by (intro exI [of _ "upd_node emptyIndexedNode r"] exI [of _ True]) auto
    qed
    then obtain c a2 where c: "slot_ok s i (Child c)" "mset (elems c) = mset (eelems e)"
      "spread K rec (s + 5) bm (i # is) es cs a = spread K rec (s + 5) bm is es' (cs[i := Some c]) (a \<or> a2)" by blast
    note fill = fill_slot [OF Cons.prems(2) i(1,2) c(1)]
    have "\<forall>j\<in>set is. j < 32 \<and> (bit bm j \<longrightarrow> cs[i := Some c] ! j = None)"
      using Cons.prems(4) i(3) by (metis list.set_intros(2) nth_list_update_neq)
    from Cons.IH [OF es(3) fill(1) _ this, of "a \<or> a2"] Cons.prems(3) fill(2,3) c(2,3) es(1)
    show ?thesis by (auto simp: ac_simps)
  qed
qed auto

lemma bitmap_elems:
  "mset (elems (BitmapIndexedNode ed bm (xs @ e # ys))) =
     mset (eelems e) + (mset (concat (map eelems xs)) + mset (concat (map eelems ys)))"
  "mset (elems (BitmapIndexedNode ed bm (xs @ ys))) = mset (concat (map eelems xs)) + mset (concat (map eelems ys))"
  by (simp_all add: ac_simps)

lemma slice_middle [simp]: "length xs = i \<Longrightarrow> slice_get (xs @ e # ys) i = Some e"
  by (auto simp: slice_get_def)

lemma assoc_child:
  assumes rec: "rec_ok fuel rec" and c: "node_ok (s + 5) c" "need (s + 5) c \<le> fuel" "agree (s + 5) key c" and "good key"
    and R: "\<forall>e\<in>#R. \<not> kequiv K key (fst e)" and n: "mset (elems n) = mset (elems c) + R"
    and same: "node_ok s n" and step: "\<And>c'. node_ok (s + 5) c' \<Longrightarrow>
        (\<forall>e\<in>set (elems c). mask (khash K (fst e)) s = mask (khash K key) s) \<Longrightarrow>
        (\<forall>e\<in>set (elems c'). mask (khash K (fst e)) s = mask (khash K key) s) \<Longrightarrow>
        node_ok s (f c') \<and> mset (elems (f c')) = mset (elems c') + R"
    and m: "\<forall>e\<in>set (elems c). mask (khash K (fst e)) s = mask (khash K key) s"
  shows "assoc_ok s key val n
    (bindE (rec c (s + 5) (khash K key) key val) (\<lambda>(r, added).
       case r of Same \<Rightarrow> Inr (Same, added) | New c' \<Rightarrow> Inr (New (f c'), added)))"
proof -
  have ok: "assoc_ok (s + 5) key val c (rec c (s + 5) (khash K key) key val)"
    using rec c \<open>good key\<close> by (simp add: rec_ok_def)
  show ?thesis
  proof (cases "rec c (s + 5) (khash K key) key val")
    case (Inl err)
    have "set (elems c) \<subseteq> set (elems n)" using n by (metis mset_subset_eq_add_left set_mset_mono set_mset_mset)
    with ok Inl show ?thesis by (cases err) (auto simp: assoc_ok_def)
  next
    case (Inr ra)
    obtain r a where ra: "ra = (r, a)" by (cases ra)
    with ok Inr have r: "node_ok (s + 5) (upd_node c r)"
      "inserted K key val (mset (elems c)) (mset (elems (upd_node c r))) a" by (simp_all add: assoc_ok_def)
    show ?thesis
    proof (cases r)
      case Same
      with inserted_frame [OF r(2) R] n same ra Inr show ?thesis
        by (simp add: assoc_ok_def upd_node_def)
    next
      case (New c')
      have "\<forall>e\<in>set (elems c'). mask (khash K (fst e)) s = mask (khash K key) s"
        using inserted_slot [OF r(2)] m New by (simp add: upd_node_def)
      with step [of c'] m r(1) New have "node_ok s (f c') \<and> mset (elems (f c')) = mset (elems c') + R"
        by (simp add: upd_node_def)
      with inserted_frame [OF r(2) R] n ra Inr New show ?thesis
        by (simp add: assoc_ok_def upd_node_def)
    qed
  qed
qed

lemma assoc_array_ok:
  assumes rec: "rec_ok fuel rec" and n: "node_ok s (ArrayNode ed cnt arr)" and a: "agree s key (ArrayNode ed cnt arr)"
    and k: "good key" and fuel: "2 * (40 - s) \<le> Suc fuel"
  shows "assoc_ok s key val (ArrayNode ed cnt arr) (assoc_array rec cnt arr s (khash K key) key val)"
proof -
  let ?i = "mask (khash K key) s"
  have s: "5 dvd s" "s \<le> 25" "kids s arr" "cnt = kcount arr" using n by (simp_all add: array_kids)
  then have i: "?i < length arr" "length arr = 32" by (simp_all add: kids_def)
  let ?R = "mset (concat (map oelems (take ?i arr))) + mset (concat (map oelems (drop (Suc ?i) arr)))"
  have R: "\<forall>e\<in>#?R. \<not> kequiv K key (fst e)"
    using other_kids [OF k _ refl i(1)] s(3) by (simp add: kids_def)
  have around: "mset (concat (map oelems (arr[?i := c]))) = mset (oelems c) + ?R" for c
    using kids_around [of ?i "arr[?i := c]"] i by (simp add: ac_simps)
  have slot: "kid_ok K good s ?i (arr ! ?i)" using s(3) by (simp add: kids_def)
  show ?thesis
  proof (cases "arr ! ?i")
    case None
    have "5 dvd s + 5" "s + 5 \<le> 30" "2 * (40 - (s + 5)) \<le> fuel" using s fuel by auto
    from rec_empty [OF rec this(1,2) k this(3), of val] obtain r where r:
      "rec emptyIndexedNode (s + 5) (khash K key) key val = Inr (r, True)"
      "node_ok (s + 5) (upd_node emptyIndexedNode r)" "mset (elems (upd_node emptyIndexedNode r)) = {#(key, val)#}" .
    let ?c = "upd_node emptyIndexedNode r"
    have "set (elems ?c) = {(key, val)}" using r(3) by (metis set_mset_add_mset_insert set_mset_empty set_mset_mset)
    with r(2) have c: "slot_ok s ?i (Child ?c)" by simp
    note fill = fill_slot [OF s(3) mask_less None c]
    have "mset (concat (map oelems arr)) = ?R" using around [of None] None i by (metis list_update_id mset.simps(1) oelems_simps(1) add_0)
    then have "\<forall>e\<in>#mset (concat (map oelems arr)). \<not> kequiv K key (fst e)" using R by simp
    with fill None r i s show ?thesis
      by (simp add: assoc_ok_def assoc_array_def slice_get_ok upd_node_def inserted_def array_kids)
  next
    case (Some c)
    with slot have c: "node_ok (s + 5) c" "\<forall>e\<in>set (elems c). mask (khash K (fst e)) s = ?i" by simp_all
    have "agree (s + 5) key c"
      using agree_child [OF a _ c(2)] Some i by (force simp: in_set_conv_nth)
    moreover have "need (s + 5) c \<le> fuel" using fuel s by (auto simp: need_def split: hnode.split)
    moreover have "mset (elems (ArrayNode ed cnt arr)) = mset (elems c) + ?R"
      using around [of "Some c"] Some i by (metis elems_array list_update_id oelems_simps(2))
    moreover have "node_ok s (ArrayNode False cnt (arr[?i := Some c'])) \<and>
        mset (elems (ArrayNode False cnt (arr[?i := Some c']))) = mset (elems c') + ?R"
      if "node_ok (s + 5) c'" "\<forall>e\<in>set (elems c'). mask (khash K (fst e)) s = ?i" for c'
      using that around [of "Some c'"] s kids_update [OF s(3) mask_less, of "khash K key" s "Some c'"]
        filter_update [OF i(1), of "\<lambda>c. c \<noteq> None" "Some c'"] Some
      by (simp add: array_kids)
    ultimately have "assoc_ok s key val (ArrayNode ed cnt arr)
      (bindE (rec c (s + 5) (khash K key) key val) (\<lambda>(r, added).
         case r of Same \<Rightarrow> Inr (Same, added) | New c' \<Rightarrow> Inr (New (ArrayNode False cnt (arr[?i := Some c'])), added)))"
      by (intro assoc_child [OF rec c(1) _ _ k R _ n _ c(2)]) auto
    with Some i show ?thesis by (simp add: assoc_array_def slice_get_ok)
  qed
qed

lemma set_of_mset1: "mset xs = {#x#} \<Longrightarrow> set xs = {x}"
  by (metis set_mset_add_mset_insert set_mset_empty set_mset_mset)

lemma assoc_bitmap_hit:
  assumes rec: "rec_ok fuel rec" and n: "node_ok s (BitmapIndexedNode ed bm arr)"
    and a: "agree s key (BitmapIndexedNode ed bm arr)" and k: "good key" and fuel: "2 * (40 - s) \<le> Suc fuel"
    and hit: "bit bm (mask (khash K key) s)"
  shows "assoc_ok s key val (BitmapIndexedNode ed bm arr) (assoc_bitmap K rec bm arr s (khash K key) key val)"
proof -
  let ?i = "mask (khash K key) s"
  have s: "5 dvd s" "s \<le> 30" using n by simp_all
  from bitmap_hit [OF n hit] obtain xs e ys where parts: "arr = xs @ e # ys" "length xs = index bm (2 ^ ?i)" "slot_ok s ?i e"
    "list_all2 (slot_ok s) (below bm ?i) xs" "list_all2 (slot_ok s) (above bm ?i) ys" .
  let ?R = "mset (concat (map eelems xs)) + mset (concat (map eelems ys))"
  note R = around_slot [OF k parts(4,5)]
  have put: "node_ok s (BitmapIndexedNode False bm (xs @ e' # ys))" if "slot_ok s ?i e'" for e'
    by (rule bitmap_put [OF n hit that parts(4,5)])
  have upd: "arr[index bm (2 ^ ?i) := e'] = xs @ e' # ys" for e'
    using parts(1,2) by (metis list_update_length)
  have get: "slice_get arr (index bm (2 ^ ?i)) = Some e" using parts(1,2) by simp
  have nz: "0 < bm AND 2 ^ ?i" using hit bit_test [of bm ?i] by simp
  show ?thesis
  proof (cases e)
    case (Child c)
    have c: "node_ok (s + 5) c" "\<forall>e\<in>set (elems c). mask (khash K (fst e)) s = ?i" using parts(3) Child by simp_all
    have "agree (s + 5) key c" by (rule agree_child [OF a _ c(2)]) (auto simp: parts(1) Child)
    moreover have "need (s + 5) c \<le> fuel" using fuel s by (auto simp: need_def split: hnode.split)
    moreover have "mset (elems (BitmapIndexedNode ed bm arr)) = mset (elems c) + ?R"
      by (simp add: parts(1) Child bitmap_elems del: elems.simps)
    moreover have "node_ok s (BitmapIndexedNode False bm (arr[index bm (2 ^ ?i) := Child c'])) \<and>
        mset (elems (BitmapIndexedNode False bm (arr[index bm (2 ^ ?i) := Child c']))) = mset (elems c') + ?R"
      if "node_ok (s + 5) c'" "\<forall>e\<in>set (elems c'). mask (khash K (fst e)) s = ?i" for c'
      using that put [of "Child c'"] by (simp add: upd bitmap_elems del: elems.simps hwf.simps)
    ultimately have "assoc_ok s key val (BitmapIndexedNode ed bm arr)
      (bindE (rec c (s + 5) (khash K key) key val) (\<lambda>(r, added).
         case r of Same \<Rightarrow> Inr (Same, added)
         | New c' \<Rightarrow> Inr (New (BitmapIndexedNode False bm (arr[index bm (2 ^ ?i) := Child c'])), added)))"
      by (intro assoc_child [OF rec c(1) _ _ k R _ n _ c(2)]) auto
    with Child get nz show ?thesis by (simp add: assoc_bitmap_def Let_def)
  next
    case (Leaf k0 v0)
    have leaf: "good k0" "mask (khash K k0) s = ?i" using parts(3) Leaf by simp_all
    have elems: "mset (elems (BitmapIndexedNode ed bm arr)) = add_mset (k0, v0) ?R"
      by (simp add: parts(1) Leaf bitmap_elems del: elems.simps)
    then have in0: "(k0, v0) \<in> set (elems (BitmapIndexedNode ed bm arr))"
      by (metis set_mset_mset union_single_eq_member add_mset_add_single insert_iff set_mset_add_mset_insert)
    show ?thesis
    proof (cases "kequiv K key k0")
      case eq: True
      have ins: "inserted K key val (add_mset (k0, v0) ?R) (add_mset (k0, val) ?R) False"
        using eq by (auto simp: inserted_def)
      have res: "assoc_bitmap K rec bm arr s (khash K key) key val =
          (case vsame K val v0 of None \<Rightarrow> Inl HPanic | Some True \<Rightarrow> Inr (Same, False)
           | Some False \<Rightarrow> Inr (New (BitmapIndexedNode False bm (xs @ Leaf k0 val # ys)), False))"
        using Leaf get nz eq by (simp add: assoc_bitmap_def Let_def upd split: option.split bool.split)
      have put': "node_ok s (BitmapIndexedNode False bm (xs @ Leaf k0 val # ys))" using leaf by (intro put) simp
      show ?thesis
      proof (cases "vsame K val v0")
        case None
        with in0 eq show ?thesis unfolding res assoc_ok_def by force
      next
        case (Some same)
        show ?thesis
        proof (cases same)
          case True
          with Some have "val = v0" using same_eq by simp
          with ins elems n Some True res show ?thesis by (simp add: assoc_ok_def upd_node_def del: elems.simps hwf.simps)
        next
          case False
          with ins elems put' Some res show ?thesis
            by (simp add: assoc_ok_def upd_node_def bitmap_elems del: elems.simps hwf.simps)
        qed
      qed
    next
      case neq: False
      have "take_bit s (khash K k0) = take_bit s (khash K key)" using a in0 by (auto simp: agree_def simp del: elems.simps)
      then have "take_bit (s + 5) (khash K k0) = take_bit (s + 5) (khash K key)" using leaf(2) by (rule agree_next)
      moreover have "5 dvd s + 5" "s + 5 \<le> 35" "2 * (40 - (s + 5)) + 1 \<le> fuel" using s fuel by auto
      ultimately obtain c where c: "createNode K rec (s + 5) k0 v0 (khash K key) key val = Inr c" "node_ok (s + 5) c"
        "mset (elems c) = {#(k0, v0), (key, val)#}"
        using createNode_ok [OF rec _ _ leaf(1) k neq, of "s + 5" v0 val] by metis
      have "set (elems c) = {(k0, v0), (key, val)}" using c(3) by (metis set_mset_add_mset_insert set_mset_empty set_mset_mset)
      with c(2) leaf have "slot_ok s ?i (Child c)" by auto
      note node = put [OF this]
      have "inserted K key val (add_mset (k0, v0) ?R) (add_mset (k0, v0) (add_mset (key, val) ?R)) True"
        using neq R by (auto simp: inserted_def add_mset_commute)
      with node c(1,3) elems show ?thesis
        using Leaf get nz neq
        by (simp add: assoc_bitmap_def Let_def upd assoc_ok_def upd_node_def bitmap_elems
            del: elems.simps hwf.simps)
    qed
  qed
qed

lemma assoc_bitmap_miss:
  assumes rec: "rec_ok fuel rec" and n: "node_ok s (BitmapIndexedNode ed bm arr)"
    and k: "good key" and fuel: "2 * (40 - s) \<le> Suc fuel" and miss: "\<not> bit bm (mask (khash K key) s)"
  shows "assoc_ok s key val (BitmapIndexedNode ed bm arr) (assoc_bitmap K rec bm arr s (khash K key) key val)"
proof -
  let ?i = "mask (khash K key) s"
  have s: "5 dvd s" "s \<le> 30" "bm < 2 ^ width s" using n by simp_all
  from bitmap_miss [OF n miss mask_less] obtain xs ys where parts: "arr = xs @ ys" "length xs = index bm (2 ^ ?i)"
    "list_all2 (slot_ok s) (below bm ?i) xs" "list_all2 (slot_ok s) (above bm ?i) ys" .
  let ?R = "mset (concat (map eelems xs)) + mset (concat (map eelems ys))"
  have elems: "mset (elems (BitmapIndexedNode ed bm arr)) = ?R" by (simp add: parts(1))
  have ins: "inserted K key val ?R (add_mset (key, val) ?R) True"
    using around_slot [OF k parts(3,4)] by (simp add: inserted_def)
  have leaf: "slot_ok s ?i (Leaf key val)" using k by simp
  have zero: "bm AND 2 ^ ?i = 0" using miss bit_test by blast
  show ?thesis
  proof (cases "16 \<le> bitCount bm")
    case False
    have "node_ok s (BitmapIndexedNode False (bm OR 2 ^ ?i) (xs @ Leaf key val # ys))"
      by (rule bitmap_add [OF n mask_width leaf parts(3,4)])
    with False zero parts(1,2) ins elems show ?thesis
      by (simp add: assoc_bitmap_def Let_def assoc_ok_def upd_node_def bitmap_elems del: elems.simps hwf.simps)
  next
    case True
    have len: "length arr = bitCount bm"
      using n small_bits [of bm s] list_all2_lengthD [of "slot_ok s" "bits bm" arr]
      by (simp add: entries_ok_iff bitCount_bits)
    have "s \<noteq> 30"
    proof
      assume "s = 30"
      then have "bitCount bm \<le> length [0..<4]" using bitCount_filter [of bm 4] s(3) by (simp add: width_def del: length_upt)
      with True show False by simp
    qed
    with s have s25: "s \<le> 25" "5 dvd s + 5" "s + 5 \<le> 30" by presburger+
    have f: "2 * (40 - (s + 5)) \<le> fuel" "2 * (40 - s) \<le> fuel + 10" using fuel s by auto
    from rec_empty [OF rec s25(2,3) k f(1), of val] obtain r where r:
      "rec emptyIndexedNode (s + 5) (khash K key) key val = Inr (r, True)"
      "node_ok (s + 5) (upd_node emptyIndexedNode r)" "mset (elems (upd_node emptyIndexedNode r)) = {#(key, val)#}" .
    let ?c = "upd_node emptyIndexedNode r"
    have "slot_ok s ?i (Child ?c)" using r(2) set_of_mset1 [OF r(3)] by simp
    moreover have "kids s (replicate 32 None)" by (simp add: kids_def)
    ultimately have fill: "kids s ((replicate 32 None)[?i := Some ?c])"
      "kcount ((replicate 32 None)[?i := Some ?c]) = 1"
      "mset (concat (map oelems ((replicate 32 None)[?i := Some ?c]))) = {#(key, val)#}"
      using fill_slot [of s "replicate 32 None" ?i ?c] r(3) by (simp_all add: map_replicate_const)
    have "list_all2 (slot_ok s) (filter (bit bm) [0..<32]) arr" using n by (simp add: entries_ok_iff bits_def)
    moreover have "\<forall>j\<in>set [0..<32]. j < 32 \<and> (bit bm j \<longrightarrow> (replicate 32 None)[?i := Some ?c] ! j = None)"
      using miss by (auto simp: nth_list_update)
    ultimately obtain cs a' where spread: "spread K rec (s + 5) bm [0..<32] arr ((replicate 32 None)[?i := Some ?c]) True = Inr (cs, a')"
      "a'" "kids s cs" "kcount cs = 1 + length arr"
      "mset (concat (map oelems cs)) = {#(key, val)#} + mset (concat (map eelems arr))"
      using spread_ok [OF rec s(1) s25(1) f(2), of bm "[0..<32]" arr _ True] fill by (metis distinct_upt)
    have "assoc_bitmap K rec bm arr s (khash K key) key val = Inr (New (ArrayNode False (bitCount bm + 1) cs), True)"
      using True zero r(1) spread(1,2) by (simp add: assoc_bitmap_def Let_def)
    moreover have "node_ok s (ArrayNode False (bitCount bm + 1) cs)"
      using spread(3,4) len s s25 by (simp add: array_kids)
    moreover have "mset (elems (ArrayNode False (bitCount bm + 1) cs)) = add_mset (key, val) ?R"
      using spread(5) by (simp add: parts(1))
    ultimately show ?thesis using ins elems
      by (simp add: assoc_ok_def upd_node_def del: elems.simps hwf.simps)
  qed
qed

lemma findIndex_spec:
  "findIndex K key (length ps) ps = None \<Longrightarrow> p \<in> set ps \<Longrightarrow> \<not> kequiv K key (fst p)"
  "findIndex K key (length ps) ps = Some i \<Longrightarrow> i < length ps \<and> kequiv K key (fst (ps ! i))"
  by (induction ps arbitrary: i) (auto split: if_splits)

lemma bits_single: "i < 32 \<Longrightarrow> bits (2 ^ i) = [i]"
  using bits_set [of i 0] by (simp add: below_def above_def)

lemma collision_put:
  assumes n: "node_ok s (HashCollisionNode ed h cnt ps)" and i: "i < length ps" "kequiv K key (fst (ps ! i))"
  shows "node_ok s (HashCollisionNode ed' h cnt (ps[i := (fst (ps ! i), val)]))"
    and "inserted K key val (mset ps) (mset (ps[i := (fst (ps ! i), val)])) False"
proof -
  have s: "5 dvd s" "s \<le> 35" "ps \<noteq> []" "cnt = length ps" "\<forall>p\<in>set ps. good (fst p) \<and> khash K (fst p) = h"
    "sorted_wrt (\<lambda>p q. \<not> kequiv K (fst p) (fst q)) ps" using n by simp_all
  obtain k0 v0 where kv: "ps ! i = (k0, v0)" by (cases "ps ! i")
  have "map fst (ps[i := (k0, val)]) = map fst ps" using kv i(1) by (simp add: map_update list_update_same_conv)
  then have "sorted_wrt (\<lambda>k k'. \<not> kequiv K k k') (map fst (ps[i := (k0, val)]))"
    using s(6) by (simp add: sorted_wrt_map)
  then have "sorted_wrt (\<lambda>p q. \<not> kequiv K (fst p) (fst q)) (ps[i := (k0, val)])"
    by (simp add: sorted_wrt_map)
  moreover have "\<forall>p\<in>set (ps[i := (k0, val)]). good (fst p) \<and> khash K (fst p) = h"
    using s(5) kv i(1) set_update_subset_insert [of ps i "(k0, val)"] nth_mem [of i ps] by fastforce
  ultimately show "node_ok s (HashCollisionNode ed' h cnt (ps[i := (fst (ps ! i), val)]))"
    using s kv by simp
  have "mset ps = add_mset (k0, v0) (mset (take i ps) + mset (drop (Suc i) ps))"
    by (subst id_take_nth_drop [OF i(1)]) (simp add: kv)
  moreover have "mset (ps[i := (k0, val)]) = add_mset (k0, val) (mset (take i ps) + mset (drop (Suc i) ps))"
    using i(1) by (simp add: upd_conv_take_nth_drop)
  ultimately show "inserted K key val (mset ps) (mset (ps[i := (fst (ps ! i), val)])) False"
    using i(2) kv by (auto simp: inserted_def)
qed

lemma assoc_collision_ok:
  assumes rec: "rec_ok fuel rec" and n: "node_ok s (HashCollisionNode ed h cnt ps)"
    and a: "agree s key (HashCollisionNode ed h cnt ps)" and k: "good key" and fuel: "2 * (40 - s) \<le> fuel"
  shows "assoc_ok s key val (HashCollisionNode ed h cnt ps) (assoc_collision K rec ed h cnt ps s (khash K key) key val)"
proof -
  have s: "5 dvd s" "s \<le> 35" "ps \<noteq> []" "cnt = length ps" "\<forall>p\<in>set ps. good (fst p) \<and> khash K (fst p) = h"
    "sorted_wrt (\<lambda>p q. \<not> kequiv K (fst p) (fst q)) ps" using n by simp_all
  show ?thesis
  proof (cases "khash K key = h")
    case True
    show ?thesis
    proof (cases "findIndex K key cnt ps")
      case None
      then have new: "\<forall>p\<in>set ps. \<not> kequiv K key (fst p)" using findIndex_spec(1) s(4) by blast
      have "\<not> kequiv K (fst p) key" if "p \<in> set ps" for p
        using new s(5) equiv_sym that k by blast
      then have "node_ok s (HashCollisionNode False h (cnt + 1) (ps @ [(key, val)]))"
        using s k True by (auto simp: sorted_wrt_append)
      with None True new s(4) show ?thesis
        by (simp add: assoc_collision_def assoc_ok_def upd_node_def inserted_def del: hwf.simps)
    next
      case (Some i)
      then have i: "i < length ps" "kequiv K key (fst (ps ! i))" using findIndex_spec(2) s(4) by blast+
      obtain k0 v0 where kv: "ps ! i = (k0, v0)" by (cases "ps ! i")
      note put = collision_put [OF n i, where val = val, unfolded kv fst_conv]
      have ok: "node_ok s (HashCollisionNode False h cnt (ps[i := (k0, val)]))" by (rule put(1))
      have ins: "inserted K key val (mset ps) (mset (ps[i := (k0, val)])) False" by (rule put(2))
      have res: "assoc_collision K rec ed h cnt ps s (khash K key) key val =
          (case vsame K v0 val of None \<Rightarrow> Inl HPanic | Some True \<Rightarrow> Inr (Same, False)
           | Some False \<Rightarrow> Inr (New (HashCollisionNode False h cnt (ps[i := (k0, val)])), False))"
        using True Some kv by (simp add: assoc_collision_def split: option.split bool.split)
      show ?thesis
      proof (cases "vsame K v0 val")
        case None
        have "(k0, v0) \<in> set ps" using i(1) kv by (metis nth_mem)
        with None i(2) kv show ?thesis unfolding res assoc_ok_def by force
      next
        case (Some same)
        show ?thesis
        proof (cases same)
          case True
          with Some have "val = v0" using same_eq [of v0 val] by simp
          with kv have "ps[i := (k0, val)] = ps" by (metis list_update_id)
          with ins n Some True res show ?thesis by (simp add: assoc_ok_def upd_node_def del: hwf.simps)
        next
          case False
          with ins ok Some res show ?thesis by (simp add: assoc_ok_def upd_node_def del: hwf.simps)
        qed
      qed
    qed
  next
    case False
    obtain p where p: "p \<in> set ps" using s(3) by (cases ps) auto
    with s(5) have "khash K (fst p) = h" by blast
    with a p have "take_bit s h = take_bit s (khash K key)" by (force simp: agree_def)
    with False have "s \<noteq> 35" using agree_all by metis
    with s have s30: "s \<le> 30" by presburger
    let ?w = "BitmapIndexedNode False (2 ^ mask h s) [Child (HashCollisionNode ed h cnt ps)]"
    have "(2 :: nat) ^ mask h s < 2 ^ width s" by simp
    then have w: "node_ok s ?w" using s s30 by (simp add: bits_single)
    have "agree s key ?w" using a by (simp add: agree_def)
    with rec w k fuel have "assoc_ok s key val ?w (rec ?w s (khash K key) key val)"
      by (simp add: rec_ok_def need_def del: hwf.simps)
    moreover have "elems ?w = elems (HashCollisionNode ed h cnt ps)" by simp
    ultimately show ?thesis
      using False by (cases "rec ?w s (khash K key) key val")
        (auto simp: assoc_collision_def assoc_ok_def upd_node_def split: prod.splits herr.splits simp del: hwf.simps)
  qed
qed

theorem node_assoc_ok:
  "node_ok s n \<Longrightarrow> agree s key n \<Longrightarrow> good key \<Longrightarrow> need s n \<le> fuel \<Longrightarrow>
     assoc_ok s key val n (node_assoc K fuel n s (khash K key) key val)"
proof (induction fuel arbitrary: n s key val)
  case 0
  then have "s \<le> 35" by (cases n) (auto simp: hwf.simps(2))
  with 0 show ?case by (simp add: need_def)
next
  case (Suc fuel)
  have rec: "rec_ok fuel (node_assoc K fuel)" using Suc.IH by (simp add: rec_ok_def)
  show ?case
  proof (cases n)
    case (BitmapIndexedNode ed bm arr)
    then show ?thesis
      using assoc_bitmap_hit [OF rec] assoc_bitmap_miss [OF rec] Suc.prems
      by (cases "bit bm (mask (khash K key) s)") (simp_all add: need_def del: hwf.simps)
  next
    case (ArrayNode ed cnt arr)
    then show ?thesis using assoc_array_ok [OF rec] Suc.prems by (simp add: need_def)
  next
    case (HashCollisionNode ed h cnt ps)
    then show ?thesis using assoc_collision_ok [OF rec] Suc.prems by (simp add: need_def del: hwf.simps)
  qed
qed

end

end
