(* ===== verification/Equality.thy ===== *)
theory Equality
  imports Forms Hashing "HOL-Library.FSet"
begin

text \<open>
  \<^verbatim>\<open>Equiv\<close> (Clojure's \<open>=\<close>, \<^verbatim>\<open>pkg/lang/equal.go\<close>) and \<^verbatim>\<open>HashEq\<close> (\<^verbatim>\<open>pkg/lang/hashes.go\<close>)
  on the values of \<open>Forms\<close>, with the methods of the collections that they call.  Objects that
  the model names by a number or name are equal when they are the same object; their hash, made
  from an address, is a parameter.  An integer is an \<^verbatim>\<open>int64\<close> when it fits and a \<^verbatim>\<open>BigInt\<close>
  otherwise; the two compare and hash by value.
\<close>

subsection \<open>Equiv\<close>

definition kw_string :: "string option \<Rightarrow> string \<Rightarrow> string" where
  "kw_string ns n = (case ns of Some q \<Rightarrow> q @ ''/'' @ n | None \<Rightarrow> n)"

text \<open>The elements of what is \<^verbatim>\<open>Sequential\<close>.\<close>

fun sequential :: "val \<Rightarrow> val list option" where
  "sequential (VList _ xs) = Some xs"
| "sequential (VVec _ xs) = Some xs"
| "sequential _ = None"

text \<open>The entry found first decides.\<close>

primrec first_match :: "('a \<Rightarrow> bool) \<Rightarrow> ('a \<Rightarrow> bool) \<Rightarrow> 'a list \<Rightarrow> bool" where
  "first_match p q [] = False"
| "first_match p q (x # xs) = (if p x then q x else first_match p q xs)"

lemma first_match_cong [fundef_cong]:
  "xs = ys \<Longrightarrow> (\<And>x. x \<in> set ys \<Longrightarrow> p x = p' x) \<Longrightarrow> (\<And>x. x \<in> set ys \<Longrightarrow> q x = q' x) \<Longrightarrow>
     first_match p q xs = first_match p' q' ys"
  by (induction ys arbitrary: xs) auto

lemma val_list_size [simp]: "x \<in> set xs \<Longrightarrow> size x < Suc (k + size_list size xs)"
  using size_list_estimation' [of x xs "size x" size] by simp

lemma val_list_size' [simp]: "x \<in> set xs \<Longrightarrow> size x < Suc (size_list size xs)"
  using val_list_size [of x xs 0] by simp

lemma val_entry_size [simp]:
  assumes "(x, y) \<in> set es"
  shows "size x < Suc (k + size_list (size_prod size size) es)" "size y < Suc (k + size_list (size_prod size size) es)"
  using size_list_estimation' [OF assms, of "size x" "size_prod size size"]
    size_list_estimation' [OF assms, of "size y" "size_prod size size"] by auto

lemma val_entry_size' [simp]:
  assumes "e \<in> set es"
  shows "size (fst e) < Suc (k + size_list (size_prod size size) es)" "size (snd e) < Suc (k + size_list (size_prod size size) es)"
  using val_entry_size [of "fst e" "snd e" es k] assms by simp_all

text \<open>Scalars: integers of the two types compare by value, decimals up to scale, a float with what it
  denotes (no NaN is equal to anything), an \<^verbatim>\<open>Inst\<close> field by field.\<close>

fun f64_equiv :: "f64 \<Rightarrow> f64 \<Rightarrow> bool" where
  "f64_equiv (F64 s m e) (F64 s' m' e') \<longleftrightarrow> m = 0 \<and> m' = 0 \<or> s = s' \<and> m = m' \<and> e = e'"
| "f64_equiv (FInf s) (FInf s') \<longleftrightarrow> s = s'"
| "f64_equiv _ _ = False"

fun lit_equiv :: "literal \<Rightarrow> literal \<Rightarrow> bool" where
  "lit_equiv (LDecimal u s) (LDecimal v t) \<longleftrightarrow> u * 10 ^ nat (t - s) = v * 10 ^ nat (s - t)"
| "lit_equiv (LFloat x) (LFloat y) = f64_equiv x y"
| "lit_equiv (LRegex i p) (LRegex j q) \<longleftrightarrow> i = j"
| "lit_equiv l l' \<longleftrightarrow> l = l'"

fun lit_int :: "literal \<Rightarrow> int option" where
  "lit_int (LBigInt n) = Some n"
| "lit_int _ = None"

text \<open>\<^verbatim>\<open>AsInt\<close>: an integer beyond 64 bits wraps.  \<^verbatim>\<open>EntryAt\<close> of a vector.\<close>

definition as_int :: "int \<Rightarrow> int" where
  "as_int n = sint (of_int n :: 64 word)"

definition int_key :: "val \<Rightarrow> int option" where
  "int_key k = (case k of VInt n \<Rightarrow> Some n | VLit l \<Rightarrow> lit_int l | _ \<Rightarrow> None)"

definition vec_entry :: "val list \<Rightarrow> val \<Rightarrow> val option" where
  "vec_entry xs k =
     (case int_key k of
        Some n \<Rightarrow> if 0 \<le> as_int n \<and> nat (as_int n) < length xs then Some (xs ! nat (as_int n)) else None
      | None \<Rightarrow> None)"

text \<open>\<^verbatim>\<open>apersistentmapEquiv\<close> takes any \<^verbatim>\<open>Associative\<close> for its argument, a vector included.\<close>

function Equiv :: "val \<Rightarrow> val \<Rightarrow> bool" where
  "Equiv a b =
     (case a of
        VInt n \<Rightarrow> (case b of VInt m \<Rightarrow> n = m | VLit l \<Rightarrow> lit_int l = Some n | _ \<Rightarrow> False)
      | VLit l \<Rightarrow> (case b of VInt m \<Rightarrow> lit_int l = Some m | VLit l' \<Rightarrow> lit_equiv l l' | _ \<Rightarrow> False)
      | VData k xs \<Rightarrow> (case b of VData k' ys \<Rightarrow> k = k' \<and> list_all2 Equiv xs ys | _ \<Rightarrow> False)
      | VList _ xs \<Rightarrow> (case sequential b of Some ys \<Rightarrow> list_all2 Equiv xs ys | None \<Rightarrow> False)
      | VVec _ xs \<Rightarrow> (case sequential b of Some ys \<Rightarrow> list_all2 Equiv xs ys | None \<Rightarrow> False)
      | VMap _ es \<Rightarrow>
          (case b of
             VMap _ fs \<Rightarrow>
               length es = length fs \<and>
               (\<forall>e\<in>set es. first_match (\<lambda>f. Equiv (fst e) (fst f)) (\<lambda>f. Equiv (snd e) (snd f)) fs)
           | VVec _ ys \<Rightarrow>
               length es = length ys \<and>
               (\<forall>e\<in>set es. case vec_entry ys (fst e) of Some y \<Rightarrow> Equiv (snd e) y | None \<Rightarrow> False)
           | _ \<Rightarrow> False)
      | VSet _ xs \<Rightarrow>
          (case b of VSet _ ys \<Rightarrow> length xs = length ys \<and> (\<forall>x\<in>set xs. \<exists>y\<in>set ys. Equiv x y) | _ \<Rightarrow> False)
      | VSym _ ns n \<Rightarrow> (case b of VSym _ ns' n' \<Rightarrow> ns = ns' \<and> n = n' | _ \<Rightarrow> False)
      | VKw ns n \<Rightarrow> (case b of VKw ns' n' \<Rightarrow> kw_string ns n = kw_string ns' n' | _ \<Rightarrow> False)
      | _ \<Rightarrow> a = b)"
  by auto
termination
  by (relation "measure (\<lambda>(a, b). size a)") auto

declare Equiv.simps [simp del]

subsection \<open>HashEq\<close>

text \<open>The methods of \<^verbatim>\<open>result.go\<close>, on the hashes of the contents.\<close>

fun data_hash :: "data_kind \<Rightarrow> 32 word list \<Rightarrow> 32 word option" where
  "data_hash DOk [h] = Some (xor 0x0c0000ab h)"
| "data_hash DErr [h] = Some (xor 0x0e110000 h)"
| "data_hash DJust [h] = Some (xor 0x105700ab h)"
| "data_hash DNone [] = Some 0x0e0e0e0e"
| "data_hash _ _ = None"

function HashEq :: "(val \<Rightarrow> 32 word) \<Rightarrow> val \<Rightarrow> 32 word" where
  "HashEq ref a =
     (case a of
        VNil \<Rightarrow> 0
      | VBool b \<Rightarrow> if b then 1231 else 1237
      | VInt n \<Rightarrow> hashInteger n
      | VLit l \<Rightarrow>
          (case l of
             LBigInt n \<Rightarrow> hashInteger n
           | LChar c \<Rightarrow> word_of_nat c
           | LRatio n d \<Rightarrow> xor (javaBigIntegerHashCode n) (javaBigIntegerHashCode d)
           | _ \<Rightarrow> ref a)
      | VData k xs \<Rightarrow> (case data_hash k (map (HashEq ref) xs) of Some h \<Rightarrow> h | None \<Rightarrow> ref a)
      | VStr s \<Rightarrow> HashInt (hashString s)
      | VKw ns n \<Rightarrow> keyword_hashEq (kw_string ns n)
      | VSym _ ns n \<Rightarrow> symbolHashEq (case ns of Some q \<Rightarrow> q | None \<Rightarrow> []) n
      | VList _ xs \<Rightarrow> HashOrdered (map (HashEq ref) xs)
      | VVec _ xs \<Rightarrow> HashOrdered (map (HashEq ref) xs)
      | VMap _ es \<Rightarrow> HashUnordered (map (\<lambda>e. HashOrdered [HashEq ref (fst e), HashEq ref (snd e)]) es)
      | VSet _ xs \<Rightarrow> HashUnordered (map (HashEq ref) xs)
      | _ \<Rightarrow> ref a)"
  by auto
termination
  by (relation "measure (\<lambda>(ref, a). size a)") auto

declare HashEq.simps [simp del]

subsection \<open>Values as Clojure compares them\<close>

text \<open>The abstract value: a sequence whatever its type, sets and maps without order, no metadata.\<close>

datatype canon = CAtom val | CData data_kind "canon list" | CSeq "canon list" | CSet "canon fset" | CMap "(canon \<times> canon) fset"

function abs_val :: "val \<Rightarrow> canon" where
  "abs_val a =
     (case a of
        VList _ xs \<Rightarrow> CSeq (map abs_val xs)
      | VVec _ xs \<Rightarrow> CSeq (map abs_val xs)
      | VMap _ es \<Rightarrow> CMap (fset_of_list (map (\<lambda>e. (abs_val (fst e), abs_val (snd e))) es))
      | VSet _ xs \<Rightarrow> CSet (fset_of_list (map abs_val xs))
      | VSym _ ns n \<Rightarrow> CAtom (VSym None ns n)
      | VKw ns n \<Rightarrow> CAtom (VKw None (kw_string ns n))
      | VLit l \<Rightarrow> CAtom (case lit_int l of Some n \<Rightarrow> VInt n | None \<Rightarrow> a)
      | VData k xs \<Rightarrow> CData k (map abs_val xs)
      | _ \<Rightarrow> CAtom a)"
  by auto
termination
  by (relation "measure size") auto

declare abs_val.simps [simp del]

text \<open>Data: no errors or host objects, of the other literals characters, integers and ratios, of the
  wrappers results, sets without equal elements, maps without equal keys, and no map all of whose
  keys are integers.\<close>

fun data_literal :: "literal \<Rightarrow> bool" where
  "data_literal (LChar c) = True"
| "data_literal (LBigInt n) = True"
| "data_literal (LRatio p q) = True"
| "data_literal _ = False"

definition is_result :: "data_kind \<Rightarrow> nat \<Rightarrow> bool" where
  "is_result k n \<longleftrightarrow> k \<in> {DOk, DErr, DJust} \<and> n = 1 \<or> k = DNone \<and> n = 0"

function data_ok :: "val \<Rightarrow> bool" where
  "data_ok a =
     (case a of
        VList _ xs \<Rightarrow> (\<forall>x\<in>set xs. data_ok x)
      | VVec _ xs \<Rightarrow> (\<forall>x\<in>set xs. data_ok x)
      | VMap _ es \<Rightarrow>
          (\<forall>e\<in>set es. data_ok (fst e) \<and> data_ok (snd e)) \<and> distinct (map (abs_val \<circ> fst) es) \<and>
          (\<exists>e\<in>set es. int_key (fst e) = None)
      | VSet _ xs \<Rightarrow> (\<forall>x\<in>set xs. data_ok x) \<and> distinct (map abs_val xs)
      | VOpaque _ \<Rightarrow> False
      | VLit l \<Rightarrow> data_literal l
      | VData k xs \<Rightarrow> is_result k (length xs) \<and> (\<forall>x\<in>set xs. data_ok x)
      | _ \<Rightarrow> \<not> is_error a)"
  by auto
termination
  by (relation "measure size") auto

declare data_ok.simps [simp del]

text \<open>The equations, one per constructor.\<close>

lemmas Equiv_simps =
  Equiv.simps [of VNil b for b, unfolded val.case]
  Equiv.simps [of "VBool p" b for p b, unfolded val.case]
  Equiv.simps [of "VInt n" b for n b, unfolded val.case]
  Equiv.simps [of "VLit l" b for l b, unfolded val.case]
  Equiv.simps [of "VData k xs" b for k xs b, unfolded val.case]
  Equiv.simps [of "VStr s" b for s b, unfolded val.case]
  Equiv.simps [of "VKw ns s" b for ns s b, unfolded val.case]
  Equiv.simps [of "VSym m ns s" b for m ns s b, unfolded val.case]
  Equiv.simps [of "VList m xs" b for m xs b, unfolded val.case]
  Equiv.simps [of "VVec m xs" b for m xs b, unfolded val.case]
  Equiv.simps [of "VMap m es" b for m es b, unfolded val.case]
  Equiv.simps [of "VSet m xs" b for m xs b, unfolded val.case]
  Equiv.simps [of "VVar k" b for k b, unfolded val.case]
  Equiv.simps [of "VUnbound k" b for k b, unfolded val.case]
  Equiv.simps [of "VFn k" b for k b, unfolded val.case]
  Equiv.simps [of "VNative k" b for k b, unfolded val.case]
  Equiv.simps [of "VOpaque k" b for k b, unfolded val.case]
  Equiv.simps [of "VThrown v" b for v b, unfolded val.case]
  Equiv.simps [of "VArity n s k" b for n s k b, unfolded val.case]
  Equiv.simps [of "VError s t" b for s t b, unfolded val.case]
  Equiv.simps [of "VNs s" b for s b, unfolded val.case]
  Equiv.simps [of "VExInfo s v c" b for s v c b, unfolded val.case]
  Equiv.simps [of "VCompiler s n i v" b for s n i v b, unfolded val.case]
  Equiv.simps [of "VWrap s v" b for s v b, unfolded val.case]

lemmas HashEq_simps =
  HashEq.simps [of ref VNil for ref, unfolded val.case]
  HashEq.simps [of ref "VBool p" for p ref, unfolded val.case]
  HashEq.simps [of ref "VInt n" for n ref, unfolded val.case]
  HashEq.simps [of ref "VLit l" for l ref, unfolded val.case]
  HashEq.simps [of ref "VData k xs" for k xs ref, unfolded val.case]
  HashEq.simps [of ref "VStr s" for s ref, unfolded val.case]
  HashEq.simps [of ref "VKw ns s" for ns s ref, unfolded val.case]
  HashEq.simps [of ref "VSym m ns s" for m ns s ref, unfolded val.case]
  HashEq.simps [of ref "VList m xs" for m xs ref, unfolded val.case]
  HashEq.simps [of ref "VVec m xs" for m xs ref, unfolded val.case]
  HashEq.simps [of ref "VMap m es" for m es ref, unfolded val.case]
  HashEq.simps [of ref "VSet m xs" for m xs ref, unfolded val.case]
  HashEq.simps [of ref "VVar k" for k ref, unfolded val.case]
  HashEq.simps [of ref "VUnbound k" for k ref, unfolded val.case]
  HashEq.simps [of ref "VFn k" for k ref, unfolded val.case]
  HashEq.simps [of ref "VNative k" for k ref, unfolded val.case]
  HashEq.simps [of ref "VOpaque k" for k ref, unfolded val.case]
  HashEq.simps [of ref "VThrown v" for v ref, unfolded val.case]
  HashEq.simps [of ref "VArity n s k" for n s k ref, unfolded val.case]
  HashEq.simps [of ref "VError s t" for s t ref, unfolded val.case]
  HashEq.simps [of ref "VNs s" for s ref, unfolded val.case]
  HashEq.simps [of ref "VExInfo s v c" for s v c ref, unfolded val.case]
  HashEq.simps [of ref "VCompiler s n i v" for s n i v ref, unfolded val.case]
  HashEq.simps [of ref "VWrap s v" for s v ref, unfolded val.case]

lemmas abs_val_simps =
  abs_val.simps [of VNil, unfolded val.case]
  abs_val.simps [of "VBool p" for p, unfolded val.case]
  abs_val.simps [of "VInt n" for n, unfolded val.case]
  abs_val.simps [of "VLit l" for l, unfolded val.case]
  abs_val.simps [of "VData k xs" for k xs, unfolded val.case]
  abs_val.simps [of "VStr s" for s, unfolded val.case]
  abs_val.simps [of "VKw ns s" for ns s, unfolded val.case]
  abs_val.simps [of "VSym m ns s" for m ns s, unfolded val.case]
  abs_val.simps [of "VList m xs" for m xs, unfolded val.case]
  abs_val.simps [of "VVec m xs" for m xs, unfolded val.case]
  abs_val.simps [of "VMap m es" for m es, unfolded val.case]
  abs_val.simps [of "VSet m xs" for m xs, unfolded val.case]
  abs_val.simps [of "VVar k" for k, unfolded val.case]
  abs_val.simps [of "VUnbound k" for k, unfolded val.case]
  abs_val.simps [of "VFn k" for k, unfolded val.case]
  abs_val.simps [of "VNative k" for k, unfolded val.case]
  abs_val.simps [of "VOpaque k" for k, unfolded val.case]
  abs_val.simps [of "VThrown v" for v, unfolded val.case]
  abs_val.simps [of "VArity n s k" for n s k, unfolded val.case]
  abs_val.simps [of "VError s t" for s t, unfolded val.case]
  abs_val.simps [of "VNs s" for s, unfolded val.case]
  abs_val.simps [of "VExInfo s v c" for s v c, unfolded val.case]
  abs_val.simps [of "VCompiler s n i v" for s n i v, unfolded val.case]
  abs_val.simps [of "VWrap s v" for s v, unfolded val.case]

lemmas data_ok_simps =
  data_ok.simps [of VNil, unfolded val.case]
  data_ok.simps [of "VBool p" for p, unfolded val.case]
  data_ok.simps [of "VInt n" for n, unfolded val.case]
  data_ok.simps [of "VLit l" for l, unfolded val.case]
  data_ok.simps [of "VData k xs" for k xs, unfolded val.case]
  data_ok.simps [of "VStr s" for s, unfolded val.case]
  data_ok.simps [of "VKw ns s" for ns s, unfolded val.case]
  data_ok.simps [of "VSym m ns s" for m ns s, unfolded val.case]
  data_ok.simps [of "VList m xs" for m xs, unfolded val.case]
  data_ok.simps [of "VVec m xs" for m xs, unfolded val.case]
  data_ok.simps [of "VMap m es" for m es, unfolded val.case]
  data_ok.simps [of "VSet m xs" for m xs, unfolded val.case]
  data_ok.simps [of "VVar k" for k, unfolded val.case]
  data_ok.simps [of "VUnbound k" for k, unfolded val.case]
  data_ok.simps [of "VFn k" for k, unfolded val.case]
  data_ok.simps [of "VNative k" for k, unfolded val.case]
  data_ok.simps [of "VOpaque k" for k, unfolded val.case]
  data_ok.simps [of "VThrown v" for v, unfolded val.case]
  data_ok.simps [of "VArity n s k" for n s k, unfolded val.case]
  data_ok.simps [of "VError s t" for s t, unfolded val.case]
  data_ok.simps [of "VNs s" for s, unfolded val.case]
  data_ok.simps [of "VExInfo s v c" for s v c, unfolded val.case]
  data_ok.simps [of "VCompiler s n i v" for s n i v, unfolded val.case]
  data_ok.simps [of "VWrap s v" for s v, unfolded val.case]

lemmas on_values = Equiv_simps HashEq_simps abs_val_simps data_ok_simps

subsection \<open>Equality is equality of abstract values\<close>

lemma first_match_iff:
  assumes "distinct (map k fs)" and "\<And>f. f \<in> set fs \<Longrightarrow> p f \<longleftrightarrow> k f = c"
  shows "first_match p q fs \<longleftrightarrow> (\<exists>f\<in>set fs. k f = c \<and> q f)"
  using assms by (induction fs) (auto simp: image_iff)

lemma distinct_same_length_subset:
  assumes "distinct xs" and "distinct ys" and "length xs = length ys"
  shows "set xs \<subseteq> set ys \<longleftrightarrow> set xs = set ys"
  using assms card_subset_eq [of "set ys" "set xs"] by (auto simp: distinct_card)

lemma fset_of_list_eq: "fset_of_list xs = fset_of_list ys \<longleftrightarrow> set xs = set ys"
  by (metis fset_inject fset_of_list.rep_eq)

lemma same_set_same_length: "distinct xs \<Longrightarrow> distinct ys \<Longrightarrow> set xs = set ys \<Longrightarrow> length xs = length ys"
  by (metis distinct_card)

lemma seq_eq_iff:
  assumes "\<And>x y. x \<in> set xs \<Longrightarrow> y \<in> set ys \<Longrightarrow> Equiv x y \<longleftrightarrow> abs_val x = abs_val y"
  shows "list_all2 Equiv xs ys \<longleftrightarrow> map abs_val xs = map abs_val ys"
  using assms by (auto simp: list_all2_conv_all_nth list_eq_iff_nth_eq)

lemma set_eq_iff':
  assumes "\<And>x y. x \<in> set xs \<Longrightarrow> y \<in> set ys \<Longrightarrow> Equiv x y \<longleftrightarrow> abs_val x = abs_val y"
    and "distinct (map abs_val xs)" and "distinct (map abs_val ys)"
  shows "length xs = length ys \<and> (\<forall>x\<in>set xs. \<exists>y\<in>set ys. Equiv x y) \<longleftrightarrow>
    fset_of_list (map abs_val xs) = fset_of_list (map abs_val ys)"
proof -
  have "(\<forall>x\<in>set xs. \<exists>y\<in>set ys. Equiv x y) \<longleftrightarrow> set (map abs_val xs) \<subseteq> set (map abs_val ys)"
    using assms(1) by (auto simp: image_subset_iff image_iff)
  then show ?thesis
    unfolding fset_of_list_eq
    using distinct_same_length_subset [OF assms(2,3)] same_set_same_length [OF assms(2,3)]
    by (metis length_map)
qed

definition abs_entry :: "val \<times> val \<Rightarrow> canon \<times> canon" where
  "abs_entry e = (abs_val (fst e), abs_val (snd e))"

lemma map_eq_iff:
  assumes eq: "\<And>e f. e \<in> set es \<Longrightarrow> f \<in> set fs \<Longrightarrow> Equiv (fst e) (fst f) \<longleftrightarrow> abs_val (fst e) = abs_val (fst f)"
    "\<And>e f. e \<in> set es \<Longrightarrow> f \<in> set fs \<Longrightarrow> Equiv (snd e) (snd f) \<longleftrightarrow> abs_val (snd e) = abs_val (snd f)"
    and d: "distinct (map (abs_val \<circ> fst) es)" "distinct (map (abs_val \<circ> fst) fs)"
  shows "length es = length fs \<and>
      (\<forall>e\<in>set es. first_match (\<lambda>f. Equiv (fst e) (fst f)) (\<lambda>f. Equiv (snd e) (snd f)) fs) \<longleftrightarrow>
    fset_of_list (map abs_entry es) = fset_of_list (map abs_entry fs)"
proof -
  have "first_match (\<lambda>f. Equiv (fst e) (fst f)) (\<lambda>f. Equiv (snd e) (snd f)) fs \<longleftrightarrow> abs_entry e \<in> abs_entry ` set fs"
    if "e \<in> set es" for e
  proof -
    have "first_match (\<lambda>f. Equiv (fst e) (fst f)) (\<lambda>f. Equiv (snd e) (snd f)) fs \<longleftrightarrow>
        (\<exists>f\<in>set fs. abs_val (fst f) = abs_val (fst e) \<and> Equiv (snd e) (snd f))"
      by (subst first_match_iff [OF d(2), where c = "abs_val (fst e)"]) (auto simp: eq(1) [OF that])
    also have "\<dots> \<longleftrightarrow> (\<exists>f\<in>set fs. abs_entry e = abs_entry f)"
      using eq(2) [OF that] by (intro bex_cong) (auto simp: abs_entry_def)
    finally show ?thesis by blast
  qed
  then have sub: "(\<forall>e\<in>set es. first_match (\<lambda>f. Equiv (fst e) (fst f)) (\<lambda>f. Equiv (snd e) (snd f)) fs) \<longleftrightarrow>
      set (map abs_entry es) \<subseteq> set (map abs_entry fs)" by auto
  have "distinct (map abs_entry gs)" if "distinct (map (abs_val \<circ> fst) gs)" for gs
    using that by (auto simp: distinct_map inj_on_def abs_entry_def)
  note dist = this [OF d(1)] this [OF d(2)]
  with sub show ?thesis
    unfolding fset_of_list_eq
    using distinct_same_length_subset [OF dist] same_set_same_length [OF dist] by (metis length_map)
qed

lemma vec_entry_int: "int_key k = None \<Longrightarrow> vec_entry ys k = None"
  by (simp add: vec_entry_def)

lemma abs_val_atom:
  assumes "\<And>m ns n. c \<noteq> VSym m ns n" and "\<And>ns n. c \<noteq> VKw ns n" and "\<And>n. c \<noteq> VInt n"
    and "abs_val c = CAtom c"
  shows "CAtom c = abs_val b \<longleftrightarrow> c = b"
proof (cases b)
  case (VSym m ns n)
  with assms(1) [of None ns n] assms(1) [of m ns n] show ?thesis by (auto simp: abs_val_simps)
next
  case (VKw ns n)
  with assms(2) [of None "kw_string ns n"] assms(2) [of ns n] show ?thesis by (auto simp: abs_val_simps)
qed (use assms in \<open>auto simp: abs_val_simps split: option.splits\<close>)

lemma lit_int_Some: "lit_int l = Some n \<Longrightarrow> l = LBigInt n"
  by (cases l) simp_all

lemma Equiv_abs: "data_ok a \<Longrightarrow> data_ok b \<Longrightarrow> Equiv a b \<longleftrightarrow> abs_val a = abs_val b"
proof (induction a arbitrary: b rule: measure_induct_rule [of size])
  case (less a)
  show ?case
  proof (cases a)
    case (VLit l)
    with less.prems show ?thesis by (cases b; cases l) (auto simp: on_values elim!: lit_equiv.elims dest!: lit_int_Some split: option.splits)
  next
    case (VData k xs)
    then show ?thesis
      using less seq_eq_iff [of xs] by (cases b) (auto simp: on_values)
  next
    case (VInt n)
    with less.prems(2) show ?thesis by (cases b) (auto simp: on_values split: option.splits)
  next
    case (VSym m ns n)
    then show ?thesis by (cases b) (auto simp: on_values split: option.splits)
  next
    case (VKw ns n)
    then show ?thesis by (cases b) (auto simp: on_values split: option.splits)
  next
    case (VList m xs)
    then show ?thesis
      using less seq_eq_iff [of xs] by (cases b) (auto simp: on_values)
  next
    case (VVec m xs)
    then show ?thesis
      using less seq_eq_iff [of xs] by (cases b) (auto simp: on_values)
  next
    case (VSet m xs)
    show ?thesis
    proof (cases b)
      case (VSet m' ys)
      with \<open>a = _\<close> less.prems have d: "\<forall>x\<in>set xs. data_ok x" "\<forall>y\<in>set ys. data_ok y" "distinct (map abs_val xs)" "distinct (map abs_val ys)"
        by (auto simp: data_ok_simps)
      have "Equiv x y \<longleftrightarrow> abs_val x = abs_val y" if "x \<in> set xs" "y \<in> set ys" for x y
        using less.IH d that \<open>a = _\<close> by auto
      from set_eq_iff' [OF this d(3,4)] VSet \<open>a = _\<close> show ?thesis
        by (simp add: on_values)
    qed (use \<open>a = _\<close> in \<open>auto simp: on_values\<close>)
  next
    case (VMap m es)
    show ?thesis
    proof (cases b)
      case (VMap m' fs)
      with \<open>a = _\<close> less.prems have d: "\<forall>e\<in>set es. data_ok (fst e) \<and> data_ok (snd e)" "\<forall>e\<in>set fs. data_ok (fst e) \<and> data_ok (snd e)"
        "distinct (map (abs_val \<circ> fst) es)" "distinct (map (abs_val \<circ> fst) fs)"
        by (auto simp: data_ok_simps)
      have "Equiv (fst e) (fst f) \<longleftrightarrow> abs_val (fst e) = abs_val (fst f)"
        "Equiv (snd e) (snd f) \<longleftrightarrow> abs_val (snd e) = abs_val (snd f)" if "e \<in> set es" "f \<in> set fs" for e f
        using less.IH [of "fst e" "fst f"] less.IH [of "snd e" "snd f"] d that \<open>a = _\<close> by simp_all
      from map_eq_iff [OF this d(3,4)] VMap \<open>a = _\<close> show ?thesis
        by (simp add: on_values abs_entry_def [abs_def])
    next
      case (VVec m' ys)
      from \<open>a = _\<close> less.prems obtain e where e: "e \<in> set es" "int_key (fst e) = None"
        by (auto simp: data_ok_simps)
      then have "vec_entry ys (fst e) = None" by (intro vec_entry_int)
      with e(1) VVec \<open>a = _\<close> show ?thesis
        by (force simp: on_values)
    qed (use \<open>a = _\<close> in \<open>auto simp: on_values\<close>)
  qed (simp_all add: Equiv_simps abs_val_simps abs_val_atom)
qed

subsection \<open>Equal values hash alike\<close>

lemma sum_list_same_set:
  assumes "distinct (map k xs)" and "distinct (map k ys)" and "k ` set xs = k ` set ys"
    and "\<And>x y. x \<in> set xs \<Longrightarrow> y \<in> set ys \<Longrightarrow> k x = k y \<Longrightarrow> h x = h y"
  shows "sum_list (map h xs) = (sum_list (map h ys) :: 'b :: comm_monoid_add)"
  using assms
proof (induction xs arbitrary: ys)
  case (Cons x xs)
  then obtain y where y: "y \<in> set ys" "k x = k y" by (metis imageE image_eqI list.set_intros(1))
  then obtain us vs where ys: "ys = us @ y # vs" by (meson split_list)
  have "k ` set xs = k ` set (us @ vs)"
    using Cons.prems(1-3) y ys by (auto simp: insert_eq_iff image_Un)
  then have "sum_list (map h xs) = sum_list (map h (us @ vs))"
    using Cons.prems ys by (intro Cons.IH) auto
  moreover have "h x = h y" using Cons.prems(4) y by simp
  ultimately show ?case by (simp add: ys ac_simps)
qed auto

lemma HashEq_atom: "abs_val a = CAtom c \<Longrightarrow> HashEq ref a = HashEq ref c"
  by (cases a) (auto simp: HashEq_simps abs_val_simps kw_string_def split: option.splits elim!: lit_int.elims)

lemma abs_val_seq:
  "abs_val b = CSeq cs \<Longrightarrow> \<exists>ys. map abs_val ys = cs \<and> HashEq ref b = HashOrdered (map (HashEq ref) ys) \<and>
     (data_ok b \<longleftrightarrow> (\<forall>y\<in>set ys. data_ok y))"
  by (cases b) (auto simp: on_values)

lemma HashEq_abs: "data_ok a \<Longrightarrow> data_ok b \<Longrightarrow> abs_val a = abs_val b \<Longrightarrow> HashEq ref a = HashEq ref b"
proof (induction a arbitrary: b rule: measure_induct_rule [of size])
  case (less a)
  have seq: "map (HashEq ref) xs = map (HashEq ref) ys"
    if "\<forall>x\<in>set xs. size x < size a \<and> data_ok x" "\<forall>y\<in>set ys. data_ok y" "map abs_val xs = map abs_val ys" for xs ys
  proof (rule nth_equalityI)
    have len: "length xs = length ys" using map_eq_imp_length_eq [OF that(3)] .
    then show "length (map (HashEq ref) xs) = length (map (HashEq ref) ys)" by simp
    fix i
    assume i: "i < length (map (HashEq ref) xs)"
    then have "abs_val (xs ! i) = abs_val (ys ! i)" using that(3) len by (metis length_map nth_map)
    then show "map (HashEq ref) xs ! i = map (HashEq ref) ys ! i"
      using less.IH [of "xs ! i" "ys ! i"] that(1,2) i len by simp
  qed
  show ?case
  proof (cases "\<exists>c. abs_val a = CAtom c")
    case True
    with less.prems(3) show ?thesis using HashEq_atom by metis
  next
    case compound: False
    show ?thesis
    proof (cases a)
      case (VList m xs)
      with less.prems(2,3) abs_val_seq [of b "map abs_val xs" ref] obtain ys
        where ys: "map abs_val ys = map abs_val xs" "HashEq ref b = HashOrdered (map (HashEq ref) ys)" "\<forall>y\<in>set ys. data_ok y"
        by (metis abs_val_simps(9,10))
      have "map (HashEq ref) xs = map (HashEq ref) ys"
        using less.prems(1) VList by (intro seq ys ys(1) [symmetric]) (auto simp: data_ok_simps)
      with ys(2) VList show ?thesis by (simp add: HashEq_simps)
    next
      case (VVec m xs)
      with less.prems(2,3) abs_val_seq [of b "map abs_val xs" ref] obtain ys
        where ys: "map abs_val ys = map abs_val xs" "HashEq ref b = HashOrdered (map (HashEq ref) ys)" "\<forall>y\<in>set ys. data_ok y"
        by (metis abs_val_simps(9,10))
      have "map (HashEq ref) xs = map (HashEq ref) ys"
        using less.prems(1) VVec by (intro seq ys ys(1) [symmetric]) (auto simp: data_ok_simps)
      with ys(2) VVec show ?thesis by (simp add: HashEq_simps)
    next
      case (VSet m xs)
      with less.prems obtain m' ys where b: "b = VSet m' ys" "abs_val ` set xs = abs_val ` set ys"
        by (cases b) (auto simp: abs_val_simps fset_of_list_eq simp del: fset_of_list_map)
      with VSet less.prems have d: "\<forall>x\<in>set xs. data_ok x" "\<forall>y\<in>set ys. data_ok y" "distinct (map abs_val xs)" "distinct (map abs_val ys)"
        by (auto simp: data_ok_simps)
      have "sum_list (map (HashEq ref) xs) = sum_list (map (HashEq ref) ys)"
        using d b(2) less.IH VSet by (intro sum_list_same_set [of abs_val]) auto
      moreover have "length xs = length ys" using same_set_same_length [OF d(3,4)] b(2) by simp
      ultimately show ?thesis by (simp add: VSet b(1) HashEq_simps HashUnordered_sum)
    next
      case (VMap m es)
      with less.prems obtain m' fs where b: "b = VMap m' fs" "abs_entry ` set es = abs_entry ` set fs"
        by (cases b) (auto simp: abs_val_simps fset_of_list_eq abs_entry_def [abs_def] simp del: fset_of_list_map)
      with VMap less.prems have d: "\<forall>e\<in>set es. data_ok (fst e) \<and> data_ok (snd e)" "\<forall>e\<in>set fs. data_ok (fst e) \<and> data_ok (snd e)"
          "distinct (map (abs_val \<circ> fst) es)" "distinct (map (abs_val \<circ> fst) fs)"
        by (auto simp: data_ok_simps)
      have dist: "distinct (map abs_entry gs)" if "distinct (map (abs_val \<circ> fst) gs)" for gs
        using that by (auto simp: distinct_map inj_on_def abs_entry_def)
      define h where "h e = HashOrdered [HashEq ref (fst e), HashEq ref (snd e)]" for e
      have "h e = h f" if "e \<in> set es" "f \<in> set fs" "abs_entry e = abs_entry f" for e f
        using that d less.IH [of "fst e" "fst f"] less.IH [of "snd e" "snd f"] VMap
        by (simp add: h_def abs_entry_def)
      then have "sum_list (map h es) = sum_list (map h fs)"
        using dist d b(2) by (intro sum_list_same_set [of abs_entry]) auto
      moreover have "length es = length fs" using same_set_same_length [OF dist [OF d(3)] dist [OF d(4)]] b(2) by simp
      ultimately show ?thesis by (simp add: VMap b(1) HashEq_simps HashUnordered_sum h_def [abs_def])
    next
      case (VData k xs)
      with less.prems(3) obtain ys where b: "b = VData k ys" "map abs_val xs = map abs_val ys"
        by (cases b) (auto simp: abs_val_simps)
      with VData less.prems seq [of xs ys] have "map (HashEq ref) xs = map (HashEq ref) ys" "is_result k (length ys)"
        by (auto simp: data_ok_simps)
      with VData b show ?thesis by (auto simp: HashEq_simps is_result_def length_Suc_conv)
    qed (use compound in \<open>simp_all add: abs_val_simps\<close>)
  qed
qed

text \<open>What the hash tables need of their keys.\<close>

interpretation data_keys: hash_keys Equiv "HashEq ref" data_ok
  by unfold_locales (auto simp: Equiv_abs intro: HashEq_abs)

subsection \<open>Properties\<close>

text \<open>Some data to evaluate on: \<open>{:a (1 2), "b" #{x}}\<close> in two representations.\<close>

definition demo_map :: val where
  "demo_map =
     VMap None [(VKw None ''a'', VList None [VInt 1, VInt 2]), (VStr ''b'', VSet None [sym ''x''])]"

definition demo_map' :: val where
  "demo_map' =
     VMap (Some []) [(VStr ''b'', VSet None [VSym (Some []) None ''x'']), (VKw None ''a'', VVec None [VInt 1, VInt 2])]"

lemma demo_ok: "data_ok demo_map" "data_ok demo_map'"
  by (simp_all add: demo_map_def demo_map'_def on_values sym_def kw_string_def int_key_def)





text \<open>Equality is not symmetric between maps and vectors: a map from the indices of a vector to its
  elements is equal to the vector (the empty map to the empty vector), but not the other way
  round.\<close>

theorem map_equals_vector:
  assumes "\<forall>x\<in>set xs. data_ok x" and "length xs < 2 ^ 63"
  shows "Equiv (VMap m (zip (map (\<lambda>i. VInt (int i)) [0..<length xs]) xs)) (VVec m' xs) \<and>
    \<not> Equiv (VVec m' xs) (VMap m (zip (map (\<lambda>i. VInt (int i)) [0..<length xs]) xs))"
proof -
  have "vec_entry xs (VInt (int i)) = Some (xs ! i)" if "i < length xs" for i
  proof -
    have "int i < 2 ^ 63" using that assms(2) by simp
    then have "as_int (int i) = int i"
      unfolding as_int_def sint_sbintrunc' by (intro signed_take_bit_int_eq_self) simp_all
    with that show ?thesis by (simp add: vec_entry_def int_key_def)
  qed
  moreover have "Equiv (xs ! i) (xs ! i)" if "i < length xs" for i
    using Equiv_abs assms(1) that by simp
  ultimately show ?thesis
    by (auto simp: Equiv_simps in_set_zip)
qed

lemma map_equals_vector_witness:
  "Equiv (VMap None [(VInt 0, VStr ''a'')]) (VVec None [VStr ''a'']) \<and>
   \<not> Equiv (VVec None [VStr ''a'']) (VMap None [(VInt 0, VStr ''a'')])"
  using map_equals_vector [of "[VStr ''a'']" None None] by (simp_all add: data_ok_simps)

end
