(* ===== verification/HashMapSpec.thy ===== *)
theory HashMapSpec
  imports HashMapInv Equality
begin

text \<open>
  Lookup, removal and sequences of the hash trie, the map on top of it, and the refinement of a
  plain association list by every history of its operations.
\<close>

subsection \<open>Removal from arrays\<close>

lemma removePair_middle [simp]: "removePair (xs @ e # ys) (length xs) = xs @ ys"
  by (simp add: removePair_def)

definition picked :: "('k, 'v) hnode option list \<Rightarrow> nat list \<Rightarrow> nat list" where
  "picked arr is = filter (\<lambda>i. arr ! i \<noteq> None) is"

lemma pack_loop_fills:
  "length rest = length (picked arr is) \<Longrightarrow>
   pack_loop arr is (length dn) bm (dn @ rest) =
     Some (fold (\<lambda>i b. b OR 2 ^ i) (picked arr is) bm, dn @ map (\<lambda>i. Child (the (arr ! i))) (picked arr is))"
proof (induction "is" arbitrary: dn bm rest)
  case (Cons i "is")
  show ?case
  proof (cases "arr ! i")
    case None
    with Cons show ?thesis by (simp add: picked_def)
  next
    case (Some c)
    with Cons.prems obtain r rest' where r: "rest = r # rest'" "length rest' = length (picked arr is)"
      by (cases rest) (auto simp: picked_def)
    have set1: "slice_set (dn @ r # rest') (length dn) (Child c) = Some ((dn @ [Child c]) @ rest')"
      by (simp add: slice_set_def)
    from Cons.IH [OF r(2), of "dn @ [Child c]" "bm OR 2 ^ i"] Some r(1) set1
    show ?thesis by (simp add: picked_def)
  qed
qed (simp add: picked_def)

lemma bit_fold_or: "bit (fold (\<lambda>i b. b OR 2 ^ i) is bm) j \<longleftrightarrow> bit bm j \<or> j \<in> set is" for bm :: nat
  by (induction "is" arbitrary: bm) (auto simp: bit_simps)

lemma concat_picked:
  "concat (map oelems (map ((!) arr) is)) = concat (map eelems (map (\<lambda>i. Child (the (arr ! i))) (picked arr is)))"
  by (induction "is") (auto simp: picked_def)

lemma nth_map_upt: "b \<le> length xs \<Longrightarrow> map ((!) xs) [a..<b] = drop a (take b xs)"
  by (rule nth_equalityI) auto

lemma kcount_picked: "length (filter (\<lambda>c. c \<noteq> None) arr) = length (picked arr [0..<length arr])"
proof -
  have "filter (\<lambda>c. c \<noteq> None) (map ((!) arr) [0..<length arr]) = map ((!) arr) (picked arr [0..<length arr])"
    by (simp add: filter_map picked_def o_def)
  then show ?thesis by (metis length_map map_nth)
qed

lemma list_all2_map_self: "(\<And>x. x \<in> set xs \<Longrightarrow> P x (f x)) \<Longrightarrow> list_all2 P xs (map f xs)"
  by (induction xs) auto

text \<open>The entries of a map.\<close>

definition contents :: "('k, 'v, 'm) phm \<Rightarrow> ('k \<times> 'v) list" where
  "contents m = (case proot m of None \<Rightarrow> [] | Some n \<Rightarrow> elems n)"

text \<open>Fuel for the deepest insertion: two calls for each of eight levels.\<close>

definition hash_fuel :: nat where
  "hash_fuel = 81"

context hash_map
begin

lemma kids_child:
  "kids s cs \<Longrightarrow> i < 32 \<Longrightarrow> cs ! i = Some c \<Longrightarrow> node_ok (s + 5) c \<and> (\<forall>e\<in>set (elems c). mask (khash K (fst e)) s = i)"
  unfolding kids_def by (metis entry_ok.simps(2) kid_ok_simps(2))

lemma pack_ok:
  assumes "kids s arr" and "5 dvd s" and "s \<le> 25" and "i < 32" and "arr ! i = Some c" and "cnt = kcount arr"
  obtains n where "pack K cnt arr i = Some n" and "node_ok s n"
    and "mset (elems n) = mset (concat (map oelems (take i arr))) + mset (concat (map oelems (drop (Suc i) arr)))"
proof -
  have len: "length arr = 32" using assms(1) by (simp add: kids_def)
  let ?is = "[0..<i] @ [Suc i..<32]"
  let ?L = "picked arr ?is" and ?bm = "fold (\<lambda>i b. b OR 2 ^ i) (picked arr ([0..<i] @ [Suc i..<32])) (0 :: nat)"
  have "cnt = length (picked arr [0..<32])" using assms(6) kcount_picked [of arr] len by simp
  then have cnt: "cnt - 1 = length ?L"
    using assms(4,5) by (simp add: picked_def upt_split [OF assms(4)])
  from pack_loop_fills [of "replicate (cnt - 1) (Leaf (knil K) (vnil K))" arr ?is "[]" 0] cnt
  have pack: "pack K cnt arr i = Some (BitmapIndexedNode False ?bm (map (\<lambda>i. Child (the (arr ! i))) ?L))"
    by (simp add: pack_def len)
  have "bits ?bm = filter (\<lambda>j. j \<in> set ?L) [0..<32]"
    unfolding bits_def by (rule filter_cong) (auto simp: bit_fold_or)
  also have "\<dots> = ?L" 
    by (simp add: upt_split [OF assms(4)] picked_def)
      (intro arg_cong2 [where f = "(@)"] filter_cong refl; use assms(4) in auto)
  finally have bits: "bits ?bm = ?L" .
  have "j < 32" if "bit ?bm j" for j using that assms(4) by (auto simp: bit_fold_or picked_def)
  then have "?bm < 2 ^ 32" by (rule bounded_bits)
  moreover have "slot_ok s x (Child (the (arr ! x)))" if x: "x \<in> set ?L" for x
  proof -
    from x assms(4) obtain y where "x < 32" "arr ! x = Some y" by (auto simp: picked_def)
    with kids_child [OF assms(1) this] show ?thesis by simp
  qed
  then have "list_all2 (slot_ok s) ?L (map (\<lambda>i. Child (the (arr ! i))) ?L)"
    by (rule list_all2_map_self)
  ultimately have "node_ok s (BitmapIndexedNode False ?bm (map (\<lambda>i. Child (the (arr ! i))) ?L))"
    using assms(2,3) by (simp add: entries_ok_iff bits width_def)
  moreover have "mset (elems (BitmapIndexedNode False ?bm (map (\<lambda>i. Child (the (arr ! i))) ?L))) =
      mset (concat (map oelems (take i arr))) + mset (concat (map oelems (drop (Suc i) arr)))"
  proof -
    have "concat (map eelems (map (\<lambda>i. Child (the (arr ! i))) ?L)) =
        concat (map oelems (map ((!) arr) [0..<i])) @ concat (map oelems (map ((!) arr) [Suc i..<32]))"
      unfolding concat_picked [symmetric] by simp
    also have "map ((!) arr) [0..<i] = take i arr" using assms(4) len nth_map_upt [of i arr 0] by simp
    also have "map ((!) arr) [Suc i..<32] = drop (Suc i) arr" using assms(4) len nth_map_upt [of 32 arr "Suc i"] by simp
    finally show ?thesis by simp
  qed
  ultimately show thesis using that pack by blast
qed

subsection \<open>find and without\<close>

definition find_ok :: "'k \<Rightarrow> ('k \<times> 'v) list \<Rightarrow> ('k \<times> 'v) option \<Rightarrow> bool" where
  "find_ok key es r \<longleftrightarrow>
     (case r of None \<Rightarrow> \<forall>e\<in>set es. \<not> kequiv K key (fst e) | Some e \<Rightarrow> e \<in> set es \<and> kequiv K key (fst e))"

theorem node_find_ok:
  "node_ok s n \<Longrightarrow> good key \<Longrightarrow> \<exists>r. node_find K n s (khash K key) key = Some r \<and> find_ok key (elems n) r"
proof (induction n arbitrary: s rule: measure_induct_rule [of size])
  case (less n)
  let ?i = "mask (khash K key) s"
  show ?case
  proof (cases n)
    case (BitmapIndexedNode ed bm arr)
    show ?thesis
    proof (cases "bit bm ?i")
      case False
      from bitmap_miss [OF less.prems(1) [unfolded BitmapIndexedNode] False mask_less] obtain xs ys where
        "arr = xs @ ys" "list_all2 (slot_ok s) (below bm ?i) xs" "list_all2 (slot_ok s) (above bm ?i) ys" .
      with around_slot [OF less.prems(2) this(2,3)] False bit_test [of bm ?i]
      show ?thesis by (auto simp: BitmapIndexedNode find_ok_def)
    next
      case True
      from bitmap_hit [OF less.prems(1) [unfolded BitmapIndexedNode] True] obtain xs e ys where parts:
        "arr = xs @ e # ys" "length xs = index bm (2 ^ ?i)" "slot_ok s ?i e"
        "list_all2 (slot_ok s) (below bm ?i) xs" "list_all2 (slot_ok s) (above bm ?i) ys" .
      note R = around_slot [OF less.prems(2) parts(4,5)]
      have get: "slice_get arr (index bm (2 ^ ?i)) = Some e" "0 < bm AND 2 ^ ?i"
        using parts(1,2) True bit_test [of bm ?i] by simp_all
      show ?thesis
      proof (cases e)
        case (Leaf k v)
        with get R parts(1) show ?thesis by (auto simp: BitmapIndexedNode find_ok_def)
      next
        case (Child c)
        have "size c < size n" using get(1) hentry_size [of arr _ c] Child BitmapIndexedNode by simp
        then obtain r where "node_find K c (s + 5) (khash K key) key = Some r" "find_ok key (elems c) r"
          using less.IH [of c "s + 5"] parts(3) less.prems(2) Child by auto
        with get R parts(1) Child show ?thesis
          by (cases r) (auto simp: BitmapIndexedNode find_ok_def)
      qed
    qed
  next
    case (ArrayNode ed cnt arr)
    then have k: "kids s arr" "?i < length arr" using less.prems(1) by (auto simp: array_kids kids_def)
    then have R: "\<forall>e\<in>#mset (concat (map oelems (take ?i arr))) + mset (concat (map oelems (drop (Suc ?i) arr))).
        \<not> kequiv K key (fst e)"
      using other_kids [OF less.prems(2) _ refl k(2)] by (simp add: kids_def)
    have all: "mset (elems n) = mset (oelems (arr ! ?i)) +
        (mset (concat (map oelems (take ?i arr))) + mset (concat (map oelems (drop (Suc ?i) arr))))"
      using kids_around [OF k(2)] by (simp add: ArrayNode)
    then have set: "set (elems n) = set (oelems (arr ! ?i)) \<union>
        (set (concat (map oelems (take ?i arr))) \<union> set (concat (map oelems (drop (Suc ?i) arr))))"
      by (metis set_mset_mset set_mset_union)
    show ?thesis
    proof (cases "arr ! ?i")
      case None
      with R set k(2) show ?thesis by (auto simp: ArrayNode slice_get_ok find_ok_def simp del: elems_array)
    next
      case (Some c)
      have c: "node_ok (s + 5) c" using kids_child [OF k(1) mask_less Some] by blast
      have "size c < size n" using hchild_size [of arr ?i c] k(2) Some ArrayNode by (simp add: slice_get_ok)
      then obtain r where "node_find K c (s + 5) (khash K key) key = Some r" "find_ok key (elems c) r"
        using less.IH [of c "s + 5"] c less.prems(2) by auto
      with Some R set k(2) show ?thesis
        by (cases r) (auto simp: ArrayNode slice_get_ok find_ok_def simp del: elems_array)
    qed
  next
    case (HashCollisionNode ed h cnt ps)
    with less.prems(1) findIndex_spec(1) [of key ps] findIndex_spec(2) [of key ps] show ?thesis
      by (auto simp: find_ok_def split: option.split)
  qed
qed

definition without_ok :: "nat \<Rightarrow> 'k \<Rightarrow> ('k, 'v) hnode \<Rightarrow> ('k, 'v) hnode del \<Rightarrow> bool" where
  "without_ok s key n r \<longleftrightarrow>
     (case r of
        Kept \<Rightarrow> \<forall>e\<in>set (elems n). \<not> kequiv K key (fst e)
      | Shrunk n' \<Rightarrow> node_ok s n' \<and> removed K key (mset (elems n)) (mset (elems n'))
      | Gone \<Rightarrow> removed K key (mset (elems n)) {#})"

theorem node_without_ok:
  "node_ok s n \<Longrightarrow> good key \<Longrightarrow> \<exists>r. node_without K n s (khash K key) key = Some r \<and> without_ok s key n r"
proof (induction n arbitrary: s rule: measure_induct_rule [of size])
  case (less n)
  let ?i = "mask (khash K key) s"
  show ?case
  proof (cases n)
    case (BitmapIndexedNode ed bm arr)
    note n = less.prems(1) [unfolded BitmapIndexedNode]
    show ?thesis
    proof (cases "bit bm ?i")
      case False
      from bitmap_miss [OF n False mask_less] obtain xs ys where
        "arr = xs @ ys" "list_all2 (slot_ok s) (below bm ?i) xs" "list_all2 (slot_ok s) (above bm ?i) ys" .
      with around_slot [OF less.prems(2) this(2,3)] False bit_test [of bm ?i]
      show ?thesis by (auto simp: BitmapIndexedNode without_ok_def)
    next
      case True
      from bitmap_hit [OF n True] obtain xs e ys where parts:
        "arr = xs @ e # ys" "length xs = index bm (2 ^ ?i)" "slot_ok s ?i e"
        "list_all2 (slot_ok s) (below bm ?i) xs" "list_all2 (slot_ok s) (above bm ?i) ys" .
      let ?R = "mset (concat (map eelems xs)) + mset (concat (map eelems ys))"
      note R = around_slot [OF less.prems(2) parts(4,5)]
      have get: "slice_get arr (index bm (2 ^ ?i)) = Some e" "0 < bm AND 2 ^ ?i"
        using parts(1,2) True bit_test [of bm ?i] by simp_all
      have drop: "removePair arr (index bm (2 ^ ?i)) = xs @ ys" using parts(1,2) by (metis removePair_middle)
      have dropped: "node_ok s (BitmapIndexedNode False (bm XOR 2 ^ ?i) (xs @ ys))"
        "mset (elems (BitmapIndexedNode False (bm XOR 2 ^ ?i) (xs @ ys))) = ?R"
        using bitmap_drop [OF n True parts(4,5)] by (simp_all add: bitmap_elems del: elems.simps hwf.simps)
      have elems: "mset (elems n) = mset (eelems e) + ?R"
        by (simp add: BitmapIndexedNode parts(1) bitmap_elems del: elems.simps)
      show ?thesis
      proof (cases e)
        case (Leaf k v)
        show ?thesis
        proof (cases "kequiv K key k")
          case eq: True
          with elems Leaf have "removed K key (mset (elems n)) ?R" by (auto simp: removed_def)
          with dropped get drop Leaf eq show ?thesis
            by (simp add: BitmapIndexedNode without_ok_def Let_def del: elems.simps hwf.simps)
        next
          case neq: False
          with R parts(1) Leaf have "\<forall>e\<in>set (elems n). \<not> kequiv K key (fst e)" by (auto simp: BitmapIndexedNode)
          with get Leaf neq show ?thesis by (simp add: BitmapIndexedNode without_ok_def del: elems.simps)
        qed
      next
        case (Child c)
        have "size c < size n" using get(1) hentry_size [of arr _ c] Child BitmapIndexedNode by simp
        then obtain r where r: "node_without K c (s + 5) (khash K key) key = Some r" "without_ok (s + 5) key c r"
          using less.IH [of c "s + 5"] parts(3) less.prems(2) Child by auto
        have step: "node_without K n s (khash K key) key = Some (without_bitmap K bm arr (2 ^ ?i) (index bm (2 ^ ?i)) r)"
          using get Child r(1) by (simp add: BitmapIndexedNode Let_def)
        have "without_ok s key n (without_bitmap K bm arr (2 ^ ?i) (index bm (2 ^ ?i)) r)"
        proof (cases r)
          case Kept
          with r(2) R parts(1) Child show ?thesis
            by (auto simp: without_bitmap_def without_ok_def BitmapIndexedNode)
        next
          case (Shrunk c')
          with r(2) have c': "node_ok (s + 5) c'" "removed K key (mset (elems c)) (mset (elems c'))"
            by (simp_all add: without_ok_def)
          have "\<forall>e\<in>set (elems c'). mask (khash K (fst e)) s = ?i"
            using removed_keys [OF c'(2)] parts(3) Child by auto
          with c'(1) have "node_ok s (BitmapIndexedNode False bm (xs @ Child c' # ys))"
            by (intro bitmap_put [OF n True _ parts(4,5)]) simp
          moreover have "arr[index bm (2 ^ ?i) := Child c'] = xs @ Child c' # ys"
            using parts(1,2) by (metis list_update_length)
          ultimately show ?thesis
            using Shrunk removed_frame [OF c'(2), of ?R] elems Child
            by (simp add: without_bitmap_def without_ok_def bitmap_elems ac_simps del: elems.simps hwf.simps)
        next
          case Gone
          with r(2) have gone: "removed K key (mset (elems n)) ?R"
            using removed_frame [of K key "mset (elems c)" "{#}" ?R] elems Child by (simp add: without_ok_def)
          show ?thesis
          proof (cases "bm = 2 ^ ?i")
            case True
            have "xs = []" "ys = []" using parts(4,5) True by (auto simp: below_def above_def bit_exp_iff)
            with Gone gone True show ?thesis by (simp add: without_bitmap_def without_ok_def)
          next
            case False
            with Gone gone dropped drop show ?thesis
              by (simp add: without_bitmap_def without_ok_def del: elems.simps hwf.simps)
          qed
        qed
        with step show ?thesis by blast
      qed
    qed
  next
    case (ArrayNode ed cnt arr)
    then have s: "5 dvd s" "s \<le> 25" "kids s arr" "cnt = kcount arr" and i: "?i < length arr"
      using less.prems(1) by (auto simp: array_kids kids_def)
    let ?R = "mset (concat (map oelems (take ?i arr))) + mset (concat (map oelems (drop (Suc ?i) arr)))"
    have R: "\<forall>e\<in>#?R. \<not> kequiv K key (fst e)"
      using other_kids [OF less.prems(2) _ refl i] s(3) by (simp add: kids_def)
    have around: "mset (concat (map oelems (arr[?i := c]))) = mset (oelems c) + ?R" for c
      using kids_around [of ?i "arr[?i := c]"] i by (simp add: ac_simps)
    have all: "mset (elems n) = mset (oelems (arr ! ?i)) + ?R" using kids_around [OF i] by (simp add: ArrayNode)
    then have set: "\<forall>e\<in>set (elems n). e \<in> set (oelems (arr ! ?i)) \<or> e \<in># ?R"
      by (metis set_mset_mset union_iff)
    show ?thesis
    proof (cases "arr ! ?i")
      case None
      with R set i show ?thesis by (auto simp: ArrayNode slice_get_ok without_ok_def simp del: elems_array)
    next
      case (Some c)
      have c: "node_ok (s + 5) c" "\<forall>e\<in>set (elems c). mask (khash K (fst e)) s = ?i"
        using kids_child [OF s(3) mask_less Some] by blast+
      have "size c < size n" using hchild_size [of arr ?i c] i Some ArrayNode by (simp add: slice_get_ok)
      then obtain r where r: "node_without K c (s + 5) (khash K key) key = Some r" "without_ok (s + 5) key c r"
        using less.IH [of c "s + 5"] c less.prems(2) by auto
      show ?thesis
      proof (cases r)
        case Kept
        with r(2) have "\<forall>e\<in>set (elems c). \<not> kequiv K key (fst e)" by (simp add: without_ok_def)
        with set R Some have "\<forall>e\<in>set (elems n). \<not> kequiv K key (fst e)" by (metis oelems_simps(2))
        with Kept r(1) i Some show ?thesis
          by (simp add: ArrayNode slice_get_ok without_ok_def del: elems_array)
      next
        case (Shrunk c')
        with r(2) have c': "node_ok (s + 5) c'" "removed K key (mset (elems c)) (mset (elems c'))"
          by (simp_all add: without_ok_def)
        then have "slot_ok s ?i (Child c')" using removed_keys [OF c'(2)] c(2) by auto
        then have "node_ok s (ArrayNode False cnt (arr[?i := Some c']))"
          using s kids_update [OF s(3) mask_less, of "khash K key" s "Some c'"]
            filter_update [OF i, of "\<lambda>c. c \<noteq> None" "Some c'"] Some by (simp add: array_kids)
        with Shrunk r(1) i Some around [of "Some c'"] removed_frame [OF c'(2), of ?R] all
        show ?thesis by (simp add: ArrayNode slice_get_ok without_ok_def)
      next
        case Gone
        with r(2) have gone: "removed K key (mset (elems n)) ?R"
          using removed_frame [of K key "mset (elems c)" "{#}" ?R] all Some by (simp add: without_ok_def)
        show ?thesis
        proof (cases "cnt \<le> 8")
          case True
          from pack_ok [OF s(3,1,2) mask_less Some s(4)] obtain n' where
            "pack K cnt arr ?i = Some n'" "node_ok s n'" "mset (elems n') = ?R" .
          with Gone gone r(1) i Some True show ?thesis
            by (simp add: ArrayNode slice_get_ok without_ok_def)
        next
          case False
          have "node_ok s (ArrayNode False (cnt - 1) (arr[?i := None]))"
            using s kids_update [OF s(3) mask_less, of "khash K key" s None]
              filter_update [OF i, of "\<lambda>c. c \<noteq> None" None] Some by (simp add: array_kids)
          with Gone gone r(1) i Some False around [of None] show ?thesis
            by (simp add: ArrayNode slice_get_ok without_ok_def)
        qed
      qed
    qed
  next
    case (HashCollisionNode ed h cnt ps)
    then have s: "5 dvd s" "s \<le> 35" "ps \<noteq> []" "cnt = length ps" "\<forall>p\<in>set ps. good (fst p) \<and> khash K (fst p) = h"
      "sorted_wrt (\<lambda>p q. \<not> kequiv K (fst p) (fst q)) ps" using less.prems(1) by simp_all
    show ?thesis
    proof (cases "findIndex K key cnt ps")
      case None
      with findIndex_spec(1) s(4) show ?thesis by (auto simp: HashCollisionNode without_ok_def)
    next
      case (Some i)
      then have i: "i < length ps" "kequiv K key (fst (ps ! i))" using findIndex_spec(2) s(4) by blast+
      have split: "ps = take i ps @ ps ! i # drop (Suc i) ps" by (rule id_take_nth_drop [OF i(1)])
      have hash: "khash K key = h"
        using equiv_hash [OF less.prems(2) _ i(2)] s(5) i(1) by simp
      have "mset ps = add_mset (ps ! i) (mset (removePair ps i))"
        by (subst split) (simp add: removePair_def)
      then have rm: "removed K key (mset ps) (mset (removePair ps i))"
        using i(2) by (auto simp: removed_def intro!: exI [of _ "fst (ps ! i)"] exI [of _ "snd (ps ! i)"])
      show ?thesis
      proof (cases "cnt = 1")
        case True
        then have "removePair ps i = []" using s(4) i(1) by (simp add: removePair_def)
        with True Some rm show ?thesis by (simp add: HashCollisionNode without_ok_def)
      next
        case False
        have sub: "set (removePair ps i) \<subseteq> set ps"
          unfolding removePair_def by (auto dest: in_set_takeD in_set_dropD)
        have "sorted_wrt (\<lambda>p q. \<not> kequiv K (fst p) (fst q)) (removePair ps i)"
          using s(6) by (subst (asm) split) (auto simp: removePair_def sorted_wrt_append)
        moreover have len: "length (removePair ps i) = length ps - 1" using i(1) by (simp add: removePair_def)
        moreover from len False s(4) i(1) have "removePair ps i \<noteq> []" by (metis One_nat_def Suc_diff_1 length_0_conv length_greater_0_conv s(3))
        ultimately have "node_ok s (HashCollisionNode False h (cnt - 1) (removePair ps i))"
          using s sub by auto
        with False Some rm hash show ?thesis
          by (simp add: HashCollisionNode without_ok_def del: hwf.simps)
      qed
    qed
  qed
qed

subsection \<open>The map\<close>

definition phm_ok :: "('k, 'v, 'm) phm \<Rightarrow> bool" where
  "phm_ok m \<longleftrightarrow> (\<forall>n. proot m = Some n \<longrightarrow> node_ok 0 n) \<and> pcount m = length (contents m)"

lemma phm_empty_ok: "phm_ok (emptyPersistentHashMap\<lparr>pmeta := mt\<rparr>)" "contents (emptyPersistentHashMap\<lparr>pmeta := mt\<rparr>) = []"
  by (simp_all add: phm_ok_def contents_def emptyPersistentHashMap_def)

lemma inserted_length: "inserted K key val (mset xs) (mset ys) a \<Longrightarrow> length ys = length xs + of_bool a"
proof -
  assume "inserted K key val (mset xs) (mset ys) a"
  then have "size (mset ys) = size (mset xs) + of_bool a"
    unfolding inserted_def by (auto split: if_splits simp del: size_mset)
  then show ?thesis by simp
qed

lemma removed_length: "removed K key (mset xs) (mset ys) \<Longrightarrow> length xs = Suc (length ys)"
proof -
  assume "removed K key (mset xs) (mset ys)"
  then have "size (mset xs) = Suc (size (mset ys))" by (auto simp: removed_def simp del: size_mset)
  then show ?thesis by simp
qed

lemma PHM_Assoc_ok:
  assumes "phm_ok m" and k: "good key" and "hash_fuel \<le> fuel" and total: "\<And>v w. vsame K v w \<noteq> None"
  obtains m' a where "PHM_Assoc K fuel m key val = Inr m'" and "phm_ok m'" and "pmeta m' = pmeta m"
    and "inserted K key val (mset (contents m)) (mset (contents m')) a"
proof -
  define t where "t = (case proot m of None \<Rightarrow> emptyIndexedNode | Some r \<Rightarrow> r)"
  have t: "node_ok 0 t" "elems t = contents m"
    using assms(1) empty_ok [of 0] by (auto simp: t_def phm_ok_def contents_def split: option.split)
  have "need 0 t \<le> fuel" using assms(3) by (auto simp: need_def hash_fuel_def split: hnode.split)
  with t have "assoc_ok 0 key val t (node_assoc K fuel t 0 (khash K key) key val)"
    by (intro node_assoc_ok k) (simp_all add: agree_def)
  then obtain r a where r: "node_assoc K fuel t 0 (khash K key) key val = Inr (r, a)" "node_ok 0 (upd_node t r)"
    "inserted K key val (mset (contents m)) (mset (elems (upd_node t r))) a"
    using t(2) by (auto simp: assoc_ok_def total split: sum.splits herr.splits prod.splits)
  show thesis
  proof (cases "r = Same \<and> proot m \<noteq> None")
    case True
    with r t(2) have "inserted K key val (mset (contents m)) (mset (contents m)) a" by (simp add: upd_node_def)
    with True r(1) assms(1) that show thesis by (simp add: PHM_Assoc_def t_def)
  next
    case False
    let ?m = "\<lparr>pmeta = pmeta m, pcount = (if a then pcount m + 1 else pcount m), proot = Some (upd_node t r)\<rparr>"
    have "PHM_Assoc K fuel m key val = Inr ?m" using False r(1) by (simp add: PHM_Assoc_def flip: t_def) auto
    moreover have "phm_ok ?m" using r(2) inserted_length [OF r(3)] assms(1) by (simp add: phm_ok_def contents_def)
    ultimately show thesis using that [of ?m a] r(3) by (simp add: contents_def)
  qed
qed

lemma PHM_Without_ok:
  assumes "phm_ok m" and k: "good key"
  obtains m' where "PHM_Without K m key = Some m'" and "phm_ok m'" and "pmeta m' = pmeta m"
    and "(\<forall>e\<in>set (contents m). \<not> kequiv K key (fst e)) \<and> m' = m \<or> removed K key (mset (contents m)) (mset (contents m'))"
proof (cases "proot m")
  case None
  with assms(1) that show thesis by (simp add: PHM_Without_def contents_def)
next
  case (Some n)
  then have n: "node_ok 0 n" "contents m = elems n" using assms(1) by (simp_all add: phm_ok_def contents_def)
  from node_without_ok [OF n(1) k] obtain r where
    r: "node_without K n 0 (khash K key) key = Some r" "without_ok 0 key n r" by blast
  show thesis
  proof (cases r)
    case Kept
    with r n Some assms(1) that show thesis by (simp add: PHM_Without_def without_ok_def)
  next
    case (Shrunk n')
    with r(2) n(2) have "removed K key (mset (contents m)) (mset (elems n'))" "node_ok 0 n'" by (simp_all add: without_ok_def)
    with removed_length [OF this(1)] Shrunk r(1) Some assms(1) that show thesis
      by (simp add: PHM_Without_def phm_ok_def contents_def)
  next
    case Gone
    with r(2) n(2) have rm: "removed K key (mset (contents m)) (mset [])" by (simp add: without_ok_def)
    with removed_length [OF this] Gone r(1) Some assms(1) that show thesis
      by (simp add: PHM_Without_def phm_ok_def contents_def)
  qed
qed

lemma PHM_EntryAt_ok:
  assumes "phm_ok m" and "good key"
  obtains r where "PHM_EntryAt K m key = Some r" and "find_ok key (contents m) r"
proof (cases "proot m")
  case None
  with that show thesis by (simp add: PHM_EntryAt_def contents_def find_ok_def)
next
  case (Some n)
  with assms node_find_ok [of 0 n key] that show thesis by (auto simp: PHM_EntryAt_def contents_def phm_ok_def)
qed

end

end
