(* ===== verification/HashBuild.thy ===== *)
theory HashBuild
  imports HashMapSpec
begin

text \<open>
  \<^verbatim>\<open>pkg/lang/hashmap_transient.go\<close>: the trie that a map literal is built in.  Nodes that the
  build owns (\<open>edit\<close>) are changed in place and their arrays are over-allocated: what lies past the
  pairs counted by the bitmap is nil.

  Every node of a build is held by one parent, so a change in place is a change of the parent's
  subtree.  The result of an insertion says whether Go returned the very node it was called on:
  \<open>TSame n\<close> is that node with its new contents, \<open>TNew n\<close> another one.
\<close>

unbundle bit_operations_syntax

datatype 'n tupd = TSame 'n | TNew 'n

definition tnode :: "'n tupd \<Rightarrow> 'n" where
  "tnode r = (case r of TSame n \<Rightarrow> n | TNew n \<Rightarrow> n)"

lemma tnode_simps [simp]: "tnode (TSame n) = n" "tnode (TNew n) = n"
  by (simp_all add: tnode_def)

type_synonym ('k, 'v) tassocfn =
  "('k, 'v) hnode \<Rightarrow> nat \<Rightarrow> 32 word \<Rightarrow> 'k \<Rightarrow> 'v \<Rightarrow> herr + ('k, 'v) hnode tupd \<times> bool"

subsection \<open>Bitmap nodes\<close>

text \<open>An unused slot.\<close>

definition pad :: "('k, 'v) kops \<Rightarrow> ('k, 'v) hentry" where
  "pad K = Leaf (knil K) (vnil K)"

text \<open>\<^verbatim>\<open>ensureEditable\<close> copies the pairs into an array with room for four more; the slice
  \<^verbatim>\<open>b.array[:2*n]\<close> panics when the array is shorter.\<close>

definition ensureEditable :: "('k, 'v) kops \<Rightarrow> bool \<Rightarrow> nat \<Rightarrow> ('k, 'v) hentry list \<Rightarrow> herr + ('k, 'v) hentry list" where
  "ensureEditable K ed bm arr =
     (if ed then Inr arr
      else let n = bitCount bm in
        if length arr < n then Inl HPanic else Inr (take n arr @ replicate 4 (pad K)))"

definition returned :: "bool \<Rightarrow> 'n \<Rightarrow> 'n tupd" where
  "returned ed n = (if ed then TSame n else TNew n)"

lemma tnode_returned [simp]: "tnode (returned ed n) = n"
  by (simp add: returned_def)

text \<open>\<^verbatim>\<open>editAndSet1\<close> and \<^verbatim>\<open>editAndSet2\<close>.\<close>

definition editAndSet :: "('k, 'v) kops \<Rightarrow> bool \<Rightarrow> nat \<Rightarrow> ('k, 'v) hentry list \<Rightarrow> nat \<Rightarrow> ('k, 'v) hentry \<Rightarrow>
    herr + ('k, 'v) hnode tupd" where
  "editAndSet K ed bm arr i e =
     bindE (ensureEditable K ed bm arr) (\<lambda>arr'.
     bindE (of_panic HPanic (slice_set arr' i e)) (\<lambda>arr''.
     Inr (returned ed (BitmapIndexedNode True bm arr''))))"

definition createNodeT :: "('k, 'v) kops \<Rightarrow> ('k, 'v) tassocfn \<Rightarrow>
    nat \<Rightarrow> 'k \<Rightarrow> 'v \<Rightarrow> 32 word \<Rightarrow> 'k \<Rightarrow> 'v \<Rightarrow> herr + ('k, 'v) hnode" where
  "createNodeT K rec shift key1 val1 key2hash key2 val2 =
     (let key1hash = khash K key1 in
      if key1hash = key2hash then Inr (HashCollisionNode True key1hash 2 [(key1, val1), (key2, val2)])
      else bindE (rec (BitmapIndexedNode True 0 []) shift key1hash key1 val1) (\<lambda>(r1, _).
           bindE (rec (tnode r1) shift key2hash key2 val2) (\<lambda>(r2, _). Inr (tnode r2))))"

text \<open>The loop that spreads the entries over an array of 32 nodes.\<close>

fun spreadT :: "('k, 'v) kops \<Rightarrow> ('k, 'v) tassocfn \<Rightarrow> nat \<Rightarrow> nat \<Rightarrow> nat list \<Rightarrow> ('k, 'v) hentry list \<Rightarrow>
    ('k, 'v) hnode option list \<Rightarrow> bool \<Rightarrow> herr + ('k, 'v) hnode option list \<times> bool" where
  "spreadT K rec shift bm [] es nodes added = Inr (nodes, added)"
| "spreadT K rec shift bm (i # is) es nodes added =
     (if drop_bit i bm AND 1 = 0 then spreadT K rec shift bm is es nodes added
      else case es of
        [] \<Rightarrow> Inl HPanic
      | Child n # es' \<Rightarrow> spreadT K rec shift bm is es' (nodes[i := Some n]) added
      | Leaf k v # es' \<Rightarrow>
          bindE (rec emptyIndexedNode shift (khash K k) k v) (\<lambda>(r, a).
          spreadT K rec shift bm is es' (nodes[i := Some (tnode r)]) (added \<or> a)))"

definition assocT_bitmap :: "('k, 'v) kops \<Rightarrow> ('k, 'v) tassocfn \<Rightarrow> bool \<Rightarrow> nat \<Rightarrow> ('k, 'v) hentry list \<Rightarrow>
    nat \<Rightarrow> 32 word \<Rightarrow> 'k \<Rightarrow> 'v \<Rightarrow> herr + ('k, 'v) hnode tupd \<times> bool" where
  "assocT_bitmap K rec ed bm arr shift hash key val =
     (let b = bitpos hash shift; idx = index bm b; n = bitCount bm in
      if bm AND b \<noteq> 0 then
        case slice_get arr idx of
          None \<Rightarrow> Inl HPanic
        | Some (Child c) \<Rightarrow>
            bindE (rec c (shift + 5) hash key val) (\<lambda>(r, added).
            case r of
              TSame c' \<Rightarrow> Inr (TSame (BitmapIndexedNode ed bm (arr[idx := Child c'])), added)
            | TNew c' \<Rightarrow> bindE (editAndSet K ed bm arr idx (Child c')) (\<lambda>u. Inr (u, added)))
        | Some (Leaf k v) \<Rightarrow>
            if kequiv K key k then
              case vsame K val v of
                None \<Rightarrow> Inl HPanic
              | Some True \<Rightarrow> Inr (TSame (BitmapIndexedNode ed bm arr), False)
              | Some False \<Rightarrow> bindE (editAndSet K ed bm arr idx (Leaf k val)) (\<lambda>u. Inr (u, False))
            else
              bindE (createNodeT K rec (shift + 5) k v hash key val) (\<lambda>c.
              bindE (editAndSet K ed bm arr idx (Child c)) (\<lambda>u. Inr (u, True)))
      else if n < length arr then
        bindE (ensureEditable K ed bm arr) (\<lambda>e.
        Inr (returned ed (BitmapIndexedNode True (bm OR b)
               (take idx e @ Leaf key val # drop idx (take n e) @ drop (n + 1) e)), True))
      else if 16 \<le> n then
        bindE (rec emptyIndexedNode (shift + 5) hash key val) (\<lambda>(r, added).
        bindE (spreadT K rec (shift + 5) bm [0..<32] arr
                ((replicate 32 None)[mask hash shift := Some (tnode r)]) added) (\<lambda>(nodes, added').
        Inr (TNew (ArrayNode False (n + 1) nodes), added')))
      else
        Inr (TNew (BitmapIndexedNode True (bm OR b)
               (take idx arr @ Leaf key val # drop idx (take n arr) @ replicate 3 (pad K))), True))"

subsection \<open>Array and collision nodes\<close>

definition assocT_array :: "('k, 'v) tassocfn \<Rightarrow> bool \<Rightarrow> nat \<Rightarrow> ('k, 'v) hnode option list \<Rightarrow>
    nat \<Rightarrow> 32 word \<Rightarrow> 'k \<Rightarrow> 'v \<Rightarrow> herr + ('k, 'v) hnode tupd \<times> bool" where
  "assocT_array rec ed cnt arr shift hash key val =
     (let idx = mask hash shift in
      case slice_get arr idx of
        None \<Rightarrow> Inl HPanic
      | Some None \<Rightarrow>
          bindE (rec emptyIndexedNode (shift + 5) hash key val) (\<lambda>(r, added).
          Inr (returned ed (ArrayNode True (cnt + 1) (arr[idx := Some (tnode r)])), added))
      | Some (Some c) \<Rightarrow>
          bindE (rec c (shift + 5) hash key val) (\<lambda>(r, added).
          case r of
            TSame c' \<Rightarrow> Inr (TSame (ArrayNode ed cnt (arr[idx := Some c'])), added)
          | TNew c' \<Rightarrow> Inr (returned ed (ArrayNode True cnt (arr[idx := Some c'])), added)))"

text \<open>A node that is not owned is copied with room for one more pair; an owned one is written where
  it is, in range or not.\<close>

definition ensureEditableColl :: "('k, 'v) kops \<Rightarrow> bool \<Rightarrow> nat \<Rightarrow> ('k \<times> 'v) list \<Rightarrow> herr + ('k \<times> 'v) list" where
  "ensureEditableColl K ed cnt ps =
     (if ed then Inr ps
      else if length ps < cnt then Inl HPanic else Inr (take cnt ps @ [(knil K, vnil K)]))"

definition assocT_collision :: "('k, 'v) kops \<Rightarrow> ('k, 'v) tassocfn \<Rightarrow> bool \<Rightarrow> 32 word \<Rightarrow> nat \<Rightarrow> ('k \<times> 'v) list \<Rightarrow>
    nat \<Rightarrow> 32 word \<Rightarrow> 'k \<Rightarrow> 'v \<Rightarrow> herr + ('k, 'v) hnode tupd \<times> bool" where
  "assocT_collision K rec ed h cnt ps shift hash key val =
     (if hash = h then
        case findIndex K key cnt ps of
          Some i \<Rightarrow>
            (case vsame K (snd (ps ! i)) val of
               None \<Rightarrow> Inl HPanic
             | Some True \<Rightarrow> Inr (TSame (HashCollisionNode ed h cnt ps), False)
             | Some False \<Rightarrow>
                 bindE (ensureEditableColl K ed cnt ps) (\<lambda>e.
                 Inr (returned ed (HashCollisionNode True h cnt (e[i := (fst (ps ! i), val)])), False)))
        | None \<Rightarrow>
            bindE (ensureEditableColl K ed cnt ps) (\<lambda>e.
            bindE (of_panic HPanic (slice_set e cnt (key, val))) (\<lambda>e'.
            Inr (returned ed (HashCollisionNode True h (cnt + 1) e'), True)))
      else
        bindE (rec (BitmapIndexedNode True (bitpos h shift) [Child (HashCollisionNode ed h cnt ps)])
                 shift hash key val) (\<lambda>(r, added). Inr (TNew (tnode r), added)))"

primrec assocT :: "('k, 'v) kops \<Rightarrow> nat \<Rightarrow> ('k, 'v) tassocfn" where
  "assocT K 0 = (\<lambda>n shift hash key val. Inl HFuel)"
| "assocT K (Suc fuel) = (\<lambda>n shift hash key val.
     case n of
       BitmapIndexedNode ed bm arr \<Rightarrow> assocT_bitmap K (assocT K fuel) ed bm arr shift hash key val
     | ArrayNode ed cnt arr \<Rightarrow> assocT_array (assocT K fuel) ed cnt arr shift hash key val
     | HashCollisionNode ed h cnt ps \<Rightarrow> assocT_collision K (assocT K fuel) ed h cnt ps shift hash key val)"

subsection \<open>The end of a build\<close>

text \<open>\<^verbatim>\<open>finalizeHashNode\<close> cuts every array to its pairs and gives up ownership; slicing an array
  past its end is a panic.\<close>

fun finalizeHashNode :: "('k, 'v) hnode \<Rightarrow> ('k, 'v) hnode option"
  and finalize_entries :: "nat \<Rightarrow> ('k, 'v) hentry list \<Rightarrow> ('k, 'v) hentry list option"
  and finalize_children :: "('k, 'v) hnode option list \<Rightarrow> ('k, 'v) hnode option list option" where
  "finalizeHashNode (BitmapIndexedNode ed bm arr) =
     map_option (BitmapIndexedNode False bm) (finalize_entries (bitCount bm) arr)"
| "finalizeHashNode (HashCollisionNode ed h cnt ps) =
     (if length ps < cnt then None else Some (HashCollisionNode False h cnt (take cnt ps)))"
| "finalizeHashNode (ArrayNode ed cnt arr) = map_option (ArrayNode False cnt) (finalize_children arr)"
| "finalize_entries 0 es = Some []"
| "finalize_entries (Suc n) [] = None"
| "finalize_entries (Suc n) (Leaf k v # es) = map_option ((#) (Leaf k v)) (finalize_entries n es)"
| "finalize_entries (Suc n) (Child c # es) =
     (case finalizeHashNode c of None \<Rightarrow> None | Some c' \<Rightarrow> map_option ((#) (Child c')) (finalize_entries n es))"
| "finalize_children [] = Some []"
| "finalize_children (None # cs) = map_option ((#) None) (finalize_children cs)"
| "finalize_children (Some c # cs) =
     (case finalizeHashNode c of None \<Rightarrow> None | Some c' \<Rightarrow> map_option ((#) (Some c')) (finalize_children cs))"

record ('k, 'v) transientHashMapBuild =
  troot :: "('k, 'v) hnode option"
  tcount :: nat

definition newTransientHashMapBuild :: "('k, 'v) transientHashMapBuild" where
  "newTransientHashMapBuild = \<lparr>troot = None, tcount = 0\<rparr>"

definition build_assoc :: "('k, 'v) kops \<Rightarrow> nat \<Rightarrow> ('k, 'v) transientHashMapBuild \<Rightarrow> 'k \<Rightarrow> 'v \<Rightarrow>
    herr + ('k, 'v) transientHashMapBuild" where
  "build_assoc K fuel t key val =
     bindE (assocT K fuel (case troot t of None \<Rightarrow> BitmapIndexedNode True 0 [] | Some n \<Rightarrow> n) 0 (khash K key) key val)
       (\<lambda>(r, added). Inr \<lparr>troot = Some (tnode r), tcount = (if added then tcount t + 1 else tcount t)\<rparr>)"

definition build_persistent :: "('k, 'v) transientHashMapBuild \<Rightarrow> herr + ('k, 'v, 'm) phm" where
  "build_persistent t =
     (case troot t of
        None \<Rightarrow> Inr \<lparr>pmeta = None, pcount = tcount t, proot = None\<rparr>
      | Some n \<Rightarrow>
          bindE (of_panic HPanic (finalizeHashNode n)) (\<lambda>n'.
          Inr \<lparr>pmeta = None, pcount = tcount t, proot = Some n'\<rparr>))"

fun build_all :: "('k, 'v) kops \<Rightarrow> nat \<Rightarrow> ('k \<times> 'v) list \<Rightarrow> ('k, 'v) transientHashMapBuild \<Rightarrow>
    herr + ('k, 'v) transientHashMapBuild" where
  "build_all K fuel [] t = Inr t"
| "build_all K fuel ((key, val) # kvs) t = bindE (build_assoc K fuel t key val) (build_all K fuel kvs)"

text \<open>The arguments come in pairs, as \<^verbatim>\<open>NewMap\<close> checks.\<close>

definition NewPersistentHashMap :: "('k, 'v) kops \<Rightarrow> nat \<Rightarrow> ('k \<times> 'v) list \<Rightarrow> herr + ('k, 'v, 'm) phm" where
  "NewPersistentHashMap K fuel kvs =
     (if kvs = [] then Inr emptyPersistentHashMap
      else bindE (build_all K fuel kvs newTransientHashMapBuild) build_persistent)"

end
