(* ===== verification/HashMapProps.thy ===== *)
theory HashMapProps
  imports HashMapSpec
begin

text \<open>
  The sequence of a hash map visits every entry once; every history of operations refines an
  association list; the map over the language's own keys.
\<close>

subsection \<open>Sequences\<close>

fun seq_elems :: "('k, 'v) hseq \<Rightarrow> ('k \<times> 'v) list" where
  "seq_elems (NodeSeq arr i None) = concat (map eelems (drop i arr))"
| "seq_elems (NodeSeq arr i (Some s)) = seq_elems s @ concat (map eelems (drop i arr))"
| "seq_elems (ArrayNodeSeq arr i s) = seq_elems s @ concat (map oelems (drop i arr))"

fun seq_valid :: "('k, 'v) hseq \<Rightarrow> bool" where
  "seq_valid (NodeSeq arr i None) \<longleftrightarrow> (\<exists>k v es. drop i arr = Leaf k v # es)"
| "seq_valid (NodeSeq arr i (Some s)) \<longleftrightarrow> seq_valid s"
| "seq_valid (ArrayNodeSeq arr i s) \<longleftrightarrow> seq_valid s"

definition seq_of :: "('k \<times> 'v) list \<Rightarrow> ('k, 'v) hseq option \<Rightarrow> bool" where
  "seq_of es r \<longleftrightarrow> (case r of None \<Rightarrow> es = [] | Some s \<Rightarrow> seq_valid s \<and> seq_elems s = es)"

lemma eelems_pairs: "concat (map eelems (pair_entries ps)) = ps"
  by (induction ps) (auto simp: pair_entries_def)

lemma drop_Suc_of: "drop i xs = y # ys \<Longrightarrow> drop (Suc i) xs = ys"
  by (metis drop_Suc list.sel(3) tl_drop)

lemma nodeSeq_of:
  fixes n :: "('k, 'v) hnode" and es arr :: "('k, 'v) hentry list" and cs kids :: "('k, 'v) hnode option list"
  shows "seq_of (elems n) (nodeSeq n)"
    and "es = drop i arr \<Longrightarrow> seq_of (concat (map eelems es)) (newNodeSeq arr i es)"
    and "cs = drop i kids \<Longrightarrow> seq_of (concat (map oelems cs)) (newArrayNodeSeq kids i cs)"
proof (induction n and arr i es and kids i cs rule: nodeSeq_newNodeSeq_newArrayNodeSeq.induct)
  case (3 ed h cnt ps)
  show ?case
  proof (cases ps)
    case (Cons p ps')
    then show ?thesis by (cases p) (auto simp: seq_of_def pair_entries_def eelems_pairs [unfolded pair_entries_def map_map])
  qed (simp add: seq_of_def)
next
  case (5 arr i k v es)
  then have "drop i arr = Leaf k v # es" by simp
  then show ?case by (simp add: seq_of_def)
next
  case (6 arr i c es)
  then have "drop i arr = Child c # es" by simp
  moreover from this have "es = drop (i + 1) arr" by (simp add: drop_Suc_of)
  ultimately show ?case using "6.IH" by (cases "nodeSeq c") (auto simp: seq_of_def)
next
  case (8 arr i cs)
  then have "drop i arr = None # cs" by simp
  moreover from this have "cs = drop (i + 1) arr" by (simp add: drop_Suc_of)
  ultimately show ?case using "8.IH" by (simp add: seq_of_def)
next
  case (9 arr i c cs)
  then have "drop i arr = Some c # cs" by simp
  moreover from this have "cs = drop (i + 1) arr" by (simp add: drop_Suc_of)
  ultimately show ?case using "9.IH" by (cases "nodeSeq c") (auto simp: seq_of_def)
qed (auto simp: seq_of_def)

lemma seq_First_of: "seq_valid s \<Longrightarrow> \<exists>es. \<exists>e. seq_First s = Some e \<and> seq_elems s = e # es"
proof (induction s rule: seq_valid.induct)
  case (1 arr i)
  then obtain k v es where d: "drop i arr = Leaf k v # es" by auto
  then have "slice_get arr i = Some (Leaf k v)"
    by (metis (no_types) drop_all linorder_not_less list.discI nth_via_drop slice_get_def)
  with d show ?case by simp
qed auto

lemma seq_Next_of: "seq_valid s \<Longrightarrow> seq_of (tl (seq_elems s)) (seq_Next s)"
proof (induction s rule: seq_valid.induct)
  case (1 arr i)
  then obtain k v es where d: "drop i arr = Leaf k v # es" by auto
  with nodeSeq_of(2) [of "drop (i + 1) arr" "i + 1" arr] show ?case by (simp add: drop_Suc_of)
next
  case (2 arr i s)
  then obtain e es where "seq_elems s = e # es" using seq_First_of [of s] by auto
  with 2 nodeSeq_of(2) [of "drop i arr" i arr] show ?case by (cases "seq_Next s") (auto simp: seq_of_def)
next
  case (3 arr i s)
  then obtain e es where "seq_elems s = e # es" using seq_First_of [of s] by auto
  with 3 nodeSeq_of(3) [of "drop i arr" i arr] show ?case by (cases "seq_Next s") (auto simp: seq_of_def)
qed

text \<open>Walking a sequence with \<^verbatim>\<open>First\<close> and \<^verbatim>\<open>Next\<close>, at most \<open>n\<close> times.\<close>

fun walk :: "nat \<Rightarrow> ('k, 'v) hseq option \<Rightarrow> ('k \<times> 'v) list option" where
  "walk n None = Some []"
| "walk 0 (Some s) = None"
| "walk (Suc n) (Some s) =
     (case seq_First s of None \<Rightarrow> None | Some e \<Rightarrow> map_option ((#) e) (walk n (seq_Next s)))"

lemma walk_of: "seq_of es r \<Longrightarrow> length es \<le> n \<Longrightarrow> walk n r = Some es"
proof (induction n arbitrary: es r)
  case 0
  then show ?case using seq_First_of by (cases r) (fastforce simp: seq_of_def)+
next
  case (Suc n)
  show ?case
  proof (cases r)
    case (Some s)
    with Suc.prems obtain e es' where "seq_First s = Some e" "es = e # es'" "seq_valid s" "seq_elems s = es"
      using seq_First_of [of s] by (auto simp: seq_of_def)
    with Suc.IH [OF seq_Next_of [of s]] Suc.prems(2) Some show ?thesis by simp
  qed (use Suc.prems in \<open>simp add: seq_of_def\<close>)
qed

lemma PHM_Seq_of: "seq_of (contents m) (PHM_Seq m)"
  using nodeSeq_of(1) by (cases "proot m") (auto simp: PHM_Seq_def contents_def seq_of_def [of "[]"])

subsection \<open>The reference: an association list\<close>

fun ref_assoc :: "('k, 'v) kops \<Rightarrow> 'k \<Rightarrow> 'v \<Rightarrow> ('k \<times> 'v) list \<Rightarrow> ('k \<times> 'v) list" where
  "ref_assoc K key val [] = [(key, val)]"
| "ref_assoc K key val ((k, v) # es) = (if kequiv K key k then (k, val) # es else (k, v) # ref_assoc K key val es)"

lemma ref_assoc_keys: "f \<in> set (ref_assoc K key val es) \<Longrightarrow> fst f = key \<or> fst f \<in> fst ` set es"
  by (induction K key val es rule: ref_assoc.induct) (auto split: if_splits)

definition ref_without :: "('k, 'v) kops \<Rightarrow> 'k \<Rightarrow> ('k \<times> 'v) list \<Rightarrow> ('k \<times> 'v) list" where
  "ref_without K key es = filter (\<lambda>e. \<not> kequiv K key (fst e)) es"

datatype ('k, 'v) hop = HAssoc (hkey: 'k) 'v | HWithout (hkey: 'k)

fun run_hash :: "('k, 'v) kops \<Rightarrow> nat \<Rightarrow> ('k, 'v) hop list \<Rightarrow> ('k, 'v, 'm) phm \<Rightarrow> herr + ('k, 'v, 'm) phm" where
  "run_hash K fuel [] m = Inr m"
| "run_hash K fuel (HAssoc k v # ops) m = bindE (PHM_Assoc K fuel m k v) (run_hash K fuel ops)"
| "run_hash K fuel (HWithout k # ops) m =
     (case PHM_Without K m k of None \<Rightarrow> Inl HPanic | Some m' \<Rightarrow> run_hash K fuel ops m')"

fun run_ref :: "('k, 'v) kops \<Rightarrow> ('k, 'v) hop list \<Rightarrow> ('k \<times> 'v) list \<Rightarrow> ('k \<times> 'v) list" where
  "run_ref K [] es = es"
| "run_ref K (HAssoc k v # ops) es = run_ref K ops (ref_assoc K k v es)"
| "run_ref K (HWithout k # ops) es = run_ref K ops (ref_without K k es)"

context hash_map
begin

definition ref_ok :: "('k \<times> 'v) list \<Rightarrow> bool" where
  "ref_ok es \<longleftrightarrow> (\<forall>e\<in>set es. good (fst e)) \<and> sorted_wrt (\<lambda>p q. \<not> kequiv K (fst p) (fst q)) es"

lemma ref_unique:
  assumes "ref_ok es" and "good key" and "e \<in># mset es" and "kequiv K key (fst e)" and "f \<in># mset es - {#e#}"
  shows "\<not> kequiv K key (fst f)"
  using assms
proof (induction es)
  case (Cons x es)
  have tail: "ref_ok es" using Cons.prems(1) by (simp add: ref_ok_def)
  have x: "\<not> kequiv K (fst x) (fst g)" "good (fst x)" "good (fst g)" if "g \<in> set es" for g
    using Cons.prems(1) that by (auto simp: ref_ok_def)
  show ?case
  proof (cases "x = e")
    case True
    with Cons.prems(5) have "f \<in> set es" by simp
    with x [of f] True Cons.prems(2,4) show ?thesis
      by (meson equiv_sym equiv_trans)
  next
    case False
    with Cons.prems have "e \<in> set es" by simp
    from False Cons.prems(5) have "f = x \<or> f \<in># mset es - {#e#}" by (auto simp: diff_add_mset_swap)
    then show ?thesis
    proof
      assume "f = x"
      with x [OF \<open>e \<in> set es\<close>] Cons.prems(2,4) show ?thesis by (meson equiv_sym equiv_trans)
    qed (use Cons.IH tail Cons.prems \<open>e \<in> set es\<close> in simp)
  qed
qed simp

lemma ref_assoc_inserted: "\<exists>a. inserted K key val (mset es) (mset (ref_assoc K key val es)) a"
proof (induction es)
  case Nil
  show ?case by (auto simp: inserted_def intro: exI [of _ True])
next
  case (Cons e es)
  obtain k v where e: "e = (k, v)" by (cases e)
  show ?case
  proof (cases "kequiv K key k")
    case True
    then show ?thesis by (auto simp: e inserted_def intro!: exI [of _ False])
  next
    case False
    from Cons obtain a where "inserted K key val (mset es) (mset (ref_assoc K key val es)) a" by blast
    from inserted_frame [OF this, of "{#(k, v)#}"] False show ?thesis by (auto simp: e)
  qed
qed

lemma inserted_unique:
  assumes "ref_ok es" and "good key" and "inserted K key val (mset es) E a" and "inserted K key val (mset es) F b"
  shows "E = F"
proof -
  have hit: "(\<exists>e\<in>#mset es. kequiv K key (fst e)) \<longleftrightarrow> \<not> c" if "inserted K key val (mset es) G c" for G c
    using that unfolding inserted_def by (auto simp del: set_mset_mset split: if_splits)
  have "a = b" using hit [OF assms(3)] hit [OF assms(4)] by blast
  show ?thesis
  proof (cases a)
    case True
    with assms(3,4) \<open>a = b\<close> show ?thesis by (simp add: inserted_def)
  next
    case False
    with assms(3) obtain k v R where e: "mset es = add_mset (k, v) R" "kequiv K key k" "E = add_mset (k, val) R"
      by (auto simp: inserted_def)
    from False assms(4) \<open>a = b\<close> obtain k' v' R' where f: "mset es = add_mset (k', v') R'" "kequiv K key k'" "F = add_mset (k', val) R'"
      by (auto simp: inserted_def)
    have "(k', v') = (k, v)"
    proof (rule ccontr)
      assume neq: "(k', v') \<noteq> (k, v)"
      with e(1) f(1) have "(k', v') \<in># mset es - {#(k, v)#}" by (metis add_mset_remove_trivial insert_noteq_member)
      with ref_unique [OF assms(1,2), of "(k, v)" "(k', v')"] e f(2) show False by simp
    qed
    with e f show ?thesis by simp
  qed
qed

lemma ref_assoc_ok: "ref_ok es \<Longrightarrow> good key \<Longrightarrow> ref_ok (ref_assoc K key val es)"
proof (induction es)
  case (Cons e es)
  obtain k v where e: "e = (k, v)" by (cases e)
  have "good k" "\<forall>p\<in>set es. \<not> kequiv K k (fst p)" "ref_ok es" using Cons.prems(1) by (auto simp: e ref_ok_def)
  then show ?case
    using Cons equiv_sym [of k key] by (auto simp: e ref_ok_def dest!: ref_assoc_keys)
qed (simp add: ref_ok_def)

lemma removed_ref:
  assumes "ref_ok es" and "good key" and "removed K key (mset es) E"
  shows "E = mset (ref_without K key es)"
proof -
  from assms(3) obtain k v where e: "mset es = add_mset (k, v) E" "kequiv K key k" by (auto simp: removed_def)
  have "\<forall>f\<in>#E. \<not> kequiv K key (fst f)"
    using ref_unique [OF assms(1,2), of "(k, v)"] e by simp
  then have "filter_mset (\<lambda>e. \<not> kequiv K key (fst e)) (mset es) = E"
    using e by (simp add: filter_mset_eq_conv)
  then show ?thesis by (simp add: ref_without_def flip: mset_filter)
qed

lemma ref_without_ok: "ref_ok es \<Longrightarrow> ref_ok (ref_without K key es)"
  by (auto simp: ref_ok_def ref_without_def sorted_wrt_filter)

lemma find_ref:
  assumes "ref_ok es" and "good key" and "find_ok key xs r" and "mset xs = mset es"
  shows "r = find (\<lambda>e. kequiv K key (fst e)) es"
proof -
  have set: "set xs = set es" using assms(4) by (metis set_mset_mset)
  show ?thesis
  proof (cases "find (\<lambda>e. kequiv K key (fst e)) es")
    case None
    then have "\<forall>e\<in>set xs. \<not> kequiv K key (fst e)" using set by (simp add: find_None_iff2 find_None_iff) (metis fst_conv surj_pair)
    with assms(3) have "r = None" by (auto simp: find_ok_def split: option.splits)
    with None show ?thesis by simp
  next
    case (Some e)
    then have e: "e \<in> set es" "kequiv K key (fst e)" by (auto simp: find_Some_iff)
    with assms(3) set obtain f where f: "r = Some f" "f \<in> set es" "kequiv K key (fst f)"
      by (auto simp: find_ok_def split: option.splits)
    have "f = e"
    proof (rule ccontr)
      assume "f \<noteq> e"
      with f(2) have "f \<in># mset es - {#e#}" by (simp add: in_diff_count)
      with ref_unique [OF assms(1,2) _ e(2)] e(1) f(3) show False by simp
    qed
    with f(1) Some show ?thesis by simp
  qed
qed

text \<open>What a map with the contents of an association list shows of itself.\<close>

lemma map_shows:
  assumes m: "phm_ok m" and es: "ref_ok es" and eq: "mset (contents m) = mset es"
  shows "pcount m = length es"
    and "\<forall>k. good k \<longrightarrow> PHM_EntryAt K m k = Some (find (\<lambda>e. kequiv K k (fst e)) es)"
    and "\<exists>l. walk (pcount m) (PHM_Seq m) = Some l \<and> mset l = mset es"
proof -
  show "pcount m = length es" using m mset_eq_length [OF eq] by (simp add: phm_ok_def)
  show "\<forall>k. good k \<longrightarrow> PHM_EntryAt K m k = Some (find (\<lambda>e. kequiv K k (fst e)) es)"
  proof (intro allI impI)
    fix k
    assume k: "good k"
    from PHM_EntryAt_ok [OF m k] obtain r where "PHM_EntryAt K m k = Some r" "find_ok k (contents m) r" .
    with find_ref [OF es k _ eq] show "PHM_EntryAt K m k = Some (find (\<lambda>e. kequiv K k (fst e)) es)" by simp
  qed
  have "walk (pcount m) (PHM_Seq m) = Some (contents m)"
    using m by (intro walk_of PHM_Seq_of) (simp add: phm_ok_def)
  with eq show "\<exists>l. walk (pcount m) (PHM_Seq m) = Some l \<and> mset l = mset es" by blast
qed

lemma history_ok:
  assumes "\<And>v w. vsame K v w \<noteq> None" and "hash_fuel \<le> fuel"
  shows "\<forall>op\<in>set ops. good (hkey op) \<Longrightarrow> phm_ok m \<Longrightarrow> ref_ok es \<Longrightarrow> mset (contents m) = mset es \<Longrightarrow>
    \<exists>m'. run_hash K fuel ops m = Inr m' \<and> phm_ok m' \<and> ref_ok (run_ref K ops es) \<and>
      mset (contents m') = mset (run_ref K ops es)"
proof (induction ops arbitrary: m es)
  case (Cons op ops)
  have k: "good (hkey op)" using Cons.prems(1) by simp
  show ?case
  proof (cases op)
    case (HAssoc key val)
    with k have "good key" by simp
    from PHM_Assoc_ok [OF Cons.prems(2) this assms(2,1), of val] obtain m' a where
      m': "PHM_Assoc K fuel m key val = Inr m'" "phm_ok m'" "inserted K key val (mset es) (mset (contents m')) a"
      unfolding Cons.prems(4) by blast
    have "mset (contents m') = mset (ref_assoc K key val es)"
      using inserted_unique [OF Cons.prems(3) _ m'(3)] ref_assoc_inserted k HAssoc by (metis hop.sel(1))
    with Cons.IH [OF _ m'(2) ref_assoc_ok [OF Cons.prems(3)], of key val] Cons.prems(1) m'(1) HAssoc
    show ?thesis by simp
  next
    case (HWithout key)
    with k have "good key" by simp
    from PHM_Without_ok [OF Cons.prems(2) this] obtain m' where
      m': "PHM_Without K m key = Some m'" "phm_ok m'"
      "(\<forall>e\<in>set (contents m). \<not> kequiv K key (fst e)) \<and> m' = m \<or> removed K key (mset es) (mset (contents m'))"
      unfolding Cons.prems(4) by blast
    have "mset (contents m') = mset (ref_without K key es)"
      using m'(3)
    proof
      assume "(\<forall>e\<in>set (contents m). \<not> kequiv K key (fst e)) \<and> m' = m"
      moreover have "set (contents m) = set es" using Cons.prems(4) by (metis set_mset_mset)
      ultimately show ?thesis using Cons.prems(4) by (simp add: ref_without_def filter_id_conv)
    qed (use removed_ref [OF Cons.prems(3)] k HWithout in simp)
    with Cons.IH [OF _ m'(2) ref_without_ok [OF Cons.prems(3)], of key] Cons.prems(1) m'(1) HWithout
    show ?thesis by simp
  qed
qed simp

end

subsection \<open>Maps keyed by the language's values\<close>

text \<open>Two references to one object are equal as values here, so Go's \<open>==\<close> is equality; none of the
  values of the model makes it panic.\<close>

definition val_ops :: "(val \<Rightarrow> 32 word) \<Rightarrow> (val, val) kops" where
  "val_ops ref = \<lparr>kequiv = Equiv, khash = HashEq ref, vsame = (\<lambda>v w. Some (v = w)), knil = VNil, vnil = VNil\<rparr>"

lemma val_ops_kequiv [simp]: "kequiv (val_ops ref) = Equiv"
  by (simp add: val_ops_def)

lemma val_ops_khash [simp]: "khash (val_ops ref) = HashEq ref"
  by (simp add: val_ops_def)

lemma val_ops_total: "vsame (val_ops ref) v w \<noteq> None"
  by (simp add: val_ops_def)

interpretation data_map: hash_map "val_ops ref" data_ok
  by unfold_locales (auto simp: val_ops_def Equiv_abs intro: HashEq_abs)


text \<open>Two strings with the same hash, and a list put in and taken out under the equal vector.\<close>

definition demo_ops :: "(val, val) hop list" where
  "demo_ops =
     [HAssoc (VStr ''AaAa'') (VInt 1), HAssoc (VStr ''BBBB'') (VInt 2), HAssoc (VList None [VInt 1]) VNil,
      HWithout (VVec None [VInt 1]), HAssoc (VStr ''AaAa'') (VInt 3)]"

lemma demo_ops_run: "run_ref (val_ops ref) demo_ops [] = [(VStr ''AaAa'', VInt 3), (VStr ''BBBB'', VInt 2)]"
  by (simp add: demo_ops_def ref_without_def Equiv_simps)

lemma demo_ops_ok: "\<forall>op\<in>set demo_ops. data_ok (hkey op)"
  by (simp add: demo_ops_def data_ok_simps)


end
