(* ===== verification/HashBuildSpec.thy ===== *)
theory HashBuildSpec
  imports HashBuild HashMapProps
begin

text \<open>
  The bulk build is correct as long as no three different keys of the map have the same hash:
  what it returns means the same association list as one insertion after the other.
  When three do, it panics.
\<close>

unbundle bit_operations_syntax

subsection \<open>A node without its unused slots\<close>

fun tight :: "('k, 'v) hnode \<Rightarrow> ('k, 'v) hnode" and tight_entry :: "('k, 'v) hentry \<Rightarrow> ('k, 'v) hentry" where
  "tight (BitmapIndexedNode ed bm arr) = BitmapIndexedNode False bm (take (bitCount bm) (map tight_entry arr))"
| "tight (ArrayNode ed cnt arr) = ArrayNode False cnt (map (map_option tight) arr)"
| "tight (HashCollisionNode ed h cnt ps) = HashCollisionNode False h cnt (take cnt ps)"
| "tight_entry (Leaf k v) = Leaf k v"
| "tight_entry (Child c) = Child (tight c)"

text \<open>Arrays are long enough; a collision node is owned and has exactly its two pairs.\<close>

fun sized :: "('k, 'v) hnode \<Rightarrow> bool" and esized :: "nat \<Rightarrow> ('k, 'v) hentry list \<Rightarrow> bool"
  and csized :: "('k, 'v) hnode option list \<Rightarrow> bool" where
  "sized (BitmapIndexedNode ed bm arr) \<longleftrightarrow> esized (bitCount bm) arr"
| "sized (ArrayNode ed cnt arr) \<longleftrightarrow> csized arr"
| "sized (HashCollisionNode ed h cnt ps) \<longleftrightarrow> ed \<and> cnt = 2 \<and> length ps = 2"
| "esized 0 es \<longleftrightarrow> True"
| "esized (Suc n) [] \<longleftrightarrow> False"
| "esized (Suc n) (Leaf k v # es) \<longleftrightarrow> esized n es"
| "esized (Suc n) (Child c # es) \<longleftrightarrow> sized c \<and> esized n es"
| "csized [] \<longleftrightarrow> True"
| "csized (None # cs) \<longleftrightarrow> csized cs"
| "csized (Some c # cs) \<longleftrightarrow> sized c \<and> csized cs"

definition entry_sized :: "('k, 'v) hentry \<Rightarrow> bool" where
  "entry_sized e \<longleftrightarrow> (\<forall>c. e = Child c \<longrightarrow> sized c)"

lemma entry_sized_simps [simp]: "entry_sized (Leaf k v)" "entry_sized (Child c) = sized c"
  by (simp_all add: entry_sized_def)

lemma esized_iff: "esized n es \<longleftrightarrow> n \<le> length es \<and> (\<forall>e\<in>set (take n es). entry_sized e)"
proof (induction n arbitrary: es)
  case (Suc n)
  show ?case
  proof (cases es)
    case (Cons e es')
    with Suc show ?thesis by (cases e) auto
  qed simp
qed simp

lemma csized_iff: "csized cs \<longleftrightarrow> (\<forall>c. Some c \<in> set cs \<longrightarrow> sized c)"
proof (induction cs)
  case (Cons c cs)
  then show ?case by (cases c) auto
qed simp

lemma finalize_sized:
  fixes n :: "('k, 'v) hnode" and es :: "('k, 'v) hentry list" and cs :: "('k, 'v) hnode option list"
  shows "sized n \<Longrightarrow> finalizeHashNode n = Some (tight n)"
  "esized m es \<Longrightarrow> finalize_entries m es = Some (take m (map tight_entry es))"
  "csized cs \<Longrightarrow> finalize_children cs = Some (map (map_option tight) cs)"
  by (induction n and m es and cs rule: sized_esized_csized.induct) auto

lemma take_tight: "take n (map tight_entry es) = map tight_entry (take n es)"
  by (simp add: take_map)

subsection \<open>In-place updates\<close>

lemma tight_set:
  "i < bitCount bm \<Longrightarrow> tight (BitmapIndexedNode ed bm (arr[i := e])) =
     BitmapIndexedNode False bm ((take (bitCount bm) (map tight_entry arr))[i := tight_entry e])"
  by (simp add: map_update take_update_swap)

lemma sized_set:
  "esized n arr \<Longrightarrow> i < n \<Longrightarrow> entry_sized e \<Longrightarrow> esized n (arr[i := e])"
  by (auto simp: esized_iff take_update_swap dest: subsetD [OF set_update_subset_insert])

lemma ensureEditable_ok:
  assumes "esized (bitCount bm) arr"
  obtains arr' where "ensureEditable K ed bm arr = Inr arr'" and "esized (bitCount bm) arr'"
    and "take (bitCount bm) arr' = take (bitCount bm) arr" and "bitCount bm \<le> length arr'"
    and "bitCount bm < length arr \<Longrightarrow> bitCount bm < length arr'"
proof (cases ed)
  case True
  with assms that [of arr] show thesis by (simp add: ensureEditable_def esized_iff)
next
  case False
  with assms that [of "take (bitCount bm) arr @ replicate 4 (pad K)"] show thesis
    by (simp add: ensureEditable_def esized_iff Let_def)
qed

lemma editAndSet_ok:
  assumes "esized (bitCount bm) arr" and "i < bitCount bm" and "entry_sized e"
  obtains r where "editAndSet K ed bm arr i e = Inr r" and "sized (tnode r)"
    and "tight (tnode r) = BitmapIndexedNode False bm ((take (bitCount bm) (map tight_entry arr))[i := tight_entry e])"
proof -
  from ensureEditable_ok [OF assms(1)] obtain arr' where arr': "ensureEditable K ed bm arr = Inr arr'"
    "esized (bitCount bm) arr'" "take (bitCount bm) arr' = take (bitCount bm) arr" "bitCount bm \<le> length arr'" .
  have "editAndSet K ed bm arr i e = Inr (returned ed (BitmapIndexedNode True bm (arr'[i := e])))"
    using arr'(1,4) assms(2) by (simp add: editAndSet_def slice_set_ok)
  moreover have "tight (BitmapIndexedNode True bm (arr'[i := e])) =
      BitmapIndexedNode False bm ((take (bitCount bm) (map tight_entry arr))[i := tight_entry e])"
    unfolding tight_set [OF assms(2)] take_tight arr'(3) ..
  moreover have "sized (BitmapIndexedNode True bm (arr'[i := e]))"
    using sized_set [OF arr'(2) assms(2,3)] by simp
  ultimately show thesis using that by simp
qed

subsection \<open>Insertion\<close>

text \<open>The entries with the hash of a key that are under other keys.\<close>

definition crowd :: "('k, 'v) kops \<Rightarrow> 'k \<Rightarrow> ('k \<times> 'v) list \<Rightarrow> nat" where
  "crowd K key es = length (filter (\<lambda>e. khash K (fst e) = khash K key \<and> \<not> kequiv K key (fst e)) es)"

lemma crowd_mset: "crowd K key es = size (filter_mset (\<lambda>e. khash K (fst e) = khash K key \<and> \<not> kequiv K key (fst e)) (mset es))"
  by (simp add: crowd_def flip: mset_filter)

lemma crowd_add: "mset es = mset cs + R \<Longrightarrow> crowd K key cs \<le> crowd K key es"
  by (simp add: crowd_mset)

context hash_map
begin

definition tassoc_ok :: "nat \<Rightarrow> 'k \<Rightarrow> 'v \<Rightarrow> ('k, 'v) hnode \<Rightarrow> herr + ('k, 'v) hnode tupd \<times> bool \<Rightarrow> bool" where
  "tassoc_ok s key val n res \<longleftrightarrow>
     (case res of
        Inl HFuel \<Rightarrow> False
      | Inl HPanic \<Rightarrow> 2 \<le> crowd K key (elems (tight n))
      | Inr (r, added) \<Rightarrow>
          sized (tnode r) \<and> node_ok s (tight (tnode r)) \<and>
          inserted K key val (mset (elems (tight n))) (mset (elems (tight (tnode r)))) added)"

definition trec_ok :: "nat \<Rightarrow> ('k, 'v) tassocfn \<Rightarrow> bool" where
  "trec_ok fuel rec \<longleftrightarrow>
     (\<forall>n s key val. sized n \<and> node_ok s (tight n) \<and> agree s key (tight n) \<and> good key \<and> need s n \<le> fuel \<longrightarrow>
        tassoc_ok s key val n (rec n s (khash K key) key val))"

lemma trec_empty:
  assumes "trec_ok fuel rec" and "5 dvd s" and "s \<le> 30" and "good key" and "2 * (40 - s) \<le> fuel"
  obtains r where "rec (BitmapIndexedNode ed 0 []) s (khash K key) key val = Inr (r, True)" and "sized (tnode r)"
    and "node_ok s (tight (tnode r))" and "mset (elems (tight (tnode r))) = {#(key, val)#}"
proof -
  have "tassoc_ok s key val (BitmapIndexedNode ed 0 []) (rec (BitmapIndexedNode ed 0 []) s (khash K key) key val)"
    using assms empty_ok [of s] by (simp add: trec_ok_def agree_def need_def emptyIndexedNode_def bitCount.simps)
  then show thesis
    using that by (auto simp: tassoc_ok_def inserted_def crowd_def split: sum.splits herr.splits prod.splits if_splits)
qed

lemma need_tight [simp]: "need s (tight n) = need s n"
  by (cases n) (simp_all add: need_def)

lemma createNodeT_ok:
  assumes rec: "trec_ok fuel rec" and s: "5 dvd s" "s \<le> 35" and k: "good k1" "good k2" "\<not> kequiv K k2 k1"
    and agree: "take_bit s (khash K k1) = take_bit s (khash K k2)" and fuel: "2 * (40 - s) + 1 \<le> fuel"
  obtains n where "createNodeT K rec s k1 v1 (khash K k2) k2 v2 = Inr n" and "sized n" and "node_ok s (tight n)"
    and "mset (elems (tight n)) = {#(k1, v1), (k2, v2)#}"
proof (cases "khash K k1 = khash K k2")
  case True
  have "\<not> kequiv K k1 k2" using equiv_sym k by blast
  with True that s k show thesis by (simp add: createNodeT_def)
next
  case False
  have "s \<noteq> 35" using agree False agree_all by blast
  with s have "s \<le> 30" by presburger
  from trec_empty [OF rec s(1) this k(1), where ed = True and val = v1] fuel obtain r
    where r: "rec (BitmapIndexedNode True 0 []) s (khash K k1) k1 v1 = Inr (r, True)" "sized (tnode r)"
      "node_ok s (tight (tnode r))" "mset (elems (tight (tnode r))) = {#(k1, v1)#}" by auto
  let ?n1 = "tnode r"
  have set1: "set (elems (tight ?n1)) = {(k1, v1)}" by (rule set_of_mset1 [OF r(4)])
  have "need s ?n1 \<le> fuel" using fuel by (auto simp: need_def split: hnode.split)
  then have "tassoc_ok s k2 v2 ?n1 (rec ?n1 s (khash K k2) k2 v2)"
    using rec r(2,3) k set1 agree by (simp add: trec_ok_def agree_def)
  moreover have "crowd K k2 (elems (tight ?n1)) \<le> 1"
    unfolding crowd_mset r(4) by simp
  ultimately obtain r2 where "rec ?n1 s (khash K k2) k2 v2 = Inr (r2, True)" "sized (tnode r2)" "node_ok s (tight (tnode r2))"
    "mset (elems (tight (tnode r2))) = {#(k1, v1), (k2, v2)#}"
    using k(3) set1 r(4)
    by (auto simp: tassoc_ok_def inserted_def add_mset_commute split: sum.splits herr.splits prod.splits if_splits)
  with that r(1) False show thesis by (simp add: createNodeT_def)
qed

lemma tassoc_child:
  assumes rec: "trec_ok fuel rec" and c: "sized c" "node_ok (s + 5) (tight c)" "need (s + 5) c \<le> fuel" "agree (s + 5) key (tight c)"
    and "good key" and R: "\<forall>e\<in>#R. \<not> kequiv K key (fst e)" and n: "mset (elems (tight n)) = mset (elems (tight c)) + R"
    and step: "\<And>r. sized (tnode r) \<Longrightarrow> node_ok (s + 5) (tight (tnode r)) \<Longrightarrow>
        (\<forall>e\<in>set (elems (tight (tnode r))). mask (khash K (fst e)) s = mask (khash K key) s) \<Longrightarrow>
        \<exists>u. g r = Inr u \<and> sized (tnode u) \<and> node_ok s (tight (tnode u)) \<and>
          mset (elems (tight (tnode u))) = mset (elems (tight (tnode r))) + R"
    and m: "\<forall>e\<in>set (elems (tight c)). mask (khash K (fst e)) s = mask (khash K key) s"
  shows "tassoc_ok s key val n
    (bindE (rec c (s + 5) (khash K key) key val) (\<lambda>(r, added). bindE (g r) (\<lambda>u. Inr (u, added))))"
proof -
  have ok: "tassoc_ok (s + 5) key val c (rec c (s + 5) (khash K key) key val)"
    using rec c \<open>good key\<close> by (simp add: trec_ok_def)
  show ?thesis
  proof (cases "rec c (s + 5) (khash K key) key val")
    case (Inl err)
    with ok crowd_add [OF n, of K key] show ?thesis by (cases err) (auto simp: tassoc_ok_def)
  next
    case (Inr ra)
    obtain r a where ra: "ra = (r, a)" by (cases ra)
    with ok Inr have r: "sized (tnode r)" "node_ok (s + 5) (tight (tnode r))"
      "inserted K key val (mset (elems (tight c))) (mset (elems (tight (tnode r)))) a" by (simp_all add: tassoc_ok_def)
    have "\<forall>e\<in>set (elems (tight (tnode r))). mask (khash K (fst e)) s = mask (khash K key) s"
      using inserted_slot [OF r(3)] m by simp
    from step [OF r(1,2) this] obtain u where u: "g r = Inr u" "sized (tnode u)" "node_ok s (tight (tnode u))"
      "mset (elems (tight (tnode u))) = mset (elems (tight (tnode r))) + R" by blast
    with inserted_frame [OF r(3) R] n ra Inr show ?thesis by (simp add: tassoc_ok_def)
  qed
qed

lemma bitmap_length: "node_ok s (BitmapIndexedNode ed bm arr) \<Longrightarrow> length arr = bitCount bm"
  using small_bits [of bm s] list_all2_lengthD [of "slot_ok s" "bits bm" arr]
  by (simp add: entries_ok_iff bitCount_bits)

lemma assocT_bitmap_hit:
  assumes rec: "trec_ok fuel rec" and n: "node_ok s (tight (BitmapIndexedNode ed bm arr))" "sized (BitmapIndexedNode ed bm arr)"
    and a: "agree s key (tight (BitmapIndexedNode ed bm arr))" and k: "good key" and fuel: "2 * (40 - s) \<le> Suc fuel"
    and hit: "bit bm (mask (khash K key) s)" and total: "\<And>v w. vsame K v w \<noteq> None"
  shows "tassoc_ok s key val (BitmapIndexedNode ed bm arr) (assocT_bitmap K rec ed bm arr s (khash K key) key val)"
proof -
  let ?i = "mask (khash K key) s" and ?arr = "take (bitCount bm) (map tight_entry arr)" and ?n = "BitmapIndexedNode ed bm arr"
  let ?idx = "index bm (2 ^ ?i)"
  have n': "node_ok s (BitmapIndexedNode False bm ?arr)" using n(1) by simp
  have s: "5 dvd s" "s \<le> 30" using n' by simp_all
  from bitmap_hit [OF n' hit] obtain xs e ys where parts: "?arr = xs @ e # ys" "length xs = ?idx" "slot_ok s ?i e"
    "list_all2 (slot_ok s) (below bm ?i) xs" "list_all2 (slot_ok s) (above bm ?i) ys" .
  let ?R = "mset (concat (map eelems xs)) + mset (concat (map eelems ys))"
  note R = around_slot [OF k parts(4,5)]
  have put: "node_ok s (BitmapIndexedNode False bm (xs @ e' # ys))" if "slot_ok s ?i e'" for e'
    by (rule bitmap_put [OF n' hit that parts(4,5)])
  have upd: "?arr[?idx := e'] = xs @ e' # ys" for e' using parts(1,2) by (metis list_update_length)
  have es: "esized (bitCount bm) arr" using n(2) by simp
  have idx: "?idx < bitCount bm" "?idx < length arr" and e: "e = tight_entry (arr ! ?idx)"
  proof -
    have "length ?arr = bitCount bm" by (rule bitmap_length [OF n'])
    with parts(1,2) show "?idx < bitCount bm" by (metis length_append length_Cons less_add_Suc1 add_Suc_right)
    with es show l: "?idx < length arr" by (simp add: esized_iff)
    have "e = ?arr ! ?idx" using parts(1,2) by (metis nth_append_length)
    with l \<open>?idx < bitCount bm\<close> show "e = tight_entry (arr ! ?idx)" by simp
  qed
  have get: "slice_get arr ?idx = Some (arr ! ?idx)" using idx by (simp add: slice_get_ok)
  have "arr ! ?idx \<in> set (take (bitCount bm) arr)" using idx by (auto simp: in_set_conv_nth intro!: exI [of _ ?idx])
  then have ent: "entry_sized (arr ! ?idx)" using es by (simp add: esized_iff)
  have nz: "0 < bm AND 2 ^ ?i" using hit bit_test [of bm ?i] by simp
  have tn: "tight ?n = BitmapIndexedNode False bm (xs @ e # ys)" using parts(1) by simp
  have set: "\<exists>r. editAndSet K ed bm arr ?idx e' = Inr r \<and> sized (tnode r) \<and> tight (tnode r) = BitmapIndexedNode False bm (xs @ tight_entry e' # ys)"
    if "entry_sized e'" for e'
    using editAndSet_ok [OF es idx(1) that] unfolding upd by metis
  show ?thesis
  proof (cases "arr ! ?idx")
    case (Child c)
    let ?g = "\<lambda>r. case r of TSame c' \<Rightarrow> Inr (TSame (BitmapIndexedNode ed bm (arr[?idx := Child c'])))
                | TNew c' \<Rightarrow> editAndSet K ed bm arr ?idx (Child c')"
    have c: "sized c" "node_ok (s + 5) (tight c)" "\<forall>e\<in>set (elems (tight c)). mask (khash K (fst e)) s = ?i"
      using parts(3) Child e ent by simp_all
    have "agree (s + 5) key (tight c)" by (rule agree_child [OF a _ c(3)]) (auto simp: tn e Child simp del: tight.simps)
    moreover have "need (s + 5) c \<le> fuel" using fuel s by (auto simp: need_def split: hnode.split)
    moreover have "mset (elems (tight ?n)) = mset (elems (tight c)) + ?R"
      unfolding tn by (simp add: e Child bitmap_elems del: elems.simps)
    moreover have "\<exists>u. ?g r = Inr u \<and> sized (tnode u) \<and> node_ok s (tight (tnode u)) \<and>
        mset (elems (tight (tnode u))) = mset (elems (tight (tnode r))) + ?R"
      if r: "sized (tnode r)" "node_ok (s + 5) (tight (tnode r))" "\<forall>e\<in>set (elems (tight (tnode r))). mask (khash K (fst e)) s = ?i" for r
    proof -
      have slot: "slot_ok s ?i (tight_entry (Child (tnode r)))" using r by simp
      have "\<exists>u. ?g r = Inr u \<and> sized (tnode u) \<and> tight (tnode u) = BitmapIndexedNode False bm (xs @ tight_entry (Child (tnode r)) # ys)"
      proof (cases r)
        case (TSame c')
        have "sized (BitmapIndexedNode ed bm (arr[?idx := Child c']))"
          using sized_set [OF es idx(1)] r(1) TSame by simp
        moreover have "tight (BitmapIndexedNode ed bm (arr[?idx := Child c'])) = BitmapIndexedNode False bm (xs @ tight_entry (Child c') # ys)"
          unfolding tight_set [OF idx(1)] upd ..
        ultimately show ?thesis using TSame by simp
      next
        case (TNew c')
        with set [of "Child c'"] r(1) show ?thesis by simp
      qed
      with put [OF slot] show ?thesis
        by (auto simp: bitmap_elems simp del: elems.simps hwf.simps tight.simps)
    qed
    ultimately have ok: "tassoc_ok s key val ?n
      (bindE (rec c (s + 5) (khash K key) key val) (\<lambda>(r, added). bindE (?g r) (\<lambda>u. Inr (u, added))))"
      by (intro tassoc_child [OF rec c(1,2) _ _ k R _ _ c(3)]) auto
    have g: "(\<lambda>(r, added). bindE (?g r) (\<lambda>u. Inr (u, added))) =
        (\<lambda>(r, added). case r of TSame c' \<Rightarrow> Inr (TSame (BitmapIndexedNode ed bm (arr[?idx := Child c'])), added)
            | TNew c' \<Rightarrow> bindE (editAndSet K ed bm arr ?idx (Child c')) (\<lambda>u. Inr (u, added)))"
      by (auto simp: fun_eq_iff split: tupd.split)
    show ?thesis using ok [unfolded g] Child get nz by (simp add: assocT_bitmap_def Let_def)
  next
    case (Leaf k0 v0)
    then have leaf: "good k0" "mask (khash K k0) s = ?i" using parts(3) e by simp_all
    have elems: "mset (elems (tight ?n)) = add_mset (k0, v0) ?R"
      unfolding tn by (simp add: e Leaf bitmap_elems del: elems.simps)
    show ?thesis
    proof (cases "kequiv K key k0")
      case eq: True
      have ins: "inserted K key val (add_mset (k0, v0) ?R) (add_mset (k0, val) ?R) False"
        using eq by (auto simp: inserted_def)
      from total obtain same where same: "vsame K val v0 = Some same" by blast
      show ?thesis
      proof (cases same)
        case True
        with same have "val = v0" using same_eq by simp
        with ins elems n True same eq Leaf get nz show ?thesis
          by (simp add: assocT_bitmap_def Let_def tassoc_ok_def del: elems.simps hwf.simps tight.simps sized.simps)
      next
        case False
        have put': "node_ok s (BitmapIndexedNode False bm (xs @ Leaf k0 val # ys))" using leaf by (intro put) simp
        from set [of "Leaf k0 val"] obtain u where u: "editAndSet K ed bm arr ?idx (Leaf k0 val) = Inr u" "sized (tnode u)"
          "tight (tnode u) = BitmapIndexedNode False bm (xs @ Leaf k0 val # ys)" by auto
        have res: "assocT_bitmap K rec ed bm arr s (khash K key) key val = Inr (u, False)"
          using Leaf get nz eq same False u(1) by (simp add: assocT_bitmap_def Let_def)
        show ?thesis
          unfolding res tassoc_ok_def using u(2,3) put' ins elems by (simp add: bitmap_elems del: elems.simps hwf.simps tight.simps)
      qed
    next
      case neq: False
      have "(k0, v0) \<in># mset (elems (tight ?n))" unfolding elems by simp
      then have "take_bit s (khash K k0) = take_bit s (khash K key)" using a by (auto simp: agree_def simp del: elems.simps tight.simps)
      then have "take_bit (s + 5) (khash K k0) = take_bit (s + 5) (khash K key)" using leaf(2) by (rule agree_next)
      moreover have "5 dvd s + 5" "s + 5 \<le> 35" "2 * (40 - (s + 5)) + 1 \<le> fuel" using s fuel by auto
      ultimately obtain c where c: "createNodeT K rec (s + 5) k0 v0 (khash K key) key val = Inr c" "sized c" "node_ok (s + 5) (tight c)"
        "mset (elems (tight c)) = {#(k0, v0), (key, val)#}"
        using createNodeT_ok [OF rec _ _ leaf(1) k neq, of "s + 5" v0 val] by metis
      have "set (elems (tight c)) = {(k0, v0), (key, val)}" using c(4) by (metis set_mset_add_mset_insert set_mset_empty set_mset_mset)
      with c(3) leaf have "slot_ok s ?i (Child (tight c))" by auto
      note node = put [OF this]
      from set [of "Child c"] c(2) obtain u where u: "editAndSet K ed bm arr ?idx (Child c) = Inr u" "sized (tnode u)"
        "tight (tnode u) = BitmapIndexedNode False bm (xs @ Child (tight c) # ys)" by auto
      have "inserted K key val (add_mset (k0, v0) ?R) (add_mset (k0, v0) (add_mset (key, val) ?R)) True"
        using neq R by (auto simp: inserted_def add_mset_commute)
      moreover have "assocT_bitmap K rec ed bm arr s (khash K key) key val = Inr (u, True)"
        using Leaf get nz neq c(1) u(1) by (simp add: assocT_bitmap_def Let_def)
      ultimately show ?thesis using node c(4) elems u(2,3)
        by (simp add: tassoc_ok_def bitmap_elems del: elems.simps hwf.simps tight.simps)
    qed
  qed
qed

text \<open>The loop over the array, as the loop of the persistent node on the entries without their
  unused slots; \<open>settle\<close> answers insertions in the empty node from the build.\<close>

definition settle :: "nat \<Rightarrow> ('k, 'v) tassocfn \<Rightarrow> ('k, 'v) assocfn" where
  "settle fuel rec n s h key val =
     (if n = emptyIndexedNode then bindE (rec n s h key val) (\<lambda>(r, a). Inr (New (tight (tnode r)), a))
      else node_assoc K fuel n s h key val)"

lemma tight_empty [simp]: "tight emptyIndexedNode = emptyIndexedNode" "sized emptyIndexedNode"
  by (simp_all add: emptyIndexedNode_def bitCount.simps)

lemma settle_ok:
  assumes "trec_ok fuel rec"
  shows "rec_ok fuel (settle fuel rec)"
  unfolding rec_ok_def
proof (intro allI impI, elim conjE)
  fix n s key val
  assume n: "node_ok s n" "agree s key n" "good key" "need s n \<le> fuel"
  show "assoc_ok s key val n (settle fuel rec n s (khash K key) key val)"
  proof (cases "n = emptyIndexedNode")
    case True
    with assms n have "tassoc_ok s key val emptyIndexedNode (rec emptyIndexedNode s (khash K key) key val)"
      by (simp add: trec_ok_def)
    with True show ?thesis
      by (auto simp: settle_def tassoc_ok_def assoc_ok_def upd_node_def crowd_def split: sum.splits herr.splits)
  next
    case False
    with node_assoc_ok [OF n] show ?thesis by (simp add: settle_def)
  qed
qed

lemma spreadT_spread:
  "spread K (settle fuel rec) s bm is (map tight_entry es) (map (map_option tight) cs) a =
     bindE (spreadT K rec s bm is es cs a) (\<lambda>(cs', a'). Inr (map (map_option tight) cs', a'))"
proof (induction "is" arbitrary: es cs a)
  case (Cons i "is")
  show ?case
  proof (cases es)
    case es: (Cons e es')
    show ?thesis
    proof (cases e)
      case (Child c)
      with es Cons [of es] Cons [of es' "cs[i := Some c]"] show ?thesis by (simp add: map_update)
    next
      case (Leaf k v)
      show ?thesis
      proof (cases "rec emptyIndexedNode s (khash K k) k v")
        case (Inr ra)
        obtain r b where "ra = (r, b)" by (cases ra)
        with es Leaf Inr Cons [of es] Cons [of es' "cs[i := Some (tnode r)]" "a \<or> b"] show ?thesis
          by (simp add: settle_def upd_node_def map_update)
      qed (use es Leaf Cons [of es] in \<open>simp add: settle_def\<close>)
    qed
  qed (use Cons [of es] in simp)
qed simp

lemma csized_update: "csized cs \<Longrightarrow> sized c \<Longrightarrow> csized (cs[i := Some c])"
  using set_update_subset_insert [of cs i "Some c"] by (auto simp: csized_iff)

lemma spreadT_sized:
  assumes rec: "trec_ok fuel rec" and s: "5 dvd s" "s \<le> 30" "2 * (40 - s) \<le> fuel"
  shows "\<forall>e\<in>set es. entry_sized e \<and> (\<forall>k v. e = Leaf k v \<longrightarrow> good k) \<Longrightarrow> csized cs \<Longrightarrow>
    spreadT K rec s bm is es cs a = Inr (cs', a') \<Longrightarrow> csized cs'"
proof (induction "is" arbitrary: es cs a)
  case (Cons i "is")
  show ?case
  proof (cases "drop_bit i bm AND 1 = 0")
    case True
    with Cons show ?thesis by simp
  next
    case False
    with Cons.prems(3) obtain e es' where es: "es = e # es'" by (cases es) auto
    show ?thesis
    proof (cases e)
      case (Child c)
      with Cons.prems es False have "spreadT K rec s bm is es' (cs[i := Some c]) a = Inr (cs', a')" by simp
      from Cons.IH [OF _ csized_update [OF Cons.prems(2), of c i] this] Cons.prems(1) es Child show ?thesis by simp
    next
      case (Leaf k v)
      with Cons.prems(1) es have "good k" by simp
      from trec_empty [OF rec s(1,2) this s(3), where ed = False and val = v, folded emptyIndexedNode_def] obtain r where
        r: "rec emptyIndexedNode s (khash K k) k v = Inr (r, True)" "sized (tnode r)" by metis
      with Cons.prems es False Leaf have "spreadT K rec s bm is es' (cs[i := Some (tnode r)]) True = Inr (cs', a')" by simp
      from Cons.IH [OF _ csized_update [OF Cons.prems(2) r(2), of i] this] Cons.prems(1) es show ?thesis by simp
    qed
  qed
qed simp

lemma assocT_bitmap_miss:
  assumes rec: "trec_ok fuel rec" and n: "node_ok s (tight (BitmapIndexedNode ed bm arr))" "sized (BitmapIndexedNode ed bm arr)"
    and k: "good key" and fuel: "2 * (40 - s) \<le> Suc fuel" and miss: "\<not> bit bm (mask (khash K key) s)"
  shows "tassoc_ok s key val (BitmapIndexedNode ed bm arr) (assocT_bitmap K rec ed bm arr s (khash K key) key val)"
proof -
  let ?i = "mask (khash K key) s" and ?arr = "take (bitCount bm) (map tight_entry arr)" and ?n = "BitmapIndexedNode ed bm arr"
  let ?idx = "index bm (2 ^ ?i)"
  have n': "node_ok s (BitmapIndexedNode False bm ?arr)" using n(1) by simp
  have s: "5 dvd s" "s \<le> 30" "bm < 2 ^ width s" using n' by simp_all
  from bitmap_miss [OF n' miss mask_less] obtain xs ys where parts: "?arr = xs @ ys" "length xs = ?idx"
    "list_all2 (slot_ok s) (below bm ?i) xs" "list_all2 (slot_ok s) (above bm ?i) ys" .
  let ?R = "mset (concat (map eelems xs)) + mset (concat (map eelems ys))"
  have tn: "tight ?n = BitmapIndexedNode False bm (xs @ ys)" using parts(1) by simp
  have ins: "inserted K key val (mset (elems (tight ?n))) (add_mset (key, val) ?R) True"
    using around_slot [OF k parts(3,4)] unfolding tn by (simp add: inserted_def)
  have leaf: "slot_ok s ?i (Leaf key val)" using k by simp
  have zero: "bm AND 2 ^ ?i = 0" using miss bit_test by blast
  have es: "esized (bitCount bm) arr" using n(2) by simp
  have len: "length (xs @ ys) = bitCount bm" using bitmap_length [OF n'] parts(1) by simp
  then have idx: "?idx \<le> bitCount bm" using parts(2) by simp
  have add: "node_ok s (BitmapIndexedNode False (bm OR 2 ^ ?i) (xs @ Leaf key val # ys))"
    by (rule bitmap_add [OF n' mask_width leaf parts(3,4)])
  then have cnt: "bitCount (bm OR 2 ^ ?i) = Suc (bitCount bm)"
    using bitmap_length [OF add] len by simp
  text \<open>An array that holds the pairs with the new one in its place.\<close>
  have placed: "sized m \<and> tight m = BitmapIndexedNode False (bm OR 2 ^ ?i) (xs @ Leaf key val # ys)"
    if e: "take (bitCount bm) e = take (bitCount bm) arr" "bitCount bm \<le> length e" and
      m: "m = BitmapIndexedNode True (bm OR 2 ^ ?i) (take ?idx e @ Leaf key val # drop ?idx (take (bitCount bm) e) @ rest)"
    for e rest m
  proof -
    have le: "length (take ?idx e) = ?idx" "length (drop ?idx (take (bitCount bm) e)) = bitCount bm - ?idx"
      using e(2) idx by simp_all
    have "?arr = map tight_entry (take (bitCount bm) e)" using e(1) by (simp add: take_map)
    moreover have "xs = take ?idx ?arr" "ys = drop ?idx ?arr" using parts(1,2) by simp_all
    ultimately have xy: "xs = map tight_entry (take ?idx e)" "ys = map tight_entry (drop ?idx (take (bitCount bm) e))"
      using idx by (simp_all add: take_map drop_map min_def)
    let ?l = "take ?idx e @ Leaf key val # drop ?idx (take (bitCount bm) e) @ rest"
    have t: "take (Suc (bitCount bm)) ?l = take ?idx e @ Leaf key val # drop ?idx (take (bitCount bm) e)"
      using le idx by (simp add: Suc_diff_le)
    have "tight m = BitmapIndexedNode False (bm OR 2 ^ ?i) (map tight_entry (take (Suc (bitCount bm)) ?l))"
      unfolding m by (simp only: tight.simps cnt take_map)
    with t xy have "tight m = BitmapIndexedNode False (bm OR 2 ^ ?i) (xs @ Leaf key val # ys)" by simp
    moreover have "\<forall>x\<in>set (take (bitCount bm) e). entry_sized x" using es e(1) by (simp add: esized_iff)
    then have "\<forall>x\<in>set (take (Suc (bitCount bm)) ?l). entry_sized x"
      unfolding t using set_take_subset_set_take [OF idx, of e] set_drop_subset [of ?idx "take (bitCount bm) e"] by auto
    moreover have "Suc (bitCount bm) \<le> length ?l" using le idx by simp
    ultimately show ?thesis unfolding m by (simp only: sized.simps esized_iff cnt)
  qed
  show ?thesis
  proof (cases "bitCount bm < length arr")
    case room: True
    from ensureEditable_ok [OF es, of K ed] room obtain e where e: "ensureEditable K ed bm arr = Inr e"
      "take (bitCount bm) e = take (bitCount bm) arr" "bitCount bm \<le> length e" by metis
    let ?m = "BitmapIndexedNode True (bm OR 2 ^ ?i) (take ?idx e @ Leaf key val # drop ?idx (take (bitCount bm) e) @ drop (bitCount bm + 1) e)"
    have "assocT_bitmap K rec ed bm arr s (khash K key) key val = Inr (returned ed ?m, True)"
      using room zero e(1) by (simp add: assocT_bitmap_def Let_def)
    with placed [OF e(2,3) refl, of "drop (bitCount bm + 1) e"] add ins show ?thesis
      by (simp add: tassoc_ok_def bitmap_elems del: elems.simps hwf.simps tight.simps sized.simps)
  next
    case full: False
    show ?thesis
    proof (cases "16 \<le> bitCount bm")
      case False
      have le: "bitCount bm \<le> length arr" using es by (simp add: esized_iff)
      let ?m = "BitmapIndexedNode True (bm OR 2 ^ ?i) (take ?idx arr @ Leaf key val # drop ?idx (take (bitCount bm) arr) @ replicate 3 (pad K))"
      have "assocT_bitmap K rec ed bm arr s (khash K key) key val = Inr (TNew ?m, True)"
        using full False zero by (simp add: assocT_bitmap_def Let_def)
      with placed [OF refl le refl, of "replicate 3 (pad K)"] add ins show ?thesis
        by (simp add: tassoc_ok_def bitmap_elems del: elems.simps hwf.simps tight.simps sized.simps)
    next
      case True
      have arr: "length arr = bitCount bm" "?arr = map tight_entry arr" using full es by (simp_all add: esized_iff)
      have "s \<noteq> 30"
      proof
        assume "s = 30"
        then have "bitCount bm \<le> length [0..<4]" using bitCount_filter [of bm 4] s(3) by (simp add: width_def del: length_upt)
        with True show False by simp
      qed
      with s have s25: "s \<le> 25" "5 dvd s + 5" "s + 5 \<le> 30" by presburger+
      have f: "2 * (40 - (s + 5)) \<le> fuel" "2 * (40 - s) \<le> fuel + 10" using fuel s by auto
      from trec_empty [OF rec s25(2,3) k f(1), where ed = False and val = val, folded emptyIndexedNode_def] obtain r where
        r: "rec emptyIndexedNode (s + 5) (khash K key) key val = Inr (r, True)" "sized (tnode r)"
        "node_ok (s + 5) (tight (tnode r))" "mset (elems (tight (tnode r))) = {#(key, val)#}" .
      let ?c = "tight (tnode r)" and ?cs = "(replicate 32 None)[?i := Some (tnode r)]"
      have "slot_ok s ?i (Child ?c)" using r(3) set_of_mset1 [OF r(4)] by simp
      moreover have "kids s (replicate 32 None)" by (simp add: kids_def)
      ultimately have fill: "kids s ((replicate 32 None)[?i := Some ?c])"
        "kcount ((replicate 32 None)[?i := Some ?c]) = 1"
        "mset (concat (map oelems ((replicate 32 None)[?i := Some ?c]))) = {#(key, val)#}"
        using fill_slot [of s "replicate 32 None" ?i ?c] r(4) by (simp_all add: map_replicate_const)
      have slots: "list_all2 (slot_ok s) (filter (bit bm) [0..<32]) ?arr" using n' by (simp add: entries_ok_iff bits_def)
      moreover have "\<forall>j\<in>set [0..<32]. j < 32 \<and> (bit bm j \<longrightarrow> (replicate 32 None)[?i := Some ?c] ! j = None)"
        using miss by (auto simp: nth_list_update)
      ultimately obtain cs a' where spread:
        "spread K (settle fuel rec) (s + 5) bm [0..<32] ?arr ((replicate 32 None)[?i := Some ?c]) True = Inr (cs, a')"
        "a'" "kids s cs" "kcount cs = 1 + length ?arr"
        "mset (concat (map oelems cs)) = {#(key, val)#} + mset (concat (map eelems ?arr))"
        using spread_ok [OF settle_ok [OF rec] s(1) s25(1) f(2), of bm "[0..<32]" ?arr _ True] fill by (metis distinct_upt)
      have "map (map_option tight) ?cs = (replicate 32 None)[?i := Some ?c]" by (simp add: map_update)
      with spread(1) arr(2) have "spread K (settle fuel rec) (s + 5) bm [0..<32] (map tight_entry arr) (map (map_option tight) ?cs) True = Inr (cs, a')"
        by simp
      then obtain cs0 where cs0: "spreadT K rec (s + 5) bm [0..<32] arr ?cs True = Inr (cs0, a')" "cs = map (map_option tight) cs0"
        unfolding spreadT_spread by (auto simp: bindE_Inr_iff)
      have "csized cs0"
      proof (rule spreadT_sized [OF rec s25(2,3) f(1) _ _ cs0(1)])
        have "\<forall>e\<in>set arr. \<exists>i. slot_ok s i (tight_entry e)"
          using slots arr(2) by (fastforce simp: list_all2_conv_all_nth in_set_conv_nth)
        then show "\<forall>e\<in>set arr. entry_sized e \<and> (\<forall>k v. e = Leaf k v \<longrightarrow> good k)"
          using es arr(1) by (fastforce simp: esized_iff)
        show "csized ?cs" using r(2) by (intro csized_update) (simp_all add: csized_iff)
      qed
      moreover have "assocT_bitmap K rec ed bm arr s (khash K key) key val = Inr (TNew (ArrayNode False (bitCount bm + 1) cs0), True)"
        using full True zero r(1) cs0(1) spread(2) by (simp add: assocT_bitmap_def Let_def)
      moreover have "node_ok s (ArrayNode False (bitCount bm + 1) cs)"
        using spread(3,4) arr s s25 by (simp add: array_kids)
      moreover have "mset (elems (ArrayNode False (bitCount bm + 1) cs)) = add_mset (key, val) ?R"
        using spread(5) by (simp add: parts(1))
      ultimately show ?thesis using ins cs0(2)
        by (simp add: tassoc_ok_def del: elems.simps hwf.simps)
    qed
  qed
qed

lemma assocT_array_ok:
  assumes rec: "trec_ok fuel rec" and n: "node_ok s (tight (ArrayNode ed cnt arr))" "sized (ArrayNode ed cnt arr)"
    and a: "agree s key (tight (ArrayNode ed cnt arr))" and k: "good key" and fuel: "2 * (40 - s) \<le> Suc fuel"
  shows "tassoc_ok s key val (ArrayNode ed cnt arr) (assocT_array rec ed cnt arr s (khash K key) key val)"
proof -
  let ?i = "mask (khash K key) s" and ?n = "ArrayNode ed cnt arr"
  define cs where "cs = map (map_option tight) arr"
  have tn: "tight ?n = ArrayNode False cnt cs" by (simp add: cs_def)
  have s: "5 dvd s" "s \<le> 25" "kids s cs" "cnt = kcount cs" using n(1) unfolding tn by (simp_all add: array_kids)
  then have i: "?i < length cs" "length cs = 32" by (simp_all add: kids_def)
  then have i': "?i < length arr" "cs ! ?i = map_option tight (arr ! ?i)" by (simp_all add: cs_def)
  let ?R = "mset (concat (map oelems (take ?i cs))) + mset (concat (map oelems (drop (Suc ?i) cs)))"
  have R: "\<forall>e\<in>#?R. \<not> kequiv K key (fst e)"
    using other_kids [OF k _ refl i(1)] s(3) by (simp add: kids_def)
  have around: "mset (concat (map oelems (cs[?i := c]))) = mset (oelems c) + ?R" for c
    using kids_around [of ?i "cs[?i := c]"] i by (simp add: ac_simps)
  have slot: "kid_ok K good s ?i (cs ! ?i)" using s(3) by (simp add: kids_def)
  have put: "csized (arr[?i := Some c])" "tight (ArrayNode ed' cnt' (arr[?i := Some c])) = ArrayNode False cnt' (cs[?i := Some (tight c)])"
    if "sized c" for c ed' cnt'
    using csized_update n(2) that by (simp_all add: cs_def map_update)
  have get: "slice_get arr ?i = Some (arr ! ?i)" using i' by (simp add: slice_get_ok)
  show ?thesis
  proof (cases "arr ! ?i")
    case None
    then have none: "cs ! ?i = None" using i' by simp
    have "5 dvd s + 5" "s + 5 \<le> 30" "2 * (40 - (s + 5)) \<le> fuel" using s fuel by auto
    from trec_empty [OF rec this(1,2) k this(3), where ed = False and val = val, folded emptyIndexedNode_def] obtain r where
      r: "rec emptyIndexedNode (s + 5) (khash K key) key val = Inr (r, True)" "sized (tnode r)"
      "node_ok (s + 5) (tight (tnode r))" "mset (elems (tight (tnode r))) = {#(key, val)#}" .
    let ?c = "tight (tnode r)"
    have c: "slot_ok s ?i (Child ?c)" using r(3) set_of_mset1 [OF r(4)] by simp
    note fill = fill_slot [OF s(3) mask_less none c]
    have "mset (concat (map oelems cs)) = ?R" using around [of None] none i by (metis list_update_id mset.simps(1) oelems_simps(1) add_0)
    then have "\<forall>e\<in>#mset (concat (map oelems cs)). \<not> kequiv K key (fst e)" using R by simp
    moreover have "assocT_array rec ed cnt arr s (khash K key) key val =
        Inr (returned ed (ArrayNode True (cnt + 1) (arr[?i := Some (tnode r)])), True)"
      using None get r(1) by (simp add: assocT_array_def)
    ultimately show ?thesis
      using fill s r(4) put [OF r(2)] tn by (simp add: tassoc_ok_def inserted_def array_kids del: tight.simps)
  next
    case (Some c)
    then have some: "cs ! ?i = Some (tight c)" using i' by simp
    with slot have c: "node_ok (s + 5) (tight c)" "\<forall>e\<in>set (elems (tight c)). mask (khash K (fst e)) s = ?i" by simp_all
    have sc: "sized c" using n(2) Some i' by (metis csized_iff nth_mem sized.simps(2))
    let ?g = "\<lambda>r. Inr (case r of TSame c' \<Rightarrow> TSame (ArrayNode ed cnt (arr[?i := Some c']))
                | TNew c' \<Rightarrow> returned ed (ArrayNode True cnt (arr[?i := Some c']))) :: herr + ('k, 'v) hnode tupd"
    have whole: "mset (elems (tight ?n)) = mset (elems (tight c)) + ?R"
      using around [of "Some (tight c)"] some i unfolding tn by (metis elems_array list_update_id oelems_simps(2))
    then have "set (elems (tight c)) \<subseteq> set (elems (tight ?n))" by (metis mset_subset_eq_add_left set_mset_mono set_mset_mset)
    then have "agree (s + 5) key (tight c)" using agree_child [OF a _ c(2)] by blast
    moreover have "need (s + 5) c \<le> fuel" using fuel s by (auto simp: need_def split: hnode.split)
    moreover have "\<exists>u. ?g r = Inr u \<and> sized (tnode u) \<and> node_ok s (tight (tnode u)) \<and>
        mset (elems (tight (tnode u))) = mset (elems (tight (tnode r))) + ?R"
      if r: "sized (tnode r)" "node_ok (s + 5) (tight (tnode r))" "\<forall>e\<in>set (elems (tight (tnode r))). mask (khash K (fst e)) s = ?i" for r
    proof -
      have "node_ok s (ArrayNode False cnt (cs[?i := Some (tight (tnode r))]))"
        using r s kids_update [OF s(3) mask_less, of "khash K key" s "Some (tight (tnode r))"]
          filter_update [OF i(1), of "\<lambda>c. c \<noteq> None" "Some (tight (tnode r))"] some
        by (simp add: array_kids)
      with put [OF r(1)] around [of "Some (tight (tnode r))"] show ?thesis
        by (cases r) (simp_all del: tight.simps)
    qed
    ultimately have ok: "tassoc_ok s key val ?n
      (bindE (rec c (s + 5) (khash K key) key val) (\<lambda>(r, added). bindE (?g r) (\<lambda>u. Inr (u, added))))"
      by (intro tassoc_child [OF rec sc c(1) _ _ k R whole _ c(2)]) auto
    have g: "(\<lambda>(r, added). bindE (?g r) (\<lambda>u. Inr (u, added))) =
        (\<lambda>(r, added). case r of TSame c' \<Rightarrow> Inr (TSame (ArrayNode ed cnt (arr[?i := Some c'])), added)
            | TNew c' \<Rightarrow> Inr (returned ed (ArrayNode True cnt (arr[?i := Some c'])), added))"
      by (auto simp: fun_eq_iff split: tupd.split)
    show ?thesis using ok [unfolded g] Some get by (simp add: assocT_array_def Let_def)
  qed
qed

lemma assocT_collision_ok:
  assumes rec: "trec_ok fuel rec" and n: "node_ok s (tight (HashCollisionNode ed h cnt ps))" "sized (HashCollisionNode ed h cnt ps)"
    and a: "agree s key (tight (HashCollisionNode ed h cnt ps))" and k: "good key" and fuel: "2 * (40 - s) \<le> fuel"
    and total: "\<And>v w. vsame K v w \<noteq> None"
  shows "tassoc_ok s key val (HashCollisionNode ed h cnt ps) (assocT_collision K rec ed h cnt ps s (khash K key) key val)"
proof -
  have sz: ed "cnt = 2" "length ps = 2" using n(2) by simp_all
  then have tn: "tight (HashCollisionNode ed h cnt ps) = HashCollisionNode False h 2 ps" by simp
  have s: "5 dvd s" "s \<le> 35" "\<forall>p\<in>set ps. good (fst p) \<and> khash K (fst p) = h"
    "sorted_wrt (\<lambda>p q. \<not> kequiv K (fst p) (fst q)) ps" using n(1) sz(2,3) by simp_all
  show ?thesis
  proof (cases "khash K key = h")
    case True
    show ?thesis
    proof (cases "findIndex K key cnt ps")
      case None
      then have new: "\<forall>p\<in>set ps. \<not> kequiv K key (fst p)" using findIndex_spec(1) sz by metis
      then have "filter (\<lambda>e. khash K (fst e) = khash K key \<and> \<not> kequiv K key (fst e)) ps = ps"
        using s(3) True by (simp add: filter_id_conv)
      then have "crowd K key (elems (tight (HashCollisionNode ed h cnt ps))) = 2"
        unfolding tn crowd_def using sz(3) by simp
      moreover have "assocT_collision K rec ed h cnt ps s (khash K key) key val = Inl HPanic"
        using True None sz by (simp add: assocT_collision_def ensureEditableColl_def slice_set_out)
      ultimately show ?thesis by (simp add: tassoc_ok_def)
    next
      case (Some i)
      then have i: "i < length ps" "kequiv K key (fst (ps ! i))" using findIndex_spec(2) sz by metis+
      obtain k0 v0 where kv: "ps ! i = (k0, v0)" by (cases "ps ! i")
      from total obtain same where same: "vsame K v0 val = Some same" by blast
      note put = collision_put [OF n(1) [unfolded tn] i, where val = val, unfolded kv fst_conv]
      show ?thesis
      proof (cases same)
        case True
        with same have "val = v0" using same_eq [of v0 val] by simp
        with kv have "ps[i := (k0, val)] = ps" by (metis list_update_id)
        moreover have "assocT_collision K rec ed h cnt ps s (khash K key) key val = Inr (TSame (HashCollisionNode ed h cnt ps), False)"
          using \<open>khash K key = h\<close> Some kv same True by (simp add: assocT_collision_def)
        ultimately show ?thesis using put n sz by (simp add: tassoc_ok_def del: hwf.simps)
      next
        case False
        let ?m = "HashCollisionNode True h cnt (ps[i := (k0, val)])"
        have "tight ?m = HashCollisionNode False h 2 (ps[i := (k0, val)])" "sized ?m" using sz by simp_all
        moreover have "assocT_collision K rec ed h cnt ps s (khash K key) key val = Inr (returned ed ?m, False)"
          using \<open>khash K key = h\<close> Some kv same False sz by (simp add: assocT_collision_def ensureEditableColl_def)
        ultimately show ?thesis using put by (simp add: tassoc_ok_def tn del: hwf.simps tight.simps sized.simps)
      qed
    qed
  next
    case False
    have "ps \<noteq> []" using sz(3) by auto
    then obtain p where p: "p \<in> set ps" by (cases ps) auto
    with s(3) have "khash K (fst p) = h" by blast
    moreover have "\<forall>e\<in>set ps. take_bit s (khash K (fst e)) = take_bit s (khash K key)"
      using a unfolding tn agree_def by simp
    ultimately have "take_bit s h = take_bit s (khash K key)" using p by metis
    with False have "s \<noteq> 35" using agree_all by metis
    with s have s30: "s \<le> 30" by presburger
    let ?c = "HashCollisionNode ed h cnt ps"
    let ?w = "BitmapIndexedNode True (2 ^ mask h s) [Child ?c]"
    have "i < 32" if "bit (2 ^ mask h s :: nat) i" for i
      using that mask_less [of h s] by (simp add: bit_exp_iff)
    then have "bitCount (2 ^ mask h s) = 1" using bitCount_bits [of "2 ^ mask h s"] bits_single by simp
    then have tw: "tight ?w = BitmapIndexedNode False (2 ^ mask h s) [Child (tight ?c)]" "sized ?w" using sz by simp_all
    have "(2 :: nat) ^ mask h s < 2 ^ width s" by simp
    then have w: "node_ok s (tight ?w)" using s s30 n(1) sz unfolding tw by (auto simp: bits_single)
    have "agree s key (tight ?w)" using a unfolding tw by (simp add: agree_def del: tight.simps)
    with rec w tw(2) k fuel have "tassoc_ok s key val ?w (rec ?w s (khash K key) key val)"
      by (simp add: trec_ok_def need_def del: hwf.simps tight.simps sized.simps)
    moreover have "elems (tight ?w) = elems (tight ?c)" unfolding tw by simp
    ultimately show ?thesis
      using False by (cases "rec ?w s (khash K key) key val")
        (auto simp: assocT_collision_def tassoc_ok_def split: prod.splits herr.splits simp del: hwf.simps tight.simps sized.simps)
  qed
qed

theorem assocT_ok:
  assumes total: "\<And>v w. vsame K v w \<noteq> None"
  shows "sized n \<Longrightarrow> node_ok s (tight n) \<Longrightarrow> agree s key (tight n) \<Longrightarrow> good key \<Longrightarrow> need s n \<le> fuel \<Longrightarrow>
     tassoc_ok s key val n (assocT K fuel n s (khash K key) key val)"
proof (induction fuel arbitrary: n s key val)
  case 0
  then have "s \<le> 35" by (cases n) (auto simp: array_kids)
  with 0 show ?case by (simp add: need_def)
next
  case (Suc fuel)
  have rec: "trec_ok fuel (assocT K fuel)" using Suc.IH by (simp add: trec_ok_def)
  note prems = Suc.prems
  show ?case
  proof (cases n)
    case (BitmapIndexedNode ed bm arr)
    then show ?thesis
      using assocT_bitmap_hit [OF rec _ _ _ _ _ _ total] assocT_bitmap_miss [OF rec] prems
      by (cases "bit bm (mask (khash K key) s)") (simp_all add: need_def del: hwf.simps tight.simps sized.simps)
  next
    case (ArrayNode ed cnt arr)
    then show ?thesis using assocT_array_ok [OF rec] prems by (simp add: need_def del: tight.simps sized.simps)
  next
    case (HashCollisionNode ed h cnt ps)
    then show ?thesis using assocT_collision_ok [OF rec _ _ _ _ _ total] prems by (simp add: need_def del: hwf.simps tight.simps sized.simps)
  qed
qed

subsection \<open>Whole builds\<close>

definition build_ok :: "('k, 'v) transientHashMapBuild \<Rightarrow> ('k \<times> 'v) list \<Rightarrow> bool" where
  "build_ok t es \<longleftrightarrow> ref_ok es \<and> tcount t = length es \<and>
     (case troot t of None \<Rightarrow> es = [] | Some n \<Rightarrow> sized n \<and> node_ok 0 (tight n) \<and> mset (elems (tight n)) = mset es)"

definition uncrowded :: "'k set \<Rightarrow> bool" where
  "uncrowded ks \<longleftrightarrow> (\<forall>a\<in>ks. \<forall>b\<in>ks. \<forall>c\<in>ks. khash K a = khash K b \<and> khash K a = khash K c \<longrightarrow>
     kequiv K a b \<or> kequiv K a c \<or> kequiv K b c)"

lemma two_elems: "2 \<le> length xs \<Longrightarrow> (\<And>x y ys. xs = x # y # ys \<Longrightarrow> P) \<Longrightarrow> P"
  by (cases xs; cases "tl xs") auto

lemma uncrowded_crowd:
  assumes "uncrowded ks" and "ref_ok es" and "key \<in> ks" and "fst ` set es \<subseteq> ks"
  shows "crowd K key es \<le> 1"
proof (rule ccontr)
  let ?f = "filter (\<lambda>e. khash K (fst e) = khash K key \<and> \<not> kequiv K key (fst e)) es"
  assume "\<not> crowd K key es \<le> 1"
  then have "2 \<le> length ?f" by (simp add: crowd_def)
  from two_elems [OF this] obtain e f r where f: "?f = e # f # r" .
  have "sorted_wrt (\<lambda>p q. \<not> kequiv K (fst p) (fst q)) ?f" using assms(2) by (simp add: ref_ok_def sorted_wrt_filter)
  then have "\<not> kequiv K (fst e) (fst f)" unfolding f by simp
  moreover have ef: "e \<in> set ?f" "f \<in> set ?f" unfolding f by simp_all
  moreover from ef have "fst e \<in> ks" "fst f \<in> ks" using assms(4) by auto
  ultimately show False using assms(1) [unfolded uncrowded_def, rule_format, OF assms(3), of "fst e" "fst f"] by simp
qed

lemma run_build:
  assumes total: "\<And>v w. vsame K v w \<noteq> None" and fuel: "hash_fuel \<le> fuel" and ks: "uncrowded ks" "\<forall>k\<in>ks. good k"
  shows "fst ` set kvs \<subseteq> ks \<Longrightarrow> fst ` set es \<subseteq> ks \<Longrightarrow> build_ok t es \<Longrightarrow>
    \<exists>t'. build_all K fuel kvs t = Inr t' \<and> build_ok t' (run_ref K (map (\<lambda>(k, v). HAssoc k v) kvs) es) \<and>
      (kvs \<noteq> [] \<longrightarrow> troot t' \<noteq> None)"
proof (induction kvs arbitrary: t es)
  case (Cons kv kvs)
  obtain key val where kv: "kv = (key, val)" by (cases kv)
  have key: "key \<in> ks" "good key" using Cons.prems(1) ks(2) kv by auto
  define n where "n = (case troot t of None \<Rightarrow> BitmapIndexedNode True 0 [] | Some n \<Rightarrow> n)"
  have n: "sized n" "node_ok 0 (tight n)" "mset (elems (tight n)) = mset es"
    using Cons.prems(3) empty_ok [of 0]
    by (auto simp: n_def build_ok_def bitCount.simps emptyIndexedNode_def split: option.splits)
  have es: "ref_ok es" "tcount t = length es" using Cons.prems(3) by (simp_all add: build_ok_def)
  have "need 0 n \<le> fuel" using fuel by (auto simp: need_def hash_fuel_def split: hnode.split)
  then have ok: "tassoc_ok 0 key val n (assocT K fuel n 0 (khash K key) key val)"
    by (intro assocT_ok total n key) (simp_all add: agree_def)
  have "crowd K key (elems (tight n)) \<le> 1"
    using uncrowded_crowd [OF ks(1) es(1) key(1) Cons.prems(2)] n(3) by (simp add: crowd_mset)
  with ok obtain r a where r: "assocT K fuel n 0 (khash K key) key val = Inr (r, a)" "sized (tnode r)" "node_ok 0 (tight (tnode r))"
    "inserted K key val (mset (elems (tight n))) (mset (elems (tight (tnode r)))) a"
    by (auto simp: tassoc_ok_def split: sum.splits herr.splits)
  let ?es = "ref_assoc K key val es"
  have same: "mset (elems (tight (tnode r))) = mset ?es"
    using inserted_unique [OF es(1) key(2)] ref_assoc_inserted r(4) n(3) by metis
  have len: "length ?es = length es + of_bool a"
    using inserted_length [of key val es ?es a] r(4) n(3) same by simp
  let ?t = "\<lparr>troot = Some (tnode r), tcount = (if a then tcount t + 1 else tcount t)\<rparr>"
  have step: "build_assoc K fuel t key val = Inr ?t" using r(1) by (simp add: build_assoc_def n_def)
  have "build_ok ?t ?es"
    using r same len es ref_assoc_ok [OF es(1) key(2)] by (simp add: build_ok_def)
  moreover have "fst ` set ?es \<subseteq> ks" using Cons.prems(2) key(1) ref_assoc_keys by fastforce
  ultimately obtain t' where t': "build_all K fuel kvs ?t = Inr t'"
    "build_ok t' (run_ref K (map (\<lambda>(k, v). HAssoc k v) kvs) ?es)" "kvs \<noteq> [] \<longrightarrow> troot t' \<noteq> None"
    using Cons.IH [of ?es ?t] Cons.prems(1) by auto
  moreover have "troot t' \<noteq> None" using t'(1,3) by (cases kvs) auto
  ultimately show ?case using step kv by auto
qed simp

lemma NewPersistentHashMap_ok:
  assumes total: "\<And>v w. vsame K v w \<noteq> None" and fuel: "hash_fuel \<le> fuel"
    and ks: "uncrowded (fst ` set kvs)" "\<forall>k\<in>fst ` set kvs. good k"
  obtains m where "NewPersistentHashMap K fuel kvs = Inr m" and "phm_ok m"
    and "ref_ok (run_ref K (map (\<lambda>(k, v). HAssoc k v) kvs) [])"
    and "mset (contents m) = mset (run_ref K (map (\<lambda>(k, v). HAssoc k v) kvs) [])"
proof (cases "kvs = []")
  case True
  with that [of emptyPersistentHashMap] show thesis
    by (simp add: NewPersistentHashMap_def phm_ok_def contents_def emptyPersistentHashMap_def ref_ok_def)
next
  case False
  have "build_ok newTransientHashMapBuild []" by (simp add: build_ok_def newTransientHashMapBuild_def ref_ok_def)
  from run_build [OF total fuel ks subset_refl _ this] False obtain t where t:
    "build_all K fuel kvs newTransientHashMapBuild = Inr t" "build_ok t (run_ref K (map (\<lambda>(k, v). HAssoc k v) kvs) [])" "troot t \<noteq> None"
    by auto
  then obtain n where n: "troot t = Some n" "sized n" "node_ok 0 (tight n)"
    "mset (elems (tight n)) = mset (run_ref K (map (\<lambda>(k, v). HAssoc k v) kvs) [])" by (auto simp: build_ok_def)
  then have "length (elems (tight n)) = tcount t" using t(2) by (metis build_ok_def size_mset)
  with that [of "\<lparr>pmeta = None, pcount = tcount t, proot = Some (tight n)\<rparr>"] n t False finalize_sized(1) [OF n(2)] show thesis
    by (simp add: NewPersistentHashMap_def build_persistent_def phm_ok_def contents_def build_ok_def)
qed

end

end
