(* ===== verification/HashBuildProps.thy ===== *)
theory HashBuildProps
  imports HashBuildSpec
begin

text \<open>The bulk build over the language's own keys, and what it does to three colliding ones.\<close>


text \<open>The third key with one hash makes a bulk build panic, whatever follows: the collision node that
  the build made for the first two is its own, so it is written in place, past its end.\<close>

theorem third_collision_panics:
  assumes "khash K k1 = khash K k2" and "khash K k1 = khash K k3"
    and "\<not> kequiv K k2 k1" and "\<not> kequiv K k3 k1" and "\<not> kequiv K k3 k2" and "2 \<le> fuel"
  shows "NewPersistentHashMap K fuel ((k1, v1) # (k2, v2) # (k3, v3) # kvs) = Inl HPanic"
proof -
  from assms(6) obtain f where f: "fuel = Suc (Suc f)" by (metis add_2_eq_Suc le_Suc_ex)
  define h where "h = khash K k1"
  then have h: "khash K k1 = h" "khash K k2 = h" "khash K k3 = h" using assms(1,2) by simp_all
  let ?b = "2 ^ mask h 0 :: nat"
  let ?n1 = "BitmapIndexedNode True ?b (Leaf k1 v1 # replicate 3 (pad K))"
  let ?n2 = "BitmapIndexedNode True ?b (Child (HashCollisionNode True h 2 [(k1, v1), (k2, v2)]) # replicate 3 (pad K))"
  have idx: "index ?b ?b = 0" "index 0 ?b = 0"
    by (auto simp: index_below below_def filter_empty_conv bit_exp_iff)
  have none: "findIndex K k3 2 [(k1, v1), (k2, v2)] = None" using assms(4,5) by (simp add: numeral_2_eq_2)
  have 1: "assocT K fuel (BitmapIndexedNode True 0 []) 0 h k1 v1 = Inr (TNew ?n1, True)"
    unfolding f by (simp add: assocT_bitmap_def Let_def idx bitCount.simps bitpos_def)
  have 2: "assocT K fuel ?n1 0 h k2 v2 = Inr (TSame ?n2, True)"
    unfolding f using assms(3-5) h by (simp add: assocT_bitmap_def Let_def idx slice_get_def createNodeT_def bitpos_def editAndSet_def ensureEditable_def slice_set_def returned_def)
  have 3: "assocT K fuel ?n2 0 h k3 v3 = Inl HPanic"
    unfolding f using assms(3-5) h by (simp add: assocT_bitmap_def Let_def idx slice_get_def bitpos_def assocT_collision_def ensureEditableColl_def slice_set_def none)
  show ?thesis
    using 1 2 3 h by (simp add: NewPersistentHashMap_def build_assoc_def newTransientHashMapBuild_def)
qed

text \<open>Two strings with one hash, one of them twice; three strings with one hash.\<close>

definition demo_kvs :: "(val \<times> val) list" where
  "demo_kvs = [(VStr ''AaAa'', VInt 1), (VStr ''AaBB'', VInt 2), (VStr ''AaAa'', VInt 3)]"

lemma demo_kvs_run: "run_ref (val_ops ref) (map (\<lambda>(k, v). HAssoc k v) demo_kvs) [] = [(VStr ''AaAa'', VInt 3), (VStr ''AaBB'', VInt 2)]"
  by (simp add: demo_kvs_def Equiv_simps)


lemma third_collision_panics_witness:
  "NewPersistentHashMap (val_ops (\<lambda>_. 0)) 81
     [(VStr ''AaAa'', VInt 1), (VStr ''AaBB'', VInt 2), (VStr ''BBAa'', VInt 3)] = Inl HPanic"
  by (rule third_collision_panics) (simp_all add: HashEq_simps Equiv_simps hashString_collisions)

end
