(* ===== verification/Numbers.thy ===== *)
theory Numbers
  imports Complex_Main Hashing
begin

text \<open>
  The numeric tower of \<^verbatim>\<open>pkg/lang/numberops.go\<close>, \<^verbatim>\<open>numbers.go\<close>, \<^verbatim>\<open>bigint.go\<close> and
  \<^verbatim>\<open>ratio.go\<close> on its exact part: \<^verbatim>\<open>int\<close> and \<^verbatim>\<open>int64\<close> as 64-bit words, \<^verbatim>\<open>BigInt\<close> and
  \<^verbatim>\<open>*big.Int\<close> as integers, \<^verbatim>\<open>Ratio\<close> as a rational number, which like \<^verbatim>\<open>big.Rat\<close> is kept
  in lowest terms.  Floats are not modelled; \<^verbatim>\<open>BigDecimal\<close> is in \<open>Decimal\<close>.
\<close>

unbundle bit_operations_syntax

subsection \<open>Numbers and their conversions\<close>

datatype number =
    GoInt "64 word"
  | Int64 "64 word"
  | BigInt int
  | GoBig int
  | Ratio rat

text \<open>The panics: the two division errors, overflow, a failed conversion, and what Go itself raises.\<close>

datatype nerr = IntegerOverflow | DivideByZero | SlashByZero | CannotConvert | GoPanic

definition MinInt64 :: "64 word" where
  "MinInt64 = - (2 ^ 63)"

text \<open>Truncating division, of unbounded integers and of machine integers.\<close>

definition Quo :: "int \<Rightarrow> int \<Rightarrow> int" where
  "Quo x y = sgn x * sgn y * (\<bar>x\<bar> div \<bar>y\<bar>)"

definition Rem :: "int \<Rightarrow> int \<Rightarrow> int" where
  "Rem x y = sgn x * (\<bar>x\<bar> mod \<bar>y\<bar>)"

definition quo64 :: "64 word \<Rightarrow> 64 word \<Rightarrow> 64 word" where
  "quo64 x y = word_of_int (Quo (sint x) (sint y))"

definition rem64 :: "64 word \<Rightarrow> 64 word \<Rightarrow> 64 word" where
  "rem64 x y = word_of_int (Rem (sint x) (sint y))"

fun AsInt64 :: "number \<Rightarrow> nerr + 64 word" where
  "AsInt64 (GoInt i) = Inr i"
| "AsInt64 (Int64 i) = Inr i"
| "AsInt64 (BigInt n) = Inr (word_of_int n)"
| "AsInt64 (Ratio q) = Inr (let (n, d) = quotient_of q in word_of_int (Quo n d))"
| "AsInt64 (GoBig n) = Inl CannotConvert"

fun AsBigInt :: "number \<Rightarrow> nerr + int" where
  "AsBigInt (GoInt i) = Inr (sint i)"
| "AsBigInt (Int64 i) = Inr (sint i)"
| "AsBigInt (BigInt n) = Inr n"
| "AsBigInt (GoBig n) = Inr n"
| "AsBigInt (Ratio q) = Inl CannotConvert"

fun AsRatio :: "number \<Rightarrow> rat" where
  "AsRatio (GoInt i) = of_int (sint i)"
| "AsRatio (Int64 i) = of_int (sint i)"
| "AsRatio (BigInt n) = of_int n"
| "AsRatio (GoBig n) = of_int n"
| "AsRatio (Ratio q) = q"

definition with64 :: "number \<Rightarrow> number \<Rightarrow> (64 word \<Rightarrow> 64 word \<Rightarrow> nerr + 'a) \<Rightarrow> nerr + 'a" where
  "with64 x y f = bindE (AsInt64 x) (\<lambda>a. bindE (AsInt64 y) (f a))"

definition withBig :: "number \<Rightarrow> number \<Rightarrow> (int \<Rightarrow> int \<Rightarrow> nerr + 'a) \<Rightarrow> nerr + 'a" where
  "withBig x y f = bindE (AsBigInt x) (\<lambda>a. bindE (AsBigInt y) (f a))"

subsection \<open>Choosing the operations\<close>

datatype ops = Int64Ops | BigIntOps | RatioOps

fun Ops :: "number \<Rightarrow> ops" where
  "Ops (GoInt i) = Int64Ops"
| "Ops (Int64 i) = Int64Ops"
| "Ops (BigInt n) = BigIntOps"
| "Ops (GoBig n) = BigIntOps"
| "Ops (Ratio q) = RatioOps"

fun Combine :: "ops \<Rightarrow> ops \<Rightarrow> ops" where
  "Combine Int64Ops y = y"
| "Combine BigIntOps Int64Ops = BigIntOps"
| "Combine BigIntOps y = y"
| "Combine RatioOps y = RatioOps"

datatype numcat = CategoryInteger | CategoryRatio

fun category :: "number \<Rightarrow> numcat" where
  "category (Ratio q) = CategoryRatio"
| "category _ = CategoryInteger"

definition combined :: "number \<Rightarrow> number \<Rightarrow> ops" where
  "combined x y = Combine (Ops x) (Ops y)"

subsection \<open>BigInt and Ratio\<close>

text \<open>\<^verbatim>\<open>big.Int.GCD\<close> is never negative; \<^verbatim>\<open>Div\<close> by a positive number rounds down.\<close>

definition BigInt_Divide :: "int \<Rightarrow> int \<Rightarrow> nerr + number" where
  "BigInt_Divide n other =
     (if other = 0 then Inl DivideByZero
      else let g = gcd n other in
        if g = 0 then Inr (BigInt 0)
        else let num = n div g; den = other div g in
          if den = 1 then Inr (BigInt num)
          else if den = - 1 then Inr (BigInt (- num))
          else Inr (Ratio (Fract num den)))"

definition BigInt_Quotient :: "int \<Rightarrow> int \<Rightarrow> nerr + number" where
  "BigInt_Quotient n other = (if other = 0 then Inl DivideByZero else Inr (BigInt (Quo n other)))"

definition BigInt_Remainder :: "int \<Rightarrow> int \<Rightarrow> nerr + number" where
  "BigInt_Remainder n other = (if other = 0 then Inl DivideByZero else Inr (BigInt (Rem n other)))"

text \<open>A sum or difference that is an integer is a \<^verbatim>\<open>BigInt\<close>.\<close>

definition of_rat :: "rat \<Rightarrow> number" where
  "of_rat q = (let (n, d) = quotient_of q in if d = 1 then BigInt n else Ratio q)"

definition Ratio_Add :: "rat \<Rightarrow> rat \<Rightarrow> number" where
  "Ratio_Add r other = of_rat (r + other)"

definition Ratio_Sub :: "rat \<Rightarrow> rat \<Rightarrow> number" where
  "Ratio_Sub r other = of_rat (r - other)"

definition bigInt_Divide :: "number \<Rightarrow> number \<Rightarrow> nerr + number" where
  "bigInt_Divide x y = withBig x y BigInt_Divide"

definition Ratio_Multiply :: "rat \<Rightarrow> rat \<Rightarrow> nerr + number" where
  "Ratio_Multiply r other =
     (let (xn, xd) = quotient_of r; (yn, yd) = quotient_of other in bigInt_Divide (GoBig (xn * yn)) (GoBig (xd * yd)))"

definition Ratio_Divide :: "rat \<Rightarrow> rat \<Rightarrow> nerr + number" where
  "Ratio_Divide r other =
     (let (xn, xd) = quotient_of r; (yn, yd) = quotient_of other in bigInt_Divide (GoBig (xn * yd)) (GoBig (xd * yn)))"

text \<open>\<^verbatim>\<open>big.Int.Quo\<close> panics on a zero divisor.\<close>

definition Ratio_Quotient :: "rat \<Rightarrow> rat \<Rightarrow> nerr + number" where
  "Ratio_Quotient r other =
     (let (xn, xd) = quotient_of r; (yn, yd) = quotient_of other in
      if xd * yn = 0 then Inl GoPanic else Inr (BigInt (Quo (xn * yd) (xd * yn))))"

subsection \<open>int64Ops\<close>

definition int64_Add :: "number \<Rightarrow> number \<Rightarrow> nerr + number" where
  "int64_Add x y = with64 x y (\<lambda>a b.
     let c = a + b in
     if (sint c > sint a) = (sint b > 0) then Inr (Int64 c) else Inl IntegerOverflow)"

definition bigInt_Add :: "number \<Rightarrow> number \<Rightarrow> nerr + number" where
  "bigInt_Add x y = withBig x y (\<lambda>a b. Inr (BigInt (a + b)))"

definition bigInt_Sub :: "number \<Rightarrow> number \<Rightarrow> nerr + number" where
  "bigInt_Sub x y = withBig x y (\<lambda>a b. Inr (BigInt (a - b)))"

definition bigInt_Multiply :: "number \<Rightarrow> number \<Rightarrow> nerr + number" where
  "bigInt_Multiply x y = withBig x y (\<lambda>a b. Inr (BigInt (a * b)))"

definition int64_AddP :: "number \<Rightarrow> number \<Rightarrow> nerr + number" where
  "int64_AddP x y = with64 x y (\<lambda>a b.
     let ret = a + b in
     if sint (ret XOR a) < 0 \<and> sint (ret XOR b) < 0 then bigInt_Add x y else Inr (Int64 ret))"

definition int64_Sub :: "number \<Rightarrow> number \<Rightarrow> nerr + number" where
  "int64_Sub x y = with64 x y (\<lambda>a b.
     let c = a - b in
     if (sint c < sint a) = (sint b > 0) then Inr (Int64 c) else Inl IntegerOverflow)"

text \<open>The constant \<^verbatim>\<open>0\<close> is a Go \<^verbatim>\<open>int\<close>.\<close>

definition int64_Multiply :: "number \<Rightarrow> number \<Rightarrow> nerr + number" where
  "int64_Multiply x y = with64 x y (\<lambda>a b.
     if a = 0 \<or> b = 0 then Inr (GoInt 0)
     else let c = a * b in
       if (sint c < 0) = ((sint a < 0) \<noteq> (sint b < 0)) \<and> quo64 c b = a then Inr (Int64 c)
       else Inl IntegerOverflow)"

definition int64_MultiplyP :: "number \<Rightarrow> number \<Rightarrow> nerr + number" where
  "int64_MultiplyP x y = with64 x y (\<lambda>a b.
     if a = MinInt64 \<and> sint b < 0 then bigInt_Multiply x y
     else let ret = a * b in
       if b \<noteq> 0 \<and> quo64 ret b \<noteq> a then bigInt_Multiply x y else Inr (Int64 ret))"

definition int64_UncheckedAdd :: "number \<Rightarrow> number \<Rightarrow> nerr + number" where
  "int64_UncheckedAdd x y = with64 x y (\<lambda>a b. Inr (Int64 (a + b)))"

definition int64_UncheckedSub :: "number \<Rightarrow> number \<Rightarrow> nerr + number" where
  "int64_UncheckedSub x y = with64 x y (\<lambda>a b. Inr (Int64 (a - b)))"

definition int64_UncheckedMultiply :: "number \<Rightarrow> number \<Rightarrow> nerr + number" where
  "int64_UncheckedMultiply x y = with64 x y (\<lambda>a b. Inr (Int64 (a * b)))"

lemma Rem_less: "y \<noteq> 0 \<Longrightarrow> \<bar>Rem x y\<bar> < \<bar>y\<bar>"
  by (auto simp: Rem_def abs_mult abs_sgn_eq)

lemma sint_word_of_int_small: "- (2 ^ 63) \<le> n \<Longrightarrow> n < 2 ^ 63 \<Longrightarrow> sint (word_of_int n :: 64 word) = n"
  by (simp add: sint_sbintrunc' signed_take_bit_int_eq_self)

lemma sint64_range: "- (2 ^ 63) \<le> sint (a :: 64 word)" "sint (a :: 64 word) < 2 ^ 63"
  using sint_greater_eq [of a] sint_lt [of a] by simp_all

lemma sint_inject [simp]: "sint a = sint b \<longleftrightarrow> a = (b :: 64 word)"
  by (auto intro: signed_word_eqI)

lemma sint_eq_0 [simp]: "sint a = 0 \<longleftrightarrow> a = (0 :: 64 word)"
  using sint_inject [of a 0] by (simp del: sint_inject)

lemma sint_rem64: "y \<noteq> 0 \<Longrightarrow> sint (rem64 x y) = Rem (sint x) (sint y)"
proof -
  assume "y \<noteq> 0"
  then have "sint y \<noteq> 0" by simp
  then have "\<bar>Rem (sint x) (sint y)\<bar> < \<bar>sint y\<bar>" by (rule Rem_less)
  then show ?thesis
    unfolding rem64_def using sint64_range [of y] by (intro sint_word_of_int_small) linarith+
qed

function gcd64 :: "64 word \<Rightarrow> 64 word \<Rightarrow> 64 word" where
  "gcd64 u v = (if v = 0 then u else gcd64 v (rem64 u v))"
  by auto
termination
  by (relation "measure (\<lambda>(u, v). nat \<bar>sint v\<bar>)") (auto simp: sint_rem64 intro!: Rem_less)

declare gcd64.simps [simp del]

definition int64_Divide :: "number \<Rightarrow> number \<Rightarrow> nerr + number" where
  "int64_Divide x y = with64 x y (\<lambda>n val.
     if val = 0 then Inl DivideByZero
     else let g = gcd64 n val in
       if g = 0 then Inr (GoInt 0)
       else let n = quo64 n g; d = quo64 val g in
         if d = 1 then Inr (Int64 n)
         else if sint d < 0 then Inr (Ratio (Fract (sint (- n)) (sint (- d))))
         else Inr (Ratio (Fract (sint n) (sint d))))"

definition int64_Quotient :: "number \<Rightarrow> number \<Rightarrow> nerr + number" where
  "int64_Quotient x y = with64 x y (\<lambda>a b. if b = 0 then Inl SlashByZero else Inr (Int64 (quo64 a b)))"

definition int64_Remainder :: "number \<Rightarrow> number \<Rightarrow> nerr + number" where
  "int64_Remainder x y = with64 x y (\<lambda>a b. if b = 0 then Inl SlashByZero else Inr (Int64 (rem64 a b)))"

definition int64_Negate :: "number \<Rightarrow> nerr + number" where
  "int64_Negate x = bindE (AsInt64 x) (\<lambda>a. if a = MinInt64 then Inl IntegerOverflow else Inr (Int64 (- a)))"

definition int64_NegateP :: "number \<Rightarrow> nerr + number" where
  "int64_NegateP x = bindE (AsInt64 x) (\<lambda>a. if a = MinInt64 then Inr (BigInt (- sint a)) else Inr (Int64 (- a)))"

definition int64_Abs :: "number \<Rightarrow> nerr + number" where
  "int64_Abs x = bindE (AsInt64 x) (\<lambda>v.
     if v = MinInt64 then Inr x else if sint v < 0 then Inr (Int64 (- v)) else Inr x)"

subsection \<open>bigIntOps and ratioOps\<close>

definition bigInt_Quotient :: "number \<Rightarrow> number \<Rightarrow> nerr + number" where
  "bigInt_Quotient x y = withBig x y BigInt_Quotient"

definition bigInt_Remainder :: "number \<Rightarrow> number \<Rightarrow> nerr + number" where
  "bigInt_Remainder x y = withBig x y BigInt_Remainder"

definition bigInt_Negate :: "number \<Rightarrow> nerr + number" where
  "bigInt_Negate x = bigInt_Multiply x (GoInt (- 1))"

definition bigInt_Abs :: "number \<Rightarrow> nerr + number" where
  "bigInt_Abs x = bindE (AsBigInt x) (\<lambda>n. Inr (BigInt \<bar>n\<bar>))"

definition ratio_Add :: "number \<Rightarrow> number \<Rightarrow> nerr + number" where
  "ratio_Add x y = Inr (Ratio_Add (AsRatio x) (AsRatio y))"

definition ratio_Sub :: "number \<Rightarrow> number \<Rightarrow> nerr + number" where
  "ratio_Sub x y = Inr (Ratio_Sub (AsRatio x) (AsRatio y))"

definition ratio_Multiply :: "number \<Rightarrow> number \<Rightarrow> nerr + number" where
  "ratio_Multiply x y = Ratio_Multiply (AsRatio x) (AsRatio y)"

definition ratio_Divide :: "number \<Rightarrow> number \<Rightarrow> nerr + number" where
  "ratio_Divide x y = Ratio_Divide (AsRatio x) (AsRatio y)"

definition ratio_Quotient :: "number \<Rightarrow> number \<Rightarrow> nerr + number" where
  "ratio_Quotient x y = Ratio_Quotient (AsRatio x) (AsRatio y)"

definition ratio_Negate :: "number \<Rightarrow> nerr + number" where
  "ratio_Negate x = Inr (Ratio (- AsRatio x))"

definition ratio_Abs :: "number \<Rightarrow> nerr + number" where
  "ratio_Abs x = Inr (Ratio \<bar>AsRatio x\<bar>)"

subsection \<open>The operations of the language\<close>

definition Add :: "number \<Rightarrow> number \<Rightarrow> nerr + number" where
  "Add x y = (case combined x y of Int64Ops \<Rightarrow> int64_Add x y | BigIntOps \<Rightarrow> bigInt_Add x y | RatioOps \<Rightarrow> ratio_Add x y)"

definition AddP :: "number \<Rightarrow> number \<Rightarrow> nerr + number" where
  "AddP x y = (case combined x y of Int64Ops \<Rightarrow> int64_AddP x y | BigIntOps \<Rightarrow> bigInt_Add x y | RatioOps \<Rightarrow> ratio_Add x y)"

definition Sub :: "number \<Rightarrow> number \<Rightarrow> nerr + number" where
  "Sub x y = (case combined x y of Int64Ops \<Rightarrow> int64_Sub x y | BigIntOps \<Rightarrow> bigInt_Sub x y | RatioOps \<Rightarrow> ratio_Sub x y)"

definition NegateP :: "number \<Rightarrow> nerr + number" where
  "NegateP x = (case Ops x of Int64Ops \<Rightarrow> int64_NegateP x | BigIntOps \<Rightarrow> bigInt_Negate x | RatioOps \<Rightarrow> ratio_Negate x)"

definition SubP :: "number \<Rightarrow> number \<Rightarrow> nerr + number" where
  "SubP x y = bindE (NegateP y) (\<lambda>negY. AddP x negY)"

definition Multiply :: "number \<Rightarrow> number \<Rightarrow> nerr + number" where
  "Multiply x y =
     (case combined x y of Int64Ops \<Rightarrow> int64_Multiply x y | BigIntOps \<Rightarrow> bigInt_Multiply x y | RatioOps \<Rightarrow> ratio_Multiply x y)"

definition MultiplyP :: "number \<Rightarrow> number \<Rightarrow> nerr + number" where
  "MultiplyP x y =
     (case combined x y of Int64Ops \<Rightarrow> int64_MultiplyP x y | BigIntOps \<Rightarrow> bigInt_Multiply x y | RatioOps \<Rightarrow> ratio_Multiply x y)"

definition UncheckedAdd :: "number \<Rightarrow> number \<Rightarrow> nerr + number" where
  "UncheckedAdd x y =
     (case combined x y of Int64Ops \<Rightarrow> int64_UncheckedAdd x y | BigIntOps \<Rightarrow> bigInt_Add x y | RatioOps \<Rightarrow> ratio_Add x y)"

definition UncheckedSubtract :: "number \<Rightarrow> number \<Rightarrow> nerr + number" where
  "UncheckedSubtract x y =
     (case combined x y of Int64Ops \<Rightarrow> int64_UncheckedSub x y | BigIntOps \<Rightarrow> bigInt_Sub x y | RatioOps \<Rightarrow> ratio_Sub x y)"

definition UncheckedMultiply :: "number \<Rightarrow> number \<Rightarrow> nerr + number" where
  "UncheckedMultiply x y =
     (case combined x y of Int64Ops \<Rightarrow> int64_UncheckedMultiply x y | BigIntOps \<Rightarrow> bigInt_Multiply x y | RatioOps \<Rightarrow> ratio_Multiply x y)"

definition IsZero :: "number \<Rightarrow> nerr + bool" where
  "IsZero x =
     (case Ops x of
        Int64Ops \<Rightarrow> bindE (AsInt64 x) (\<lambda>a. Inr (a = 0))
      | BigIntOps \<Rightarrow> bindE (AsBigInt x) (\<lambda>n. Inr (n = 0))
      | RatioOps \<Rightarrow> Inr (AsRatio x = 0))"

definition Divide :: "number \<Rightarrow> number \<Rightarrow> nerr + number" where
  "Divide x y =
     bindE (IsZero y) (\<lambda>z. if z then Inl DivideByZero
       else case combined x y of Int64Ops \<Rightarrow> int64_Divide x y | BigIntOps \<Rightarrow> bigInt_Divide x y | RatioOps \<Rightarrow> ratio_Divide x y)"

definition Quotient :: "number \<Rightarrow> number \<Rightarrow> nerr + number" where
  "Quotient x y =
     bindE (IsZero y) (\<lambda>z. if z then Inl DivideByZero
       else case combined x y of Int64Ops \<Rightarrow> int64_Quotient x y | BigIntOps \<Rightarrow> bigInt_Quotient x y | RatioOps \<Rightarrow> ratio_Quotient x y)"

text \<open>The remainder of ratios multiplies and subtracts with the operations above.\<close>

definition ratio_Remainder :: "number \<Rightarrow> number \<Rightarrow> nerr + number" where
  "ratio_Remainder x y =
     (let (xn, xd) = quotient_of (AsRatio x); (yn, yd) = quotient_of (AsRatio y) in
      if xd * yn = 0 then Inl GoPanic
      else bindE (Multiply (BigInt (Quo (xn * yd) (xd * yn))) y) (\<lambda>p. Sub x p))"

definition Remainder :: "number \<Rightarrow> number \<Rightarrow> nerr + number" where
  "Remainder x y =
     bindE (IsZero y) (\<lambda>z. if z then Inl DivideByZero
       else case combined x y of Int64Ops \<Rightarrow> int64_Remainder x y | BigIntOps \<Rightarrow> bigInt_Remainder x y | RatioOps \<Rightarrow> ratio_Remainder x y)"

definition Lt :: "number \<Rightarrow> number \<Rightarrow> nerr + bool" where
  "Lt x y =
     (case combined x y of
        Int64Ops \<Rightarrow> with64 x y (\<lambda>a b. Inr (sint a < sint b))
      | BigIntOps \<Rightarrow> withBig x y (\<lambda>a b. Inr (a < b))
      | RatioOps \<Rightarrow> Inr (AsRatio x < AsRatio y))"

definition Lte :: "number \<Rightarrow> number \<Rightarrow> nerr + bool" where
  "Lte x y =
     (case combined x y of
        Int64Ops \<Rightarrow> with64 x y (\<lambda>a b. Inr (sint a \<le> sint b))
      | BigIntOps \<Rightarrow> withBig x y (\<lambda>a b. Inr (a \<le> b))
      | RatioOps \<Rightarrow> Inr (AsRatio x \<le> AsRatio y))"

definition NumEquiv :: "number \<Rightarrow> number \<Rightarrow> nerr + bool" where
  "NumEquiv x y =
     (case combined x y of
        Int64Ops \<Rightarrow> with64 x y (\<lambda>a b. Inr (a = b))
      | BigIntOps \<Rightarrow> withBig x y (\<lambda>a b. Inr (a = b))
      | RatioOps \<Rightarrow> Inr (AsRatio x = AsRatio y))"

definition NumbersEqual :: "number \<Rightarrow> number \<Rightarrow> nerr + bool" where
  "NumbersEqual x y = (if category x = category y then NumEquiv x y else Inr False)"

definition Compare :: "number \<Rightarrow> number \<Rightarrow> nerr + int" where
  "Compare x y =
     bindE (Lt x y) (\<lambda>l. if l then Inr (- 1) else bindE (Lt y x) (\<lambda>g. Inr (if g then 1 else 0)))"

definition Abs :: "number \<Rightarrow> nerr + number" where
  "Abs x = (case Ops x of Int64Ops \<Rightarrow> int64_Abs x | BigIntOps \<Rightarrow> bigInt_Abs x | RatioOps \<Rightarrow> ratio_Abs x)"

definition Inc :: "number \<Rightarrow> nerr + number" where
  "Inc v = Add v (GoInt 1)"

definition Dec :: "number \<Rightarrow> nerr + number" where
  "Dec x = Add x (GoInt (- 1))"

definition DecP :: "number \<Rightarrow> nerr + number" where
  "DecP v = SubP v (GoInt 1)"

text \<open>\<^verbatim>\<open>IncP\<close> has no case for a \<^verbatim>\<open>Ratio\<close> or a \<^verbatim>\<open>*big.Int\<close>.\<close>

fun IncP :: "number \<Rightarrow> nerr + number" where
  "IncP (GoInt i) = Inr (if sint (i + 1) < sint i then BigInt (sint i + 1) else GoInt (i + 1))"
| "IncP (Int64 i) = Inr (if sint (i + 1) < sint i then BigInt (sint i + 1) else Int64 (i + 1))"
| "IncP (BigInt n) = Inr (BigInt (n + 1))"
| "IncP _ = Inl CannotConvert"

subsection \<open>Bits\<close>

fun bitOpsCast :: "number \<Rightarrow> nerr + 64 word" where
  "bitOpsCast (GoInt i) = Inr i"
| "bitOpsCast (Int64 i) = Inr i"
| "bitOpsCast _ = Inl CannotConvert"

text \<open>\<^verbatim>\<open>1 << n\<close> with a signed count panics when the count is negative.\<close>

definition one_shl :: "64 word \<Rightarrow> nerr + 64 word" where
  "one_shl n = (if sint n < 0 then Inl GoPanic else Inr (push_bit (nat (sint n)) 1))"

definition with_bits :: "number \<Rightarrow> number \<Rightarrow> (64 word \<Rightarrow> 64 word \<Rightarrow> nerr + 'a) \<Rightarrow> nerr + 'a" where
  "with_bits x y f = bindE (bitOpsCast x) (\<lambda>a. bindE (bitOpsCast y) (f a))"

definition SetBit :: "number \<Rightarrow> number \<Rightarrow> nerr + number" where
  "SetBit x y = with_bits x y (\<lambda>a n. bindE (one_shl n) (\<lambda>b. Inr (Int64 (a OR b))))"

definition ClearBit :: "number \<Rightarrow> number \<Rightarrow> nerr + number" where
  "ClearBit x y = with_bits x y (\<lambda>a n. bindE (one_shl n) (\<lambda>b. Inr (Int64 (a AND NOT b))))"

definition FlipBit :: "number \<Rightarrow> number \<Rightarrow> nerr + number" where
  "FlipBit x y = with_bits x y (\<lambda>a n. bindE (one_shl n) (\<lambda>b. Inr (Int64 (a XOR b))))"

definition TestBit :: "number \<Rightarrow> number \<Rightarrow> nerr + bool" where
  "TestBit x y = with_bits x y (\<lambda>a n. bindE (one_shl n) (\<lambda>b. Inr (a AND b \<noteq> 0)))"

definition ShiftLeft :: "number \<Rightarrow> number \<Rightarrow> nerr + number" where
  "ShiftLeft x y = with_bits x y (\<lambda>a n. Inr (Int64 (push_bit (unat (n AND 0x3f)) a)))"

definition ShiftRight :: "number \<Rightarrow> number \<Rightarrow> nerr + number" where
  "ShiftRight x y = with_bits x y (\<lambda>a n. Inr (Int64 (signed_drop_bit (unat (n AND 0x3f)) a)))"

definition UnsignedShiftRight :: "number \<Rightarrow> number \<Rightarrow> nerr + number" where
  "UnsignedShiftRight x y = with_bits x y (\<lambda>a n. Inr (Int64 (drop_bit (unat (n AND 0x3f)) a)))"

end
