(* ===== verification/NumbersSpec.thy ===== *)
theory NumbersSpec
  imports Numbers
begin

text \<open>
  The operations of the numeric tower compute with exact rational numbers: the checked ones fail
  exactly on 64-bit overflow, the promoting ones never, and comparison is that of the values.
\<close>

unbundle bit_operations_syntax

lemma word_of_int_sint [simp]: "word_of_int (sint a) = (a :: 64 word)"
  by simp

declare of_int_sint [simp del]

subsection \<open>Exact values\<close>

fun exact :: "number \<Rightarrow> rat" where
  "exact (GoInt i) = of_int (sint i)"
| "exact (Int64 i) = of_int (sint i)"
| "exact (BigInt n) = of_int n"
| "exact (GoBig n) = of_int n"
| "exact (Ratio q) = q"

fun fixed :: "number \<Rightarrow> bool" where
  "fixed (GoInt i) = True"
| "fixed (Int64 i) = True"
| "fixed _ = False"

text \<open>A ratio is never an integer.\<close>

fun canonical :: "number \<Rightarrow> bool" where
  "canonical (Ratio q) \<longleftrightarrow> q \<notin> \<int>"
| "canonical _ = True"

definition in_int64 :: "rat \<Rightarrow> bool" where
  "in_int64 q \<longleftrightarrow> - (2 ^ 63) \<le> q \<and> q < 2 ^ 63"

definition exactly :: "nerr + number \<Rightarrow> rat \<Rightarrow> bool" where
  "exactly r q \<longleftrightarrow> (\<exists>z. r = Inr z \<and> exact z = q \<and> canonical z)"

definition checked :: "number \<Rightarrow> number \<Rightarrow> nerr + number \<Rightarrow> rat \<Rightarrow> bool" where
  "checked x y r q \<longleftrightarrow>
     (if fixed x \<and> fixed y then (if in_int64 q then exactly r q else r = Inl IntegerOverflow) else exactly r q)"

lemma exactly_Inr [simp]: "exactly (Inr z) q \<longleftrightarrow> exact z = q \<and> canonical z"
  by (simp add: exactly_def)

lemma AsRatio_exact [simp]: "AsRatio x = exact x"
  by (cases x) simp_all

lemma combined_Int64: "combined x y = Int64Ops \<longleftrightarrow> fixed x \<and> fixed y"
  by (cases x; cases y) (simp_all add: combined_def)

lemma fixed_cases:
  assumes "fixed x"
  obtains i where "AsInt64 x = Inr i" and "exact x = of_int (sint i)" and "AsBigInt x = Inr (sint i)"
  using assms by (cases x) auto

lemma combined_cases:
  obtains (int64) a b where "combined x y = Int64Ops" and "fixed x" and "fixed y" and "AsInt64 x = Inr a" and "AsInt64 y = Inr b"
      and "exact x = of_int (sint a)" and "exact y = of_int (sint b)" and "AsBigInt x = Inr (sint a)" and "AsBigInt y = Inr (sint b)"
    | (bigint) m n where "combined x y = BigIntOps" and "\<not> (fixed x \<and> fixed y)" and "AsBigInt x = Inr m" and "AsBigInt y = Inr n"
      and "exact x = of_int m" and "exact y = of_int n"
    | (ratio) "combined x y = RatioOps" and "\<not> (fixed x \<and> fixed y)"
  by (cases x; cases y) (auto simp: combined_def)

subsection \<open>64-bit wrap-around\<close>

lemma sint_wrap:
  assumes "- (2 ^ 63) \<le> n + k * 2 ^ 64" and "n + k * 2 ^ 64 < 2 ^ 63"
  shows "sint (word_of_int n :: 64 word) = n + k * 2 ^ 64"
proof -
  have "(word_of_int n :: 64 word) = word_of_int (n + k * 2 ^ 64)"
    unfolding word_of_int_eq_iff by (simp add: take_bit_eq_mod)
  with assms show ?thesis by (simp only: sint_word_of_int_small)
qed

text \<open>The signed reading of a machine result differs from the exact one by a multiple of \<open>2 ^ 64\<close>.\<close>

lemma sint_congruent: "\<exists>k. sint (word_of_int n :: 64 word) = n + k * 2 ^ 64"
proof -
  have "take_bit 64 (sint (word_of_int n :: 64 word)) = take_bit 64 n"
    unfolding sint_sbintrunc' by (simp add: take_bit_signed_take_bit)
  then have "(2 ^ 64) dvd (sint (word_of_int n :: 64 word) - n)"
    unfolding take_bit_eq_mod by (simp only: mod_eq_dvd_iff)
  then obtain k where "sint (word_of_int n :: 64 word) - n = 2 ^ 64 * k" by (rule dvdE)
  then show ?thesis by (intro exI [of _ k]) simp
qed

lemma word_add_int: "a + b = (word_of_int (sint a + sint b) :: 64 word)"
  and word_diff_int: "a - b = (word_of_int (sint a - sint b) :: 64 word)"
  and word_mult_int: "a * b = (word_of_int (sint a * sint b) :: 64 word)"
  by simp_all

lemma sint_neg_bit: "sint (w :: 64 word) < 0 \<longleftrightarrow> bit w 63"
  by transfer (simp add: signed_take_bit_negative_iff)

lemma in_int64_of_int: "in_int64 (of_int n) \<longleftrightarrow> - (2 ^ 63) \<le> n \<and> n < 2 ^ 63"
proof -
  have "- (2 ^ 63) = (of_int (- (2 ^ 63)) :: rat)" "2 ^ 63 = (of_int (2 ^ 63) :: rat)" by simp_all
  then show ?thesis unfolding in_int64_def by (simp only: of_int_le_iff of_int_less_iff)
qed

lemma add_test:
  fixes a b :: "64 word"
  shows "(sint (a + b) > sint a) = (sint b > 0) \<longleftrightarrow> in_int64 (of_int (sint a + sint b))"
    and "in_int64 (of_int (sint a + sint b)) \<Longrightarrow> sint (a + b) = sint a + sint b"
proof -
  let ?s = "sint a + sint b"
  note r = sint64_range [of a] sint64_range [of b]
  have fit: "sint (a + b) = ?s" if "- (2 ^ 63) \<le> ?s" "?s < 2 ^ 63"
    unfolding word_add_int using that by (rule sint_word_of_int_small)
  moreover have "sint (a + b) = ?s - 2 ^ 64" if "2 ^ 63 \<le> ?s"
    unfolding word_add_int using that r sint_wrap [of ?s "- 1"] by simp
  moreover have "sint (a + b) = ?s + 2 ^ 64" if "?s < - (2 ^ 63)"
    unfolding word_add_int using that r sint_wrap [of ?s 1] by simp
  ultimately show "(sint (a + b) > sint a) = (sint b > 0) \<longleftrightarrow> in_int64 (of_int ?s)"
    unfolding in_int64_of_int using r by (cases "?s < - (2 ^ 63)"; cases "2 ^ 63 \<le> ?s") auto
  show "in_int64 (of_int ?s) \<Longrightarrow> sint (a + b) = ?s"
    unfolding in_int64_of_int using fit by blast
qed

lemma sub_test:
  fixes a b :: "64 word"
  shows "(sint (a - b) < sint a) = (sint b > 0) \<longleftrightarrow> in_int64 (of_int (sint a - sint b))"
    and "in_int64 (of_int (sint a - sint b)) \<Longrightarrow> sint (a - b) = sint a - sint b"
proof -
  let ?s = "sint a - sint b"
  note r = sint64_range [of a] sint64_range [of b]
  have fit: "sint (a - b) = ?s" if "- (2 ^ 63) \<le> ?s" "?s < 2 ^ 63"
    unfolding word_diff_int using that by (rule sint_word_of_int_small)
  moreover have "sint (a - b) = ?s - 2 ^ 64" if "2 ^ 63 \<le> ?s"
    unfolding word_diff_int using that r sint_wrap [of ?s "- 1"] by simp
  moreover have "sint (a - b) = ?s + 2 ^ 64" if "?s < - (2 ^ 63)"
    unfolding word_diff_int using that r sint_wrap [of ?s 1] by simp
  ultimately show "(sint (a - b) < sint a) = (sint b > 0) \<longleftrightarrow> in_int64 (of_int ?s)"
    unfolding in_int64_of_int using r by (cases "?s < - (2 ^ 63)"; cases "2 ^ 63 \<le> ?s") auto
  show "in_int64 (of_int ?s) \<Longrightarrow> sint (a - b) = ?s"
    unfolding in_int64_of_int using fit by blast
qed

text \<open>The sign test of \<^verbatim>\<open>AddP\<close>.\<close>

lemma addp_test:
  fixes a b :: "64 word"
  shows "sint ((a + b) XOR a) < 0 \<and> sint ((a + b) XOR b) < 0 \<longleftrightarrow> \<not> in_int64 (of_int (sint a + sint b))"
proof -
  note r = sint64_range [of a] sint64_range [of b]
  have "sint ((a + b) XOR a) < 0 \<and> sint ((a + b) XOR b) < 0 \<longleftrightarrow>
      (sint (a + b) < 0) \<noteq> (sint a < 0) \<and> (sint (a + b) < 0) \<noteq> (sint b < 0)"
    by (simp add: sint_neg_bit bit_xor_iff)
  also have "\<dots> \<longleftrightarrow> \<not> in_int64 (of_int (sint a + sint b))"
  proof (cases "in_int64 (of_int (sint a + sint b))")
    case True
    with add_test(2) [OF True] show ?thesis by auto
  next
    case False
    then consider "2 ^ 63 \<le> sint a + sint b" | "sint a + sint b < - (2 ^ 63)" unfolding in_int64_of_int by linarith
    then show ?thesis
    proof cases
      case 1
      then have "sint (a + b) = sint a + sint b - 2 ^ 64"
        unfolding word_add_int using r sint_wrap [of "sint a + sint b" "- 1"] by simp
      with 1 r False show ?thesis by auto
    next
      case 2
      then have "sint (a + b) = sint a + sint b + 2 ^ 64"
        unfolding word_add_int using r sint_wrap [of "sint a + sint b" 1] by simp
      with 2 r False show ?thesis by auto
    qed
  qed
  finally show ?thesis .
qed

subsection \<open>Truncating division\<close>

lemma Quo_Rem: "Quo x y * y + Rem x y = x" if "y \<noteq> 0"
proof -
  have "Quo x y * y = sgn x * (\<bar>y\<bar> * (\<bar>x\<bar> div \<bar>y\<bar>))"
    using that by (simp add: Quo_def abs_sgn ac_simps)
  then have "Quo x y * y + Rem x y = sgn x * (\<bar>y\<bar> * (\<bar>x\<bar> div \<bar>y\<bar>) + \<bar>x\<bar> mod \<bar>y\<bar>)"
    by (simp only: Rem_def distrib_left)
  also have "\<dots> = sgn x * \<bar>x\<bar>" by (simp only: mult_div_mod_eq)
  finally show ?thesis by (simp add: sgn_mult_abs)
qed

lemma Rem_sign: "Rem x y = 0 \<or> sgn (Rem x y) = sgn x" if "y \<noteq> 0"
proof -
  have "0 \<le> \<bar>x\<bar> mod \<bar>y\<bar>" using that by simp
  then show ?thesis by (cases "\<bar>x\<bar> mod \<bar>y\<bar> = 0") (auto simp: Rem_def sgn_mult)
qed

lemma Quo_dvd: "y dvd x \<Longrightarrow> Quo x y = x div y"
proof (cases "y = 0")
  case False
  assume "y dvd x"
  then obtain k where "x = y * k" by (rule dvdE)
  with False have "Quo x y = (sgn y * sgn y) * (sgn k * \<bar>k\<bar>)" by (simp add: Quo_def abs_mult sgn_mult)
  also have "\<dots> = k" using False by (simp add: sgn_if)
  finally show ?thesis using False \<open>x = y * k\<close> by simp
qed (simp add: Quo_def)

lemma Quo_bound: "\<bar>Quo x y\<bar> \<le> \<bar>x\<bar>"
proof -
  have "\<bar>x\<bar> div \<bar>y\<bar> \<le> \<bar>x\<bar>"
    by (cases "y = 0") (simp_all add: div_by_0 order.trans [OF zdiv_mono2 [of "\<bar>x\<bar>" 1 "\<bar>y\<bar>"]])
  moreover have "\<bar>Quo x y\<bar> \<le> \<bar>x\<bar> div \<bar>y\<bar>"
    by (auto simp: Quo_def abs_mult abs_sgn_eq pos_imp_zdiv_nonneg_iff)
  ultimately show ?thesis by (rule order.trans [rotated])
qed

lemma sint_MinInt64: "sint MinInt64 = - (2 ^ 63)"
  unfolding MinInt64_def by simp

lemma Quo_max:
  assumes "Quo x y = 2 ^ 63" and "\<bar>x\<bar> \<le> 2 ^ 63" and "x < 2 ^ 63"
  shows "x = - (2 ^ 63) \<and> y = - 1"
proof -
  from assms(1) Quo_bound [of x y] assms(2,3) have x: "x = - (2 ^ 63)" by linarith
  have "0 \<le> 2 ^ 63 div \<bar>y\<bar>" by (cases "y = 0") (simp_all add: pos_imp_zdiv_nonneg_iff)
  with assms(1) x have d: "2 ^ 63 div \<bar>y\<bar> = 2 ^ 63" and s: "sgn y = - 1"
    by (auto simp: Quo_def sgn_if split: if_splits)
  have "\<bar>y\<bar> \<le> 1"
  proof (rule ccontr)
    assume "\<not> \<bar>y\<bar> \<le> 1"
    then have "(2 :: int) ^ 63 div \<bar>y\<bar> \<le> 2 ^ 63 div 2" by (intro zdiv_mono2) auto
    with d show False by simp
  qed
  with s have "y = - 1" by (auto simp: sgn_if split: if_splits)
  with x show ?thesis by simp
qed

lemma sint_quo64:
  assumes "\<not> (x = MinInt64 \<and> y = - 1)"
  shows "sint (quo64 x y) = Quo (sint x) (sint y)"
proof -
  have "Quo (sint x) (sint y) \<noteq> 2 ^ 63"
  proof
    assume "Quo (sint x) (sint y) = 2 ^ 63"
    with sint64_range [of x] have "sint x = sint MinInt64" and "sint y = sint (- 1 :: 64 word)"
      unfolding sint_MinInt64 using Quo_max [of "sint x" "sint y"] by simp_all
    then have "x = MinInt64" and "y = - 1" by (simp_all only: sint_inject)
    with assms show False by simp
  qed
  then show ?thesis
    unfolding quo64_def using sint64_range [of x] Quo_bound [of "sint x" "sint y"]
    by (intro sint_word_of_int_small) linarith+
qed

lemma Quo_mult: "b \<noteq> 0 \<Longrightarrow> Quo (a * b) b = a"
  by (simp add: Quo_dvd)

lemma small_multiple: "\<bar>k * m\<bar> < m \<Longrightarrow> k = 0" for k m :: int
proof (rule ccontr)
  assume "\<bar>k * m\<bar> < m" and "k \<noteq> 0"
  then have "0 < m" and "1 \<le> \<bar>k\<bar>" by linarith+
  then have "m \<le> \<bar>k\<bar> * m" by simp
  with \<open>\<bar>k * m\<bar> < m\<close> \<open>0 < m\<close> show False by (simp add: abs_mult)
qed

lemma mult_fits:
  fixes a b :: "64 word"
  shows "in_int64 (of_int (sint a * sint b)) \<Longrightarrow> sint (a * b) = sint a * sint b"
  unfolding in_int64_of_int word_mult_int by (elim conjE) (rule sint_word_of_int_small)

text \<open>Dividing the wrapped product by a factor detects the overflow, except for \<open>MinInt64 * -1\<close>.\<close>

lemma mult_test:
  fixes a b :: "64 word"
  assumes "b \<noteq> 0" and "\<not> (a = MinInt64 \<and> b = - 1)"
  shows "quo64 (a * b) b = a \<longleftrightarrow> in_int64 (of_int (sint a * sint b))"
proof
  assume q: "quo64 (a * b) b = a"
  with assms have "\<not> (a * b = MinInt64 \<and> b = - 1)" by (auto simp: minus_equation_iff MinInt64_def)
  with q have "Quo (sint (a * b)) (sint b) = sint a" using sint_quo64 by metis
  with Quo_Rem [of "sint b" "sint (a * b)"] assms(1)
  have r: "sint (a * b) - sint a * sint b = Rem (sint (a * b)) (sint b)" by simp
  obtain k where k: "sint (a * b) = sint a * sint b + k * 2 ^ 64"
    unfolding word_mult_int using sint_congruent by blast
  have "\<bar>k * 2 ^ 64\<bar> < 2 ^ 64"
    using Rem_less [of "sint b" "sint (a * b)"] assms(1) r k sint64_range [of b] by simp
  then have "k = 0" by (rule small_multiple)
  with k sint64_range [of "a * b"] show "in_int64 (of_int (sint a * sint b))"
    unfolding in_int64_of_int by simp
next
  assume "in_int64 (of_int (sint a * sint b))"
  then have "sint (a * b) = sint a * sint b" by (rule mult_fits)
  with assms(1) show "quo64 (a * b) b = a" by (simp add: quo64_def Quo_mult)
qed

text \<open>The signs settle the remaining case.\<close>

lemma mult_signs:
  fixes a b :: "64 word"
  assumes "a \<noteq> 0" and "b \<noteq> 0"
  shows "(sint (a * b) < 0) = ((sint a < 0) \<noteq> (sint b < 0)) \<and> quo64 (a * b) b = a \<longleftrightarrow>
    in_int64 (of_int (sint a * sint b))"
proof (cases "a = MinInt64 \<and> b = - 1")
  case True
  then show ?thesis by (simp add: MinInt64_def in_int64_def)
next
  case False
  from assms have "sint a * sint b < 0 \<longleftrightarrow> (sint a < 0) \<noteq> (sint b < 0)"
    by (auto simp: mult_less_0_iff) (metis linorder_neqE_linordered_idom sint_eq_0)+
  with mult_test [OF assms(2) False] mult_fits [of a b] show ?thesis by auto
qed

subsection \<open>Greatest common divisors\<close>

lemma gcd_Rem: "gcd y (Rem x y) = gcd x y" for x y :: int
proof -
  have "gcd y (Rem x y) = gcd \<bar>y\<bar> (\<bar>x\<bar> mod \<bar>y\<bar>)" by (auto simp: Rem_def sgn_if)
  also have "\<dots> = gcd \<bar>x\<bar> \<bar>y\<bar>" by (simp only: gcd_red_int [symmetric])
  finally show ?thesis by simp
qed

lemma gcd64_ok: "\<bar>sint (gcd64 u v)\<bar> = gcd (sint u) (sint v)"
proof (induction u v rule: gcd64.induct)
  case (1 u v)
  then show ?case by (subst gcd64.simps) (simp add: sint_rem64 gcd_Rem)
qed

lemma gcd64_dvd: "sint v dvd sint u \<Longrightarrow> v \<noteq> 0 \<Longrightarrow> gcd64 u v = v"
proof -
  assume "sint v dvd sint u" and "v \<noteq> 0"
  then have "sint (rem64 u v) = 0" by (simp add: sint_rem64 Rem_def del: sint_eq_0)
  then have "rem64 u v = 0" by simp
  then show ?thesis using \<open>v \<noteq> 0\<close> by (subst gcd64.simps) (simp add: gcd64.simps [of v 0])
qed

subsection \<open>Fractions\<close>

lemma of_int_div_dvd: "b dvd a \<Longrightarrow> (of_int (a div b) :: rat) = of_int a / of_int b"
  by (auto simp: dvd_def)

lemma div_in_Ints: "(of_int a / of_int b :: rat) \<in> \<int> \<longleftrightarrow> b dvd a" if "b \<noteq> 0"
proof
  assume "(of_int a / of_int b :: rat) \<in> \<int>"
  then obtain k where "(of_int a / of_int b :: rat) = of_int k" by (elim Ints_cases)
  with that have "(of_int a :: rat) = of_int (b * k)" by (simp add: field_simps)
  then have "a = b * k" by (simp only: of_int_eq_iff)
  then show "b dvd a" by simp
qed (auto simp: dvd_def that)

lemma Fract_div: "g \<noteq> 0 \<Longrightarrow> g dvd a \<Longrightarrow> g dvd b \<Longrightarrow> Fract (a div g) (b div g) = of_int a / of_int b"
  by (auto simp: dvd_def Fract_of_int_quotient)

lemma quotient_of_exact: "quotient_of q = (n, d) \<Longrightarrow> q = of_int n / of_int d \<and> 0 < d"
  using quotient_of_div quotient_of_denom_pos by blast

lemma of_rat_ok: "exact (of_rat q) = q \<and> canonical (of_rat q)"
proof (cases "quotient_of q")
  case (Pair n d)
  have "d = 1" if "q \<in> \<int>" using that Pair by (auto elim!: Ints_cases)
  with quotient_of_exact [OF Pair] Pair show ?thesis by (auto simp: of_rat_def)
qed

lemma BigInt_Divide_ok: "exactly (BigInt_Divide n m) (of_int n / of_int m)" if "m \<noteq> 0"
proof -
  let ?g = "gcd n m"
  have g: "?g \<noteq> 0" "?g dvd n" "?g dvd m" using that by simp_all
  have i: "of_int n / of_int m \<in> (\<int> :: rat set) \<longleftrightarrow> m div ?g = 1 \<or> m div ?g = - 1"
  proof -
    have "m dvd n \<longleftrightarrow> \<bar>m div ?g\<bar> = 1"
    proof
      assume "m dvd n"
      then have "m = sgn m * ?g" by (simp add: gcd_proj2_iff sgn_mult_abs)
      then have "m div ?g = sgn m" using g(1) by (metis nonzero_mult_div_cancel_right)
      with that show "\<bar>m div ?g\<bar> = 1" by (simp add: abs_sgn_eq)
    next
      assume "\<bar>m div ?g\<bar> = 1"
      then have "m div ?g = 1 \<or> m div ?g = - 1" by linarith
      with dvd_mult_div_cancel [OF g(3)] have "m = ?g \<or> m = - ?g" by (metis mult.right_neutral mult_minus1_right)
      then show "m dvd n" using g(2) by (metis minus_dvd_iff)
    qed
    then show ?thesis unfolding div_in_Ints [OF that] by linarith
  qed
  have f: "(of_int n / of_int m :: rat) = Fract (n div ?g) (m div ?g)" by (rule Fract_div [symmetric, OF g])
  show ?thesis
  proof (cases "m div ?g = 1 \<or> m div ?g = - 1")
    case True
    then show ?thesis using that f by (auto simp: BigInt_Divide_def Let_def g Fract_of_int_quotient)
  next
    case False
    then show ?thesis using that f i by (auto simp: BigInt_Divide_def Let_def g)
  qed
qed

subsection \<open>The operations on exact values\<close>

lemma in_int64_sint [simp]: "in_int64 (of_int (sint (a :: 64 word)))"
  unfolding in_int64_of_int using sint64_range [of a] by blast

lemmas number_ops = with64_def withBig_def Let_def

lemma Add_ok: "checked x y (Add x y) (exact x + exact y)"
proof (cases x y rule: combined_cases)
  case (int64 a b)
  then show ?thesis using add_test [of a b] by (auto simp: Add_def int64_Add_def number_ops checked_def)
qed (auto simp: Add_def bigInt_Add_def ratio_Add_def Ratio_Add_def number_ops checked_def of_rat_ok)

lemma Sub_ok: "checked x y (Sub x y) (exact x - exact y)"
proof (cases x y rule: combined_cases)
  case (int64 a b)
  then show ?thesis using sub_test [of a b] by (auto simp: Sub_def int64_Sub_def number_ops checked_def)
qed (auto simp: Sub_def bigInt_Sub_def ratio_Sub_def Ratio_Sub_def number_ops checked_def of_rat_ok)

lemma Ratio_Multiply_ok: "exactly (Ratio_Multiply q r) (q * r)"
proof -
  obtain a b c d where q: "quotient_of q = (a, b)" and r: "quotient_of r = (c, d)" by (metis surj_pair)
  from quotient_of_exact [OF q] quotient_of_exact [OF r]
  have "b * d \<noteq> 0" and "of_int (a * c) / of_int (b * d) = q * r" by auto
  with BigInt_Divide_ok [of "b * d" "a * c"] show ?thesis
    by (simp add: Ratio_Multiply_def q r bigInt_Divide_def number_ops)
qed

lemma Ratio_Divide_ok: "exactly (Ratio_Divide q r) (q / r)" if "r \<noteq> 0"
proof -
  obtain a b c d where q: "quotient_of q = (a, b)" and r: "quotient_of r = (c, d)" by (metis surj_pair)
  from quotient_of_exact [OF q] quotient_of_exact [OF r] that
  have "b * c \<noteq> 0" and "of_int (a * d) / of_int (b * c) = q / r" by auto
  with BigInt_Divide_ok [of "b * c" "a * d"] show ?thesis
    by (simp add: Ratio_Divide_def q r bigInt_Divide_def number_ops)
qed

lemma Multiply_ok: "checked x y (Multiply x y) (exact x * exact y)"
proof (cases x y rule: combined_cases)
  case (int64 a b)
  show ?thesis
  proof (cases "a = 0 \<or> b = 0")
    case True
    with int64 show ?thesis by (auto simp: Multiply_def int64_Multiply_def number_ops checked_def in_int64_def)
  next
    case False
    with int64 mult_signs [of a b] mult_fits [of a b] show ?thesis
      by (auto simp: Multiply_def int64_Multiply_def number_ops checked_def)
  qed
qed (auto simp: Multiply_def bigInt_Multiply_def ratio_Multiply_def number_ops checked_def Ratio_Multiply_ok)

lemma AddP_ok: "exactly (AddP x y) (exact x + exact y)"
proof (cases x y rule: combined_cases)
  case (int64 a b)
  then show ?thesis using addp_test [of a b] add_test(2) [of a b]
    by (auto simp: AddP_def int64_AddP_def bigInt_Add_def number_ops)
qed (auto simp: AddP_def bigInt_Add_def ratio_Add_def Ratio_Add_def number_ops of_rat_ok)

lemma sint_uminus: "a \<noteq> MinInt64 \<Longrightarrow> sint (- a) = - sint a" for a :: "64 word"
proof -
  assume "a \<noteq> MinInt64"
  then have "sint a \<noteq> - (2 ^ 63)" by (simp only: sint_MinInt64 [symmetric] sint_inject) simp
  with sint64_range [of a] have "sint (word_of_int (- sint a) :: 64 word) = - sint a"
    by (intro sint_word_of_int_small) linarith+
  then show ?thesis by simp
qed

lemma NegateP_ok: "\<exists>z. NegateP x = Inr z \<and> exact z = - exact x"
  by (cases x) (auto simp: NegateP_def int64_NegateP_def bigInt_Negate_def bigInt_Multiply_def ratio_Negate_def
      number_ops sint_uminus)

lemma SubP_ok: "exactly (SubP x y) (exact x - exact y)"
proof -
  obtain z where z: "NegateP y = Inr z" "exact z = - exact y" using NegateP_ok by blast
  with AddP_ok [of x z] show ?thesis by (simp add: SubP_def)
qed

lemma MultiplyP_ok: "exactly (MultiplyP x y) (exact x * exact y)"
proof (cases x y rule: combined_cases)
  case (int64 a b)
  show ?thesis
  proof (cases "b = 0 \<or> a = MinInt64 \<and> sint b < 0")
    case True
    with int64 show ?thesis by (auto simp: MultiplyP_def int64_MultiplyP_def bigInt_Multiply_def number_ops)
  next
    case False
    then have "\<not> (a = MinInt64 \<and> b = - 1)" by auto
    with False int64 mult_test [of b a] mult_fits [of a b] show ?thesis
      by (auto simp: MultiplyP_def int64_MultiplyP_def bigInt_Multiply_def number_ops)
  qed
qed (auto simp: MultiplyP_def bigInt_Multiply_def ratio_Multiply_def number_ops Ratio_Multiply_ok)

subsection \<open>Division\<close>

lemma IsZero_ok: "IsZero x = Inr (exact x = 0)"
  by (cases x) (simp_all add: IsZero_def)

lemma smaller_not_Min: "n \<noteq> MinInt64" if "\<bar>sint n\<bar> \<le> \<bar>sint a\<bar>" and "a \<noteq> MinInt64"
proof
  assume "n = MinInt64"
  then have "sint n = - (2 ^ 63)" by (simp only: sint_MinInt64)
  with that(1) sint64_range [of a] have "sint a = sint MinInt64" unfolding sint_MinInt64 by linarith
  with that(2) show False by simp
qed

lemma int64_Divide_ok:
  assumes "b \<noteq> 0" and "a \<noteq> MinInt64" and "b \<noteq> MinInt64" and "AsInt64 x = Inr a" and "AsInt64 y = Inr b"
  shows "exactly (int64_Divide x y) (of_int (sint a) / of_int (sint b))"
proof (cases "sint b dvd sint a")
  case True
  with assms have g: "gcd64 a b = b" and d: "quo64 b b = 1"
    by (simp_all add: gcd64_dvd quo64_def Quo_dvd)
  from True assms have "sint (quo64 a b) = sint a div sint b" by (simp add: sint_quo64 Quo_dvd)
  with True assms g d show ?thesis
    by (simp add: int64_Divide_def number_ops of_int_div_dvd)
next
  case False
  define g where "g = gcd64 a b"
  define n where "n = quo64 a g"
  define d where "d = quo64 b g"
  have "\<bar>sint g\<bar> = gcd (sint a) (sint b)" unfolding g_def by (rule gcd64_ok)
  then have da: "sint g dvd sint a" and db: "sint g dvd sint b" and g0: "g \<noteq> 0"
    using assms(1) by (metis abs_dvd_iff gcd_dvd1, metis abs_dvd_iff gcd_dvd2, auto)
  have nq: "sint n = Quo (sint a) (sint g)" and dq: "sint d = Quo (sint b) (sint g)"
    unfolding n_def d_def using assms by (simp_all add: sint_quo64)
  with da db have n: "sint n = sint a div sint g" and d: "sint d = sint b div sint g"
    by (simp_all add: Quo_dvd)
  have q: "Fract (sint n) (sint d) = of_int (sint a) / of_int (sint b)"
    unfolding n d using g0 da db by (intro Fract_div) simp_all
  have "n \<noteq> MinInt64" by (rule smaller_not_Min [of n a]) (simp_all add: nq Quo_bound assms)
  moreover have "d \<noteq> MinInt64" by (rule smaller_not_Min [of d b]) (simp_all add: dq Quo_bound assms)
  ultimately have q': "Fract (sint (- n)) (sint (- d)) = of_int (sint a) / of_int (sint b)"
    using q by (simp add: sint_uminus)
  have "d \<noteq> 1"
  proof
    assume "d = 1"
    with d have "sint b div sint g = 1" by simp
    with dvd_div_mult_self [OF db] have "sint b = sint g" by simp
    with False da show False by simp
  qed
  moreover have "of_int (sint a) / of_int (sint b) \<notin> (\<int> :: rat set)"
    using False assms(1) by (simp add: div_in_Ints)
  ultimately show ?thesis
    using assms q q' g0 unfolding int64_Divide_def number_ops
    by (simp add: g_def [symmetric] n_def [symmetric] d_def [symmetric])
qed

lemma bigInt_Divide_ok:
  "AsBigInt x = Inr m \<Longrightarrow> AsBigInt y = Inr n \<Longrightarrow> n \<noteq> 0 \<Longrightarrow> exactly (bigInt_Divide x y) (of_int m / of_int n)"
  by (simp add: bigInt_Divide_def number_ops BigInt_Divide_ok)

definition is_Min :: "number \<Rightarrow> bool" where
  "is_Min x \<longleftrightarrow> fixed x \<and> exact x = - (2 ^ 63)"

lemma is_Min_AsInt64: "AsInt64 x = Inr a \<Longrightarrow> fixed x \<Longrightarrow> is_Min x \<longleftrightarrow> a = MinInt64"
proof -
  assume "AsInt64 x = Inr a" and "fixed x"
  moreover have "(of_int (sint a) = (- (2 ^ 63) :: rat)) \<longleftrightarrow> sint a = sint MinInt64"
    unfolding sint_MinInt64 by (simp only: of_int_eq_iff [symmetric, where 'a = rat]) simp
  ultimately show ?thesis by (cases x) (simp_all add: is_Min_def)
qed

lemma Divide_ok:
  assumes "exact y \<noteq> 0" and "fixed x \<and> fixed y \<longrightarrow> \<not> is_Min x \<and> \<not> is_Min y"
  shows "exactly (Divide x y) (exact x / exact y)"
proof (cases x y rule: combined_cases)
  case (int64 a b)
  with assms have "b \<noteq> 0" and "a \<noteq> MinInt64" and "b \<noteq> MinInt64" by (auto simp: is_Min_AsInt64)
  then have "exactly (int64_Divide x y) (exact x / exact y)"
    using int64 by (simp add: int64_Divide_ok)
  with int64 assms show ?thesis by (simp add: Divide_def IsZero_ok)
next
  case (bigint m n)
  with assms show ?thesis by (simp add: Divide_def IsZero_ok bigInt_Divide_ok)
next
  case ratio
  with assms show ?thesis by (simp add: Divide_def IsZero_ok ratio_Divide_def Ratio_Divide_ok)
qed

text \<open>Truncation towards zero, of a rational number.\<close>

definition trunc :: "rat \<Rightarrow> int" where
  "trunc q = (if q < 0 then \<lceil>q\<rceil> else \<lfloor>q\<rfloor>)"

lemma Quo_trunc: "Quo x y = trunc (of_int x / of_int y)" if nz: "y \<noteq> 0"
proof -
  have f: "\<lfloor>of_int a / of_int b :: rat\<rfloor> = a div b" for a b by (rule floor_divide_of_int_eq)
  have c: "\<lceil>- (of_int a / of_int b) :: rat\<rceil> = - (a div b)" for a b by (simp add: ceiling_minus f)
  consider "0 \<le> x" "0 < y" | "0 \<le> x" "y < 0" | "x < 0" "0 < y" | "x < 0" "y < 0" using nz by linarith
  then show ?thesis
  proof cases
    case 1
    then show ?thesis by (cases "x = 0") (auto simp: Quo_def trunc_def f divide_less_0_iff)
  next
    case 2
    then show ?thesis using c [of x "- y"]
      by (cases "x = 0") (auto simp: Quo_def trunc_def divide_less_0_iff)
  next
    case 3
    then show ?thesis using c [of "- x" y] by (auto simp: Quo_def trunc_def divide_less_0_iff)
  next
    case 4
    then show ?thesis using f [of "- x" "- y"] by (auto simp: Quo_def trunc_def divide_less_0_iff)
  qed
qed

lemma Rem_trunc: "of_int (Rem x y) = (of_int x - of_int (trunc (of_int x / of_int y)) * of_int y :: rat)" if "y \<noteq> 0"
proof -
  have "Rem x y = x - Quo x y * y" using Quo_Rem [OF that, of x] by simp
  then show ?thesis by (simp add: Quo_trunc that)
qed

lemma trunc_fraction:
  assumes "quotient_of q = (a, b)" and "quotient_of r = (c, d)" and "r \<noteq> 0"
  shows "b * c \<noteq> 0 \<and> Quo (a * d) (b * c) = trunc (q / r)"
proof -
  from quotient_of_exact [OF assms(1)] quotient_of_exact [OF assms(2)] assms(3)
  have "b * c \<noteq> 0" and "of_int (a * d) / of_int (b * c) = q / r" by auto
  with Quo_trunc show ?thesis by simp
qed

lemma Quotient_ok:
  assumes "exact y \<noteq> 0" and "\<not> (is_Min x \<and> fixed y \<and> exact y = - 1)"
  shows "exactly (Quotient x y) (of_int (trunc (exact x / exact y)))"
proof (cases x y rule: combined_cases)
  case (int64 a b)
  with assms have b: "b \<noteq> 0" and "\<not> (a = MinInt64 \<and> b = - 1)" by (auto simp: is_Min_AsInt64)
  then have "sint (quo64 a b) = trunc (exact x / exact y)" using int64 by (simp add: sint_quo64 Quo_trunc)
  with int64 assms b show ?thesis by (simp add: Quotient_def IsZero_ok int64_Quotient_def number_ops)
next
  case (bigint m n)
  with assms show ?thesis
    by (simp add: Quotient_def IsZero_ok bigInt_Quotient_def BigInt_Quotient_def number_ops Quo_trunc)
next
  case ratio
  obtain a b c d where "quotient_of (exact x) = (a, b)" and "quotient_of (exact y) = (c, d)" by (metis surj_pair)
  with trunc_fraction [OF this assms(1)] ratio assms(1) show ?thesis
    by (simp add: Quotient_def IsZero_ok ratio_Quotient_def Ratio_Quotient_def)
qed

subsection \<open>Kinds of results\<close>

fun is_GoBig :: "number \<Rightarrow> bool" where
  "is_GoBig (GoBig n) = True"
| "is_GoBig _ = False"

definition kind_ok :: "bool \<Rightarrow> nerr + number \<Rightarrow> bool" where
  "kind_ok f r \<longleftrightarrow> (case r of Inl e \<Rightarrow> True | Inr z \<Rightarrow> (fixed z \<longleftrightarrow> f) \<and> \<not> is_GoBig z)"

lemma kind_ok_simps [simp]: "kind_ok f (Inl e)" "kind_ok f (Inr z) \<longleftrightarrow> (fixed z \<longleftrightarrow> f) \<and> \<not> is_GoBig z"
  by (simp_all add: kind_ok_def)

lemma BigInt_Divide_kind: "kind_ok False (BigInt_Divide n m)"
  by (simp add: BigInt_Divide_def Let_def)

lemma of_rat_kind: "fixed (of_rat q) = False \<and> \<not> is_GoBig (of_rat q)"
  by (cases "quotient_of q") (simp add: of_rat_def)

lemma Ratio_kinds: "kind_ok False (Ratio_Multiply q r)" "kind_ok False (Ratio_Quotient q r)"
  by (cases "quotient_of q"; cases "quotient_of r";
      simp add: Ratio_Multiply_def Ratio_Quotient_def bigInt_Divide_def number_ops BigInt_Divide_kind)+

lemma Add_kind: "kind_ok (fixed x \<and> fixed y) (Add x y)"
  by (cases x y rule: combined_cases)
    (auto simp: Add_def int64_Add_def bigInt_Add_def ratio_Add_def Ratio_Add_def number_ops of_rat_kind)

lemma Sub_kind: "kind_ok (fixed x \<and> fixed y) (Sub x y)"
  by (cases x y rule: combined_cases)
    (auto simp: Sub_def int64_Sub_def bigInt_Sub_def ratio_Sub_def Ratio_Sub_def number_ops of_rat_kind)

lemma Multiply_kind: "kind_ok (fixed x \<and> fixed y) (Multiply x y)"
  by (cases x y rule: combined_cases)
    (auto simp: Multiply_def int64_Multiply_def bigInt_Multiply_def ratio_Multiply_def number_ops Ratio_kinds)

lemma Quotient_kind: "kind_ok (fixed x \<and> fixed y) (Quotient x y)"
  by (cases x y rule: combined_cases)
    (auto simp: Quotient_def IsZero_ok int64_Quotient_def bigInt_Quotient_def BigInt_Quotient_def ratio_Quotient_def
      number_ops Ratio_kinds)

text \<open>The remainder of ratios is a product and a difference, neither of them fixed.\<close>

lemma ratio_Remainder_ok:
  assumes "exact y \<noteq> 0" and "\<not> (fixed x \<and> fixed y)"
  obtains z where "ratio_Remainder x y = Inr z" and "exact z = exact x - of_int (trunc (exact x / exact y)) * exact y"
    and "canonical z" and "\<not> fixed z" and "\<not> is_GoBig z"
proof -
  obtain a b c d where q: "quotient_of (exact x) = (a, b)" "quotient_of (exact y) = (c, d)" by (metis surj_pair)
  let ?t = "BigInt (trunc (exact x / exact y))"
  from Multiply_ok [of ?t y] Multiply_kind [of ?t y] obtain p
    where p: "Multiply ?t y = Inr p" "exact p = exact ?t * exact y" "\<not> fixed p"
    by (auto simp: checked_def exactly_def)
  from Sub_ok [of x p] Sub_kind [of x p] p(3) obtain z
    where z: "Sub x p = Inr z" "exact z = exact x - exact p" "canonical z" "\<not> fixed z" "\<not> is_GoBig z"
    by (auto simp: checked_def exactly_def)
  from trunc_fraction [OF q assms(1)] q p(1) z(1) have "ratio_Remainder x y = Inr z"
    by (simp add: ratio_Remainder_def)
  with z p(2) that show ?thesis by simp
qed

lemma Remainder_ok:
  assumes "exact y \<noteq> 0"
  shows "exactly (Remainder x y) (exact x - of_int (trunc (exact x / exact y)) * exact y)"
proof (cases x y rule: combined_cases)
  case (int64 a b)
  with assms show ?thesis
    by (simp add: Remainder_def IsZero_ok int64_Remainder_def number_ops sint_rem64 Rem_trunc)
next
  case (bigint m n)
  with assms show ?thesis
    by (simp add: Remainder_def IsZero_ok bigInt_Remainder_def BigInt_Remainder_def number_ops Rem_trunc)
next
  case ratio
  from ratio_Remainder_ok [OF assms ratio(2)] ratio assms show ?thesis
    by (auto simp: Remainder_def IsZero_ok exactly_def)
qed

lemma Remainder_kind: "kind_ok (fixed x \<and> fixed y) (Remainder x y)"
proof (cases "exact y = 0")
  case False
  show ?thesis
  proof (cases x y rule: combined_cases)
    case (int64 a b)
    with False show ?thesis by (simp add: Remainder_def IsZero_ok int64_Remainder_def number_ops)
  next
    case (bigint m n)
    with False show ?thesis
      by (simp add: Remainder_def IsZero_ok bigInt_Remainder_def BigInt_Remainder_def number_ops)
  next
    case ratio
    obtain z where "ratio_Remainder x y = Inr z" and z: "\<not> fixed z" "\<not> is_GoBig z"
      using ratio_Remainder_ok [OF False ratio(2)] .
    with False have "Remainder x y = Inr z" by (simp add: Remainder_def IsZero_ok ratio(1))
    with z ratio(2) show ?thesis by simp
  qed
qed (simp add: Remainder_def IsZero_ok)

subsection \<open>Comparison\<close>

lemma Lt_ok: "Lt x y = Inr (exact x < exact y)"
  by (cases x y rule: combined_cases) (simp_all add: Lt_def number_ops)

lemma Lte_ok: "Lte x y = Inr (exact x \<le> exact y)"
  by (cases x y rule: combined_cases) (simp_all add: Lte_def number_ops)

lemma NumEquiv_ok: "NumEquiv x y = Inr (exact x = exact y)"
  by (cases x y rule: combined_cases) (simp_all add: NumEquiv_def number_ops)

lemma category_canonical: "canonical x \<Longrightarrow> category x = CategoryInteger \<longleftrightarrow> exact x \<in> \<int>"
  by (cases x) simp_all

lemma NumbersEqual_ok: "NumbersEqual x y = Inr (exact x = exact y)" if "canonical x" and "canonical y"
proof (cases "category x = category y")
  case True
  then show ?thesis by (simp add: NumbersEqual_def NumEquiv_ok)
next
  case False
  then have "(category x = CategoryInteger) \<noteq> (category y = CategoryInteger)"
    by (cases "category x"; cases "category y") simp_all
  with category_canonical [OF that(1)] category_canonical [OF that(2)] have "exact x \<noteq> exact y" by auto
  with False show ?thesis by (simp add: NumbersEqual_def)
qed

lemma Compare_ok: "Compare x y = Inr (if exact x < exact y then - 1 else if exact y < exact x then 1 else 0)"
  by (simp add: Compare_def Lt_ok)

lemma IncP_ok: "(if fixed x \<or> (\<exists>n. x = BigInt n) then exactly (IncP x) (exact x + 1) else IncP x = Inl CannotConvert)"
proof -
  have "(sint (i + 1) < sint i) \<longleftrightarrow> \<not> in_int64 (of_int (sint i + 1))" for i :: "64 word"
  proof -
    have "sint (i + 1) \<noteq> sint i" by simp
    then have "sint (i + 1) < sint i \<longleftrightarrow> \<not> sint (i + 1) > sint i" by linarith
    then show ?thesis using add_test(1) [of i 1] by simp
  qed
  moreover have "in_int64 (of_int (sint i + 1)) \<Longrightarrow> sint (i + 1) = sint i + 1" for i :: "64 word"
    using add_test(2) [of i 1] by simp
  ultimately show ?thesis by (cases x) auto
qed

text \<open>An unchecked operation is exact up to a multiple of \<open>2 ^ 64\<close>.\<close>

definition wraps :: "number \<Rightarrow> number \<Rightarrow> nerr + number \<Rightarrow> rat \<Rightarrow> bool" where
  "wraps x y r q \<longleftrightarrow>
     (if fixed x \<and> fixed y then \<exists>c k. r = Inr (Int64 c) \<and> of_int (sint c) = q + of_int (k * 2 ^ 64) else exactly r q)"

lemma wraps_int: "\<exists>k. (of_int (sint (word_of_int n :: 64 word)) :: rat) = of_int n + of_int (k * 2 ^ 64)"
  using sint_congruent [of n] by (metis of_int_add)

lemma UncheckedAdd_ok: "wraps x y (UncheckedAdd x y) (exact x + exact y)"
proof (cases x y rule: combined_cases)
  case (int64 a b)
  with wraps_int [of "sint a + sint b"] show ?thesis
    by (simp add: wraps_def UncheckedAdd_def int64_UncheckedAdd_def number_ops)
qed (auto simp: wraps_def UncheckedAdd_def bigInt_Add_def ratio_Add_def Ratio_Add_def number_ops of_rat_ok)

lemma UncheckedSubtract_ok: "wraps x y (UncheckedSubtract x y) (exact x - exact y)"
proof (cases x y rule: combined_cases)
  case (int64 a b)
  with wraps_int [of "sint a - sint b"] show ?thesis
    by (simp add: wraps_def UncheckedSubtract_def int64_UncheckedSub_def number_ops)
qed (auto simp: wraps_def UncheckedSubtract_def bigInt_Sub_def ratio_Sub_def Ratio_Sub_def number_ops of_rat_ok)

lemma UncheckedMultiply_ok: "wraps x y (UncheckedMultiply x y) (exact x * exact y)"
proof (cases x y rule: combined_cases)
  case (int64 a b)
  with wraps_int [of "sint a * sint b"] show ?thesis
    by (simp add: wraps_def UncheckedMultiply_def int64_UncheckedMultiply_def number_ops)
qed (auto simp: wraps_def UncheckedMultiply_def bigInt_Multiply_def ratio_Multiply_def number_ops Ratio_Multiply_ok)

subsection \<open>Truncation\<close>

lemma trunc_bound: "\<bar>q - of_int (trunc q)\<bar> < 1 \<and> (q = of_int (trunc q) \<or> sgn (q - of_int (trunc q)) = sgn q)"
  unfolding trunc_def by (auto simp: sgn_if abs_if) linarith+

lemma remainder_bound:
  fixes x y :: rat
  assumes "y \<noteq> 0"
  defines "r \<equiv> x - of_int (trunc (x / y)) * y"
  shows "\<bar>r\<bar> < \<bar>y\<bar> \<and> (r = 0 \<or> sgn r = sgn x)"
proof -
  let ?f = "x / y - of_int (trunc (x / y))"
  have r: "r = ?f * y" using assms(1) by (simp add: r_def left_diff_distrib)
  with trunc_bound [of "x / y"] assms(1) have "\<bar>r\<bar> < \<bar>y\<bar>" by (simp add: abs_mult)
  moreover have "r = 0 \<or> sgn r = sgn x"
    using trunc_bound [of "x / y"] assms(1) r by (auto simp: sgn_mult sgn_divide)
  ultimately show ?thesis by blast
qed

subsection \<open>Bits\<close>

lemma one_shl_bit: "0 \<le> sint n \<Longrightarrow> \<exists>b. one_shl n = Inr b \<and> (\<forall>i < 64. bit b i \<longleftrightarrow> int i = sint n)"
  by (auto simp: one_shl_def bit_exp_iff)

lemma shift_count: "unat ((n :: 64 word) AND 0x3f) = unat n mod 64"
proof -
  have "n AND 0x3f = take_bit 6 n" by (simp add: take_bit_eq_mask mask_numeral)
  then have "unat (n AND 0x3f) = take_bit 6 (unat n)" by (simp only: unsigned_take_bit_eq)
  then show ?thesis by (simp add: take_bit_eq_mod)
qed

lemma sint_signed_drop_bit: "sint (signed_drop_bit k (a :: 64 word)) = sint a div 2 ^ k"
  by (simp only: sint_signed_drop_bit_eq drop_bit_eq_div)

lemma unat_drop_bit: "unat (drop_bit k (a :: 64 word)) = unat a div 2 ^ k"
  unfolding unat_drop_bit_eq by (simp only: drop_bit_eq_div)

lemma bits_ok:
  assumes "bitOpsCast x = Inr a" and "bitOpsCast y = Inr n"
  shows "if sint n < 0 then SetBit x y = Inl GoPanic \<and> ClearBit x y = Inl GoPanic \<and> FlipBit x y = Inl GoPanic \<and> TestBit x y = Inl GoPanic
    else \<exists>s c f. SetBit x y = Inr (Int64 s) \<and> ClearBit x y = Inr (Int64 c) \<and> FlipBit x y = Inr (Int64 f) \<and>
      TestBit x y = Inr (sint n < 64 \<and> bit a (nat (sint n))) \<and>
      (\<forall>i < 64. (bit s i \<longleftrightarrow> bit a i \<or> int i = sint n) \<and> (bit c i \<longleftrightarrow> bit a i \<and> int i \<noteq> sint n) \<and>
        (bit f i \<longleftrightarrow> bit a i \<noteq> (int i = sint n)))"
proof (cases "sint n < 0")
  case True
  with assms show ?thesis
    by (simp add: SetBit_def ClearBit_def FlipBit_def TestBit_def with_bits_def one_shl_def)
next
  case False
  then obtain b where b: "one_shl n = Inr b" and bits: "\<forall>i < 64. bit b i \<longleftrightarrow> int i = sint n"
    using one_shl_bit [of n] by auto
  have "a AND b \<noteq> 0 \<longleftrightarrow> (\<exists>i < 64. bit a i \<and> bit b i)"
    by (auto simp: bit_eq_iff bit_and_iff dest: bit_imp_le_length)
  also have "\<dots> \<longleftrightarrow> sint n < 64 \<and> bit a (nat (sint n))"
  proof -
    have "i = nat (sint n)" if "int i = sint n" for i using that by linarith
    with False bits show ?thesis by (auto simp: nat_less_iff intro!: exI [of _ "nat (sint n)"])
  qed
  finally show ?thesis using assms b bits False
    by (simp add: SetBit_def ClearBit_def FlipBit_def TestBit_def with_bits_def bit_or_iff bit_and_iff bit_xor_iff bit_not_iff)
qed

lemma shifts_ok:
  assumes "bitOpsCast x = Inr a" and "bitOpsCast y = Inr n"
  shows "ShiftLeft x y = Inr (Int64 (a * 2 ^ (unat n mod 64))) \<and>
    (\<exists>r. ShiftRight x y = Inr (Int64 r) \<and> sint r = sint a div 2 ^ (unat n mod 64)) \<and>
    (\<exists>r. UnsignedShiftRight x y = Inr (Int64 r) \<and> unat r = unat a div 2 ^ (unat n mod 64))"
  using assms unfolding ShiftLeft_def ShiftRight_def UnsignedShiftRight_def with_bits_def shift_count
  by (simp add: push_bit_eq_mult sint_signed_drop_bit unat_drop_bit)

end
