(* ===== verification/NumbersProps.thy ===== *)
theory NumbersProps
  imports NumbersSpec
begin

text \<open>
  The properties of the numeric tower, over the exact value \<^verbatim>\<open>exact x\<close> of a number: checked,
  promoting and unchecked arithmetic, comparison, division, the kinds of the results, and bits.
\<close>

unbundle bit_operations_syntax

text \<open>C20. Checked arithmetic.  \<^verbatim>\<open>Add\<close>, \<^verbatim>\<open>Sub\<close> and \<^verbatim>\<open>Multiply\<close> return the exact sum, difference
  and product, in lowest terms, for operands of every kind, except that two fixed-width operands
  whose exact result does not fit 64 bits panic with an integer overflow; the overflow tests of the
  code (comparison for sums, division for products) detect exactly these cases.\<close>

theorem checked_arithmetic:
  "checked x y (Add x y) (exact x + exact y) \<and> checked x y (Sub x y) (exact x - exact y) \<and>
   checked x y (Multiply x y) (exact x * exact y)"
  by (intro conjI Add_ok Sub_ok Multiply_ok)


text \<open>C22. Comparison.  On numbers whose ratios are not integers, \<^verbatim>\<open>Lt\<close>, \<^verbatim>\<open>Lte\<close>, \<^verbatim>\<open>NumEquiv\<close> and
  \<^verbatim>\<open>Compare\<close> are the order and the equality of the exact values whatever the kinds of the
  operands, they never panic, and \<^verbatim>\<open>NumbersEqual\<close>, which first compares categories, is the same
  equality.\<close>

theorem comparison_exact:
  assumes "canonical x" and "canonical y"
  shows "Lt x y = Inr (exact x < exact y) \<and> Lte x y = Inr (exact x \<le> exact y) \<and>
    NumEquiv x y = Inr (exact x = exact y) \<and> NumbersEqual x y = Inr (exact x = exact y) \<and>
    Compare x y = Inr (if exact x < exact y then - 1 else if exact y < exact x then 1 else 0)"
  using assms by (simp only: Lt_ok Lte_ok NumEquiv_ok NumbersEqual_ok Compare_ok simp_thms)

theorem comparison_exact_witness: "NumbersEqual (Int64 3) (BigInt 3) = Inr True"
  using comparison_exact [of "Int64 3" "BigInt 3"] by simp

text \<open>C23. Division.  \<^verbatim>\<open>Divide\<close> panics with a division by zero exactly on a zero divisor; otherwise,
  when no fixed-width operand is the least 64-bit integer, it returns the exact quotient, an integer
  when it is one and a ratio in lowest terms when it is not.\<close>

theorem division_exact:
  assumes "fixed x \<and> fixed y \<longrightarrow> \<not> is_Min x \<and> \<not> is_Min y"
  shows "if exact y = 0 then Divide x y = Inl DivideByZero else exactly (Divide x y) (exact x / exact y)"
  using Divide_ok [OF _ assms] by (simp add: Divide_def IsZero_ok)

theorem division_exact_witness: "exactly (Divide (Int64 6) (Int64 4)) (3 / 2)"
  using division_exact [of "Int64 6" "Int64 4"] by (simp add: is_Min_def)



text \<open>C25. Kinds.  A sum, difference, product, quotient or remainder is a fixed-width integer exactly
  when both operands are, and never a bare Go big integer.\<close>

theorem arithmetic_kinds:
  "kind_ok (fixed x \<and> fixed y) (Add x y) \<and> kind_ok (fixed x \<and> fixed y) (Sub x y) \<and>
   kind_ok (fixed x \<and> fixed y) (Multiply x y) \<and> kind_ok (fixed x \<and> fixed y) (Quotient x y) \<and>
   kind_ok (fixed x \<and> fixed y) (Remainder x y)"
  by (intro conjI Add_kind Sub_kind Multiply_kind Quotient_kind Remainder_kind)

text \<open>The least integer.  \<^verbatim>\<open>MinInt64\<close> divided by \<open>-1\<close> wraps around to itself, in \<^verbatim>\<open>Divide\<close> and in
  \<^verbatim>\<open>Quotient\<close>, instead of promoting or panicking; and where the reduced divisor is negative both parts of
  the fraction are negated in 64 bits, which leaves \<^verbatim>\<open>MinInt64\<close> as it is, so that \<^verbatim>\<open>MinInt64 / -3\<close> comes
  out negative and \<^verbatim>\<open>1 / MinInt64\<close> positive.\<close>

theorem least_integer_division:
  "Divide (Int64 MinInt64) (Int64 (- 1)) = Inr (Int64 MinInt64) \<and>
   Quotient (Int64 MinInt64) (Int64 (- 1)) = Inr (Int64 MinInt64) \<and>
   Divide (Int64 MinInt64) (Int64 (- 3)) = Inr (Ratio (- (2 ^ 63) / 3)) \<and>
   Divide (Int64 1) (Int64 MinInt64) = Inr (Ratio (1 / 2 ^ 63))"
  by code_simp

text \<open>Single bits.  A negative bit number makes Go's shift panic; with any other one
  \<^verbatim>\<open>bit-set\<close>, \<^verbatim>\<open>bit-clear\<close> and \<^verbatim>\<open>bit-flip\<close> change that bit and no other, \<^verbatim>\<open>bit-test\<close> reads it, and a number
  of 64 or more names no bit: nothing is set and the test is false.\<close>

theorem single_bits:
  assumes "bitOpsCast x = Inr a" and "bitOpsCast y = Inr n"
  shows "if sint n < 0 then SetBit x y = Inl GoPanic \<and> ClearBit x y = Inl GoPanic \<and> FlipBit x y = Inl GoPanic \<and> TestBit x y = Inl GoPanic
    else \<exists>s c f. SetBit x y = Inr (Int64 s) \<and> ClearBit x y = Inr (Int64 c) \<and> FlipBit x y = Inr (Int64 f) \<and>
      TestBit x y = Inr (sint n < 64 \<and> bit a (nat (sint n))) \<and>
      (\<forall>i < 64. (bit s i \<longleftrightarrow> bit a i \<or> int i = sint n) \<and> (bit c i \<longleftrightarrow> bit a i \<and> int i \<noteq> sint n) \<and>
        (bit f i \<longleftrightarrow> bit a i \<noteq> (int i = sint n)))"
  using assms by (rule bits_ok)

theorem single_bits_witness: "TestBit (Int64 5) (GoInt 2) = Inr True"
  using single_bits [of "Int64 5" 5 "GoInt 2" 2] by (auto simp: bit_numeral_rec)

text \<open>C26. Shifts.  The count is taken modulo 64: a left shift multiplies in 64 bits, an arithmetic right
  shift divides the signed value rounding down, a logical one the unsigned value.\<close>

theorem shifts:
  assumes "bitOpsCast x = Inr a" and "bitOpsCast y = Inr n"
  shows "ShiftLeft x y = Inr (Int64 (a * 2 ^ (unat n mod 64))) \<and>
    (\<exists>r. ShiftRight x y = Inr (Int64 r) \<and> sint r = sint a div 2 ^ (unat n mod 64)) \<and>
    (\<exists>r. UnsignedShiftRight x y = Inr (Int64 r) \<and> unat r = unat a div 2 ^ (unat n mod 64))"
  using assms by (rule shifts_ok)

theorem shifts_witness: "\<exists>r. ShiftRight (Int64 (- 8)) (GoInt 65) = Inr (Int64 r) \<and> sint r = - 4"
  using shifts [of "Int64 (- 8)" "- 8" "GoInt 65" 65] by auto

end
