(* ===== verification/Bencode.thy ===== *)
theory Bencode
  imports Prelude "HOL-Library.Word" "HOL-Library.Char_ord" "HOL-Library.List_Lexorder" "HOL-Library.AList"
begin

text \<open>
  The wire format of the nREPL server, \<^verbatim>\<open>pkg/nrepl/bencode.go\<close>: the encoder on an \<^verbatim>\<open>io.Writer\<close> that
  may stop accepting bytes, and the decoder on the bytes that are left to read.  Go strings are
  lists of bytes.
\<close>

subsection \<open>Decimal numbers\<close>

text \<open>What \<^verbatim>\<open>%d\<close> prints, and what \<^verbatim>\<open>strconv\<close> reads back: an optional sign, digits, a 64-bit range.\<close>

definition digit :: "nat \<Rightarrow> char" where
  "digit d = char_of (48 + d)"

definition is_digit :: "char \<Rightarrow> bool" where
  "is_digit c \<longleftrightarrow> CHR ''0'' \<le> c \<and> c \<le> CHR ''9''"

fun itoa :: "nat \<Rightarrow> string" where
  "itoa n = (if n < 10 then [digit n] else itoa (n div 10) @ [digit (n mod 10)])"

declare itoa.simps [simp del]

definition format_int :: "int \<Rightarrow> string" where
  "format_int i = (if i < 0 then CHR ''-'' # itoa (nat (- i)) else itoa (nat i))"

definition of_digits :: "string \<Rightarrow> nat" where
  "of_digits = foldl (\<lambda>n c. 10 * n + (of_char c - 48)) 0"

fun unsign :: "string \<Rightarrow> bool \<times> string" where
  "unsign [] = (False, [])"
| "unsign (c # s) = (if c = CHR ''-'' then (True, s) else if c = CHR ''+'' then (False, s) else (False, c # s))"

definition ParseInt :: "string \<Rightarrow> int option" where
  "ParseInt s =
     (let (neg, ds) = unsign s; n = int (of_digits ds) in
      if ds = [] \<or> \<not> list_all is_digit ds then None
      else if neg then if n \<le> 2 ^ 63 then Some (- n) else None
      else if n < 2 ^ 63 then Some n else None)"

subsection \<open>Encoding\<close>

text \<open>The Go values \<^verbatim>\<open>bencodeWrite\<close> is given; a map lists its entries in the order it is ranged over.\<close>

datatype goval =
    GString string
  | GBytes string
  | GInt "64 word"
  | GInt64 "64 word"
  | GList "goval list"
  | GStrings "string list"
  | GMap "(string \<times> goval) list"
  | GOther

datatype werr = WriteFailed | CannotEncode

text \<open>A writer that takes \<^verbatim>\<open>room\<close> more bytes: a longer write is cut short and fails.\<close>

record bwriter =
  sent :: string
  room :: nat

type_synonym emitter = "bwriter \<Rightarrow> bwriter \<times> werr option"

definition put :: "string \<Rightarrow> emitter" where
  "put b w =
     (w\<lparr>sent := sent w @ take (room w) b, room := room w - length b\<rparr>,
      if length b \<le> room w then None else Some WriteFailed)"

definition before :: "emitter \<Rightarrow> emitter \<Rightarrow> emitter" where
  "before f g w = (case f w of (w', None) \<Rightarrow> g w' | (w', Some e) \<Rightarrow> (w', Some e))"

fun each :: "('a \<Rightarrow> emitter) \<Rightarrow> 'a list \<Rightarrow> emitter" where
  "each f [] w = (w, None)"
| "each f (x # xs) w = before (f x) (each f xs) w"

lemma each_cong [fundef_cong]: "xs = ys \<Longrightarrow> (\<And>x. x \<in> set ys \<Longrightarrow> f x = g x) \<Longrightarrow> each f xs = each g ys"
proof -
  assume "xs = ys" and eq: "\<And>x. x \<in> set ys \<Longrightarrow> f x = g x"
  have "each f ys w = each g ys w" for w
    using eq by (induction ys arbitrary: w) (auto simp: before_def split: prod.split option.split)
  with \<open>xs = ys\<close> show ?thesis by auto
qed

definition fail :: "werr \<Rightarrow> emitter" where
  "fail e w = (w, Some e)"

fun weight :: "goval \<Rightarrow> nat" where
  "weight (GList vs) = 1 + sum_list (map weight vs)"
| "weight (GStrings ss) = 2 + length ss"
| "weight (GMap kvs) = 2 + sum_list (map (\<lambda>kv. weight (snd kv)) kvs)"
| "weight _ = 1"

lemma weight_map_of: "map_of kvs k = Some v \<Longrightarrow> weight v \<le> sum_list (map (\<lambda>kv. weight (snd kv)) kvs)"
  by (drule map_of_SomeD) (force intro!: member_le_sum_list)

lemma weight_in: "v \<in> set vs \<Longrightarrow> weight v \<le> sum_list (map weight vs)"
  by (auto intro!: member_le_sum_list)

function bencodeWrite :: "goval \<Rightarrow> emitter" where
  "bencodeWrite (GString x) = put (itoa (length x) @ '':'' @ x)"
| "bencodeWrite (GBytes x) = before (put (itoa (length x) @ '':'')) (put x)"
| "bencodeWrite (GInt x) = put (''i'' @ format_int (sint x) @ ''e'')"
| "bencodeWrite (GInt64 x) = put (''i'' @ format_int (sint x) @ ''e'')"
| "bencodeWrite (GList x) = before (put ''l'') (before (each bencodeWrite x) (put ''e''))"
| "bencodeWrite (GStrings x) = bencodeWrite (GList (map GString x))"
| "bencodeWrite (GMap x) =
     before (put ''d'') (before
       (each (\<lambda>k. before (bencodeWrite (GString k))
           (case map_of x k of None \<Rightarrow> fail CannotEncode | Some v \<Rightarrow> bencodeWrite v)) (sort (map fst x)))
       (put ''e''))"
| "bencodeWrite GOther = fail CannotEncode"
  by pat_completeness auto
termination
  by (relation "measure weight") (auto simp: comp_def sum_list_triv dest: weight_map_of weight_in)

subsection \<open>Decoding\<close>

text \<open>The results of \<^verbatim>\<open>bencodeRead\<close>: a map keeps its entries in the order of their first insertion.\<close>

datatype bval = BString string | BInt "64 word" | BList "bval list" | BDict "(string \<times> bval) list"

datatype rerr = EOF | UnexpectedEOF | BadInteger | BadLength | NonStringKey | UnexpectedByte | MakeSlicePanic | OutOfFuel

definition ReadString :: "char \<Rightarrow> string \<Rightarrow> rerr + string \<times> string" where
  "ReadString c bs =
     (case dropWhile (\<lambda>b. b \<noteq> c) bs of [] \<Rightarrow> Inl EOF | _ # rest \<Rightarrow> Inr (takeWhile (\<lambda>b. b \<noteq> c) bs, rest))"

text \<open>\<^verbatim>\<open>make([]byte, n)\<close> panics above the largest allocation of a 64-bit Go runtime; it returns below.\<close>

definition maxAlloc :: int where
  "maxAlloc = 2 ^ 48"

definition read_int :: "string \<Rightarrow> rerr + bval \<times> string" where
  "read_int bs = bindE (ReadString CHR ''e'' bs) (\<lambda>(digits, rest).
     case ParseInt digits of None \<Rightarrow> Inl BadInteger | Some n \<Rightarrow> Inr (BInt (word_of_int n), rest))"

definition read_str :: "string \<Rightarrow> rerr + bval \<times> string" where
  "read_str bs = bindE (ReadString CHR '':'' bs) (\<lambda>(lenStr, rest).
     case ParseInt lenStr of None \<Rightarrow> Inl BadLength
     | Some n \<Rightarrow>
         if n < 0 then Inl BadLength
         else if maxAlloc < n then Inl MakeSlicePanic
         else if length rest < nat n then Inl (if rest = [] then EOF else UnexpectedEOF)
         else Inr (BString (take (nat n) rest), drop (nat n) rest))"

fun bencode_read :: "nat \<Rightarrow> string \<Rightarrow> rerr + bval \<times> string"
  and read_list :: "nat \<Rightarrow> bval list \<Rightarrow> string \<Rightarrow> rerr + bval \<times> string"
  and read_dict :: "nat \<Rightarrow> (string \<times> bval) list \<Rightarrow> string \<Rightarrow> rerr + bval \<times> string" where
  "bencode_read 0 bs = Inl OutOfFuel"
| "bencode_read (Suc n) [] = Inl EOF"
| "bencode_read (Suc n) (c # bs) =
     (if c = CHR ''i'' then read_int bs
      else if c = CHR ''l'' then read_list n [] bs
      else if c = CHR ''d'' then read_dict n [] bs
      else if is_digit c then read_str (c # bs)
      else Inl UnexpectedByte)"
| "read_list 0 acc bs = Inl OutOfFuel"
| "read_list (Suc n) acc [] = Inl EOF"
| "read_list (Suc n) acc (p # bs) =
     (if p = CHR ''e'' then Inr (BList acc, bs)
      else bindE (bencode_read n (p # bs)) (\<lambda>(e, bs'). read_list n (acc @ [e]) bs'))"
| "read_dict 0 dict bs = Inl OutOfFuel"
| "read_dict (Suc n) dict [] = Inl EOF"
| "read_dict (Suc n) dict (p # bs) =
     (if p = CHR ''e'' then Inr (BDict dict, bs)
      else bindE (bencode_read n (p # bs)) (\<lambda>(k, bs').
        case k of
          BString ks \<Rightarrow> bindE (bencode_read n bs') (\<lambda>(v, bs''). read_dict n (AList.update ks v dict) bs'')
        | _ \<Rightarrow> Inl NonStringKey))"

text \<open>Every call is made with less to read, or is the first thing a loop does: twice the input is enough fuel.\<close>

definition bencodeRead :: "string \<Rightarrow> rerr + bval \<times> string" where
  "bencodeRead bs = bencode_read (2 * length bs + 1) bs"

end
