(* ===== verification/BencodeProps.thy ===== *)
theory BencodeProps
  imports Bencode "HOL-Library.Multiset"
begin

text \<open>
  The codec of the nREPL wire: what is written is read back, whatever follows it on the wire; a
  failing writer has received a prefix of the message; the decoder ends on every input.
\<close>

subsection \<open>Decimal numbers\<close>

lemma of_char_digit: "d < 10 \<Longrightarrow> of_char (digit d) = 48 + d"
  by (simp add: digit_def)

lemma is_digit_digit: "d < 10 \<Longrightarrow> is_digit (digit d)"
  by (simp add: is_digit_def less_eq_char_def of_char_digit)

lemma itoa_digits: "list_all is_digit (itoa n) \<and> itoa n \<noteq> []"
  by (induction n rule: itoa.induct) (subst itoa.simps, subst itoa.simps, simp add: is_digit_digit)

lemma of_digits_itoa: "of_digits (itoa n) = n"
proof (induction n rule: itoa.induct)
  case (1 n)
  then show ?case by (subst itoa.simps) (simp add: of_digits_def of_char_digit)
qed

lemma is_digit_simps: "\<not> is_digit CHR ''-''" "\<not> is_digit CHR ''+''" "\<not> is_digit CHR '':''" "\<not> is_digit CHR ''e''"
  "\<not> is_digit CHR ''i''" "\<not> is_digit CHR ''l''" "\<not> is_digit CHR ''d''"
  by code_simp+

lemma unsign_itoa: "unsign (itoa n) = (False, itoa n)"
  using itoa_digits [of n] is_digit_simps by (cases "itoa n") auto

lemma ParseInt_format: "ParseInt (format_int i) = Some i" if "- (2 ^ 63) \<le> i" and "i < 2 ^ 63"
  using that itoa_digits by (auto simp: format_int_def ParseInt_def unsign_itoa of_digits_itoa Let_def)

lemma ReadString_found: "ReadString c (s @ c # rest) = Inr (s, rest)" if "c \<notin> set s"
proof -
  have "dropWhile (\<lambda>b. b \<noteq> c) (s @ c # rest) = c # rest" and "takeWhile (\<lambda>b. b \<noteq> c) (s @ c # rest) = s"
    using that by (induction s) auto
  then show ?thesis by (simp add: ReadString_def)
qed

lemma itoa_no_delim: "\<not> is_digit c \<Longrightarrow> c \<notin> set (itoa n)"
  using itoa_digits [of n] by (auto simp: list_all_iff)

lemma format_no_delim: "CHR ''e'' \<notin> set (format_int i)"
  using is_digit_simps itoa_no_delim [of "CHR ''e''"] by (simp add: format_int_def)

subsection \<open>Writers\<close>

lemma before_put: "before (put a) (put b) = put (a @ b)"
  by (auto simp: before_def put_def fun_eq_iff)

lemma before_assoc: "before (before f g) h = before f (before g h)"
  by (auto simp: before_def fun_eq_iff split: prod.split option.split)

lemma each_put: "(\<And>x. x \<in> set xs \<Longrightarrow> f x = put (g x)) \<Longrightarrow> each f xs = put (concat (map g xs))"
proof (induction xs)
  case Nil
  show ?case by (simp add: fun_eq_iff put_def)
next
  case (Cons x xs)
  then have "each f xs = put (concat (map g xs))" and "f x = put (g x)" by simp_all
  then have "each f (x # xs) w = put (concat (map g (x # xs))) w" for w by (simp add: before_put)
  then show ?case by (rule ext)
qed

text \<open>A message: bytes to write, then success or a value that cannot be encoded.\<close>

definition message :: "emitter \<Rightarrow> bool" where
  "message f \<longleftrightarrow> (\<exists>b. f = put b \<or> f = before (put b) (fail CannotEncode))"

lemma before_fail: "before (fail e) g = fail e"
  by (simp add: before_def fail_def fun_eq_iff)

lemma message_put: "message (put b)"
  by (auto simp: message_def)

lemma message_fail: "message (fail CannotEncode)"
proof -
  have "before (put []) (fail CannotEncode) = fail CannotEncode" by (simp add: before_def put_def fun_eq_iff)
  then show ?thesis by (metis message_def)
qed

lemma message_before: "message f \<Longrightarrow> message g \<Longrightarrow> message (before f g)"
  by (auto simp: message_def before_assoc before_fail before_put) (metis before_assoc before_put)+

lemma message_each: "(\<And>x. x \<in> set xs \<Longrightarrow> message (f x)) \<Longrightarrow> message (each f xs)"
proof (induction xs)
  case Nil
  have "each f [] = put []" by (simp add: fun_eq_iff put_def)
  then show ?case by (simp add: message_put)
next
  case (Cons x xs)
  then have "message (before (f x) (each f xs))" by (simp add: message_before)
  moreover have "each f (x # xs) = before (f x) (each f xs)" by (simp add: fun_eq_iff)
  ultimately show ?case by simp
qed

lemma bencodeWrite_message: "message (bencodeWrite v)"
  by (induction v rule: bencodeWrite.induct)
    (auto intro!: message_before message_put message_each message_fail split: option.split)

subsection \<open>Encodings\<close>

fun encode :: "bval \<Rightarrow> string" where
  "encode (BString s) = itoa (length s) @ '':'' @ s"
| "encode (BInt i) = ''i'' @ format_int (sint i) @ ''e''"
| "encode (BList vs) = ''l'' @ concat (map encode vs) @ ''e''"
| "encode (BDict kvs) = ''d'' @ concat (map (\<lambda>(k, v). itoa (length k) @ '':'' @ k @ encode v) kvs) @ ''e''"

fun encodable :: "goval \<Rightarrow> bool" where
  "encodable (GList vs) \<longleftrightarrow> list_all encodable vs"
| "encodable (GMap kvs) \<longleftrightarrow> distinct (map fst kvs) \<and> list_all (\<lambda>(k, v). encodable v) kvs"
| "encodable GOther \<longleftrightarrow> False"
| "encodable _ \<longleftrightarrow> True"

text \<open>The value the other end reads: byte slices and the narrower types become the general ones, keys sorted.\<close>

fun received :: "goval \<Rightarrow> bval" where
  "received (GString s) = BString s"
| "received (GBytes s) = BString s"
| "received (GInt i) = BInt i"
| "received (GInt64 i) = BInt i"
| "received (GList vs) = BList (map received vs)"
| "received (GStrings ss) = BList (map BString ss)"
| "received (GMap kvs) = BDict (sort_key fst (map (\<lambda>(k, v). (k, received v)) kvs))"
| "received GOther = BList []"

lemma map_fst_sort_key: "map fst (sort_key fst kvs) = sort (map fst kvs)"
  by (rule properties_for_sort [symmetric]) (simp_all only: mset_map mset_sort sorted_sort_key)

lemma sort_key_lookup:
  "distinct (map fst kvs) \<Longrightarrow> sort_key fst kvs = map (\<lambda>k. (k, the (map_of kvs k))) (sort (map fst kvs))"
  unfolding map_fst_sort_key [symmetric] map_map by (rule map_idI [symmetric]) auto

text \<open>Sorting the keys and looking the values up writes the entries of the received map.\<close>

lemma write_entries:
  assumes "distinct (map fst kvs)" and "\<And>k v. (k, v) \<in> set kvs \<Longrightarrow> bencodeWrite v = put (encode (received v))"
  shows "each (\<lambda>k. before (bencodeWrite (GString k))
      (case map_of kvs k of None \<Rightarrow> fail CannotEncode | Some v \<Rightarrow> bencodeWrite v)) (sort (map fst kvs)) =
    put (concat (map (\<lambda>(k, v). itoa (length k) @ '':'' @ k @ encode v) (sort_key fst (map (\<lambda>(k, v). (k, received v)) kvs))))"
proof -
  let ?kvs = "map (\<lambda>(k, v). (k, received v)) kvs"
  let ?e = "\<lambda>(k, v). itoa (length k) @ '':'' @ k @ encode v"
  have fst: "map fst ?kvs = map fst kvs" by auto
  have sort: "sort_key fst ?kvs = map (\<lambda>k. (k, the (map_of ?kvs k))) (sort (map fst kvs))"
    using sort_key_lookup [of ?kvs] assms(1) by (simp only: fst simp_thms)
  have "before (bencodeWrite (GString k)) (case map_of kvs k of None \<Rightarrow> fail CannotEncode | Some v \<Rightarrow> bencodeWrite v) =
      put (?e (k, the (map_of ?kvs k)))" if "k \<in> set (sort (map fst kvs))" for k
  proof -
    from that obtain v where "(k, v) \<in> set kvs" by auto
    with assms(1) have m: "map_of kvs k = Some v" by (auto intro!: map_of_is_SomeI)
    then have "map_of ?kvs k = Some (received v)" by (simp add: map_of_map)
    with m assms(2) [OF \<open>(k, v) \<in> set kvs\<close>] show ?thesis by (simp add: before_put)
  qed
  from each_put [OF this] show ?thesis unfolding sort map_map comp_def .
qed

lemma bencodeWrite_encode: "encodable v \<Longrightarrow> bencodeWrite v = put (encode (received v))"
proof (induction v rule: encodable.induct [case_names list map other string bytes int int64 strings])
  case (list vs)
  then have "each bencodeWrite vs = put (concat (map (\<lambda>v. encode (received v)) vs))"
    by (intro each_put) (auto simp: list_all_iff)
  then show ?case by (simp add: before_put comp_def)
next
  case (map kvs)
  then show ?case
    by (subst bencodeWrite.simps, subst write_entries) (auto simp: list_all_iff before_put)
next
  case (strings ss)
  have "each bencodeWrite (map GString ss) = put (concat (map (\<lambda>v. encode (received v)) (map GString ss)))"
    by (intro each_put) auto
  then show ?case by (simp add: before_put comp_def)
qed (simp_all add: before_put)

subsection \<open>Reading back\<close>

text \<open>What \<^verbatim>\<open>make\<close> can allocate, and maps with distinct keys.\<close>

fun readable :: "bval \<Rightarrow> bool" where
  "readable (BString s) \<longleftrightarrow> int (length s) \<le> maxAlloc"
| "readable (BInt i) \<longleftrightarrow> True"
| "readable (BList vs) \<longleftrightarrow> list_all readable vs"
| "readable (BDict kvs) \<longleftrightarrow> distinct (map fst kvs) \<and> list_all (\<lambda>(k, v). int (length k) \<le> maxAlloc \<and> readable v) kvs"

lemma ParseInt_itoa: "int n \<le> maxAlloc \<Longrightarrow> ParseInt (itoa n) = Some (int n)"
  using ParseInt_format [of "int n"] by (simp add: format_int_def maxAlloc_def)

lemma read_str_ok: "int (length s) \<le> maxAlloc \<Longrightarrow> read_str (itoa (length s) @ '':'' @ s @ rest) = Inr (BString s, rest)"
  using ReadString_found [of "CHR '':''" "itoa (length s)" "s @ rest"] is_digit_simps itoa_no_delim [of "CHR '':''"]
  by (simp add: read_str_def ParseInt_itoa)

lemma read_string_value:
  "int (length s) \<le> maxAlloc \<Longrightarrow> bencode_read (Suc n) (encode (BString s) @ rest) = Inr (BString s, rest)"
proof -
  assume len: "int (length s) \<le> maxAlloc"
  obtain c cs where c: "itoa (length s) = c # cs" and d: "is_digit c"
    using itoa_digits [of "length s"] by (cases "itoa (length s)") auto
  from d is_digit_simps have "c \<noteq> CHR ''i'' \<and> c \<noteq> CHR ''l'' \<and> c \<noteq> CHR ''d''" by auto
  with c d read_str_ok [OF len, of rest] show ?thesis by (simp add: encode.simps(1))
qed

lemma read_int_ok: "read_int (format_int (sint i) @ ''e'' @ rest) = Inr (BInt i, rest)"
  using ReadString_found [of "CHR ''e''" "format_int (sint i)" rest] format_no_delim [of "sint i"]
    sint_greater_eq [of i] sint_lt [of i]
  by (simp add: read_int_def ParseInt_format)

lemma encode_head: "\<exists>c s. encode v = c # s \<and> c \<noteq> CHR ''e''"
proof -
  have "\<exists>c s. itoa n = c # s \<and> c \<noteq> CHR ''e''" for n
    using itoa_digits [of n] is_digit_simps by (cases "itoa n") auto
  then show ?thesis by (cases v) (auto, metis append_Cons)
qed

declare encode.simps(1) [simp del]

lemma update_fresh: "k \<notin> fst ` set kvs \<Longrightarrow> AList.update k v kvs = kvs @ [(k, v)]"
  by (induction kvs) auto

lemma read_list_ok:
  assumes "\<And>v n rest. v \<in> set vs \<Longrightarrow> 2 * length (encode v) < n \<Longrightarrow> bencode_read n (encode v @ rest) = Inr (v, rest)"
    and "2 * length (concat (map encode vs)) + 1 < n"
  shows "read_list n acc (concat (map encode vs) @ ''e'' @ rest) = Inr (BList (acc @ vs), rest)"
  using assms
proof (induction vs arbitrary: n acc)
  case Nil
  then show ?case by (cases n) simp_all
next
  case (Cons v vs)
  from encode_head [of v] obtain c s where c: "encode v = c # s" "c \<noteq> CHR ''e''" by blast
  obtain m where n: "n = Suc m" using Cons.prems(2) by (cases n) simp_all
  from Cons.prems(1) [of v m "concat (map encode vs) @ ''e'' @ rest"] Cons.prems(2) n
  have "bencode_read m (c # s @ concat (map encode vs) @ ''e'' @ rest) = Inr (v, concat (map encode vs) @ ''e'' @ rest)"
    using c by simp
  moreover have "read_list m (acc @ [v]) (concat (map encode vs) @ ''e'' @ rest) = Inr (BList ((acc @ [v]) @ vs), rest)"
    using Cons.prems n c by (intro Cons.IH) simp_all
  ultimately show ?case using n c by simp
qed

definition entry :: "string \<times> bval \<Rightarrow> string" where
  "entry kv = encode (BString (fst kv)) @ encode (snd kv)"

lemma encode_BDict: "encode (BDict kvs) = ''d'' @ concat (map entry kvs) @ ''e''"
proof -
  have "entry = (\<lambda>(k, v). itoa (length k) @ '':'' @ k @ encode v)" by (auto simp: entry_def encode.simps(1) fun_eq_iff)
  then show ?thesis by simp
qed

declare encode.simps(4) [simp del] encode_BDict [simp]

lemma read_dict_ok:
  assumes "\<And>k v n rest. (k, v) \<in> set kvs \<Longrightarrow> 2 * length (encode v) < n \<Longrightarrow> bencode_read n (encode v @ rest) = Inr (v, rest)"
    and "2 * length (concat (map entry kvs)) + 1 < n" and "distinct (map fst (dict @ kvs))"
    and "\<And>k v. (k, v) \<in> set kvs \<Longrightarrow> int (length k) \<le> maxAlloc"
  shows "read_dict n dict (concat (map entry kvs) @ ''e'' @ rest) = Inr (BDict (dict @ kvs), rest)"
  using assms
proof (induction kvs arbitrary: n dict)
  case Nil
  then show ?case by (cases n) simp_all
next
  case (Cons kv kvs)
  obtain k v where kv: "kv = (k, v)" by (cases kv)
  let ?more = "concat (map entry kvs) @ ''e'' @ rest"
  obtain c s where c: "encode (BString k) = c # s" "c \<noteq> CHR ''e''" using encode_head by blast
  have e: "entry kv = c # s @ encode v" by (simp add: entry_def kv c)
  obtain l where n: "n = Suc (Suc l)" using Cons.prems(2) e by (cases n; cases "n - 1") simp_all
  have "bencode_read (Suc l) (encode (BString k) @ encode v @ ?more) = Inr (BString k, encode v @ ?more)"
    using Cons.prems(4) [of k v] kv by (intro read_string_value) simp
  then have key: "bencode_read (Suc l) (c # s @ encode v @ ?more) = Inr (BString k, encode v @ ?more)"
    by (simp only: c append_Cons)
  have val: "bencode_read (Suc l) (encode v @ ?more) = Inr (v, ?more)"
    using Cons.prems(1) [of k v "Suc l"] Cons.prems(2) kv n e by simp
  have update: "AList.update k v dict = dict @ [kv]"
    unfolding kv using Cons.prems(3) kv by (intro update_fresh) auto
  moreover have "int (length k') \<le> maxAlloc" if "(k', v') \<in> set kvs" for k' v'
    using Cons.prems(4) [of k' v'] that by simp
  moreover have "bencode_read n' (encode v' @ rest') = Inr (v', rest')"
    if "(k', v') \<in> set kvs" and "2 * length (encode v') < n'" for k' v' n' rest'
    using Cons.prems(1) [of k' v' n' rest'] that by simp
  ultimately have "read_dict (Suc l) (dict @ [kv]) ?more = Inr (BDict ((dict @ [kv]) @ kvs), rest)"
    using Cons.prems(2,3) n e by (intro Cons.IH) auto
  with update show ?case using key val c(2) n e by simp
qed

lemma bencode_read_ok: "readable v \<Longrightarrow> 2 * length (encode v) < n \<Longrightarrow> bencode_read n (encode v @ rest) = Inr (v, rest)"
proof (induction v arbitrary: n rest)
  case (BString s)
  then show ?case by (cases n) (simp_all add: read_string_value)
next
  case (BInt i)
  with read_int_ok [of i rest] show ?case by (cases n) simp_all
next
  case (BList vs)
  then show ?case by (cases n) (auto simp: list_all_iff intro!: read_list_ok [of _ _ "[]", simplified])
next
  case (BDict kvs)
  then show ?case
    by (cases n) (auto simp: list_all_iff intro!: read_dict_ok [of _ _ "[]", simplified])
qed

subsection \<open>Every input is read to an end\<close>

text \<open>A successful read consumes at least one byte and leaves a suffix.\<close>

definition consumes :: "string \<Rightarrow> string \<Rightarrow> bool" where
  "consumes bs rest \<longleftrightarrow> (\<exists>u. u \<noteq> [] \<and> bs = u @ rest)"

lemma consumes_trans: "consumes a b \<Longrightarrow> consumes b c \<Longrightarrow> consumes a c"
proof -
  assume "consumes a b" and "consumes b c"
  then obtain u v where "u \<noteq> []" and "a = (u @ v) @ c" by (auto simp: consumes_def)
  then show ?thesis unfolding consumes_def by (intro exI [of _ "u @ v"]) simp
qed

lemma consumes_Cons: "consumes (x # a) a"
  unfolding consumes_def by (rule exI [of _ "[x]"]) simp

lemma consumes_Cons_trans: "consumes a b \<Longrightarrow> consumes (x # a) b"
  using consumes_Cons by (rule consumes_trans)

lemma consumes_length: "consumes a b \<Longrightarrow> length b < length a"
  by (auto simp: consumes_def)

lemma ReadString_consumes: "ReadString c bs = Inr (s, rest) \<Longrightarrow> consumes bs rest"
proof -
  assume "ReadString c bs = Inr (s, rest)"
  then have "\<exists>d. dropWhile (\<lambda>b. b \<noteq> c) bs = d # rest"
    by (auto simp: ReadString_def split: list.splits)
  then obtain d where "dropWhile (\<lambda>b. b \<noteq> c) bs = d # rest" by blast
  moreover have "bs = takeWhile (\<lambda>b. b \<noteq> c) bs @ dropWhile (\<lambda>b. b \<noteq> c) bs" by simp
  ultimately have "bs = (takeWhile (\<lambda>b. b \<noteq> c) bs @ [d]) @ rest" by (metis append.assoc append_Cons append_Nil)
  then show ?thesis unfolding consumes_def by blast
qed

lemma read_int_consumes: "read_int bs = Inr (v, rest) \<Longrightarrow> consumes bs rest"
  by (auto simp: read_int_def bindE_Inr_iff split: option.splits dest: ReadString_consumes)

lemma read_str_consumes: "read_str bs = Inr (v, rest) \<Longrightarrow> consumes bs rest"
proof -
  assume "read_str bs = Inr (v, rest)"
  then obtain s r n where "ReadString CHR '':'' bs = Inr (s, r)" and rest: "rest = drop n r"
    by (auto simp: read_str_def bindE_Inr_iff split: option.splits if_splits)
  then obtain u where "u \<noteq> []" and "bs = u @ take n r @ drop n r" by (auto simp: consumes_def dest!: ReadString_consumes)
  then show ?thesis unfolding consumes_def rest by (intro exI [of _ "u @ take n r"]) simp
qed

text \<open>The turns of the two loops.\<close>

lemma read_list_turn:
  assumes "read_list (Suc n) acc (p # bs) = r" and "p \<noteq> CHR ''e''"
  obtains (ok) e bs' where "bencode_read n (p # bs) = Inr (e, bs')" and "read_list n (acc @ [e]) bs' = r"
    | (err) e where "bencode_read n (p # bs) = Inl e" and "r = Inl e"
  using assms by (cases "bencode_read n (p # bs)") auto

lemma read_dict_turn:
  assumes "read_dict (Suc n) dict (p # bs) = r" and "p \<noteq> CHR ''e''"
  obtains (ok) k bs' v bs'' where "bencode_read n (p # bs) = Inr (BString k, bs')" and "bencode_read n bs' = Inr (v, bs'')"
      and "read_dict n (AList.update k v dict) bs'' = r"
    | (key) e where "bencode_read n (p # bs) = Inl e" and "r = Inl e"
    | (val) k bs' e where "bencode_read n (p # bs) = Inr (BString k, bs')" and "bencode_read n bs' = Inl e" and "r = Inl e"
    | (bad) "r = Inl NonStringKey"
proof (cases "bencode_read n (p # bs)")
  case (Inl e)
  moreover from this assms have "r = Inl e" by simp
  ultimately show ?thesis by (rule key)
next
  case (Inr kb)
  obtain k bs' where kb: "kb = (k, bs')" by (cases kb)
  show ?thesis
  proof (cases k)
    case (BString ks)
    with Inr kb have k: "bencode_read n (p # bs) = Inr (BString ks, bs')" by simp
    show ?thesis
    proof (cases "bencode_read n bs'")
      case (Inl e)
      moreover from this k assms have "r = Inl e" by simp
      ultimately show ?thesis using k by (intro val)
    next
      case (Inr vb)
      with k assms show ?thesis by (cases vb) (intro ok, simp_all)
    qed
  qed (use assms Inr kb bad in simp_all)
qed

lemma read_consumes:
  "bencode_read n bs = Inr (v, rest) \<Longrightarrow> consumes bs rest"
  "read_list n acc bs = Inr (v, rest) \<Longrightarrow> consumes bs rest"
  "read_dict n dict bs = Inr (v, rest) \<Longrightarrow> consumes bs rest"
proof (induction n bs and n acc bs and n dict bs arbitrary: v rest and v rest and v rest
    rule: bencode_read_read_list_read_dict.induct)
  case (3 n c bs)
  then show ?case
    by (auto split: if_splits intro: consumes_Cons_trans dest: read_int_consumes read_str_consumes)
next
  case (6 n acc p bs)
  show ?case
  proof (cases "p = CHR ''e''")
    case False
    with 6(3) show ?thesis
      by (rule read_list_turn) (use 6(1,2) False in \<open>auto intro: consumes_trans\<close>)
  qed (use 6(3) consumes_Cons in auto)
next
  case (9 n dict p bs)
  show ?case
  proof (cases "p = CHR ''e''")
    case False
    with 9(4) show ?thesis
    proof (cases rule: read_dict_turn)
      case (ok k bs' w bs'')
      from 9(1) [OF False ok(1)] 9(2) [OF False ok(1) refl refl ok(2)] 9(3) [OF False ok(1) refl refl ok(2) refl ok(3)]
      show ?thesis by (blast intro: consumes_trans)
    qed simp_all
  qed (use 9(4) consumes_Cons in auto)
qed simp_all

lemma read_int_fuel: "read_int bs \<noteq> Inl OutOfFuel" "read_str bs \<noteq> Inl OutOfFuel"
  by (auto simp: read_int_def read_str_def ReadString_def bindE_Inl_iff split: option.splits list.splits if_splits)

lemma read_fuel:
  "2 * length bs < n \<Longrightarrow> bencode_read n bs \<noteq> Inl OutOfFuel"
  "2 * length bs + 1 < n \<Longrightarrow> read_list n acc bs \<noteq> Inl OutOfFuel"
  "2 * length bs + 1 < n \<Longrightarrow> read_dict n dict bs \<noteq> Inl OutOfFuel"
proof (induction n bs and n acc bs and n dict bs rule: bencode_read_read_list_read_dict.induct)
  case (3 n c bs)
  then show ?case by (auto simp: read_int_fuel)
next
  case (6 n acc p bs)
  show ?case
  proof
    assume r: "read_list (Suc n) acc (p # bs) = Inl OutOfFuel"
    then have p: "p \<noteq> CHR ''e''" by auto
    with r show False
    proof (cases rule: read_list_turn)
      case (ok e bs')
      with consumes_length [OF read_consumes(1) [OF ok(1)]] 6(2) [OF p ok(1) refl] 6(3) show False by simp
    qed (use 6(1) [OF p] 6(3) in simp)
  qed
next
  case (9 n dict p bs)
  show ?case
  proof
    assume r: "read_dict (Suc n) dict (p # bs) = Inl OutOfFuel"
    then have p: "p \<noteq> CHR ''e''" by auto
    with r show False
    proof (cases rule: read_dict_turn)
      case (ok k bs' v bs'')
      with consumes_length [OF read_consumes(1) [OF ok(1)]] consumes_length [OF read_consumes(1) [OF ok(2)]]
        9(3) [OF p ok(1) refl refl ok(2) refl] 9(4) show False by simp
    next
      case (val k bs' e)
      with consumes_length [OF read_consumes(1) [OF val(1)]] 9(2) [OF p val(1) refl refl] 9(4) show False by simp
    qed (use 9(1) [OF p] 9(4) in simp_all)
  qed
qed simp_all

subsection \<open>Properties\<close>

text \<open>C27. Round trip.  A writer with room for it receives the encoding of an encodable message, and the
  reader gives back the value received, its map keys sorted, and leaves exactly the bytes that
  followed it: messages can be sent one after the other.\<close>

theorem bencode_roundtrip:
  assumes "encodable v" and "readable (received v)" and "length (encode (received v)) \<le> room w"
  shows "\<exists>w'. bencodeWrite v w = (w', None) \<and> (\<exists>b. sent w' = sent w @ b \<and> bencodeRead (b @ rest) = Inr (received v, rest))"
proof -
  let ?b = "encode (received v)"
  have "bencode_read (2 * length (?b @ rest) + 1) (?b @ rest) = Inr (received v, rest)"
    using assms(2) by (intro bencode_read_ok) simp_all
  with assms(3) show ?thesis
    by (auto simp: bencodeWrite_encode [OF assms(1)] put_def bencodeRead_def intro!: exI [of _ ?b])
qed

theorem bencode_roundtrip_witness:
  "\<exists>w'. bencodeWrite (GMap [(''op'', GString ''eval''), (''id'', GInt 7)]) \<lparr>sent = [], room = 99\<rparr> = (w', None) \<and>
    (\<exists>b. sent w' = b \<and> bencodeRead (b @ ''i3e'') = Inr (BDict [(''id'', BInt 7), (''op'', BString ''eval'')], ''i3e''))"
proof -
  let ?v = "GMap [(''op'', GString ''eval''), (''id'', GInt 7)]"
  have r: "received ?v = BDict [(''id'', BInt 7), (''op'', BString ''eval'')]" by code_simp
  have "length (encode (received ?v)) \<le> 99" by code_simp
  moreover have "encodable ?v" and "readable (received ?v)" unfolding r by code_simp+
  ultimately show ?thesis
    using bencode_roundtrip [of ?v "\<lparr>sent = [], room = 99\<rparr>" "''i3e''"] unfolding r by simp
qed

text \<open>C28. Decoding ends.  On every input \<^verbatim>\<open>bencodeRead\<close> returns, and when it returns a value it has
  consumed at least one byte and leaves a suffix of its input, so that the server's read loop makes
  progress.\<close>

theorem bencodeRead_ends:
  "bencodeRead bs \<noteq> Inl OutOfFuel \<and>
   (case bencodeRead bs of Inr (v, rest) \<Rightarrow> \<exists>u. u \<noteq> [] \<and> bs = u @ rest | Inl e \<Rightarrow> True)"
proof -
  have "bencodeRead bs \<noteq> Inl OutOfFuel" unfolding bencodeRead_def by (rule read_fuel(1)) simp
  moreover have "\<exists>u. u \<noteq> [] \<and> bs = u @ rest" if "bencodeRead bs = Inr (v, rest)" for v rest
    using read_consumes(1) that unfolding bencodeRead_def consumes_def by blast
  ultimately show ?thesis by (auto split: sum.split)
qed

text \<open>Broken messages.  For every value there are bytes of which any writer receives the prefix it has
  room for: whatever fails, the writer or the encoding of a nested value, the message on the wire is
  cut off, never garbled; but it is cut off, since the bytes before an unencodable value are sent.\<close>

theorem bencodeWrite_prefix:
  "\<exists>b. \<forall>w. sent (fst (bencodeWrite v w)) = sent w @ take (room w) b \<and>
     (snd (bencodeWrite v w) = None \<longrightarrow> length b \<le> room w)"
proof -
  from bencodeWrite_message [of v] obtain b
    where "bencodeWrite v = put b \<or> bencodeWrite v = before (put b) (fail CannotEncode)" by (auto simp: message_def)
  then show ?thesis by (intro exI [of _ b]) (auto simp: put_def before_def fail_def split: if_splits option.splits)
qed

theorem bencodeWrite_prefix_witness:
  "\<exists>b. sent (fst (bencodeWrite (GList [GInt 1, GOther]) \<lparr>sent = [], room = 9\<rparr>)) = take 9 b"
  using bencodeWrite_prefix [of "GList [GInt 1, GOther]"] by (metis append_Nil bwriter.select_convs(1,2))

end
