(* ===== verification/Chan.thy ===== *)
theory Chan
  imports Prelude
begin

text \<open>
  Channels of \<^verbatim>\<open>pkg/lang/chan.go\<close>: the Go channel under a \<^verbatim>\<open>Channel\<close> with its queues of blocked
  goroutines, the mutex, the closing signal, the buffer policies, transducers and promise channels, as a
  step relation in which goroutines interleave between the statements that synchronise.
\<close>

subsection \<open>Go channels\<close>

text \<open>
  A channel of the Go runtime: its buffer and the goroutines that are blocked sending (with the value) or
  receiving, in order of arrival.  Goroutines are numbered.
\<close>

record 'v gochan =
  cap :: nat
  buf :: "'v list"
  sendq :: "(nat \<times> 'v) list"
  recvq :: "nat list"

text \<open>A send or receive that can proceed at once; it may release a blocked goroutine.\<close>

datatype 'v wake = Nobody | Receiver nat 'v | Sender nat

fun try_send :: "'v \<Rightarrow> 'v gochan \<Rightarrow> ('v gochan \<times> 'v wake) option" where
  "try_send v c =
     (case recvq c of
        r # rs \<Rightarrow> Some (c\<lparr>recvq := rs\<rparr>, Receiver r v)
      | [] \<Rightarrow> if length (buf c) < cap c then Some (c\<lparr>buf := buf c @ [v]\<rparr>, Nobody) else None)"

fun try_recv :: "'v gochan \<Rightarrow> ('v \<times> 'v gochan \<times> 'v wake) option" where
  "try_recv c =
     (case (buf c, sendq c) of
        ([], []) \<Rightarrow> None
      | ([], (s, v) # ss) \<Rightarrow> Some (v, c\<lparr>sendq := ss\<rparr>, Sender s)
      | (b # bs, []) \<Rightarrow> Some (b, c\<lparr>buf := bs\<rparr>, Nobody)
      | (b # bs, (s, v) # ss) \<Rightarrow> Some (b, c\<lparr>buf := bs @ [v], sendq := ss\<rparr>, Sender s))"

subsection \<open>Channels and goroutines\<close>

datatype BufPolicy = PolicyFixed | PolicyDropping | PolicySliding

text \<open>
  User code is a parameter: a transducer step adds values to the buffer, and then returns (possibly
  reduced) or panics with an error; an ex-handler returns a value, nil, or panics itself.
\<close>

datatype 'e xres = Ret bool | Panics 'e

datatype 'v hres = HVal 'v | HNil | HPanics

record ('v, 'x, 'e) xform =
  rfx :: "'x \<Rightarrow> 'v \<Rightarrow> 'v list \<times> 'e xres \<times> 'x"
  complete :: "'x \<Rightarrow> 'v list \<times> 'e xres \<times> 'x"
  exh :: "('e \<Rightarrow> 'v hres) option"

text \<open>The guarded call of \<^verbatim>\<open>SetXform\<close>: the values added, and whether it returned and was not reduced.\<close>

datatype outcome = More | Reduced | Escapes

fun guarded :: "('e \<Rightarrow> 'v hres) option \<Rightarrow> 'v list \<times> 'e xres \<times> 'x \<Rightarrow> 'v list \<times> outcome \<times> 'x" where
  "guarded h (vs, Ret reduced, x) = (vs, if reduced then Reduced else More, x)"
| "guarded None (vs, Panics e, x) = (vs, More, x)"
| "guarded (Some h) (vs, Panics e, x) =
     (case h e of HVal sub \<Rightarrow> (vs @ [sub], More, x) | HNil \<Rightarrow> (vs, More, x) | HPanics \<Rightarrow> (vs, Escapes, x))"

definition step_xf :: "('v, 'x, 'e) xform \<Rightarrow> 'x \<Rightarrow> 'v \<Rightarrow> 'v list \<times> outcome \<times> 'x" where
  "step_xf X x v = guarded (exh X) (rfx X x v)"

definition flush_xf :: "('v, 'x, 'e) xform \<Rightarrow> 'x \<Rightarrow> 'v list \<times> outcome \<times> 'x" where
  "flush_xf X x = guarded (exh X) (complete X x)"

text \<open>
  Where a goroutine is in its operation.  \<open>Adding\<close> is inside \<^verbatim>\<open>bufferAdd\<close>, holding the mutex, with the
  values still to add and what comes after them: the put returns, or closes the channel first, or panics;
  a close fires \<^verbatim>\<open>done\<close> and returns, for itself or for the put that called it, or panics.
\<close>

datatype after = ThenReturn | ThenClose | ThenPanic | ThenDone bool | ThenClosePanic

datatype 'v pc =
    Send 'v | Sending 'v | SendParked 'v
  | Adding "'v list" after | AddParked "'v list" after | Evicting "'v list" after | Refilling "'v list" after
  | Offer 'v | Offering 'v
  | Recv | Selecting | RecvParked | Draining
  | Poll
  | Close bool
  | Put bool | WouldBlock | Got "'v option" | Closed | Panicked

text \<open>The last five are results; between calls a goroutine is at one of them or has not started.\<close>

fun finished :: "'v pc \<Rightarrow> bool" where
  "finished (Put b) = True"
| "finished WouldBlock = True"
| "finished (Got r) = True"
| "finished Closed = True"
| "finished Panicked = True"
| "finished _ = False"

record ('v, 'x) chan =
  ch :: "'v gochan"
  isdone :: bool
  mu :: "nat option"
  closed :: bool
  policy :: BufPolicy
  xstate :: "'x option"
  promise :: bool
  delivered :: bool
  pval :: "'v option"
  go :: "nat \<Rightarrow> 'v pc"
  entered :: "'v list"
  left :: "'v list"

text \<open>
  The last two fields are history: the values in the order their sends arrived at the Go channel, and
  those received or evicted from it, in order.
\<close>

definition NewChan :: "nat \<Rightarrow> BufPolicy \<Rightarrow> 'x option \<Rightarrow> ('v, 'x) chan" where
  "NewChan n p x = \<lparr>ch = \<lparr>cap = n, buf = [], sendq = [], recvq = []\<rparr>, isdone = False, mu = None, closed = False,
     policy = p, xstate = x, promise = False, delivered = False, pval = None, go = (\<lambda>_. Closed), entered = [], left = []\<rparr>"

definition NewPromiseChan :: "('v, 'x) chan" where
  "NewPromiseChan = (NewChan 0 PolicyFixed None)\<lparr>promise := True\<rparr>"

definition at :: "nat \<Rightarrow> 'v pc \<Rightarrow> ('v, 'x) chan \<Rightarrow> ('v, 'x) chan" where
  "at t p s = s\<lparr>go := (go s)(t := p)\<rparr>"

lemma at_simps [simp]:
  "go (at t p s) = (go s)(t := p)" "ch (at t p s) = ch s" "isdone (at t p s) = isdone s" "mu (at t p s) = mu s"
  "closed (at t p s) = closed s" "policy (at t p s) = policy s" "xstate (at t p s) = xstate s"
  "promise (at t p s) = promise s" "delivered (at t p s) = delivered s" "pval (at t p s) = pval s"
  "entered (at t p s) = entered s" "left (at t p s) = left s"
  by (simp_all add: at_def)

text \<open>Releasing the goroutine a send or receive has matched.\<close>

fun released :: "'v pc \<Rightarrow> 'v pc" where
  "released (SendParked v) = Put True"
| "released (AddParked (v # vs) a) = Adding vs a"
| "released p = p"

fun wakeup :: "'v wake \<Rightarrow> ('v, 'x) chan \<Rightarrow> ('v, 'x) chan" where
  "wakeup Nobody s = s"
| "wakeup (Receiver r v) s = (at r (Got (Some v)) s)\<lparr>left := left s @ [v]\<rparr>"
| "wakeup (Sender t) s = at t (released (go s t)) s"

definition send_now :: "'v \<Rightarrow> ('v, 'x) chan \<Rightarrow> ('v, 'x) chan option" where
  "send_now v s = map_option (\<lambda>(c, w). wakeup w (s\<lparr>ch := c, entered := entered s @ [v]\<rparr>)) (try_send v (ch s))"

definition recv_now :: "('v, 'x) chan \<Rightarrow> ('v \<times> ('v, 'x) chan) option" where
  "recv_now s = map_option (\<lambda>(v, c, w). (v, wakeup w (s\<lparr>ch := c, left := left s @ [v]\<rparr>))) (try_recv (ch s))"

definition park_send :: "nat \<Rightarrow> 'v \<Rightarrow> ('v, 'x) chan \<Rightarrow> ('v, 'x) chan" where
  "park_send t v s = s\<lparr>ch := (ch s)\<lparr>sendq := sendq (ch s) @ [(t, v)]\<rparr>, entered := entered s @ [v]\<rparr>"

definition park_recv :: "nat \<Rightarrow> ('v, 'x) chan \<Rightarrow> ('v, 'x) chan" where
  "park_recv t s = s\<lparr>ch := (ch s)\<lparr>recvq := recvq (ch s) @ [t]\<rparr>\<rparr>"

text \<open>\<^verbatim>\<open>close(c.done)\<close> wakes the goroutines blocked in a select on it.\<close>

definition fire :: "('v, 'x) chan \<Rightarrow> ('v, 'x) chan" where
  "fire s = s\<lparr>isdone := True, ch := (ch s)\<lparr>recvq := []\<rparr>,
     go := (\<lambda>t. if t \<in> set (recvq (ch s)) then Draining else go s t)\<rparr>"

definition put_after :: "outcome \<Rightarrow> after" where
  "put_after r = (case r of More \<Rightarrow> ThenReturn | Reduced \<Rightarrow> ThenClose | Escapes \<Rightarrow> ThenPanic)"

definition flush_after :: "bool \<Rightarrow> outcome \<Rightarrow> after" where
  "flush_after b r = (case r of Escapes \<Rightarrow> ThenClosePanic | _ \<Rightarrow> ThenDone b)"

text \<open>What a close returns: nil, or true where the put that closed the channel goes on.\<close>

definition ret :: "bool \<Rightarrow> 'v pc" where
  "ret b = (if b then Put True else Closed)"

subsection \<open>Calls\<close>

text \<open>Putting nil panics before anything is touched.\<close>

datatype 'v call = ChanSend "'v option" | ChanOffer "'v option" | ChanRecv | ChanPoll | ChanClose

fun begins :: "'v call \<Rightarrow> 'v pc" where
  "begins (ChanSend None) = Panicked"
| "begins (ChanSend (Some v)) = Send v"
| "begins (ChanOffer None) = Panicked"
| "begins (ChanOffer (Some v)) = Offer v"
| "begins ChanRecv = Recv"
| "begins ChanPoll = Poll"
| "begins ChanClose = Close False"

subsection \<open>Steps\<close>

text \<open>
  The steps of goroutine \<open>t\<close> in each operation.  The mutex is free at the statements that lock it; what a
  lock guards without blocking is one step.
\<close>

text \<open>\<^verbatim>\<open>ChanSend\<close>, with \<^verbatim>\<open>promisePut\<close> and the fast path that sends outside the mutex.\<close>

inductive send_step :: "('v, 'x, 'e) xform \<Rightarrow> nat \<Rightarrow> ('v, 'x) chan \<Rightarrow> ('v, 'x) chan \<Rightarrow> bool" for X t where
  send_promise: "go s t = Send v \<Longrightarrow> promise s \<Longrightarrow> mu s = None \<Longrightarrow> \<not> closed s \<Longrightarrow> \<not> delivered s \<Longrightarrow>
    send_step X t s (at t (Put True) (fire (s\<lparr>pval := Some v, delivered := True\<rparr>)))"
| send_ignored: "go s t = Send v \<Longrightarrow> promise s \<Longrightarrow> mu s = None \<Longrightarrow> \<not> closed s \<Longrightarrow> delivered s \<Longrightarrow>
    send_step X t s (at t (Put True) s)"
| send_closed: "go s t = Send v \<Longrightarrow> mu s = None \<Longrightarrow> closed s \<Longrightarrow> send_step X t s (at t (Put False) s)"
| send_fast: "go s t = Send v \<Longrightarrow> \<not> promise s \<Longrightarrow> mu s = None \<Longrightarrow> \<not> closed s \<Longrightarrow> xstate s = None \<Longrightarrow>
    policy s = PolicyFixed \<Longrightarrow> send_step X t s (at t (Sending v) s)"
| sending: "go s t = Sending v \<Longrightarrow> send_now v s = Some s' \<Longrightarrow> send_step X t s (at t (Put True) s')"
| sending_parks: "go s t = Sending v \<Longrightarrow> send_now v s = None \<Longrightarrow>
    send_step X t s (at t (SendParked v) (park_send t v s))"
| send_policy: "go s t = Send v \<Longrightarrow> \<not> promise s \<Longrightarrow> mu s = None \<Longrightarrow> \<not> closed s \<Longrightarrow> xstate s = None \<Longrightarrow>
    policy s \<noteq> PolicyFixed \<Longrightarrow> send_step X t s (at t (Adding [v] ThenReturn) (s\<lparr>mu := Some t\<rparr>))"
| send_xf: "go s t = Send v \<Longrightarrow> \<not> promise s \<Longrightarrow> mu s = None \<Longrightarrow> \<not> closed s \<Longrightarrow> xstate s = Some x \<Longrightarrow>
    step_xf X x v = (vs, r, x') \<Longrightarrow>
    send_step X t s (at t (Adding vs (put_after r)) (s\<lparr>mu := Some t, xstate := Some x'\<rparr>))"

text \<open>\<^verbatim>\<open>bufferAdd\<close> under the mutex, and what the put or close does after it.\<close>

inductive add_step :: "nat \<Rightarrow> ('v, 'x) chan \<Rightarrow> ('v, 'x) chan \<Rightarrow> bool" for t where
  add: "go s t = Adding (v # vs) a \<Longrightarrow> send_now v s = Some s' \<Longrightarrow> add_step t s (at t (Adding vs a) s')"
| add_parks: "go s t = Adding (v # vs) a \<Longrightarrow> policy s = PolicyFixed \<Longrightarrow> send_now v s = None \<Longrightarrow>
    add_step t s (at t (AddParked (v # vs) a) (park_send t v s))"
| add_drops: "go s t = Adding (v # vs) a \<Longrightarrow> policy s = PolicyDropping \<Longrightarrow> send_now v s = None \<Longrightarrow>
    add_step t s (at t (Adding vs a) s)"
| add_slides: "go s t = Adding (v # vs) a \<Longrightarrow> policy s = PolicySliding \<Longrightarrow> send_now v s = None \<Longrightarrow>
    add_step t s (at t (Evicting (v # vs) a) s)"
| evict: "go s t = Evicting vs a \<Longrightarrow> recv_now s = Some (old, s') \<Longrightarrow> add_step t s (at t (Refilling vs a) s')"
| evict_none: "go s t = Evicting vs a \<Longrightarrow> recv_now s = None \<Longrightarrow> add_step t s (at t (Refilling vs a) s)"
| refill: "go s t = Refilling (v # vs) a \<Longrightarrow> send_now v s = Some s' \<Longrightarrow> add_step t s (at t (Adding vs a) s')"
| refill_drops: "go s t = Refilling (v # vs) a \<Longrightarrow> send_now v s = None \<Longrightarrow> add_step t s (at t (Adding vs a) s)"
| add_returns: "go s t = Adding [] ThenReturn \<Longrightarrow> add_step t s (at t (Put True) (s\<lparr>mu := None\<rparr>))"
| add_closes: "go s t = Adding [] ThenClose \<Longrightarrow> add_step t s (at t (Close True) (s\<lparr>mu := None\<rparr>))"
| add_panics: "go s t = Adding [] ThenPanic \<Longrightarrow> add_step t s (at t Panicked s)"
| flushed: "go s t = Adding [] (ThenDone b) \<Longrightarrow> add_step t s (at t (ret b) (fire (s\<lparr>mu := None\<rparr>)))"
| flush_panics: "go s t = Adding [] ThenClosePanic \<Longrightarrow> add_step t s (at t Panicked (s\<lparr>mu := None\<rparr>))"

text \<open>\<^verbatim>\<open>ChanClose\<close>; with a transducer the completion comes before \<^verbatim>\<open>done\<close> fires.\<close>

inductive close_step :: "('v, 'x, 'e) xform \<Rightarrow> nat \<Rightarrow> ('v, 'x) chan \<Rightarrow> ('v, 'x) chan \<Rightarrow> bool" for X t where
  close_again: "go s t = Close b \<Longrightarrow> mu s = None \<Longrightarrow> closed s \<Longrightarrow> close_step X t s (at t (ret b) s)"
| close_promise: "go s t = Close b \<Longrightarrow> mu s = None \<Longrightarrow> \<not> closed s \<Longrightarrow> promise s \<Longrightarrow>
    close_step X t s (at t (ret b) ((if delivered s then s else fire s)\<lparr>closed := True\<rparr>))"
| close_plain: "go s t = Close b \<Longrightarrow> mu s = None \<Longrightarrow> \<not> closed s \<Longrightarrow> \<not> promise s \<Longrightarrow> xstate s = None \<Longrightarrow>
    close_step X t s (at t (ret b) (fire (s\<lparr>closed := True\<rparr>)))"
| close_xf: "go s t = Close b \<Longrightarrow> mu s = None \<Longrightarrow> \<not> closed s \<Longrightarrow> \<not> promise s \<Longrightarrow> xstate s = Some x \<Longrightarrow>
    flush_xf X x = (vs, r, x') \<Longrightarrow>
    close_step X t s (at t (Adding vs (flush_after b r)) (s\<lparr>closed := True, mu := Some t, xstate := Some x'\<rparr>))"

text \<open>\<^verbatim>\<open>ChanRecv\<close>: a probe, then a select on data and \<^verbatim>\<open>done\<close>, then a last probe.\<close>

inductive recv_step :: "nat \<Rightarrow> ('v, 'x) chan \<Rightarrow> ('v, 'x) chan \<Rightarrow> bool" for t where
  recv_promise: "go s t = Recv \<Longrightarrow> promise s \<Longrightarrow> isdone s \<Longrightarrow> recv_step t s (at t (Got (pval s)) s)"
| recv: "go s t = Recv \<Longrightarrow> \<not> promise s \<Longrightarrow> recv_now s = Some (v, s') \<Longrightarrow> recv_step t s (at t (Got (Some v)) s')"
| recv_waits: "go s t = Recv \<Longrightarrow> \<not> promise s \<Longrightarrow> recv_now s = None \<Longrightarrow> recv_step t s (at t Selecting s)"
| select: "go s t = Selecting \<Longrightarrow> recv_now s = Some (v, s') \<Longrightarrow> recv_step t s (at t (Got (Some v)) s')"
| select_done: "go s t = Selecting \<Longrightarrow> isdone s \<Longrightarrow> recv_step t s (at t Draining s)"
| select_parks: "go s t = Selecting \<Longrightarrow> recv_now s = None \<Longrightarrow> \<not> isdone s \<Longrightarrow>
    recv_step t s (at t RecvParked (park_recv t s))"
| drain: "go s t = Draining \<Longrightarrow> recv_now s = Some (v, s') \<Longrightarrow> recv_step t s (at t (Got (Some v)) s')"
| drained: "go s t = Draining \<Longrightarrow> recv_now s = None \<Longrightarrow> recv_step t s (at t (Got None) s)"

text \<open>\<^verbatim>\<open>ChanOffer\<close>.\<close>

inductive offer_step :: "('v, 'x, 'e) xform \<Rightarrow> nat \<Rightarrow> ('v, 'x) chan \<Rightarrow> ('v, 'x) chan \<Rightarrow> bool" for X t where
  offer_promise: "go s t = Offer v \<Longrightarrow> promise s \<Longrightarrow> mu s = None \<Longrightarrow> \<not> closed s \<Longrightarrow> \<not> delivered s \<Longrightarrow>
    offer_step X t s (at t (Put True) (fire (s\<lparr>pval := Some v, delivered := True\<rparr>)))"
| offer_ignored: "go s t = Offer v \<Longrightarrow> promise s \<Longrightarrow> mu s = None \<Longrightarrow> \<not> closed s \<Longrightarrow> delivered s \<Longrightarrow>
    offer_step X t s (at t (Put True) s)"
| offer_closed: "go s t = Offer v \<Longrightarrow> mu s = None \<Longrightarrow> closed s \<Longrightarrow> offer_step X t s (at t (Put False) s)"
| offer_xf: "go s t = Offer v \<Longrightarrow> \<not> promise s \<Longrightarrow> mu s = None \<Longrightarrow> \<not> closed s \<Longrightarrow> xstate s = Some x \<Longrightarrow>
    length (buf (ch s)) < cap (ch s) \<Longrightarrow> step_xf X x v = (vs, r, x') \<Longrightarrow>
    offer_step X t s (at t (Adding vs (put_after r)) (s\<lparr>mu := Some t, xstate := Some x'\<rparr>))"
| offer_full: "go s t = Offer v \<Longrightarrow> \<not> promise s \<Longrightarrow> mu s = None \<Longrightarrow> \<not> closed s \<Longrightarrow> xstate s = Some x \<Longrightarrow>
    length (buf (ch s)) \<ge> cap (ch s) \<Longrightarrow> offer_step X t s (at t WouldBlock s)"
| offer_policy: "go s t = Offer v \<Longrightarrow> \<not> promise s \<Longrightarrow> mu s = None \<Longrightarrow> \<not> closed s \<Longrightarrow> xstate s = None \<Longrightarrow>
    policy s \<noteq> PolicyFixed \<Longrightarrow> offer_step X t s (at t (Adding [v] ThenReturn) (s\<lparr>mu := Some t\<rparr>))"
| offer_fast: "go s t = Offer v \<Longrightarrow> \<not> promise s \<Longrightarrow> mu s = None \<Longrightarrow> \<not> closed s \<Longrightarrow> xstate s = None \<Longrightarrow>
    policy s = PolicyFixed \<Longrightarrow> offer_step X t s (at t (Offering v) s)"
| offering: "go s t = Offering v \<Longrightarrow> send_now v s = Some s' \<Longrightarrow> offer_step X t s (at t (Put True) s')"
| offering_full: "go s t = Offering v \<Longrightarrow> send_now v s = None \<Longrightarrow> offer_step X t s (at t WouldBlock s)"

text \<open>\<^verbatim>\<open>ChanPoll\<close>.\<close>

inductive poll_step :: "nat \<Rightarrow> ('v, 'x) chan \<Rightarrow> ('v, 'x) chan \<Rightarrow> bool" for t where
  poll_promise: "go s t = Poll \<Longrightarrow> promise s \<Longrightarrow> poll_step t s (at t (Got (if isdone s then pval s else None)) s)"
| poll: "go s t = Poll \<Longrightarrow> \<not> promise s \<Longrightarrow> recv_now s = Some (v, s') \<Longrightarrow> poll_step t s (at t (Got (Some v)) s')"
| poll_none: "go s t = Poll \<Longrightarrow> \<not> promise s \<Longrightarrow> recv_now s = None \<Longrightarrow> poll_step t s (at t (Got None) s)"

text \<open>One step of goroutine \<open>t\<close>: it calls an operation, or goes on with the one it is in.\<close>

inductive chan_step :: "('v, 'x, 'e) xform \<Rightarrow> nat \<Rightarrow> ('v, 'x) chan \<Rightarrow> ('v, 'x) chan \<Rightarrow> bool" for X t where
  call: "finished (go s t) \<Longrightarrow> chan_step X t s (at t (begins c) s)"
| sends: "send_step X t s s' \<Longrightarrow> chan_step X t s s'"
| adds: "add_step t s s' \<Longrightarrow> chan_step X t s s'"
| closes: "close_step X t s s' \<Longrightarrow> chan_step X t s s'"
| takes: "recv_step t s s' \<Longrightarrow> chan_step X t s s'"
| tries: "offer_step X t s s' \<Longrightarrow> chan_step X t s s'"
| polls: "poll_step t s s' \<Longrightarrow> chan_step X t s s'"

lemmas op_step_cases = send_step.cases add_step.cases close_step.cases recv_step.cases offer_step.cases poll_step.cases

text \<open>The states a channel can reach from its creation, whatever goroutines call on it.\<close>

inductive reachable :: "('v, 'x, 'e) xform \<Rightarrow> ('v, 'x) chan \<Rightarrow> bool" for X where
  new: "reachable X (NewChan n p x)"
| new_promise: "reachable X NewPromiseChan"
| step: "reachable X s \<Longrightarrow> chan_step X t s s' \<Longrightarrow> reachable X s'"

end
