(* ===== verification/ChanInv.thy ===== *)
theory ChanInv
  imports Chan
begin

text \<open>
  The invariant of a channel: its queues hold exactly the goroutines blocked on it, values leave in the
  order they entered, and nobody stays blocked in a take once \<^verbatim>\<open>done\<close> has fired.
\<close>

subsection \<open>The invariant\<close>

fun offers :: "'v pc \<Rightarrow> 'v option" where
  "offers (SendParked v) = Some v"
| "offers (AddParked (v # vs) a) = Some v"
| "offers _ = None"

fun parked :: "'v pc \<Rightarrow> bool" where
  "parked (SendParked v) = True"
| "parked (AddParked vs a) = True"
| "parked RecvParked = True"
| "parked _ = False"

text \<open>Inside \<^verbatim>\<open>bufferAdd\<close> a goroutine holds the mutex.\<close>

fun holding :: "'v pc \<Rightarrow> bool" where
  "holding (Adding vs a) = True"
| "holding (AddParked vs a) = True"
| "holding (Evicting vs a) = True"
| "holding (Refilling vs a) = True"
| "holding _ = False"

text \<open>Between the two halves of a close with a transducer.\<close>

fun flushes :: "after \<Rightarrow> bool" where
  "flushes (ThenDone b) = True"
| "flushes _ = False"

fun closing :: "'v pc \<Rightarrow> bool" where
  "closing (Adding vs a) = flushes a"
| "closing (AddParked vs a) = flushes a"
| "closing (Evicting vs a) = flushes a"
| "closing (Refilling vs a) = flushes a"
| "closing _ = False"

lemma closing_holding: "\<not> holding p \<Longrightarrow> \<not> closing p"
  by (cases p) simp_all

definition queued :: "'v gochan \<Rightarrow> (nat \<Rightarrow> 'v pc) \<Rightarrow> bool" where
  "queued c g \<longleftrightarrow> distinct (map fst (sendq c)) \<and> distinct (recvq c) \<and>
     (\<forall>t v. (t, v) \<in> set (sendq c) \<longleftrightarrow> offers (g t) = Some v) \<and> (\<forall>t. t \<in> set (recvq c) \<longleftrightarrow> g t = RecvParked)"

definition gochan_ok :: "'v gochan \<Rightarrow> bool" where
  "gochan_ok c \<longleftrightarrow> length (buf c) \<le> cap c \<and> (sendq c \<noteq> [] \<longrightarrow> length (buf c) = cap c) \<and>
     (recvq c \<noteq> [] \<longrightarrow> buf c = [] \<and> sendq c = [])"

definition fifo :: "('v, 'x) chan \<Rightarrow> bool" where
  "fifo s \<longleftrightarrow> entered s = left s @ buf (ch s) @ map snd (sendq (ch s))"

definition signals :: "('v, 'x) chan \<Rightarrow> bool" where
  "signals s \<longleftrightarrow> (isdone s \<longrightarrow> recvq (ch s) = [] \<and> (closed s \<or> delivered s)) \<and> (\<forall>t. go s t = Draining \<longrightarrow> isdone s) \<and>
     (delivered s \<longrightarrow> promise s \<and> isdone s) \<and> (\<not> delivered s \<longrightarrow> pval s = None) \<and>
     (\<forall>t. closing (go s t) \<longrightarrow> closed s)"

definition locked :: "('v, 'x) chan \<Rightarrow> bool" where
  "locked s \<longleftrightarrow> (\<forall>t. holding (go s t) \<longrightarrow> mu s = Some t) \<and> (\<forall>t vs a. go s t = AddParked vs a \<longrightarrow> vs \<noteq> [])"

definition chan_inv :: "('v, 'x) chan \<Rightarrow> bool" where
  "chan_inv s \<longleftrightarrow> queued (ch s) (go s) \<and> gochan_ok (ch s) \<and> fifo s \<and> signals s \<and> locked s"

named_theorems chan_defs

lemmas [chan_defs] = queued_def gochan_ok_def fifo_def signals_def locked_def chan_inv_def

lemma offers_parked: "offers p = Some v \<Longrightarrow> parked p"
  by (cases p rule: offers.cases) simp_all

lemma finished_idle: "finished p \<Longrightarrow> \<not> parked p \<and> \<not> holding p"
  by (cases p) simp_all

lemma begins_idle [simp]: "\<not> parked (begins c)" "\<not> holding (begins c)" "begins c \<noteq> Draining"
  by (cases c rule: begins.cases; simp)+

lemma ret_idle [simp]: "\<not> parked (ret b)" "\<not> holding (ret b)" "ret b \<noteq> Draining"
  by (simp_all add: ret_def)

lemma offers_idle [simp]: "\<not> parked p \<Longrightarrow> offers p = None"
  by (cases p rule: offers.cases) simp_all

lemma RecvParked_idle [simp]: "\<not> parked p \<Longrightarrow> p \<noteq> RecvParked"
  by auto

subsection \<open>Preservation\<close>

lemma queued_at: "queued c g \<Longrightarrow> \<not> parked (g t) \<Longrightarrow> \<not> parked p \<Longrightarrow> queued c (g(t := p))"
  by (auto simp: queued_def)

lemma locked_holder: "locked s \<Longrightarrow> holding (go s t) \<Longrightarrow> mu s = Some t"
  by (simp add: locked_def)

text \<open>A goroutine that is not blocked moves on, perhaps taking or leaving the mutex.\<close>

lemma inv_at:
  assumes "chan_inv s" and "\<not> parked (go s t)" and "\<not> parked p"
    and "holding p \<Longrightarrow> mu s = Some t \<and> (closing p \<longrightarrow> closed s)" and "p = Draining \<Longrightarrow> isdone s"
  shows "chan_inv (at t p s)"
proof -
  have "locked (at t p s)" using assms by (auto simp: chan_inv_def locked_def)
  moreover have "signals (at t p s)" using assms closing_holding [of p] by (auto simp: chan_inv_def signals_def)
  ultimately show ?thesis using assms by (simp add: chan_inv_def queued_at fifo_def)
qed

lemma inv_new: "chan_inv (NewChan n p x)" "chan_inv NewPromiseChan"
  by (simp_all add: chan_defs NewChan_def NewPromiseChan_def)

lemma inv_lock:
  assumes "chan_inv s" and "mu s = None"
  shows "chan_inv (s\<lparr>mu := m, xstate := x\<rparr>)" and "chan_inv (s\<lparr>mu := m\<rparr>)"
proof -
  have "\<not> holding (go s t)" for t using assms locked_holder [of s t] by (auto simp: chan_inv_def)
  then have "locked (s\<lparr>mu := m, xstate := x\<rparr>)" and "locked (s\<lparr>mu := m\<rparr>)"
    using assms by (auto simp: chan_inv_def locked_def)
  with assms show "chan_inv (s\<lparr>mu := m, xstate := x\<rparr>)" and "chan_inv (s\<lparr>mu := m\<rparr>)"
    by (simp_all add: chan_inv_def fifo_def signals_def)
qed

lemma inv_unlock:
  assumes "chan_inv s" and "holding (go s t)" and "\<not> parked (go s t)" and "\<not> parked p" and "\<not> holding p" and "p \<noteq> Draining"
  shows "chan_inv (at t p (s\<lparr>mu := None\<rparr>))"
proof -
  have "\<not> holding (go s u)" if "u \<noteq> t" for u
    using assms(1,2) that locked_holder [of s u] locked_holder [of s t] by (auto simp: chan_inv_def)
  then have "locked (at t p (s\<lparr>mu := None\<rparr>))"
    using assms by (auto simp: chan_inv_def locked_def split: if_splits)
  moreover have "signals (at t p (s\<lparr>mu := None\<rparr>))"
    using assms closing_holding [of p] by (auto simp: chan_inv_def signals_def)
  ultimately show ?thesis using assms by (simp add: chan_inv_def queued_at fifo_def)
qed

text \<open>An operation on the Go channel: only goroutines that were blocked are moved.\<close>

definition moves :: "('v, 'x) chan \<Rightarrow> ('v, 'x) chan \<Rightarrow> bool" where
  "moves s s' \<longleftrightarrow> (\<forall>t. \<not> parked (go s t) \<longrightarrow> go s' t = go s t) \<and> mu s' = mu s \<and> isdone s' = isdone s \<and>
     closed s' = closed s \<and> promise s' = promise s \<and> policy s' = policy s \<and> pval s' = pval s \<and> delivered s' = delivered s"

lemma released_idle: "offers p = Some v \<Longrightarrow> \<not> parked (released p) \<and> released p \<noteq> Draining \<and> (holding (released p) \<longrightarrow> holding p) \<and>
    (closing (released p) \<longrightarrow> closing p)"
  by (cases p rule: offers.cases) simp_all

lemma send_now_cases:
  assumes "send_now v s = Some s'"
  obtains (handoff) r rs where "recvq (ch s) = r # rs"
      and "s' = (at r (Got (Some v)) (s\<lparr>ch := (ch s)\<lparr>recvq := rs\<rparr>, entered := entered s @ [v]\<rparr>))\<lparr>left := left s @ [v]\<rparr>"
    | (room) "recvq (ch s) = []" and "length (buf (ch s)) < cap (ch s)"
      and "s' = s\<lparr>ch := (ch s)\<lparr>buf := buf (ch s) @ [v]\<rparr>, entered := entered s @ [v]\<rparr>"
  using assms by (auto simp: send_now_def split: list.splits if_splits)

lemma recv_now_cases:
  assumes "recv_now s = Some (v, s')"
  obtains (handoff) u ss where "buf (ch s) = []" and "sendq (ch s) = (u, v) # ss"
      and "s' = at u (released (go s u)) (s\<lparr>ch := (ch s)\<lparr>sendq := ss\<rparr>, left := left s @ [v]\<rparr>)"
    | (take) bs where "buf (ch s) = v # bs" and "sendq (ch s) = []"
      and "s' = s\<lparr>ch := (ch s)\<lparr>buf := bs\<rparr>, left := left s @ [v]\<rparr>"
    | (shift) bs u w ss where "buf (ch s) = v # bs" and "sendq (ch s) = (u, w) # ss"
      and "s' = at u (released (go s u)) (s\<lparr>ch := (ch s)\<lparr>buf := bs @ [w], sendq := ss\<rparr>, left := left s @ [v]\<rparr>)"
  using assms by (auto simp: recv_now_def split: list.splits prod.splits)

lemma send_now_None: "send_now v s = None \<longleftrightarrow> recvq (ch s) = [] \<and> cap (ch s) \<le> length (buf (ch s))"
  by (auto simp: send_now_def split: list.splits)

lemma recv_now_None: "recv_now s = None \<longleftrightarrow> buf (ch s) = [] \<and> sendq (ch s) = []"
  by (auto simp: recv_now_def split: list.splits)

lemma inv_send_now:
  assumes "chan_inv s" and "send_now v s = Some s'"
  shows "chan_inv s' \<and> moves s s'"
  using assms(2)
proof (cases rule: send_now_cases)
  case (handoff r rs)
  from assms(1) handoff(1) have empty: "buf (ch s) = []" "sendq (ch s) = []" and r: "go s r = RecvParked" and "r \<notin> set rs"
    by (auto simp: chan_inv_def gochan_ok_def queued_def)
  with assms(1) have "queued (ch s') (go s')"
    unfolding handoff(2) by (auto simp: chan_inv_def queued_def handoff(1))
  moreover have "fifo s'" using assms(1) empty by (simp add: handoff(2) chan_inv_def fifo_def)
  moreover have "signals s'" using assms(1) handoff(1) by (auto simp: handoff(2) chan_inv_def signals_def)
  moreover have "locked s'" using assms(1) by (auto simp: handoff(2) chan_inv_def locked_def)
  moreover have "moves s s'" using r by (auto simp: handoff(2) moves_def)
  ultimately show ?thesis using assms(1) empty by (simp add: handoff(2) chan_inv_def gochan_ok_def)
next
  case room
  with assms(1) show ?thesis
    by (auto simp: chan_inv_def queued_def gochan_ok_def fifo_def signals_def locked_def moves_def)
qed

text \<open>The sender a receive releases.\<close>

lemma inv_release:
  assumes "chan_inv s" and "sendq (ch s) = (u, w) # ss"
  shows "queued (c\<lparr>sendq := ss, recvq := recvq (ch s)\<rparr>) ((go s)(u := released (go s u)))"
    and "parked (go s u)" and "released (go s u) \<noteq> Draining"
    and "holding (released (go s u)) \<Longrightarrow> mu s = Some u" and "\<not> parked (released (go s u))"
    and "closing (released (go s u)) \<Longrightarrow> closed s"
proof -
  from assms have o: "offers (go s u) = Some w" and d: "u \<notin> fst ` set ss"
    by (auto simp: chan_inv_def queued_def)
  note r = released_idle [OF o]
  from r show "\<not> parked (released (go s u))" and "released (go s u) \<noteq> Draining" by blast+
  from r assms(1) show "holding (released (go s u)) \<Longrightarrow> mu s = Some u" by (auto simp: chan_inv_def locked_def)
  from r assms(1) show "closing (released (go s u)) \<Longrightarrow> closed s" by (auto simp: chan_inv_def signals_def)
  from o show "parked (go s u)" by (rule offers_parked)
  have "go s u \<noteq> RecvParked" using o by auto
  have "(t, v) \<in> set ss \<longleftrightarrow> offers (((go s)(u := released (go s u))) t) = Some v" for t v
  proof (cases "t = u")
    case True
    with r d show ?thesis by force
  next
    case False
    with assms show ?thesis by (auto simp: chan_inv_def queued_def)
  qed
  with assms r \<open>go s u \<noteq> RecvParked\<close> show "queued (c\<lparr>sendq := ss, recvq := recvq (ch s)\<rparr>) ((go s)(u := released (go s u)))"
    by (auto simp: chan_inv_def queued_def)
qed

lemma inv_recv_now:
  assumes "chan_inv s" and "recv_now s = Some (v, s')"
  shows "chan_inv s' \<and> moves s s'"
  using assms(2)
proof (cases rule: recv_now_cases)
  case (handoff u ss)
  note r = inv_release [OF assms(1) handoff(2)]
  from assms(1) handoff have rq: "recvq (ch s) = []" by (auto simp: chan_inv_def gochan_ok_def)
  have "queued (ch s') (go s')" using r(1) [of "ch s"] by (simp add: handoff(3))
  moreover have "fifo s'" using assms(1) handoff(1,2) by (simp add: handoff(3) chan_inv_def fifo_def)
  moreover have "signals s'" using assms(1) r(3,6) by (auto simp: handoff(3) chan_inv_def signals_def)
  moreover have "locked s'" using assms(1) r(4,5) by (auto simp: handoff(3) chan_inv_def locked_def split: if_splits)
  moreover have "moves s s'" using r(2) by (auto simp: handoff(3) moves_def)
  moreover have "gochan_ok (ch s')" using assms(1) handoff(1,2) rq by (simp add: handoff(3) chan_inv_def gochan_ok_def)
  ultimately show ?thesis by (simp add: chan_inv_def)
next
  case (take bs)
  with assms(1) show ?thesis
    by (auto simp: chan_inv_def queued_def gochan_ok_def fifo_def signals_def locked_def moves_def)
next
  case (shift bs u w ss)
  note r = inv_release [OF assms(1) shift(2)]
  from assms(1) shift have rq: "recvq (ch s) = []" by (auto simp: chan_inv_def gochan_ok_def)
  have "queued (ch s') (go s')" using r(1) [of "(ch s)\<lparr>buf := bs @ [w]\<rparr>"] by (simp add: shift(3))
  moreover have "fifo s'" using assms(1) shift(1,2) by (simp add: shift(3) chan_inv_def fifo_def)
  moreover have "signals s'" using assms(1) r(3,6) by (auto simp: shift(3) chan_inv_def signals_def)
  moreover have "locked s'" using assms(1) r(4,5) by (auto simp: shift(3) chan_inv_def locked_def split: if_splits)
  moreover have "moves s s'" using r(2) by (auto simp: shift(3) moves_def)
  moreover have "gochan_ok (ch s')" using assms(1) shift(1,2) rq by (simp add: shift(3) chan_inv_def gochan_ok_def)
  ultimately show ?thesis by (simp add: chan_inv_def)
qed

lemma inv_park_send:
  assumes "chan_inv s" and "send_now v s = None" and "\<not> parked (go s t)" and "p = SendParked v \<or> p = AddParked (v # vs) a"
    and "holding p \<Longrightarrow> mu s = Some t \<and> (closing p \<longrightarrow> closed s)"
  shows "chan_inv (at t p (park_send t v s))"
proof -
  let ?s = "at t p (park_send t v s)"
  from assms(2) have rq: "recvq (ch s) = []" and full: "cap (ch s) \<le> length (buf (ch s))"
    by (simp_all add: send_now_None)
  have t: "t \<notin> fst ` set (sendq (ch s))" and rp: "\<And>u. go s u \<noteq> RecvParked"
    using assms(1,3) rq by (auto simp: chan_inv_def queued_def dest!: offers_parked)
  have p: "offers p = Some v" "p \<noteq> RecvParked" "p \<noteq> Draining" using assms(4) by auto
  have "(u, w) \<in> set (sendq (ch s)) \<union> {(t, v)} \<longleftrightarrow> offers (((go s)(t := p)) u) = Some w" for u w
  proof (cases "u = t")
    case True
    with p t show ?thesis by force
  next
    case False
    with assms(1) show ?thesis by (simp add: chan_inv_def queued_def)
  qed
  then have "queued (ch ?s) (go ?s)"
    using assms(1) t p rq rp by (auto simp: park_send_def chan_inv_def queued_def)
  moreover have "gochan_ok (ch ?s)" using assms(1) rq full by (auto simp: park_send_def chan_inv_def gochan_ok_def)
  moreover have "fifo ?s" using assms(1) by (simp add: park_send_def chan_inv_def fifo_def)
  moreover have "signals ?s" using assms(1,5) p closing_holding [of p] by (auto simp: park_send_def chan_inv_def signals_def)
  moreover have "locked ?s" using assms(1,4,5) by (auto simp: park_send_def chan_inv_def locked_def)
  ultimately show ?thesis by (simp add: chan_inv_def)
qed

lemma inv_park_recv:
  assumes "chan_inv s" and "recv_now s = None" and "\<not> parked (go s t)" and "\<not> isdone s"
  shows "chan_inv (at t RecvParked (park_recv t s))"
proof -
  let ?s = "at t RecvParked (park_recv t s)"
  from assms(2) have empty: "buf (ch s) = []" "sendq (ch s) = []" by (simp_all add: recv_now_None)
  have t: "t \<notin> set (recvq (ch s))" using assms(1,3) by (auto simp: chan_inv_def queued_def)
  have "queued (ch ?s) (go ?s)" using assms(1) t empty by (auto simp: park_recv_def chan_inv_def queued_def)
  moreover have "gochan_ok (ch ?s)" using assms(1) empty by (auto simp: park_recv_def chan_inv_def gochan_ok_def)
  moreover have "fifo ?s" using assms(1) by (simp add: park_recv_def chan_inv_def fifo_def)
  moreover have "signals ?s" using assms(1,4) by (auto simp: park_recv_def chan_inv_def signals_def)
  moreover have "locked ?s" using assms(1) by (auto simp: park_recv_def chan_inv_def locked_def)
  ultimately show ?thesis by (simp add: chan_inv_def)
qed

text \<open>Firing \<^verbatim>\<open>done\<close> leaves nobody waiting.\<close>

lemma inv_fire:
  assumes "queued (ch s) (go s)" and "gochan_ok (ch s)" and "fifo s" and "locked s"
    and "closed s \<or> delivered s" and "delivered s \<longrightarrow> promise s" and "\<not> delivered s \<longrightarrow> pval s = None"
    and "\<forall>t. closing (go s t) \<longrightarrow> closed s"
  shows "chan_inv (fire s)" and "\<not> parked (go s t) \<Longrightarrow> go (fire s) t = go s t" and "isdone (fire s)" and "mu (fire s) = mu s"
proof -
  have "queued (ch (fire s)) (go (fire s))" using assms(1) by (auto simp: fire_def queued_def)
  moreover have "gochan_ok (ch (fire s))" using assms(2) by (simp add: fire_def gochan_ok_def)
  moreover have "fifo (fire s)" using assms(3) by (simp add: fire_def fifo_def)
  moreover have "locked (fire s)" using assms(4) by (auto simp: fire_def locked_def)
  moreover have "signals (fire s)" using assms(5-) by (auto simp: fire_def signals_def)
  ultimately show "chan_inv (fire s)" by (simp add: chan_inv_def)
  show "\<not> parked (go s t) \<Longrightarrow> go (fire s) t = go s t" using assms(1) by (auto simp: fire_def queued_def)
  show "isdone (fire s)" and "mu (fire s) = mu s" by (simp_all add: fire_def)
qed

subsection \<open>Every step\<close>

lemma inv_send_at:
  assumes "send_now v s = Some s'" and "chan_inv s" and "\<not> parked (go s t)" and "\<not> parked p"
    and "holding p \<Longrightarrow> mu s = Some t \<and> (closing p \<longrightarrow> closed s)" and "p \<noteq> Draining"
  shows "chan_inv (at t p s')"
  using inv_send_now [OF assms(2,1)] assms(3-) by (intro inv_at) (auto simp: moves_def)

lemma inv_recv_at:
  assumes "recv_now s = Some (v, s')" and "chan_inv s" and "\<not> parked (go s t)" and "\<not> parked p"
    and "holding p \<Longrightarrow> mu s = Some t \<and> (closing p \<longrightarrow> closed s)" and "p \<noteq> Draining"
  shows "chan_inv (at t p s')"
  using inv_recv_now [OF assms(2,1)] assms(3-) by (intro inv_at) (auto simp: moves_def)

lemma inv_lock_at:
  assumes "chan_inv s" and "mu s = None" and "\<not> parked (go s t)" and "\<not> parked p" and "p \<noteq> Draining"
    and "closing p \<Longrightarrow> closed s"
  shows "chan_inv (at t p (s\<lparr>mu := Some t\<rparr>))" and "chan_inv (at t p (s\<lparr>mu := Some t, xstate := x\<rparr>))"
  using inv_lock [OF assms(1,2)] assms(3-) by (auto intro!: inv_at)

lemma inv_closing:
  assumes "chan_inv s"
  shows "chan_inv (s\<lparr>closed := True\<rparr>)"
  using assms by (auto simp: chan_inv_def fifo_def signals_def locked_def)

lemma inv_fire_at:
  assumes "queued (ch s) (go s)" and "gochan_ok (ch s)" and "fifo s" and "locked s"
    and "closed s \<or> delivered s" and "delivered s \<longrightarrow> promise s" and "\<not> delivered s \<longrightarrow> pval s = None"
    and "\<forall>t. closing (go s t) \<longrightarrow> closed s" and "\<not> parked (go s t)" and "\<not> parked p" and "\<not> holding p"
  shows "chan_inv (at t p (fire s))"
  using inv_fire [OF assms(1-8)] assms(9-) by (auto intro!: inv_at)

text \<open>The three ways \<^verbatim>\<open>done\<close> fires.\<close>

lemma inv_deliver:
  assumes "chan_inv s" and "promise s" and "\<not> parked (go s t)"
  shows "chan_inv (at t (Put True) (fire (s\<lparr>pval := Some v, delivered := True\<rparr>)))"
  using assms by (intro inv_fire_at) (auto simp: chan_inv_def fifo_def locked_def signals_def)

lemma inv_close:
  assumes "chan_inv s" and "\<not> parked (go s t)"
  shows "chan_inv (at t (ret b) (fire (s\<lparr>closed := True\<rparr>)))"
  using assms by (intro inv_fire_at) (auto simp: chan_inv_def fifo_def locked_def signals_def)

lemma inv_flushed:
  assumes "chan_inv s" and "go s t = Adding [] (ThenDone b)"
  shows "chan_inv (at t (ret b) (fire (s\<lparr>mu := None\<rparr>)))"
proof -
  have u: "chan_inv (at t Closed (s\<lparr>mu := None\<rparr>))" using assms by (intro inv_unlock) simp_all
  have "closing (go s t)" using assms(2) by simp
  with assms(1) have "closed s" unfolding chan_inv_def signals_def by blast
  have "at t (ret b) (fire (s\<lparr>mu := None\<rparr>)) = at t (ret b) (fire (at t Closed (s\<lparr>mu := None\<rparr>)))"
    using assms by (auto simp: at_def fire_def fun_eq_iff chan_inv_def queued_def)
  moreover have "chan_inv (at t (ret b) (fire (at t Closed (s\<lparr>mu := None\<rparr>))))"
    using u \<open>closed s\<close> by (intro inv_fire_at) (auto simp: chan_inv_def signals_def)
  ultimately show ?thesis by simp
qed

lemma put_after_idle [simp]: "\<not> flushes (put_after r)"
  by (cases r) (simp_all add: put_after_def)

lemma held: "chan_inv s \<Longrightarrow> go s t = p \<Longrightarrow> holding p \<Longrightarrow> mu s = Some t \<and> (closing p \<longrightarrow> closed s)"
  by (auto simp: chan_inv_def locked_def signals_def)

lemma inv_send_step: "send_step X t s s' \<Longrightarrow> chan_inv s \<Longrightarrow> chan_inv s'"
  by (induction rule: send_step.induct)
    (auto intro: inv_at inv_send_at inv_lock_at inv_park_send inv_deliver)

lemma inv_add_step: "add_step t s s' \<Longrightarrow> chan_inv s \<Longrightarrow> chan_inv s'"
proof (induction rule: add_step.induct)
  case (add s v vs a s')
  then show ?case using held [of s t "Adding (v # vs) a"] by (auto intro: inv_send_at)
next
  case (add_parks s v vs a)
  then show ?case using held [of s t "Adding (v # vs) a"] by (intro inv_park_send) auto
next
  case (add_drops s v vs a)
  then show ?case using held [of s t "Adding (v # vs) a"] by (intro inv_at) auto
next
  case (add_slides s v vs a)
  then show ?case using held [of s t "Adding (v # vs) a"] by (intro inv_at) auto
next
  case (evict s vs a old s')
  then show ?case using held [of s t "Evicting vs a"] by (auto intro: inv_recv_at)
next
  case (evict_none s vs a)
  then show ?case using held [of s t "Evicting vs a"] by (intro inv_at) auto
next
  case (refill s v vs a s')
  then show ?case using held [of s t "Refilling (v # vs) a"] by (auto intro: inv_send_at)
next
  case (refill_drops s v vs a)
  then show ?case using held [of s t "Refilling (v # vs) a"] by (intro inv_at) auto
qed (auto intro: inv_at inv_unlock inv_flushed)

lemma inv_close_step: "close_step X t s s' \<Longrightarrow> chan_inv s \<Longrightarrow> chan_inv s'"
proof (induction rule: close_step.induct)
  case (close_promise s b)
  have "(fire s)\<lparr>closed := True\<rparr> = fire (s\<lparr>closed := True\<rparr>)"
    by (simp add: fire_def fun_eq_iff)
  with close_promise inv_close [of s t b] inv_closing [of s] show ?case by (auto intro: inv_at)
next
  case (close_xf s b x vs r x')
  then show ?case using inv_closing [of s] inv_lock_at(2) [of "s\<lparr>closed := True\<rparr>" t] by auto
qed (auto intro: inv_at inv_close)

lemma inv_recv_step: "recv_step t s s' \<Longrightarrow> chan_inv s \<Longrightarrow> chan_inv s'"
  by (induction rule: recv_step.induct) (auto intro: inv_at inv_recv_at inv_park_recv)

lemma inv_offer_step: "offer_step X t s s' \<Longrightarrow> chan_inv s \<Longrightarrow> chan_inv s'"
  by (induction rule: offer_step.induct) (auto intro: inv_at inv_send_at inv_lock_at inv_deliver)

lemma inv_poll_step: "poll_step t s s' \<Longrightarrow> chan_inv s \<Longrightarrow> chan_inv s'"
  by (induction rule: poll_step.induct) (auto intro: inv_at inv_recv_at)

lemma inv_step: "chan_step X t s s' \<Longrightarrow> chan_inv s \<Longrightarrow> chan_inv s'"
proof (induction rule: chan_step.induct)
  case (call s c)
  then show ?case using finished_idle [of "go s t"] by (intro inv_at) simp_all
qed (blast intro: inv_send_step inv_add_step inv_close_step inv_recv_step inv_offer_step inv_poll_step)+

end
