(* ===== verification/ChanProps.thy ===== *)
theory ChanProps
  imports ChanInv
begin

text \<open>
  What channels promise: values leave in the order they entered, a take on a closed channel ends, nil
  means closed and drained; and two executions that the comments of the code exclude.
\<close>

lemma reachable_inv: "reachable X s \<Longrightarrow> chan_inv s"
  by (induction rule: reachable.induct) (auto intro: inv_new inv_step)

lemma recv_now_isdone: "recv_now s = Some (v, s') \<Longrightarrow> isdone s' = isdone s"
  by (erule recv_now_cases) simp_all

lemma send_now_isdone: "send_now v s = Some s' \<Longrightarrow> isdone s' = isdone s"
  by (erule send_now_cases) simp_all

lemma isdone_stays: "chan_step X t s s' \<Longrightarrow> isdone s \<Longrightarrow> isdone s'"
  by (elim chan_step.cases op_step_cases)
    (auto simp: fire_def park_send_def park_recv_def dest: recv_now_isdone send_now_isdone)

text \<open>A step moves the goroutine that makes it and goroutines that were blocked.\<close>

lemma fire_others: "queued (ch s) (go s) \<Longrightarrow> \<not> parked (go s u) \<Longrightarrow> go (fire s) u = go s u"
  by (auto simp: fire_def queued_def)

lemma now_others:
  "chan_inv s \<Longrightarrow> send_now v s = Some s' \<Longrightarrow> \<not> parked (go s u) \<Longrightarrow> go s' u = go s u"
  "chan_inv s \<Longrightarrow> recv_now s = Some (v, s') \<Longrightarrow> \<not> parked (go s u) \<Longrightarrow> go s' u = go s u"
  using inv_send_now [of s v s'] inv_recv_now [of s v s'] by (simp_all add: moves_def)

lemma inv_queued: "chan_inv s \<Longrightarrow> queued (ch s) (go s)"
  by (simp add: chan_inv_def)

lemma step_others: "chan_step X t s s' \<Longrightarrow> chan_inv s \<Longrightarrow> u \<noteq> t \<Longrightarrow> \<not> parked (go s u) \<Longrightarrow> go s' u = go s u"
  by (elim chan_step.cases op_step_cases)
    (auto simp: park_send_def park_recv_def fire_others inv_queued dest: now_others)

text \<open>A blocked goroutine makes no step of its own.\<close>

lemma parked_waits: "parked (go s t) \<Longrightarrow> \<not> chan_step X t s s'"
  by (rule notI, elim chan_step.cases op_step_cases) (auto dest: finished_idle)

subsection \<open>Takes\<close>

fun taking :: "'v pc \<Rightarrow> bool" where
  "taking Recv = True"
| "taking Selecting = True"
| "taking RecvParked = True"
| "taking Draining = True"
| "taking _ = False"

fun stages :: "'v pc \<Rightarrow> nat" where
  "stages Recv = 3"
| "stages Selecting = 2"
| "stages Draining = 1"
| "stages _ = 0"

text \<open>A take moves to a later stage with each of its steps, and can make one unless it is blocked on an open channel.\<close>

lemma taking_finished: "taking p \<Longrightarrow> \<not> finished p"
  by (cases p) simp_all

lemma take_step: "chan_step X t s s' \<Longrightarrow> taking (go s t) \<Longrightarrow> isdone s \<Longrightarrow> stages (go s' t) < stages (go s t)"
  by (elim chan_step.cases op_step_cases) (auto dest: taking_finished)

lemma take_enabled:
  assumes "chan_inv s" and "isdone s" and "taking (go s t)"
  shows "\<exists>s'. chan_step X t s s'"
proof (cases "go s t")
  case Recv
  then show ?thesis using assms(2)
    by (cases "promise s"; cases "recv_now s") (auto intro: chan_step.takes recv_step.recv_promise recv_step.recv recv_step.recv_waits)
next
  case RecvParked
  then have "t \<in> set (recvq (ch s))" using assms(1) by (simp add: chan_inv_def queued_def)
  then have False using assms(1,2) by (simp add: chan_inv_def signals_def)
  then show ?thesis ..
next
  case Draining
  then show ?thesis by (cases "recv_now s") (auto intro: chan_step.takes recv_step.drain recv_step.drained)
qed (use assms in \<open>auto intro: chan_step.takes recv_step.select_done\<close>)

lemma take_not_parked: "chan_inv s \<Longrightarrow> isdone s \<Longrightarrow> taking (go s t) \<Longrightarrow> \<not> parked (go s t)"
  by (cases "go s t") (auto simp: chan_inv_def queued_def signals_def)

subsection \<open>Properties\<close>


text \<open>C39. Takes end after close.  Once \<^verbatim>\<open>done\<close> has fired no take waits: a goroutine inside \<^verbatim>\<open>ChanRecv\<close> can
  always make a step, each of its steps brings it closer to its result, which is at most three
  away, and no other goroutine sets it back or reopens the channel.\<close>

theorem take_ends_after_close:
  assumes "reachable X s" and "isdone s" and "taking (go s t)"
  shows "stages (go s t) \<le> 3 \<and> (\<exists>s'. chan_step X t s s') \<and>
    (\<forall>u s'. chan_step X u s s' \<longrightarrow> isdone s' \<and> (if u = t then stages (go s' t) < stages (go s t) else go s' t = go s t))"
proof -
  note inv = reachable_inv [OF assms(1)]
  have "stages (go s t) \<le> 3" by (cases "go s t") simp_all
  moreover have "go s' t = go s t" if "chan_step X u s s'" and "u \<noteq> t" for u s'
    using step_others [OF that(1) inv, of t] that(2) take_not_parked [OF inv assms(2,3)] by simp
  ultimately show ?thesis
    using take_enabled [OF inv assms(2,3)] take_step [OF _ assms(3,2)] isdone_stays [OF _ assms(2)] by auto
qed

lemma fire_simps:
  "isdone (fire s) = True" "ch (fire s) = (ch s)\<lparr>recvq := []\<rparr>" "mu (fire s) = mu s" "closed (fire s) = closed s"
  "promise (fire s) = promise s" "xstate (fire s) = xstate s" "policy (fire s) = policy s" "entered (fire s) = entered s"
  "left (fire s) = left s" "go (fire s) u = (if u \<in> set (recvq (ch s)) then Draining else go s u)"
  by (simp_all add: fire_def)

lemmas run_simps = NewChan_def fire_simps ret_def recv_now_None send_now_None park_send_def

text \<open>A run: a plain channel is closed, then read.\<close>

definition "closed_then_read" :: "(nat, unit) chan" where
  "closed_then_read = at 2 Recv (at 1 Closed (fire ((at 1 (Close False) (NewChan 0 PolicyFixed None))\<lparr>closed := True\<rparr>)))"

lemma closed_then_read_reachable: "reachable X closed_then_read"
proof -
  let ?s0 = "NewChan 0 PolicyFixed None :: (nat, unit) chan"
  let ?s1 = "at 1 (Close False) ?s0"
  let ?s2 = "at 1 Closed (fire (?s1\<lparr>closed := True\<rparr>))"
  have "chan_step X 1 ?s0 ?s1" using chan_step.call [of ?s0 1 X ChanClose] by (simp add: NewChan_def)
  moreover have "chan_step X 1 ?s1 ?s2" using chan_step.closes [OF close_step.close_plain [of ?s1 1 False X]] by (simp add: NewChan_def ret_def)
  moreover have "chan_step X 2 ?s2 closed_then_read"
    using chan_step.call [of ?s2 2 X ChanRecv] by (simp add: NewChan_def fire_def closed_then_read_def)
  ultimately show ?thesis using reachable.step reachable.new by metis
qed

theorem take_ends_after_close_witness: "\<forall>X :: (nat, unit, unit) xform. \<exists>s'. chan_step X 2 closed_then_read s'"
proof
  fix X :: "(nat, unit, unit) xform"
  have "isdone closed_then_read" and "taking (go closed_then_read 2)" by (simp_all add: closed_then_read_def fire_def)
  from take_ends_after_close [OF closed_then_read_reachable this] show "\<exists>s'. chan_step X 2 closed_then_read s'" by blast
qed

text \<open>C40. Nil means closed.  A take returns nil only when the closing signal has fired and, at that
  moment, nothing is buffered and no sender is blocked, or at once on a promise channel that was
  closed without a value.\<close>

theorem nil_means_closed:
  assumes "reachable X s" and "chan_step X t s s'" and "taking (go s t)" and "go s' t = Got None"
  shows "isdone s \<and> (if go s t = Recv then promise s \<and> pval s = None else buf (ch s) = [] \<and> sendq (ch s) = [])"
proof -
  have "\<forall>u. go s u = Draining \<longrightarrow> isdone s" using reachable_inv [OF assms(1)] by (auto simp: chan_inv_def signals_def)
  with assms(2-4) show ?thesis
    by (elim chan_step.cases op_step_cases) (auto simp: recv_now_None dest: taking_finished)
qed

lemma closed_then_read_drains: "reachable X (at 2 Draining (at 2 Selecting closed_then_read))"
proof -
  let ?s = "closed_then_read"
  have "chan_step X 2 ?s (at 2 Selecting ?s)"
    by (rule chan_step.takes, rule recv_step.recv_waits) (simp_all add: closed_then_read_def run_simps)
  moreover have "chan_step X 2 (at 2 Selecting ?s) (at 2 Draining (at 2 Selecting ?s))"
    by (rule chan_step.takes, rule recv_step.select_done) (simp_all add: closed_then_read_def run_simps)
  ultimately show ?thesis using reachable.step closed_then_read_reachable by metis
qed

theorem nil_means_closed_witness: "isdone (at 2 Draining (at 2 Selecting closed_then_read))"
proof -
  let ?s = "at 2 Draining (at 2 Selecting closed_then_read)"
  have "chan_step X 2 ?s (at 2 (Got None) ?s)" for X :: "(nat, unit, unit) xform"
    by (rule chan_step.takes, rule recv_step.drained) (simp_all add: closed_then_read_def run_simps)
  from nil_means_closed [OF closed_then_read_drains this] show ?thesis by simp
qed

subsection \<open>Two executions\<close>

text \<open>
  A put that has passed the check of \<^verbatim>\<open>closed\<close> but not yet sent: the channel closes, a take drains and
  returns nil, and then the value arrives all the same and the put returns true.
\<close>

abbreviation steps :: "('v, 'x, 'e) xform \<Rightarrow> ('v, 'x) chan \<Rightarrow> ('v, 'x) chan \<Rightarrow> bool" where
  "steps X \<equiv> (\<lambda>a b. \<exists>t. chan_step X t a b)\<^sup>*\<^sup>*"

lemma steps_reachable: "steps X s s' \<Longrightarrow> reachable X s \<Longrightarrow> reachable X s'"
  by (induction rule: rtranclp_induct) (auto intro: reachable.step)

lemma steps3: "chan_step X t a b \<Longrightarrow> chan_step X u b c \<Longrightarrow> chan_step X w c d \<Longrightarrow> steps X a d"
  by (rule converse_rtranclp_into_rtranclp, blast)+ blast

text \<open>Goroutine 1 puts, 2 closes, 3 takes and gets nil; then 1 parks and 4 takes its value.\<close>

definition sending_open :: "'v \<Rightarrow> ('v, 'x) chan" where
  "sending_open v = at 1 (Sending v) (at 1 (Send v) (NewChan 0 PolicyFixed None))"

definition closed_meanwhile :: "'v \<Rightarrow> ('v, 'x) chan" where
  "closed_meanwhile v = at 2 Closed (fire ((at 2 (Close False) (sending_open v))\<lparr>closed := True\<rparr>))"

definition told_nil :: "'v \<Rightarrow> ('v, 'x) chan" where
  "told_nil v = at 3 (Got None) (at 3 Draining (at 3 Selecting (at 3 Recv (closed_meanwhile v))))"

lemmas run_defs = sending_open_def closed_meanwhile_def told_nil_def

lemma call_step: "reachable X s \<Longrightarrow> finished (go s t) \<Longrightarrow> reachable X (at t (begins c) s)"
  by (blast intro: reachable.step chan_step.call)

lemma sending_open_reachable: "reachable X (sending_open v)"
proof -
  have "reachable X (at 1 (Send v) (NewChan 0 PolicyFixed None))"
    using call_step [OF reachable.new, of 0 PolicyFixed None 1 X "ChanSend (Some v)"] by (simp add: run_simps)
  then show ?thesis unfolding sending_open_def
    by (rule reachable.step) (rule chan_step.sends, rule send_step.send_fast, simp_all add: run_simps)
qed

lemma told_nil_reachable: "reachable X (told_nil v)"
proof -
  let ?c = "at 2 (Close False) (sending_open v)"
  have "reachable X ?c"
    using call_step [OF sending_open_reachable, of v 2 X ChanClose] by (simp add: run_defs run_simps)
  then have "reachable X (closed_meanwhile v)" unfolding closed_meanwhile_def
    by (rule reachable.step) (rule chan_step.closes, rule close_step.close_plain [of _ _ False, unfolded ret_def, simplified], simp_all add: run_defs run_simps)
  then have "reachable X (at 3 Recv (closed_meanwhile v))"
    using call_step [of X "closed_meanwhile v" 3 ChanRecv] by (simp add: run_defs run_simps)
  then have "reachable X (at 3 Selecting (at 3 Recv (closed_meanwhile v)))"
    by (rule reachable.step) (rule chan_step.takes, rule recv_step.recv_waits, simp_all add: run_defs run_simps)
  then have "reachable X (at 3 Draining (at 3 Selecting (at 3 Recv (closed_meanwhile v))))"
    by (rule reachable.step) (rule chan_step.takes, rule recv_step.select_done, simp_all add: run_defs run_simps)
  then show ?thesis unfolding told_nil_def
    by (rule reachable.step) (rule chan_step.takes, rule recv_step.drained, simp_all add: run_defs run_simps)
qed

lemma value_after_nil:
  fixes X :: "('v, 'x, 'e) xform"
  shows "\<exists>s s'. reachable X s \<and> isdone s \<and> go s 3 = Got None \<and> steps X s s' \<and> go s' 1 = Put True \<and> go s' 4 = Got (Some v)"
proof -
  let ?s = "told_nil v :: ('v, 'x) chan"
  let ?p = "at 1 (SendParked v) (park_send 1 v ?s)"
  let ?r = "at 4 Recv ?p"
  let ?e = "at 4 (Got (Some v)) (at 1 (Put True) (?r\<lparr>ch := (ch ?r)\<lparr>sendq := []\<rparr>, left := left ?r @ [v]\<rparr>))"
  have "chan_step X 1 ?s ?p" by (rule chan_step.sends, rule send_step.sending_parks) (simp_all add: run_defs run_simps)
  moreover have "chan_step X 4 ?p ?r" using chan_step.call [of ?p 4 X ChanRecv] by (simp add: run_defs run_simps)
  moreover have "chan_step X 4 ?r ?e"
    by (rule chan_step.takes, rule recv_step.recv) (simp_all add: run_defs run_simps recv_now_def)
  ultimately have run: "steps X ?s ?e" by (rule steps3)
  have nil: "isdone ?s" "go ?s 3 = Got None" by (simp_all add: run_defs run_simps)
  have val: "go ?e 1 = Put True" "go ?e 4 = Got (Some v)" by simp_all
  show ?thesis by (rule exI [of _ ?s], rule exI [of _ ?e], intro conjI told_nil_reachable nil run val)
qed

text \<open>
  An offer through a transducer that adds two values to a buffer with room for one blocks, holding the
  mutex: the offer cannot go on by itself, and nobody can put, offer or close.
\<close>

definition doubling :: "('v, unit, unit) xform" where
  "doubling = \<lparr>rfx = (\<lambda>x v. ([v, v], Ret False, x)), complete = (\<lambda>x. ([], Ret False, x)), exh = None\<rparr>"

definition blocked_offer :: "'v \<Rightarrow> ('v, unit) chan" where
  "blocked_offer v =
     (let s = at 1 (Adding [v] ThenReturn) ((at 1 (Adding [v, v] ThenReturn)
         ((at 1 (Offer v) (NewChan 1 PolicyFixed (Some ())))\<lparr>mu := Some 1, xstate := Some ()\<rparr>))
           \<lparr>ch := \<lparr>cap = 1, buf = [v], sendq = [], recvq = []\<rparr>, entered := [v]\<rparr>)
      in at 1 (AddParked [v] ThenReturn) (park_send 1 v s))"

lemma offer_blocks: "reachable doubling (blocked_offer v) \<and> \<not> chan_step doubling 1 (blocked_offer v) s' \<and>
    mu (blocked_offer v) = Some 1"
proof -
  let ?n = "NewChan 1 PolicyFixed (Some ()) :: ('a, unit) chan"
  let ?o = "at 1 (Offer v) ?n"
  let ?a = "at 1 (Adding [v, v] ThenReturn) (?o\<lparr>mu := Some 1, xstate := Some ()\<rparr>)"
  let ?b = "at 1 (Adding [v] ThenReturn) (?a\<lparr>ch := \<lparr>cap = 1, buf = [v], sendq = [], recvq = []\<rparr>, entered := [v]\<rparr>)"
  have xf: "step_xf doubling () v = ([v, v], More, ())" by (simp add: step_xf_def doubling_def)
  have "reachable doubling ?o"
    using call_step [OF reachable.new, of 1 PolicyFixed "Some ()" 1 doubling "ChanOffer (Some v)"] by (simp add: run_simps)
  moreover have "chan_step doubling 1 ?o ?a"
    using chan_step.tries [OF offer_step.offer_xf [of ?o 1 v "()" doubling "[v, v]" More "()"]] xf by (simp add: run_simps put_after_def)
  moreover have "chan_step doubling 1 ?a ?b"
    by (rule chan_step.adds, rule add_step.add) (simp_all add: run_simps send_now_def)
  moreover have "chan_step doubling 1 ?b (blocked_offer v)" unfolding blocked_offer_def Let_def
    by (rule chan_step.adds, rule add_step.add_parks) (simp_all add: run_simps)
  ultimately have "reachable doubling (blocked_offer v)" using reachable.step by metis
  moreover have g: "go (blocked_offer v) 1 = AddParked [v] ThenReturn" and m: "mu (blocked_offer v) = Some 1"
    by (simp_all add: blocked_offer_def run_simps)
  moreover have "\<not> chan_step doubling 1 (blocked_offer v) s'" using g by (intro parked_waits) simp
  ultimately show ?thesis by blast
qed

text \<open>A mutex whose owner has left, by a panic of the ex-handler, is never released.\<close>

lemma now_holding:
  "send_now v s = Some s' \<Longrightarrow> holding (go s' u) \<Longrightarrow> holding (go s u)"
  "chan_inv s \<Longrightarrow> recv_now s = Some (v, s') \<Longrightarrow> holding (go s' u) \<Longrightarrow> holding (go s u)"
proof -
  show "send_now v s = Some s' \<Longrightarrow> holding (go s' u) \<Longrightarrow> holding (go s u)"
    by (erule send_now_cases) (auto split: if_splits)
  have "holding (released (go s w)) \<Longrightarrow> holding (go s w)" for w by (cases "go s w" rule: released.cases) auto
  then show "chan_inv s \<Longrightarrow> recv_now s = Some (v, s') \<Longrightarrow> holding (go s' u) \<Longrightarrow> holding (go s u)"
    by (elim recv_now_cases) (auto split: if_splits)
qed

lemma now_mu: "send_now v s = Some s' \<Longrightarrow> mu s' = mu s" "recv_now s = Some (v, s') \<Longrightarrow> mu s' = mu s"
  by (erule send_now_cases; simp) (erule recv_now_cases; simp)

lemma fire_holding: "holding (go (fire s) u) \<Longrightarrow> holding (go s u)"
  by (auto simp: fire_simps split: if_splits)

lemma poisoned_stays:
  assumes "chan_step X u s s'" and "chan_inv s" and "mu s = Some t" and "\<not> holding (go s t)"
  shows "mu s' = Some t \<and> \<not> holding (go s' t)"
proof -
  have other: "u \<noteq> t \<and> \<not> holding (go s u)" if "holding (go s u)"
    using held [OF assms(2) refl that] assms(3,4) that by auto
  from assms(1) other assms(2-4) show ?thesis
    by (elim chan_step.cases op_step_cases) (auto simp: fire_simps park_send_def park_recv_def now_mu dest: now_holding fire_holding)
qed


end
