(* ===== verification/Scanner.thy ===== *)
theory Scanner
  imports Equality
begin

text \<open>
  \<^verbatim>\<open>pkg/reader/scanner.go\<close> and \<^verbatim>\<open>error.go\<close>, the state of \<^verbatim>\<open>reader.Reader\<close>, and the parts of
  \<^verbatim>\<open>reader.go\<close> that only move over runes.

  The input is the list of runes still to be read, decoded.  Go strings are byte strings here as
  everywhere in the library, so what the reader writes is encoded again.  The only error of
  \<^verbatim>\<open>ReadRune\<close> modelled is the end of the input.  Every operation returns a result and the state,
  which survives an error.
\<close>

subsection \<open>Runes\<close>

type_synonym rune = nat

abbreviation (input) NL :: rune where "NL \<equiv> 0x0A"
abbreviation (input) CR :: rune where "CR \<equiv> 0x0D"
abbreviation (input) BANG :: rune where "BANG \<equiv> 0x21"
abbreviation (input) DQUOTE :: rune where "DQUOTE \<equiv> 0x22"
abbreviation (input) HASH :: rune where "HASH \<equiv> 0x23"
abbreviation (input) PERCENT :: rune where "PERCENT \<equiv> 0x25"
abbreviation (input) QUOTE :: rune where "QUOTE \<equiv> 0x27"
abbreviation (input) LPAREN :: rune where "LPAREN \<equiv> 0x28"
abbreviation (input) RPAREN :: rune where "RPAREN \<equiv> 0x29"
abbreviation (input) PLUS :: rune where "PLUS \<equiv> 0x2B"
abbreviation (input) COMMA :: rune where "COMMA \<equiv> 0x2C"
abbreviation (input) MINUS :: rune where "MINUS \<equiv> 0x2D"
abbreviation (input) COLON :: rune where "COLON \<equiv> 0x3A"
abbreviation (input) SEMI :: rune where "SEMI \<equiv> 0x3B"
abbreviation (input) LESS :: rune where "LESS \<equiv> 0x3C"
abbreviation (input) EQUALS :: rune where "EQUALS \<equiv> 0x3D"
abbreviation (input) QMARK :: rune where "QMARK \<equiv> 0x3F"
abbreviation (input) AT :: rune where "AT \<equiv> 0x40"
abbreviation (input) LBRACK :: rune where "LBRACK \<equiv> 0x5B"
abbreviation (input) BSLASH :: rune where "BSLASH \<equiv> 0x5C"
abbreviation (input) RBRACK :: rune where "RBRACK \<equiv> 0x5D"
abbreviation (input) CARET :: rune where "CARET \<equiv> 0x5E"
abbreviation (input) UNDERSCORE :: rune where "UNDERSCORE \<equiv> 0x5F"
abbreviation (input) BQUOTE :: rune where "BQUOTE \<equiv> 0x60"
abbreviation (input) LBRACE :: rune where "LBRACE \<equiv> 0x7B"
abbreviation (input) RBRACE :: rune where "RBRACE \<equiv> 0x7D"
abbreviation (input) TILDE :: rune where "TILDE \<equiv> 0x7E"

text \<open>\<^verbatim>\<open>strings.Builder.WriteRune\<close>: UTF-8, with U+FFFD for what is no code point.\<close>

definition encode_rune :: "rune \<Rightarrow> string" where
  "encode_rune r =
     (if r < 0x80 then [char_of r]
      else if r < 0x800 then [char_of (0xC0 + r div 64), char_of (0x80 + r mod 64)]
      else if 0xD800 \<le> r \<and> r \<le> 0xDFFF \<or> 0x10FFFF < r then [CHR 0xEF, CHR 0xBF, CHR 0xBD]
      else if r < 0x10000 then [char_of (0xE0 + r div 4096), char_of (0x80 + r div 64 mod 64), char_of (0x80 + r mod 64)]
      else [char_of (0xF0 + r div 262144), char_of (0x80 + r div 4096 mod 64), char_of (0x80 + r div 64 mod 64),
            char_of (0x80 + r mod 64)])"

definition encode :: "rune list \<Rightarrow> string" where
  "encode rs = concat (map encode_rune rs)"

text \<open>The runes of an ASCII text, and of any string.\<close>

definition ascii :: "string \<Rightarrow> rune list" where
  "ascii s = map of_char s"

definition decode :: "string \<Rightarrow> rune list" where
  "decode s = runes (map of_char s)"

text \<open>\<^verbatim>\<open>unicode.IsSpace\<close> and the comma.\<close>

definition isWhitespace :: "rune \<Rightarrow> bool" where
  "isWhitespace c \<longleftrightarrow>
     c = COMMA \<or> 0x09 \<le> c \<and> c \<le> 0x0D \<or> c = 0x20 \<or> c = 0x85 \<or> c = 0xA0 \<or> c = 0x1680 \<or>
     0x2000 \<le> c \<and> c \<le> 0x200A \<or> c = 0x2028 \<or> c = 0x2029 \<or> c = 0x202F \<or> c = 0x205F \<or> c = 0x3000"

definition isMacro :: "rune \<Rightarrow> bool" where
  "isMacro c \<longleftrightarrow>
     c \<in> {DQUOTE, SEMI, QUOTE, AT, CARET, BQUOTE, TILDE, LPAREN, RPAREN, LBRACK, RBRACK, LBRACE, RBRACE, BSLASH, PERCENT, HASH}"

definition isTerminatingMacro :: "rune \<Rightarrow> bool" where
  "isTerminatingMacro c \<longleftrightarrow> isMacro c \<and> c \<noteq> HASH \<and> c \<noteq> QUOTE \<and> c \<noteq> PERCENT"

definition isDigit :: "rune \<Rightarrow> bool" where
  "isDigit c \<longleftrightarrow> 0x30 \<le> c \<and> c \<le> 0x39"

subsection \<open>The scanner\<close>

record Position =
  File :: string
  Line :: nat
  Col :: nat

text \<open>\<open>lastRune\<close> is what \<^verbatim>\<open>UnreadRune\<close> of the underlying reader would push back.\<close>

record scanner =
  input :: "rune list"
  lastRune :: "rune option"
  nextPos :: Position
  history :: "Position \<times> Position"

definition advance :: "Position \<Rightarrow> rune \<Rightarrow> Position" where
  "advance p c = (if c = NL then p\<lparr>Line := Line p + 1, Col := 1\<rparr> else p\<lparr>Col := Col p + 1\<rparr>)"

definition Read :: "'a scanner_scheme \<Rightarrow> rune option \<times> 'a scanner_scheme" where
  "Read s =
     (case input s of
        [] \<Rightarrow> (None, s\<lparr>lastRune := None\<rparr>)
      | c # cs \<Rightarrow>
          (Some c, s\<lparr>input := cs, lastRune := Some c, history := (nextPos s, fst (history s)),
                     nextPos := advance (nextPos s) c\<rparr>))"

text \<open>\<open>None\<close> is the panic of a second \<^verbatim>\<open>Unread\<close> in a row.\<close>

definition Unread :: "'a scanner_scheme \<Rightarrow> 'a scanner_scheme option" where
  "Unread s =
     (case lastRune s of
        None \<Rightarrow> None
      | Some c \<Rightarrow> Some (s\<lparr>input := c # input s, lastRune := None, nextPos := fst (history s),
                            history := (snd (history s), snd (history s))\<rparr>))"

subsection \<open>Errors\<close>

text \<open>
  \<open>Incomplete\<close> is an error that wraps \<^verbatim>\<open>ErrIncomplete\<close>.  The panics are those of
  \<^verbatim>\<open>scanner.Unread\<close>, of \<^verbatim>\<open>big.Int.SetString\<close> (a base it does not know), of \<^verbatim>\<open>lang.NewSymbol\<close>,
  of a failed type assertion on a nil map, and of a function the user supplied.
\<close>

datatype rmsg = Incomplete string "marg list" | Msg string "marg list"

datatype rpanic = PUnread | PBase int | PSymbol string | PNilMap | PUser val

datatype rerr = ErrEOF | Error Position "Position option" rmsg | Panic rpanic | NoFuel

subsection \<open>The reader\<close>

text \<open>
  \<^verbatim>\<open>nestKinds\<close>, \<^verbatim>\<open>nestHeads\<close>, \<^verbatim>\<open>nestCounts\<close> and \<^verbatim>\<open>nestPending\<close> are parallel stacks in Go and one
  stack of frames here, innermost first; a pending entry is a \<^verbatim>\<open>pendingStarved\<close>.
\<close>

record frame =
  fkind :: string
  fhead :: val
  fcount :: nat
  fpending :: "(Position \<times> nat \<times> string) list"

record reader = scanner +
  nextID :: nat
  gensymEnv :: "(string \<times> val) list option"
  fnArgs :: "(int \<times> val) list option"
  sqDepth :: nat
  tagSuppress :: nat
  tagPreserve :: nat
  nestDepth :: nat
  nest :: "frame list"
  discardDepth :: nat
  regexes :: nat

type_synonym 'a rd = "reader \<Rightarrow> (rerr + 'a) \<times> reader"

definition ret :: "'a \<Rightarrow> 'a rd" where
  "ret x s = (Inr x, s)"

definition throw :: "rerr \<Rightarrow> 'a rd" where
  "throw e s = (Inl e, s)"

definition rbind :: "'a rd \<Rightarrow> ('a \<Rightarrow> 'b rd) \<Rightarrow> 'b rd" where
  "rbind m f s = (case m s of (Inl e, s') \<Rightarrow> (Inl e, s') | (Inr x, s') \<Rightarrow> f x s')"

definition update :: "(reader \<Rightarrow> reader) \<Rightarrow> unit rd" where
  "update g s = (Inr (), g s)"

text \<open>\<^verbatim>\<open>r.s.Read\<close>, \<^verbatim>\<open>r.s.Unread\<close>, \<^verbatim>\<open>r.s.Pos\<close>.\<close>

definition readRune :: "rune option rd" where
  "readRune s = (let (c, s') = Read s in (Inr c, s'))"

definition unreadRune :: "unit rd" where
  "unreadRune s = (case Unread s of None \<Rightarrow> (Inl (Panic PUnread), s) | Some s' \<Rightarrow> (Inr (), s'))"

definition getPos :: "Position rd" where
  "getPos s = (Inr (nextPos s), s)"

definition errAt :: "Position \<Rightarrow> string \<Rightarrow> marg list \<Rightarrow> 'a rd" where
  "errAt p fmt args = throw (Error p None (Msg fmt args))"

text \<open>The error of an input that ends inside a form: where it ends and where the form began.\<close>

definition incomplete :: "Position \<Rightarrow> string \<Rightarrow> marg list \<Rightarrow> 'a rd" where
  "incomplete start what args s = (Inl (Error (nextPos s) (Some start) (Incomplete what args)), s)"

lemmas rd_defs = ret_def throw_def update_def readRune_def unreadRune_def getPos_def errAt_def incomplete_def

lemma Read_shorter [simp]: "Read s = (Some c, s') \<Longrightarrow> length (input s') < length (input s)"
  by (auto simp: Read_def split: list.splits)

lemma rbind_cong [fundef_cong]:
  assumes "m s = m' s" and "\<And>x s'. m' s = (Inr x, s') \<Longrightarrow> f x s' = f' x s'" and "s = t"
  shows "rbind m f s = rbind m' f' t"
  using assms by (auto simp: rbind_def split: prod.splits sum.splits)

text \<open>What is left to read, with the rune that can be pushed back: it never grows.\<close>

definition left :: "'a scanner_scheme \<Rightarrow> nat" where
  "left s = length (input s) + of_bool (lastRune s \<noteq> None)"

definition calm :: "'a rd \<Rightarrow> bool" where
  "calm m \<longleftrightarrow> (\<forall>s. left (snd (m s)) \<le> left s)"

named_theorems calm_intro \<open>operations after which no more is left to read\<close>

lemma left_Read: "Read s = (c, s') \<Longrightarrow> left s' \<le> left s"
  by (auto simp: Read_def left_def split: list.splits)

lemma left_Read_Some: "Read s = (Some c, s') \<Longrightarrow> left s' = length (input s)"
  by (auto simp: Read_def left_def split: list.splits)

lemma left_input: "length (input s) \<le> left s"
  by (simp add: left_def)

lemma calm_left: "calm m \<Longrightarrow> m s = (r, s') \<Longrightarrow> left s' \<le> left s"
  by (metis calm_def snd_conv)

lemma calm_prims [calm_intro]:
  "calm (ret x)" "calm (throw e)" "calm readRune" "calm unreadRune" "calm getPos" "calm (errAt p fmt args)" "calm (incomplete p what args)"
  by (auto simp: calm_def rd_defs Unread_def left_def split: option.splits prod.splits dest!: left_Read)

lemma calm_rbind [calm_intro]:
  assumes "calm m" and "\<And>x. calm (f x)"
  shows "calm (rbind m f)"
  unfolding calm_def
proof
  fix s
  obtain r s' where m: "m s = (r, s')" by fastforce
  show "left (snd (rbind m f s)) \<le> left s"
  proof (cases r)
    case (Inl e)
    with m calm_left [OF assms(1) m] show ?thesis by (simp add: rbind_def)
  next
    case (Inr x)
    obtain q s'' where f: "f x s' = (q, s'')" by fastforce
    from Inr m f calm_left [OF assms(1) m] calm_left [OF assms(2) f] show ?thesis by (simp add: rbind_def)
  qed
qed

lemma calm_cases [calm_intro]:
  "calm a \<Longrightarrow> calm b \<Longrightarrow> calm (if p then a else b)"
  "(z = None \<Longrightarrow> calm a) \<Longrightarrow> (\<And>x. z = Some x \<Longrightarrow> calm (g x)) \<Longrightarrow> calm (case z of None \<Rightarrow> a | Some x \<Rightarrow> g x)"
  by (auto split: option.splits)

subsection \<open>Moving over runes\<close>

function skipWhitespace :: "unit rd" where
  "skipWhitespace s =
     (case Read s of
        (None, s1) \<Rightarrow> (Inr (), s1)
      | (Some c, s1) \<Rightarrow> if isWhitespace c then skipWhitespace s1 else unreadRune s1)"
  by auto
termination
  by (relation "measure (\<lambda>s. length (input s))") (auto dest: Read_shorter [OF sym])

function skipLine :: "unit rd" where
  "skipLine s =
     (case Read s of
        (None, s1) \<Rightarrow> (Inr (), s1)
      | (Some c, s1) \<Rightarrow> if c = NL \<or> c = CR then (Inr (), s1) else skipLine s1)"
  by auto
termination
  by (relation "measure (\<lambda>s. length (input s))") (auto dest: Read_shorter [OF sym])

definition peekIsDigit :: "bool rd" where
  "peekIsDigit =
     rbind readRune (\<lambda>c. case c of
       None \<Rightarrow> ret False
     | Some d \<Rightarrow> rbind unreadRune (\<lambda>_. ret (isDigit d)))"

text \<open>The rest of a token: what \<open>stop\<close> does not hold of.\<close>

function takeToken :: "(rune \<Rightarrow> bool) \<Rightarrow> rune list rd" where
  "takeToken stop s =
     (case Read s of
        (None, s1) \<Rightarrow> (Inr [], s1)
      | (Some c, s1) \<Rightarrow>
          if isWhitespace c \<or> stop c then rbind unreadRune (\<lambda>_. ret []) s1
          else rbind (takeToken stop) (\<lambda>cs. ret (c # cs)) s1)"
  by pat_completeness auto
termination
  by (relation "measure (\<lambda>(stop, s). length (input s))") (auto dest: Read_shorter [OF sym])

definition readToken :: "rune \<Rightarrow> rune list rd" where
  "readToken first = rbind (takeToken isTerminatingMacro) (\<lambda>cs. ret (first # cs))"

lemma calm_skip [calm_intro]: "calm skipWhitespace" "calm skipLine" "calm (takeToken stop)"
proof -
  have "left (snd (skipWhitespace s)) \<le> left s" for s
  proof (induction s rule: skipWhitespace.induct)
    case (1 s)
    obtain c s1 where rd: "Read s = (c, s1)" by fastforce
    then have le: "left s1 \<le> left s" by (rule left_Read)
    have "left (snd (unreadRune s1)) \<le> left s1" using calm_prims(4) by (simp add: calm_def)
    with 1 rd le show ?case by (subst skipWhitespace.simps) (auto split: option.split)
  qed
  then show "calm skipWhitespace" by (simp add: calm_def)
  have "left (snd (skipLine s)) \<le> left s" for s
  proof (induction s rule: skipLine.induct)
    case (1 s)
    obtain c s1 where rd: "Read s = (c, s1)" by fastforce
    then have le: "left s1 \<le> left s" by (rule left_Read)
    with 1 rd show ?case by (subst skipLine.simps) (auto split: option.split)
  qed
  then show "calm skipLine" by (simp add: calm_def)
  have "left (snd (takeToken stop s)) \<le> left s" for s
  proof (induction stop s rule: takeToken.induct)
    case (1 stop s)
    obtain c s1 where rd: "Read s = (c, s1)" by fastforce
    then have le: "left s1 \<le> left s" by (rule left_Read)
    show ?case
    proof (cases c)
      case None
      with rd le show ?thesis by (subst takeToken.simps) simp
    next
      case (Some d)
      show ?thesis
      proof (cases "isWhitespace d \<or> stop d")
        case True
        have "calm (rbind unreadRune (\<lambda>_. ret ([]::rune list)))" by (intro calm_intro)
        then have "left (snd (rbind unreadRune (\<lambda>_. ret ([]::rune list)) s1)) \<le> left s1" by (simp add: calm_def)
        with True rd Some le show ?thesis by (subst takeToken.simps) simp
      next
        case False
        with 1 rd Some have "left (snd (takeToken stop s1)) \<le> left s1" by auto
        with False rd Some le show ?thesis
          by (subst takeToken.simps) (auto simp: rbind_def ret_def split: prod.splits sum.splits)
      qed
    qed
  qed
  then show "calm (takeToken stop)" by (simp add: calm_def)
qed

declare skipWhitespace.simps [simp del] skipLine.simps [simp del] takeToken.simps [simp del]

end
