(* ===== verification/ReaderNumber.thy ===== *)
theory ReaderNumber
  imports Scanner
begin

text \<open>
  Number tokens: \<^verbatim>\<open>pkg/reader/number.go\<close> and \<^verbatim>\<open>NewBigDecimal\<close> of \<^verbatim>\<open>pkg/lang/bigdecimal.go\<close>.  The
  three regular expressions are functions that return the groups of the leftmost-first match;
  \<^verbatim>\<open>big.Int.SetString\<close> and \<^verbatim>\<open>strconv.ParseFloat\<close> are modelled as the Go library documents them.
\<close>

subsection \<open>Digits in a base\<close>

definition code :: "char \<Rightarrow> int" where
  "code c = int (of_char c)"

text \<open>The value of a digit for \<^verbatim>\<open>big.Int.SetString\<close>: above base 36 the upper case letters follow the lower case.\<close>

definition digit_in_base :: "int \<Rightarrow> char \<Rightarrow> int option" where
  "digit_in_base base c =
     (let d = (if code CHR ''0'' \<le> code c \<and> code c \<le> code CHR ''9'' then code c - code CHR ''0''
               else if code CHR ''a'' \<le> code c \<and> code c \<le> code CHR ''z'' then code c - code CHR ''a'' + 10
               else if code CHR ''A'' \<le> code c \<and> code c \<le> code CHR ''Z''
                 then code c - code CHR ''A'' + (if base \<le> 36 then 10 else 36)
               else 63)
      in if d < base then Some d else None)"

fun digits_value :: "int \<Rightarrow> int \<Rightarrow> string \<Rightarrow> int option" where
  "digits_value base acc [] = Some acc"
| "digits_value base acc (c # cs) =
     (case digit_in_base base c of None \<Rightarrow> None | Some d \<Rightarrow> digits_value base (acc * base + d) cs)"

text \<open>A base outside 2 to 62 panics.\<close>

definition SetString :: "string \<Rightarrow> int \<Rightarrow> rpanic + int option" where
  "SetString ds base =
     (if base < 2 \<or> 62 < base then Inl (PBase base)
      else Inr (if ds = [] then None else digits_value base 0 ds))"

definition is_alnum :: "char \<Rightarrow> bool" where
  "is_alnum c \<longleftrightarrow> digit_in_base 36 c \<noteq> None"

definition is_hex :: "char \<Rightarrow> bool" where
  "is_hex c \<longleftrightarrow> digit_in_base 16 c \<noteq> None"

definition is_octal :: "char \<Rightarrow> bool" where
  "is_octal c \<longleftrightarrow> digit_in_base 8 c \<noteq> None"

definition some_of :: "(char \<Rightarrow> bool) \<Rightarrow> string \<Rightarrow> bool" where
  "some_of p s \<longleftrightarrow> s \<noteq> [] \<and> list_all p s"

subsection \<open>The patterns\<close>

definition strip_sign :: "string \<Rightarrow> bool \<times> string" where
  "strip_sign s =
     (case s of
        c # cs \<Rightarrow> if c = CHR ''-'' then (True, cs) else if c = CHR ''+'' then (False, cs) else (False, s)
      | [] \<Rightarrow> (False, []))"

definition strip_last :: "char \<Rightarrow> string \<Rightarrow> string \<times> bool" where
  "strip_last c s = (if s \<noteq> [] \<and> last s = c then (butlast s, True) else (s, False))"

definition is_radix :: "char \<Rightarrow> bool" where
  "is_radix c \<longleftrightarrow> c = CHR ''r'' \<or> c = CHR ''R''"

definition radix_form :: "string \<Rightarrow> (int \<times> string) option" where
  "radix_form s =
     (case s of
        a # b # cs \<Rightarrow>
          if is_digit a \<and> a \<noteq> CHR ''0'' \<and> is_radix b \<and> some_of is_alnum cs then Some (int (digit_val a), cs)
          else (case cs of
                  r # ds \<Rightarrow>
                    if is_digit a \<and> a \<noteq> CHR ''0'' \<and> is_digit b \<and> is_radix r \<and> some_of is_alnum ds
                    then Some (int (10 * digit_val a + digit_val b), ds) else None
                | [] \<Rightarrow> None)
      | _ \<Rightarrow> None)"

datatype int_groups = GZero | GDigits string int | GBad

text \<open>\<^verbatim>\<open>intPat\<close>: sign, what matched and the suffix \<^verbatim>\<open>N\<close>, which the digits of a radix form take for themselves.\<close>

definition intPat :: "string \<Rightarrow> (bool \<times> int_groups \<times> bool) option" where
  "intPat s =
     (let (neg, b) = strip_sign s; (c, big) = strip_last CHR ''N'' b in
      if c = ''0'' then Some (neg, GZero, big)
      else if some_of is_digit c \<and> hd c \<noteq> CHR ''0'' then Some (neg, GDigits c 10, big)
      else if (take 2 c = ''0x'' \<or> take 2 c = ''0X'') \<and> some_of is_hex (drop 2 c) then Some (neg, GDigits (drop 2 c) 16, big)
      else if take 1 c = ''0'' \<and> some_of is_octal (drop 1 c) then Some (neg, GDigits (drop 1 c) 8, big)
      else case radix_form b of
             Some (r, ds) \<Rightarrow> Some (neg, GDigits ds r, False)
           | None \<Rightarrow> if take 1 c = ''0'' \<and> some_of is_digit (drop 1 c) then Some (neg, GBad, big) else None)"

text \<open>\<^verbatim>\<open>floatPat\<close>: sign, integer digits, fraction digits, exponent, suffix \<^verbatim>\<open>M\<close>.\<close>

definition exponent_part :: "string \<Rightarrow> int option" where
  "exponent_part s =
     (case s of
        [] \<Rightarrow> Some 0
      | e # es \<Rightarrow>
          (let (neg, ds) = strip_sign es in
           if (e = CHR ''e'' \<or> e = CHR ''E'') \<and> some_of is_digit ds
           then Some (if neg then - int (read_nat ds) else int (read_nat ds)) else None))"

definition floatPat :: "string \<Rightarrow> (bool \<times> string \<times> string \<times> int \<times> bool) option" where
  "floatPat s =
     (let (t, big) = strip_last CHR ''M'' s; (neg, b) = strip_sign t;
          ip = takeWhile is_digit b; r = dropWhile is_digit b;
          (fp, x) = (case r of
                       c # cs \<Rightarrow> if c = CHR ''.'' then (takeWhile is_digit cs, dropWhile is_digit cs) else ([], r)
                     | [] \<Rightarrow> ([], []))
      in if ip = [] then None
         else map_option (\<lambda>e. (neg, ip, fp, e, big)) (exponent_part x))"

definition ratioPat :: "string \<Rightarrow> (bool \<times> string \<times> string) option" where
  "ratioPat s =
     (let (neg, b) = strip_sign s; n = takeWhile is_digit b; r = dropWhile is_digit b in
      if n \<noteq> [] \<and> take 1 r = ''/'' \<and> some_of is_digit (drop 1 r) then Some (neg, n, drop 1 r) else None)"

subsection \<open>Floats and decimals\<close>

fun bit_length :: "nat \<Rightarrow> nat" where
  "bit_length n = (if n = 0 then 0 else Suc (bit_length (n div 2)))"

declare bit_length.simps [simp del]

text \<open>The positive fraction \<open>n/d\<close> as \<open>a/b\<close> times \<open>2 ^ e\<close>.\<close>

definition scale_by :: "nat \<Rightarrow> nat \<Rightarrow> int \<Rightarrow> nat \<times> nat" where
  "scale_by n d e = (if 0 \<le> e then (n, d * 2 ^ nat e) else (n * 2 ^ nat (- e), d))"

definition round_half_even :: "nat \<Rightarrow> nat \<Rightarrow> nat" where
  "round_half_even a b =
     (let q = a div b; r = a mod b in if 2 * r < b \<or> 2 * r = b \<and> even q then q else q + 1)"

text \<open>\<^verbatim>\<open>strconv.ParseFloat\<close>: the nearest \<^verbatim>\<open>float64\<close>, ties to even; the caller takes the infinity that
  comes with a range error.\<close>

definition nearest_f64 :: "bool \<Rightarrow> nat \<Rightarrow> nat \<Rightarrow> f64" where
  "nearest_f64 neg n d =
     (let e0 = int (bit_length n) - int (bit_length d) - 53;
          (a0, b0) = scale_by n d e0;
          e1 = max (if 2 ^ 53 * b0 \<le> a0 then e0 + 1 else e0) (- 1074);
          (a, b) = scale_by n d e1;
          m = round_half_even a b;
          (m', e) = (if m = 2 ^ 53 then (2 ^ 52, e1 + 1) else (m, e1))
      in if n = 0 then F64 neg 0 (- 1074) else if 971 < e then FInf neg else F64 neg m' e)"

definition ParseFloat :: "bool \<Rightarrow> string \<Rightarrow> string \<Rightarrow> int \<Rightarrow> f64" where
  "ParseFloat neg ip fp x =
     (let n = read_nat (ip @ fp); k = x - int (length fp) in
      nearest_f64 neg (n * 10 ^ nat k) (10 ^ nat (- k)))"

text \<open>\<^verbatim>\<open>strconv.ParseInt(s, 10, 32)\<close>.\<close>

definition ParseInt32 :: "string \<Rightarrow> int option" where
  "ParseInt32 s =
     (let (neg, ds) = strip_sign s; n = (if neg then - int (read_nat ds) else int (read_nat ds)) in
      if some_of is_digit ds \<and> - (2 ^ 31) \<le> n \<and> n < 2 ^ 31 then Some n else None)"

definition NewBigDecimal :: "string \<Rightarrow> (int \<times> int) option" where
  "NewBigDecimal s0 =
     (if s0 = [] then None
      else
        let (neg, s) = strip_sign s0;
            mant = takeWhile (\<lambda>c. c \<noteq> CHR ''e'' \<and> c \<noteq> CHR ''E'') s;
            ex = dropWhile (\<lambda>c. c \<noteq> CHR ''e'' \<and> c \<noteq> CHR ''E'') s;
            intPart = takeWhile (\<lambda>c. c \<noteq> CHR ''.'') mant;
            fracPart = drop 1 (dropWhile (\<lambda>c. c \<noteq> CHR ''.'') mant);
            ds = intPart @ fracPart
        in case (if ex = [] then Some 0 else ParseInt32 (tl ex)) of
             None \<Rightarrow> None
           | Some e \<Rightarrow>
               if ds = [] \<or> \<not> list_all is_digit ds then None
               else
                 let u = int (read_nat ds); scale = int (length fracPart) - e in
                 if scale < - (2 ^ 31) \<or> 2 ^ 31 \<le> scale then None
                 else Some (if neg then - u else u, scale))"

subsection \<open>matchNumber\<close>

text \<open>No number, a broken number, a panic, or the number.\<close>

datatype matched = NoMatch | Broken string | Panics rpanic | Number val

text \<open>\<^verbatim>\<open>lang.NewBigIntFromGoBigInt\<close>: of an integer that fits an \<^verbatim>\<open>int64\<close> too.\<close>

definition big_int :: "int \<Rightarrow> val" where
  "big_int n = (if fits_int64 n then VLit (LBigInt n) else VInt n)"

definition new_ratio :: "int \<Rightarrow> int \<Rightarrow> val" where
  "new_ratio n d =
     (let g = gcd n d; p = n div g; q = d div g in if q = 1 then VInt p else VLit (LRatio p q))"

definition match_int :: "bool \<times> int_groups \<times> bool \<Rightarrow> matched" where
  "match_int m =
     (case m of
        (neg, GZero, big) \<Rightarrow> Number (if big then big_int 0 else VInt 0)
      | (neg, GBad, big) \<Rightarrow> NoMatch
      | (neg, GDigits ds radix, big) \<Rightarrow>
          (case SetString ds radix of
             Inl p \<Rightarrow> Panics p
           | Inr None \<Rightarrow> Broken ''radix digits out of range''
           | Inr (Some u) \<Rightarrow>
               let n = (if neg then - u else u) in Number (if big then big_int n else VInt n)))"

definition match_float :: "string \<Rightarrow> bool \<times> string \<times> string \<times> int \<times> bool \<Rightarrow> matched" where
  "match_float s m =
     (case m of
        (neg, ip, fp, x, big) \<Rightarrow>
          if big then
            (case NewBigDecimal (butlast s) of None \<Rightarrow> NoMatch | Some (u, scale) \<Rightarrow> Number (VLit (LDecimal u scale)))
          else Number (VLit (LFloat (ParseFloat neg ip fp x))))"

definition match_ratio :: "bool \<times> string \<times> string \<Rightarrow> matched" where
  "match_ratio m =
     (case m of
        (neg, ns, ds) \<Rightarrow>
          let n = int (read_nat ns); d = int (read_nat ds) in
          if d = 0 then Broken ''Divide by zero''
          else Number (new_ratio (if neg then - n else n) d))"

definition matchNumber :: "string \<Rightarrow> matched" where
  "matchNumber s =
     (case intPat s of
        Some m \<Rightarrow> match_int m
      | None \<Rightarrow>
          (case floatPat s of
             Some m \<Rightarrow> match_float s m
           | None \<Rightarrow> (case ratioPat s of Some m \<Rightarrow> match_ratio m | None \<Rightarrow> NoMatch)))"

definition readNumber :: "Position \<Rightarrow> string \<Rightarrow> val rd" where
  "readNumber start prefix =
     rbind (takeToken isMacro) (\<lambda>cs.
       let tok = prefix @ encode cs in
       case matchNumber tok of
         Panics p \<Rightarrow> throw (Panic p)
       | Broken m \<Rightarrow> errAt start ''Invalid number: %s (%v)'' [MStr tok, MStr m]
       | NoMatch \<Rightarrow> errAt start ''Invalid number: %s'' [MStr tok]
       | Number n \<Rightarrow> ret n)"

end
