(* ===== verification/ReaderText.thy ===== *)
theory ReaderText
  imports ReaderNumber
begin

text \<open>
  String and character literals (\<^verbatim>\<open>pkg/reader/string.go\<close>) and regex literals (\<^verbatim>\<open>dispatch.go\<close>).  A
  regex is a pointer in Go; its identity is drawn from a counter of the state.
\<close>

subsection \<open>Escapes\<close>

definition digitVal :: "rune \<Rightarrow> nat \<Rightarrow> nat option" where
  "digitVal c base =
     (let d = (if 0x30 \<le> c \<and> c \<le> 0x39 then c - 0x30
               else if 0x61 \<le> c \<and> c \<le> 0x7A then c - 0x61 + 10
               else if 0x41 \<le> c \<and> c \<le> 0x5A then c - 0x41 + 10
               else base)
      in if d < base then Some d else None)"

text \<open>The loop of \<^verbatim>\<open>readUnicodeChar\<close>: how many digits there were, and their value.\<close>

fun unicodeLoop :: "Position \<Rightarrow> nat \<Rightarrow> nat \<Rightarrow> nat \<Rightarrow> nat \<Rightarrow> (nat \<times> nat) rd" where
  "unicodeLoop pos base 0 i uc = ret (i, uc)"
| "unicodeLoop pos base (Suc n) i uc =
     rbind readRune (\<lambda>c. case c of
       None \<Rightarrow> ret (i, uc)
     | Some d \<Rightarrow>
         if isWhitespace d \<or> isMacro d then rbind unreadRune (\<lambda>_. ret (i, uc))
         else (case digitVal d base of
                 None \<Rightarrow> errAt pos ''Invalid digit: %c'' [MInt (int d)]
               | Some k \<Rightarrow> unicodeLoop pos base n (i + 1) (uc * base + k)))"

definition readUnicodeChar :: "Position \<Rightarrow> rune \<Rightarrow> nat \<Rightarrow> nat \<Rightarrow> bool \<Rightarrow> rune rd" where
  "readUnicodeChar pos initch base len exact =
     (case digitVal initch base of
        None \<Rightarrow> errAt pos ''Invalid digit: %c'' [MInt (int initch)]
      | Some k \<Rightarrow>
          rbind (unicodeLoop pos base (len - 1) 1 k) (\<lambda>(i, uc).
            if i \<noteq> len \<and> exact then errAt pos ''Invalid character length: %d, should be: %d'' [MInt (int i), MInt (int len)]
            else ret uc))"

text \<open>What follows a backslash in a string: the runes it stands for.\<close>

definition simple_escape :: "rune \<Rightarrow> rune option" where
  "simple_escape c =
     (if c = 0x74 then Some 0x09
      else if c = 0x72 then Some 0x0D
      else if c = 0x6E then Some 0x0A
      else if c = BSLASH then Some BSLASH
      else if c = DQUOTE then Some DQUOTE
      else if c = 0x62 then Some 0x08
      else if c = 0x66 then Some 0x0C
      else None)"

definition readEscape :: "Position \<Rightarrow> Position \<Rightarrow> rune rd" where
  "readEscape start escPos =
     rbind readRune (\<lambda>c. case c of
       None \<Rightarrow> incomplete start ''string'' []
     | Some c \<Rightarrow>
         (case simple_escape c of
            Some e \<Rightarrow> ret e
          | None \<Rightarrow>
              if c = 0x75 then
                rbind readRune (\<lambda>d. case d of
                  None \<Rightarrow> incomplete start ''string'' []
                | Some d \<Rightarrow>
                    if digitVal d 16 = None then errAt escPos (''Invalid unicode escape: '' @ CHR 0x5C # ''u%c'') [MInt (int d)]
                    else readUnicodeChar escPos d 16 4 True)
              else if isDigit c then
                rbind (readUnicodeChar escPos c 8 3 False) (\<lambda>ch.
                  if 0xFF < ch then errAt escPos ''Octal escape sequence must be in range [0, 377]'' [] else ret ch)
              else errAt escPos (''Unsupported escape character: '' @ CHR 0x5C # ''%c'') [MInt (int c)]))"

lemma calm_unicodeLoop [calm_intro]: "calm (unicodeLoop pos base n i uc)"
  by (induction n arbitrary: i uc) (auto intro!: calm_intro)

lemma calm_readUnicodeChar [calm_intro]: "calm (readUnicodeChar pos c base len exact)"
  by (auto simp: readUnicodeChar_def intro!: calm_intro split: prod.splits)

text \<open>An escape reads on, so less is left after it.\<close>

lemma left_rbind_read:
  assumes "rbind readRune f s = (Inr x, s')" and "lastRune s \<noteq> None" and "\<And>c. calm (f c)"
  shows "left s' < left s"
proof -
  obtain c s1 where rd: "Read s = (c, s1)" by fastforce
  with assms(1) have "f c s1 = (Inr x, s')" by (simp add: rbind_def readRune_def)
  with assms(3) have "left s' \<le> left s1" by (auto dest: calm_left)
  moreover have "left s1 < left s"
    using rd assms(2) by (auto simp: Read_def left_def split: list.splits)
  ultimately show ?thesis by simp
qed

lemma readEscape_left:
  assumes "readEscape start escPos s = (Inr w, s')" and "lastRune s \<noteq> None"
  shows "left s' < left s"
  by (rule left_rbind_read [OF assms(1) [unfolded readEscape_def] assms(2)]) (auto intro!: calm_intro)

lemma Read_last: "Read s = (Some c, s') \<Longrightarrow> lastRune s' = Some c"
  by (auto simp: Read_def split: list.splits)

lemma escape_shorter:
  assumes "Read s = (Some c, s1)" and "readEscape start escPos s1 = (Inr w, s2)"
  shows "length (input s2) < length (input s)"
proof -
  have "left s2 < left s1"
    using assms by (intro readEscape_left) (auto simp: Read_last)
  with left_Read_Some [OF assms(1)] left_input [of s2] show ?thesis by simp
qed

subsection \<open>Strings\<close>

function stringLoop :: "Position \<Rightarrow> string \<Rightarrow> val rd" where
  "stringLoop start b s =
     (case Read s of
        (None, s1) \<Rightarrow> incomplete start ''string'' [] s1
      | (Some c, s1) \<Rightarrow>
          if c = DQUOTE then (Inr (VStr b), s1)
          else if c \<noteq> BSLASH then stringLoop start (b @ encode_rune c) s1
          else (case readEscape start (nextPos s1) s1 of
                  (Inl e, s2) \<Rightarrow> (Inl e, s2)
                | (Inr w, s2) \<Rightarrow> stringLoop start (b @ encode_rune w) s2))"
  by pat_completeness auto
termination
  by (relation "measure (\<lambda>(start, b, s). length (input s))")
    (use escape_shorter in \<open>fastforce dest!: sym [of "(_, _)"]\<close>)+

definition readString :: "Position \<Rightarrow> val rd" where
  "readString start = stringLoop start []"

subsection \<open>Characters\<close>

fun charDigits :: "nat \<Rightarrow> nat \<Rightarrow> rune list \<Rightarrow> rune + nat" where
  "charDigits base uc [] = Inr uc"
| "charDigits base uc (c # cs) =
     (case digitVal c base of None \<Rightarrow> Inl c | Some d \<Rightarrow> charDigits base (uc * base + d) cs)"

definition named_char :: "rune list \<Rightarrow> rune option" where
  "named_char tok =
     (if tok = ascii ''newline'' then Some 0x0A
      else if tok = ascii ''space'' then Some 0x20
      else if tok = ascii ''tab'' then Some 0x09
      else if tok = ascii ''backspace'' then Some 0x08
      else if tok = ascii ''formfeed'' then Some 0x0C
      else if tok = ascii ''return'' then Some 0x0D
      else None)"

definition readChar :: "Position \<Rightarrow> val rd" where
  "readChar start =
     rbind readRune (\<lambda>c. case c of
       None \<Rightarrow> incomplete start ''character'' []
     | Some c \<Rightarrow>
         rbind (readToken c) (\<lambda>tok.
           if length tok = 1 then ret (VLit (LChar (hd tok)))
           else case named_char tok of
             Some r \<Rightarrow> ret (VLit (LChar r))
           | None \<Rightarrow>
               if hd tok = 0x75 then
                 (if length (tl tok) \<noteq> 4 then errAt start (''Invalid unicode character: '' @ CHR 0x5C # ''%s'') [MStr (encode tok)]
                  else case charDigits 16 0 (tl tok) of
                    Inl d \<Rightarrow> errAt start ''Invalid digit: %c'' [MInt (int d)]
                  | Inr uc \<Rightarrow>
                      if 0xD800 \<le> uc \<and> uc \<le> 0xDFFF
                      then errAt start (''Invalid character constant: '' @ CHR 0x5C # ''u%x'') [MInt (int uc)]
                      else ret (VLit (LChar uc)))
               else if hd tok = 0x6F then
                 (if 3 < length (encode (tl tok))
                  then errAt start ''Invalid octal escape sequence length: %d'' [MInt (int (length (encode (tl tok))))]
                  else case charDigits 8 0 (tl tok) of
                    Inl d \<Rightarrow> errAt start ''Invalid digit: %c'' [MInt (int d)]
                  | Inr uc \<Rightarrow>
                      if 0xFF < uc then errAt start ''Octal escape sequence must be in range [0, 377]'' []
                      else ret (VLit (LChar uc)))
               else errAt start (''Unsupported character: '' @ CHR 0x5C # ''%s'') [MStr (encode tok)]))"

subsection \<open>Regexes\<close>

function regexLoop :: "Position \<Rightarrow> string \<Rightarrow> val rd" where
  "regexLoop start b s =
     (case Read s of
        (None, s1) \<Rightarrow> incomplete start ''regex'' [] s1
      | (Some c, s1) \<Rightarrow>
          if c = DQUOTE then (Inr (VLit (LRegex (regexes s1) b)), s1\<lparr>regexes := regexes s1 + 1\<rparr>)
          else if c = BSLASH then
            (case Read s1 of
               (None, s2) \<Rightarrow> incomplete start ''regex'' [] s2
             | (Some d, s2) \<Rightarrow> regexLoop start (b @ encode_rune c @ encode_rune d) s2)
          else regexLoop start (b @ encode_rune c) s1)"
  by pat_completeness auto
termination
  by (relation "measure (\<lambda>(start, b, s). length (input s))")
    (auto dest!: sym [of "(_, _)"] dest: Read_shorter intro: less_trans)

definition readRegex :: "Position \<Rightarrow> val rd" where
  "readRegex start = regexLoop start []"

declare stringLoop.simps [simp del] regexLoop.simps [simp del]

end
