(* ===== verification/ReaderTags.thy ===== *)
theory ReaderTags
  imports ReaderText
begin

text \<open>
  The values of the built-in tags, \<^verbatim>\<open>#uuid\<close> and \<^verbatim>\<open>#inst\<close>: \<^verbatim>\<open>pkg/reader/tagged.go\<close>.  The grammar
  of an instant is read group by group; \<^verbatim>\<open>time.Date\<close> counts days in the Gregorian calendar.
\<close>

subsection \<open>UUIDs\<close>

text \<open>\<^verbatim>\<open>uuidRe\<close>: hex digits in groups of 8, 4, 4, 4 and 12.\<close>

definition uuidRe :: "string \<Rightarrow> bool" where
  "uuidRe s \<longleftrightarrow>
     length s = 36 \<and> (\<forall>i<36. if i \<in> {8, 13, 18, 23} then s ! i = CHR ''-'' else is_hex (s ! i))"

definition to_lower :: "char \<Rightarrow> char" where
  "to_lower c = (if code CHR ''A'' \<le> code c \<and> code c \<le> code CHR ''Z'' then char_of (of_char c + 32 :: nat) else c)"

definition NewUUID :: "string \<Rightarrow> string option" where
  "NewUUID s = (if uuidRe s then Some (map to_lower s) else None)"

subsection \<open>Instants\<close>

definition leapYear :: "nat \<Rightarrow> bool" where
  "leapYear y \<longleftrightarrow> y mod 4 = 0 \<and> (y mod 100 \<noteq> 0 \<or> y mod 400 = 0)"

definition daysInMonth :: "nat \<Rightarrow> nat \<Rightarrow> nat" where
  "daysInMonth y m =
     (if m = 2 \<and> leapYear y then 29
      else if m < 1 \<or> 12 < m then 0
      else [31, 28, 31, 30, 31, 30, 31, 31, 30, 31, 30, 31] ! (m - 1))"

definition two_digits :: "string \<Rightarrow> (nat \<times> string) option" where
  "two_digits s =
     (case s of
        a # b # r \<Rightarrow> if is_digit a \<and> is_digit b then Some (10 * digit_val a + digit_val b, r) else None
      | _ \<Rightarrow> None)"

text \<open>A group that begins with one of the characters; the rest of the text when it is absent.\<close>

definition part :: "char \<Rightarrow> string \<Rightarrow> (nat \<times> string) option" where
  "part c s = (case s of d # r \<Rightarrow> if d = c then two_digits r else None | [] \<Rightarrow> None)"

record instant =
  year :: nat
  month :: nat
  day :: nat
  hour :: nat
  minute :: nat
  second :: nat
  frac :: string
  west :: bool
  offsetHours :: nat
  offsetMinutes :: nat

definition no_time :: "nat \<Rightarrow> nat \<Rightarrow> nat \<Rightarrow> instant" where
  "no_time y m d =
     \<lparr>year = y, month = m, day = d, hour = 0, minute = 0, second = 0, frac = [], west = False,
      offsetHours = 0, offsetMinutes = 0\<rparr>"

text \<open>The rest after the time of day: nothing, \<^verbatim>\<open>Z\<close> or an offset.\<close>

definition offset_part :: "instant \<Rightarrow> string \<Rightarrow> instant option" where
  "offset_part t s =
     (if s = [] \<or> s = ''Z'' then Some t
      else case s of
        c # r \<Rightarrow>
          if c = CHR ''+'' \<or> c = CHR ''-'' then
            (case two_digits r of
               Some (h, r1) \<Rightarrow>
                 (case part CHR '':'' r1 of
                    Some (m, []) \<Rightarrow> Some (t\<lparr>west := c = CHR ''-'', offsetHours := h, offsetMinutes := m\<rparr>)
                  | _ \<Rightarrow> None)
             | None \<Rightarrow> None)
          else None
      | [] \<Rightarrow> None)"

definition frac_part :: "instant \<Rightarrow> string \<Rightarrow> instant option" where
  "frac_part t s =
     (case s of
        c # r \<Rightarrow>
          if c = CHR ''.'' then
            (if takeWhile is_digit r = [] then None
             else offset_part (t\<lparr>frac := takeWhile is_digit r\<rparr>) (dropWhile is_digit r))
          else offset_part t s
      | [] \<Rightarrow> Some t)"

definition time_part :: "instant \<Rightarrow> string \<Rightarrow> instant option" where
  "time_part t s =
     (case part CHR ''T'' s of
        None \<Rightarrow> None
      | Some (h, r) \<Rightarrow>
          (case part CHR '':'' r of
             None \<Rightarrow> offset_part (t\<lparr>hour := h\<rparr>) r
           | Some (m, r1) \<Rightarrow>
               (case part CHR '':'' r1 of
                  None \<Rightarrow> offset_part (t\<lparr>hour := h, minute := m\<rparr>) r1
                | Some (sec, r2) \<Rightarrow> frac_part (t\<lparr>hour := h, minute := m, second := sec\<rparr>) r2)))"

definition instRe :: "string \<Rightarrow> instant option" where
  "instRe s =
     (if length s < 4 \<or> \<not> list_all is_digit (take 4 s) then None
      else
        let y = read_nat (take 4 s); r = drop 4 s in
        if r = [] then Some (no_time y 1 1)
        else case part CHR ''-'' r of
          None \<Rightarrow> None
        | Some (m, []) \<Rightarrow> Some (no_time y m 1)
        | Some (m, r1) \<Rightarrow>
            (case part CHR ''-'' r1 of
               None \<Rightarrow> None
             | Some (d, []) \<Rightarrow> Some (no_time y m d)
             | Some (d, r2) \<Rightarrow> time_part (no_time y m d) r2))"

definition nanos :: "string \<Rightarrow> nat" where
  "nanos f = (if f = [] then 0 else read_nat (take 9 (f @ replicate (9 - length f) CHR ''0'')))"

text \<open>Days from 1970-01-01 to a date.\<close>

definition days_before_year :: "nat \<Rightarrow> int" where
  "days_before_year y = int (365 * y + (y + 3) div 4 + (y + 399) div 400) - int ((y + 99) div 100)"

definition epoch_day :: "nat \<Rightarrow> nat \<Rightarrow> nat \<Rightarrow> int" where
  "epoch_day y m d =
     days_before_year y + int (sum_list (map (daysInMonth y) [1..<m])) + int d - 1 - 719528"

definition millis :: "instant \<Rightarrow> int" where
  "millis t =
     (let offsetSeconds = (if west t then - 1 else 1) * int (offsetHours t * 3600 + offsetMinutes t * 60) in
      (epoch_day (year t) (month t) (day t) * 86400 + int (hour t * 3600 + minute t * 60 + second t) - offsetSeconds) * 1000
        + int (nanos (frac t) div 1000000))"

definition NewInst :: "string \<Rightarrow> string + literal" where
  "NewInst s =
     (case instRe s of
        None \<Rightarrow> Inl ''Unrecognized date/time syntax''
      | Some t \<Rightarrow>
          if month t < 1 \<or> 12 < month t then Inl ''Invalid #inst month''
          else if day t < 1 \<or> daysInMonth (year t) (month t) < day t then Inl ''Invalid #inst day''
          else if 23 < hour t then Inl ''Invalid #inst hour''
          else if 59 < minute t then Inl ''Invalid #inst minute''
          else if (if minute t = 59 then 60 else 59) < second t then Inl ''Invalid #inst second''
          else if 23 < offsetHours t then Inl ''Invalid #inst offset-hours''
          else if 59 < offsetMinutes t then Inl ''Invalid #inst offset-minutes''
          else Inr (LInst s (millis t)))"

end
