(* ===== verification/Symbols.thy ===== *)
theory Symbols
  imports ReaderTags Namespaces
begin

text \<open>
  Symbols and keywords as \<^verbatim>\<open>pkg/lang/symbol.go\<close> and \<^verbatim>\<open>keyword.go\<close> build them, the \<^verbatim>\<open>Resolver\<close>
  interface of the reader with the one implementation the program injects
  (\<^verbatim>\<open>nsResolver\<close> of \<^verbatim>\<open>pkg/corelib/resolve.go\<close>), the options of a reader, and the tokens that
  are not numbers (\<^verbatim>\<open>interpretToken\<close> and \<^verbatim>\<open>matchSymbol\<close> of \<^verbatim>\<open>pkg/reader/reader.go\<close>).
\<close>

subsection \<open>Symbols\<close>

text \<open>The two groups of \<^verbatim>\<open>([^0-9/].*/)?(/|[^0-9/][^/]*)\<close>; the first, greedy, is empty when it is absent.\<close>

definition ns_group :: "string \<Rightarrow> bool" where
  "ns_group p \<longleftrightarrow>
     p = [] \<or> 2 \<le> length p \<and> \<not> is_digit (hd p) \<and> hd p \<noteq> CHR ''/'' \<and> last p = CHR ''/'' \<and> CHR 0x0A \<notin> set (butlast (tl p))"

definition name_group :: "string \<Rightarrow> bool" where
  "name_group q \<longleftrightarrow> q = ''/'' \<or> q \<noteq> [] \<and> \<not> is_digit (hd q) \<and> CHR ''/'' \<notin> set q"

definition symbol_groups :: "string \<Rightarrow> (string \<times> string) option" where
  "symbol_groups t =
     find (\<lambda>(p, q). ns_group p \<and> name_group q) (map (\<lambda>i. (take i t, drop i t)) (rev [0..<Suc (length t)]))"

definition symbolPat :: "string \<Rightarrow> (string \<times> string) option" where
  "symbolPat t =
     (case (if take 1 t = '':'' then symbol_groups (drop 1 t) else None) of
        Some m \<Rightarrow> Some m
      | None \<Rightarrow> symbol_groups t)"

fun double_colon :: "string \<Rightarrow> bool" where
  "double_colon (a # b # s) \<longleftrightarrow> a = CHR '':'' \<and> b = CHR '':'' \<or> double_colon (b # s)"
| "double_colon _ = False"

definition isValidSymbol :: "string \<Rightarrow> string \<Rightarrow> bool" where
  "isValidSymbol ns name \<longleftrightarrow>
     (let full = (if ns = [] then name else ns @ ''/'' @ name) in
      symbol_groups full \<noteq> None \<and>
      (full = ''/'' \<or>
       name \<noteq> [] \<and> \<not> (ns = [] \<and> hd full = CHR ''/'') \<and> \<not> has_suffix name CHR '':'' \<and>
       \<not> has_suffix ns CHR '':'' \<and> \<not> double_colon full))"

definition before_slash :: "string \<Rightarrow> string" where
  "before_slash s = takeWhile (\<lambda>c. c \<noteq> CHR ''/'') s"

definition after_slash :: "string \<Rightarrow> string" where
  "after_slash s = drop 1 (dropWhile (\<lambda>c. c \<noteq> CHR ''/'') s)"

text \<open>\<open>None\<close> is the panic over an invalid symbol.\<close>

definition NewSymbol :: "string \<Rightarrow> val option" where
  "NewSymbol s =
     (if CHR ''/'' \<in> set s \<and> s \<noteq> ''/'' \<and> hd s \<noteq> CHR ''/'' then
        (if isValidSymbol (before_slash s) (after_slash s) then Some (VSym None (Some (before_slash s)) (after_slash s)) else None)
      else if isValidSymbol [] s then Some (VSym None None s) else None)"

definition InternSymbol :: "string option \<Rightarrow> string \<Rightarrow> val option" where
  "InternSymbol ns name =
     (case ns of
        None \<Rightarrow> NewSymbol name
      | Some q \<Rightarrow>
          if q = [] then
            (case NewSymbol name of Some (VSym m _ n) \<Rightarrow> Some (VSym m (Some []) n) | r \<Rightarrow> r)
          else NewSymbol (q @ ''/'' @ name))"

fun sym_name :: "val \<Rightarrow> string" where
  "sym_name (VSym m ns n) = n"
| "sym_name _ = []"

fun sym_ns :: "val \<Rightarrow> string" where
  "sym_ns (VSym m (Some ns) n) = ns"
| "sym_ns _ = []"

fun FullName :: "val \<Rightarrow> string" where
  "FullName (VSym m ns n) = (case ns of None \<Rightarrow> n | Some q \<Rightarrow> q @ ''/'' @ n)"
| "FullName _ = []"

fun is_symbol :: "val \<Rightarrow> bool" where
  "is_symbol (VSym m ns n) = True"
| "is_symbol _ = False"

definition NewKeyword :: "string \<Rightarrow> val" where
  "NewKeyword s = (if CHR ''/'' \<in> set s then VKw (Some (before_slash s)) (after_slash s) else VKw None s)"

text \<open>A symbol, or the panic.\<close>

definition symbol_or_panic :: "string \<Rightarrow> val option \<Rightarrow> rpanic + val" where
  "symbol_or_panic s r = (case r of None \<Rightarrow> Inl (PSymbol s) | Some v \<Rightarrow> Inr v)"

definition lift_panic :: "rpanic + 'a \<Rightarrow> 'a rd" where
  "lift_panic r = (case r of Inl p \<Rightarrow> throw (Panic p) | Inr v \<Rightarrow> ret v)"

subsection \<open>The resolver\<close>

record resolver =
  CurrentNS :: "val option"
  ResolveAlias :: "val \<Rightarrow> val option"
  ResolveVar :: "val \<Rightarrow> val option"
  ResolveType :: "val \<Rightarrow> val option"

text \<open>\<^verbatim>\<open>nsResolver\<close> on the namespaces of \<open>w\<close>, with \<open>cur\<close> current.  The maps of a namespace are keyed
  by unqualified symbols.\<close>

definition ns_ResolveAlias :: "nworld \<Rightarrow> string \<Rightarrow> val \<Rightarrow> val option" where
  "ns_ResolveAlias w cur s =
     (case s of
        VSym _ None a \<Rightarrow>
          (case LookupAlias cur a w of
             Some t \<Rightarrow> Some (VSym None None t)
           | None \<Rightarrow> (case FindNamespace a w of Some _ \<Rightarrow> Some (VSym None None a) | None \<Rightarrow> None))
      | _ \<Rightarrow> None)"

definition ns_ResolveVar :: "nworld \<Rightarrow> string \<Rightarrow> val \<Rightarrow> val option" where
  "ns_ResolveVar w cur s =
     (case s of
        VSym _ None n \<Rightarrow>
          (case nmappings (the_ns cur w) n of
             Some (VVar v) \<Rightarrow> InternSymbol (Some (vns (vars (nvst w) v))) (vname (vars (nvst w) v))
           | _ \<Rightarrow> None)
      | _ \<Rightarrow> None)"

definition nsResolver :: "nworld \<Rightarrow> string \<Rightarrow> resolver" where
  "nsResolver w cur =
     \<lparr>CurrentNS = Some (VSym None None cur), ResolveAlias = ns_ResolveAlias w cur,
      ResolveVar = ns_ResolveVar w cur, ResolveType = (\<lambda>_. None)\<rparr>"

subsection \<open>Options\<close>

datatype cond_mode = condAllow | condForbid | condPreserve

text \<open>
  The fields of \<^verbatim>\<open>Reader\<close> that only options set.  A tag reader is a function that may throw;
  \<open>dataReader\<close> and \<open>defaultDataReader\<close> are what \<^verbatim>\<open>dataReaderFor\<close> and \<^verbatim>\<open>defaultDataReaderFn\<close>
  find in the two vars.  \<open>refHash\<close> is the hash of an address.
\<close>

record ropts =
  resolver :: "resolver option"
  condMode :: cond_mode
  condFeatures :: "string list"
  tagReaders :: "string \<Rightarrow> (val \<Rightarrow> val + val) option"
  defaultReader :: "(val \<Rightarrow> val \<Rightarrow> val + val) option"
  ednStrict :: bool
  starvedCondError :: bool
  starvedCollError :: bool
  dataReader :: "val \<Rightarrow> (val \<Rightarrow> val + val) option"
  defaultDataReader :: "(val \<Rightarrow> val \<Rightarrow> val + val) option"
  refHash :: "val \<Rightarrow> 32 word"

subsection \<open>Tokens\<close>

definition matchSymbol :: "ropts \<Rightarrow> Position \<Rightarrow> string \<Rightarrow> val rd" where
  "matchSymbol opts start tok =
     (let invalid = errAt start ''Invalid token: %s'' [MStr tok] in
      case symbolPat tok of
        None \<Rightarrow> invalid
      | Some (ns, name) \<Rightarrow>
          if (2 \<le> length ns \<and> drop (length ns - 2) ns = '':/'') \<or> has_suffix name CHR '':'' \<or> double_colon (drop 1 tok) then invalid
          else if ednStrict opts \<and> (take 2 tok = ''::'' \<or> CHR ''/'' \<in> set (fst (strip_last CHR ''/'' ns))) then invalid
          else if take 2 tok = ''::'' then
            (let r = drop 2 tok in
             case resolver opts of
               None \<Rightarrow> errAt start ''Invalid token (auto-resolved keyword requires a resolver): %s'' [MStr tok]
             | Some R \<Rightarrow>
                 if CHR ''/'' \<in> set r then
                   (case NewSymbol (before_slash r) of
                      None \<Rightarrow> invalid
                    | Some a \<Rightarrow>
                        (case ResolveAlias R a of
                           None \<Rightarrow> invalid
                         | Some q \<Rightarrow> ret (NewKeyword (sym_name q @ ''/'' @ after_slash r))))
                 else (case CurrentNS R of None \<Rightarrow> invalid | Some q \<Rightarrow> ret (NewKeyword (sym_name q @ ''/'' @ r))))
          else if take 1 tok = '':'' then ret (NewKeyword (drop 1 tok))
          else (case NewSymbol tok of None \<Rightarrow> invalid | Some s \<Rightarrow> ret s))"

definition interpretToken :: "ropts \<Rightarrow> Position \<Rightarrow> string \<Rightarrow> val rd" where
  "interpretToken opts start tok =
     (if tok = ''nil'' then ret VNil
      else if tok = ''true'' then ret (VBool True)
      else if tok = ''false'' then ret (VBool False)
      else matchSymbol opts start tok)"

end
