(* ===== verification/SyntaxQuote.thy ===== *)
theory SyntaxQuote
  imports Symbols
begin

text \<open>
  \<^verbatim>\<open>pkg/reader/syntaxquote.go\<close>: the expansion of a form that was read under a backquote into code
  that builds it.  It is a function of the form and the reader's state, of which it uses the
  gensym environment and the counter.
\<close>

subsection \<open>Its symbols\<close>

definition core_sym :: "string \<Rightarrow> val" where
  "core_sym n = VSym None (Some ''clojure.core'') n"

definition symQuote :: val where
  "symQuote = VSym None None ''quote''"

definition specials :: "string list" where
  "specials =
     [''def'', ''loop*'', ''recur'', ''if'', ''case*'', ''let*'', ''letfn*'', ''do'', ''fn*'', ''quote'', ''var'',
      ''clojure.core/import*'', ''.'', ''set!'', ''deftype*'', ''reify*'', ''try'', ''throw'', ''monitor-enter'',
      ''monitor-exit'', ''catch'', ''finally'', ''new'', ''&'']"

definition isSpecial :: "val \<Rightarrow> bool" where
  "isSpecial form \<longleftrightarrow> is_symbol form \<and> FullName form \<in> set specials"

text \<open>\<^verbatim>\<open>isTaggedSeq\<close> for a symbol of \<^verbatim>\<open>clojure.core\<close>.\<close>

fun isTaggedSeq :: "val \<Rightarrow> string \<Rightarrow> bool" where
  "isTaggedSeq (VList m (VSym m' ns n # xs)) tag \<longleftrightarrow> ns = Some ''clojure.core'' \<and> n = tag"
| "isTaggedSeq _ tag = False"

definition isUnquote :: "val \<Rightarrow> bool" where
  "isUnquote form = isTaggedSeq form ''unquote''"

definition isUnquoteSplicing :: "val \<Rightarrow> bool" where
  "isUnquoteSplicing form = isTaggedSeq form ''unquote-splicing''"

text \<open>\<^verbatim>\<open>lang.First(lang.Rest(form))\<close> of a list.\<close>

fun second_of :: "val \<Rightarrow> val" where
  "second_of (VList m (x # y # ys)) = y"
| "second_of _ = VNil"

text \<open>\<^verbatim>\<open>seqConcatForm\<close>.\<close>

definition seqConcatForm :: "val list \<Rightarrow> val" where
  "seqConcatForm elems = VList None [core_sym ''seq'', VList None (core_sym ''concat'' # elems)]"

subsection \<open>Symbols\<close>

definition resolveSymbol :: "ropts \<Rightarrow> val \<Rightarrow> rpanic + val" where
  "resolveSymbol opts s =
     (if CHR ''.'' \<in> set (sym_name s) \<and> hd (sym_name s) \<noteq> CHR ''.'' then Inr s
      else case resolver opts of
        None \<Rightarrow> Inr s
      | Some R \<Rightarrow>
          if sym_ns s \<noteq> [] then
            bindE (symbol_or_panic (sym_ns s) (NewSymbol (sym_ns s))) (\<lambda>a.
              case ResolveAlias R a of
                None \<Rightarrow> Inr s
              | Some q \<Rightarrow>
                  if sym_name q = sym_ns s then Inr s
                  else symbol_or_panic (sym_name q @ ''/'' @ sym_name s) (InternSymbol (Some (sym_name q)) (sym_name s)))
          else case ResolveType R s of
            Some t \<Rightarrow> Inr t
          | None \<Rightarrow>
              (case ResolveVar R s of
                 Some v \<Rightarrow> Inr v
               | None \<Rightarrow>
                   (case CurrentNS R of
                      None \<Rightarrow> Inr s
                    | Some cur \<Rightarrow>
                        symbol_or_panic (sym_name cur @ ''/'' @ sym_name s) (InternSymbol (Some (sym_name cur)) (sym_name s)))))"

text \<open>\<^verbatim>\<open>x#\<close>: the symbol minted for the name in this syntax-quote, minted now if there is none.\<close>

definition autoGensym :: "Position \<Rightarrow> string \<Rightarrow> val rd" where
  "autoGensym start name s =
     (case gensymEnv s of
        None \<Rightarrow> errAt start ''Gensym literal not in syntax-quote'' [] s
      | Some env \<Rightarrow>
          (case map_of env name of
             Some g \<Rightarrow> (Inr g, s)
           | None \<Rightarrow>
               (let i = nextID s + 1; full = butlast name @ ''__'' @ nat_str i @ ''__auto__'' in
                case NewSymbol full of
                  None \<Rightarrow> (Inl (Panic (PSymbol full)), s\<lparr>nextID := i\<rparr>)
                | Some g \<Rightarrow> (Inr g, s\<lparr>nextID := i, gensymEnv := Some ((name, g) # env)\<rparr>))))"

definition syntaxQuoteSymbol :: "ropts \<Rightarrow> Position \<Rightarrow> val \<Rightarrow> val rd" where
  "syntaxQuoteSymbol opts start s =
     (let name = sym_name s in
      if sym_ns s = [] \<and> has_suffix name CHR ''#'' then autoGensym start name
      else if sym_ns s = [] \<and> has_suffix name CHR ''.'' then
        lift_panic
          (bindE (symbol_or_panic (butlast name) (NewSymbol (butlast name))) (\<lambda>c.
           bindE (resolveSymbol opts c) (\<lambda>t.
           symbol_or_panic (sym_name t @ ''.'') (NewSymbol (sym_name t @ ''.'')))))
      else if sym_ns s = [] \<and> take 1 name = ''.'' then ret s
      else lift_panic
        (bindE (if sym_ns s \<noteq> [] then
                  (case resolver opts of
                     None \<Rightarrow> Inr None
                   | Some R \<Rightarrow> bindE (symbol_or_panic (sym_ns s) (NewSymbol (sym_ns s))) (\<lambda>a. Inr (ResolveType R a)))
                else Inr None)
          (\<lambda>t. case t of
              Some q \<Rightarrow> symbol_or_panic (sym_name q @ ''/'' @ name) (InternSymbol (Some (sym_name q)) name)
            | None \<Rightarrow> resolveSymbol opts s)))"

subsection \<open>The expansion\<close>

definition position_keys :: "val list" where
  "position_keys = map (VKw None) [''file'', ''line'', ''column'', ''end-line'', ''end-column'']"

definition stripPositionMeta :: "(val \<times> val) list \<Rightarrow> (val \<times> val) list" where
  "stripPositionMeta m = filter (\<lambda>e. \<not> list_ex (Equiv (fst e)) position_keys) m"

fun flatten :: "(val \<times> val) list \<Rightarrow> val list" where
  "flatten [] = []"
| "flatten ((k, v) # es) = k # v # flatten es"

fun self_evaluating :: "val \<Rightarrow> bool" where
  "self_evaluating (VKw ns n) = True"
| "self_evaluating (VStr s) = True"
| "self_evaluating (VInt n) = True"
| "self_evaluating (VLit (LRegex i p)) = False"
| "self_evaluating (VLit (LUUID s)) = False"
| "self_evaluating (VLit (LInst s t)) = False"
| "self_evaluating (VLit l) = True"
| "self_evaluating _ = False"

definition quoted :: "val \<Rightarrow> val" where
  "quoted form = VList None [symQuote, form]"

lemma size_flatten [simp]: "size_list size (flatten es) = size_list (size_prod size size) es"
  by (induction es rule: flatten.induct) auto

lemma size_strip: "size_list f (stripPositionMeta m) \<le> size_list f m"
  by (induction m) (auto simp: stripPositionMeta_def)

lemma size_meta: "form_meta form = Some m \<Longrightarrow> size (VMap None (stripPositionMeta m)) \<le> size form"
  using size_strip [of "size_prod size size" m] by (cases form) auto

text \<open>\<^verbatim>\<open>syntaxQuote\<close> with \<^verbatim>\<open>syntaxQuoteColl\<close>, which only it calls, and \<^verbatim>\<open>sqExpandList\<close>.\<close>

function (sequential) syntaxQuote :: "ropts \<Rightarrow> Position \<Rightarrow> val \<Rightarrow> val rd"
  and sqExpandList :: "ropts \<Rightarrow> Position \<Rightarrow> val list \<Rightarrow> val list rd" where
  "syntaxQuote opts start form =
     (if isUnquote form then ret (second_of form)
      else if isUnquoteSplicing form then errAt start ''splice not in list'' []
      else
        rbind
          (if isSpecial form then ret (quoted form)
           else case form of
             VSym _ _ _ \<Rightarrow> rbind (syntaxQuoteSymbol opts start form) (\<lambda>s. ret (quoted s))
           | VMap _ es \<Rightarrow>
               rbind (sqExpandList opts start (flatten es)) (\<lambda>elems.
                 ret (VList None [core_sym ''apply'', core_sym ''hash-map'', seqConcatForm elems]))
           | VVec _ xs \<Rightarrow>
               rbind (sqExpandList opts start xs) (\<lambda>elems.
                 ret (VList None [core_sym ''apply'', core_sym ''vector'', seqConcatForm elems]))
           | VSet _ xs \<Rightarrow>
               rbind (sqExpandList opts start xs) (\<lambda>elems.
                 ret (VList None [core_sym ''apply'', core_sym ''hash-set'', seqConcatForm elems]))
           | VList _ xs \<Rightarrow>
               if xs = [] then ret (VList None [core_sym ''list''])
               else rbind (sqExpandList opts start xs) (\<lambda>elems. ret (seqConcatForm elems))
           | _ \<Rightarrow> ret (if self_evaluating form then form else quoted form))
          (\<lambda>r. case form_meta form of
             None \<Rightarrow> ret r
           | Some m \<Rightarrow>
               if stripPositionMeta m = [] then ret r
               else rbind (syntaxQuote opts start (VMap None (stripPositionMeta m))) (\<lambda>m'.
                 ret (VList None [core_sym ''with-meta'', r, m']))))"
| "sqExpandList opts start [] = ret []"
| "sqExpandList opts start (item # items) =
     rbind
       (if isUnquote item then ret (VList None [core_sym ''list'', second_of item])
        else if isUnquoteSplicing item then ret (second_of item)
        else rbind (syntaxQuote opts start item) (\<lambda>q. ret (VList None [core_sym ''list'', q])))
       (\<lambda>e. rbind (sqExpandList opts start items) (\<lambda>es. ret (e # es)))"
  by pat_completeness auto
termination
  by (relation "measure (case_sum (\<lambda>(opts, start, form). 2 * size form + of_bool (form_meta form \<noteq> None))
      (\<lambda>(opts, start, items). 2 * size_list size items + 1))")
    (auto dest: size_meta)

declare syntaxQuote.simps [simp del]

end
