(* ===== verification/Reader.thy ===== *)
theory Reader
  imports SyntaxQuote
begin

text \<open>
  The recursive part of \<^verbatim>\<open>pkg/reader\<close>: collections, metadata, wrapped forms, dispatch macros,
  function literals, reader conditionals, namespaced maps and the loop \<^verbatim>\<open>readWithDelim\<close>.

  Every operation that reads a form takes the recursive reader \<open>rec\<close> as its argument, and
  \<open>readWithDelim\<close> closes the knot with fuel: one unit for each nested read and for each pass of
  its own loop.  A read that does not fail consumes a rune, so the length of the input plus one
  is enough (shown in \<open>ReaderSafe\<close>).
\<close>

subsection \<open>What a read returns\<close>

text \<open>A form, \<^verbatim>\<open>sentReadFinished\<close>, or \<^verbatim>\<open>spliceForms\<close>.\<close>

datatype robj = Form val | Finished | Splice "val list"

type_synonym rec = "rune option \<Rightarrow> bool \<Rightarrow> robj rd"

fun the_form :: "robj \<Rightarrow> val" where
  "the_form (Form v) = v"
| "the_form _ = VNil"

definition readForm :: "rec \<Rightarrow> val rd" where
  "readForm rec = rbind (rec None False) (\<lambda>r. ret (the_form r))"

text \<open>A form that must follow: the clean end of the input is an error that says what was begun (the empty
  string where the error is \<^verbatim>\<open>ErrIncomplete\<close> itself).\<close>

definition subform :: "rec \<Rightarrow> Position \<Rightarrow> string \<Rightarrow> marg list \<Rightarrow> val rd" where
  "subform rec start what args s =
     (case readForm rec s of
        (Inl ErrEOF, s') \<Rightarrow> incomplete start what args s'
      | r \<Rightarrow> r)"

text \<open>A deferred update of the state, after success and failure alike.\<close>

definition finally_do :: "'a rd \<Rightarrow> (reader \<Rightarrow> reader) \<Rightarrow> 'a rd" where
  "finally_do m g s = (let (r, s') = m s in (r, g s'))"

subsection \<open>Metadata\<close>

text \<open>\<^verbatim>\<open>lang.Assoc\<close> on a metadata map.\<close>

fun map_assoc :: "(val \<times> val) list \<Rightarrow> val \<Rightarrow> val \<Rightarrow> (val \<times> val) list" where
  "map_assoc [] k v = [(k, v)]"
| "map_assoc ((k', v') # es) k v = (if Equiv k' k then (k', v) # es else (k', v') # map_assoc es k v)"

definition entries_of :: "meta \<Rightarrow> (val \<times> val) list" where
  "entries_of m = (case m of None \<Rightarrow> [] | Some es \<Rightarrow> es)"

definition position_meta :: "Position \<Rightarrow> Position \<Rightarrow> (val \<times> val) list" where
  "position_meta start end =
     [(VKw None ''file'', VStr (File start)), (VKw None ''line'', VInt (int (Line start))),
      (VKw None ''column'', VInt (int (Col start))), (VKw None ''end-line'', VInt (int (Line end))),
      (VKw None ''end-column'', VInt (int (Col end)))]"

definition assoc_all :: "(val \<times> val) list \<Rightarrow> (val \<times> val) list \<Rightarrow> (val \<times> val) list" where
  "assoc_all m kvs = foldl (\<lambda>m e. map_assoc m (fst e) (snd e)) m kvs"

fun annotated :: "val \<Rightarrow> bool" where
  "annotated (VList m xs) = True"
| "annotated (VSym m ns n) = True"
| "annotated _ = False"

definition annotate :: "val \<Rightarrow> Position \<Rightarrow> val rd" where
  "annotate form start =
     (if annotated form then
        rbind getPos (\<lambda>end. ret (with_meta (assoc_all (entries_of (form_meta form)) (position_meta start end)) form))
      else ret form)"

subsection \<open>Collections\<close>

text \<open>\<^verbatim>\<open>recordHead\<close>: a head that is nil counts as not read yet.\<close>

definition recordHead :: "val list \<Rightarrow> reader \<Rightarrow> reader" where
  "recordHead forms s =
     (case nest s of
        [] \<Rightarrow> s
      | f # fs \<Rightarrow>
          (let f1 = f\<lparr>fcount := length forms\<rparr> in
           s\<lparr>nest := (if forms \<noteq> [] \<and> fhead f1 = VNil then f1\<lparr>fhead := hd forms\<rparr> else f1) # fs\<rparr>))"

fun checkPendingStarved :: "(Position \<times> nat \<times> string) list \<Rightarrow> nat \<Rightarrow> unit rd" where
  "checkPendingStarved [] final = ret ()"
| "checkPendingStarved ((pos, cnt, feats) # ps) final =
     (if cnt < final then errAt pos ''reader conditional supplies no branch for this platform, and eliding it would change the shape of the enclosing list; expected one of :cljgo, :default; found %s'' [MStr feats]
      else checkPendingStarved ps final)"

primrec delimLoop :: "nat \<Rightarrow> rec \<Rightarrow> string \<Rightarrow> rune \<Rightarrow> Position \<Rightarrow> val list \<Rightarrow> val list rd" where
  "delimLoop 0 rec what end start forms = throw NoFuel"
| "delimLoop (Suc n) rec what end start forms =
     (\<lambda>s. case rec (Some end) True s of
        (Inl ErrEOF, s') \<Rightarrow> incomplete start what [MStr (encode [end])] s'
      | (Inl e, s') \<Rightarrow> (Inl e, s')
      | (Inr Finished, s') \<Rightarrow> (Inr forms, s')
      | (Inr (Splice items), s') \<Rightarrow>
          delimLoop n rec what end start (forms @ items) (recordHead (forms @ items) s')
      | (Inr (Form f), s') \<Rightarrow>
          delimLoop n rec what end start (forms @ [f]) (recordHead (forms @ [f]) s'))"

definition push_frame :: "string \<Rightarrow> reader \<Rightarrow> reader" where
  "push_frame what s =
     s\<lparr>nestDepth := nestDepth s + 1,
       nest := \<lparr>fkind = what, fhead = VNil, fcount = 0, fpending = []\<rparr> # nest s\<rparr>"

definition pop_frame :: "reader \<Rightarrow> reader" where
  "pop_frame s = s\<lparr>nestDepth := nestDepth s - 1, nest := tl (nest s)\<rparr>"

definition readDelimited :: "nat \<Rightarrow> rec \<Rightarrow> string \<Rightarrow> rune \<Rightarrow> Position \<Rightarrow> val list rd" where
  "readDelimited n rec what end start s =
     (case delimLoop n rec what end start [] (push_frame what s) of
        (Inl e, s') \<Rightarrow> (Inl e, pop_frame s')
      | (Inr forms, s') \<Rightarrow>
          rbind (checkPendingStarved (fpending (hd (nest s'))) (length forms)) (\<lambda>_. ret forms) (pop_frame s'))"

definition readList :: "nat \<Rightarrow> rec \<Rightarrow> Position \<Rightarrow> val rd" where
  "readList n rec start = rbind (readDelimited n rec ''list'' RPAREN start) (\<lambda>forms. ret (VList None forms))"

definition readVector :: "nat \<Rightarrow> rec \<Rightarrow> Position \<Rightarrow> val rd" where
  "readVector n rec start = rbind (readDelimited n rec ''vector'' RBRACK start) (\<lambda>forms. ret (VVec None forms))"

text \<open>
  \<^verbatim>\<open>checkDuplicates\<close> looks the keys up in a persistent hash map.  By the contract of that map (see
  \<open>HashMapSpec\<close>) a key is found when an equal key with the same hash is in it.
\<close>

fun dup_key :: "(val \<Rightarrow> 32 word) \<Rightarrow> val list \<Rightarrow> val list \<Rightarrow> val option" where
  "dup_key ref seen [] = None"
| "dup_key ref seen (k # ks) =
     (if list_ex (\<lambda>x. HashEq ref x = HashEq ref k \<and> Equiv k x) seen then Some k else dup_key ref (k # seen) ks)"

definition checkDuplicates :: "ropts \<Rightarrow> Position \<Rightarrow> val list \<Rightarrow> unit rd" where
  "checkDuplicates opts start keys =
     (case dup_key (refHash opts) [] keys of
        Some k \<Rightarrow> errAt start ''Duplicate key: %s'' [MForm k]
      | None \<Rightarrow> ret ())"

fun pairs_of :: "val list \<Rightarrow> (val \<times> val) list" where
  "pairs_of (k # v # xs) = (k, v) # pairs_of xs"
| "pairs_of _ = []"

definition readMapLiteral :: "ropts \<Rightarrow> nat \<Rightarrow> rec \<Rightarrow> Position \<Rightarrow> val rd" where
  "readMapLiteral opts n rec start =
     rbind (readDelimited n rec ''map'' RBRACE start) (\<lambda>forms.
       if odd (length forms) then errAt start ''Map literal must contain an even number of forms'' []
       else rbind (checkDuplicates opts start (map fst (pairs_of forms))) (\<lambda>_. ret (VMap None (pairs_of forms))))"

definition readSet :: "ropts \<Rightarrow> nat \<Rightarrow> rec \<Rightarrow> Position \<Rightarrow> val rd" where
  "readSet opts n rec start =
     rbind (readDelimited n rec ''set'' RBRACE start) (\<lambda>forms.
       rbind (checkDuplicates opts start forms) (\<lambda>_. ret (VSet None forms)))"

subsection \<open>Wrapped forms and metadata\<close>

text \<open>\<^verbatim>\<open>readWrapped\<close>; the symbol is one of the constants that its callers pass.\<close>

definition readWrapped :: "rec \<Rightarrow> Position \<Rightarrow> val \<Rightarrow> val rd" where
  "readWrapped rec start symbol =
     rbind (subform rec start '''' []) (\<lambda>form. ret (VList None [symbol, form]))"

text \<open>The map that the datum after a caret stands for.\<close>

definition meta_map :: "val \<Rightarrow> (val \<times> val) list option" where
  "meta_map m =
     (case m of
        VKw _ _ \<Rightarrow> Some [(m, VBool True)]
      | VSym _ _ _ \<Rightarrow> Some [(VKw None ''tag'', m)]
      | VStr _ \<Rightarrow> Some [(VKw None ''tag'', m)]
      | VVec _ _ \<Rightarrow> Some [(VKw None ''param-tags'', m)]
      | VMap _ es \<Rightarrow> Some es
      | _ \<Rightarrow> None)"

fun is_iobj :: "val \<Rightarrow> bool" where
  "is_iobj (VSym m ns n) = True"
| "is_iobj (VList m xs) = True"
| "is_iobj (VVec m xs) = True"
| "is_iobj (VMap m es) = True"
| "is_iobj (VSet m xs) = True"
| "is_iobj _ = False"

text \<open>The last type assertion panics when neither map had an entry: the metadata is then a nil interface.\<close>

definition readMeta :: "rec \<Rightarrow> Position \<Rightarrow> val rd" where
  "readMeta rec start =
     rbind getPos (\<lambda>metaPos.
     rbind (subform rec start ''metadata'' []) (\<lambda>m.
       case meta_map m of
         None \<Rightarrow> errAt metaPos ''Metadata must be Symbol,Keyword,String,Map or Vector'' []
       | Some mmap \<Rightarrow>
           rbind (subform rec start ''metadata'' []) (\<lambda>form.
             if \<not> is_iobj form then errAt start ''Metadata can only be applied to IMetas'' []
             else if form_meta form = None \<and> mmap = [] then throw (Panic PNilMap)
             else ret (with_meta (assoc_all (entries_of (form_meta form)) mmap) form))))"

subsection \<open>Function literals\<close>

text \<open>\<^verbatim>\<open>garg\<close>; the symbols it makes are valid.\<close>

definition garg :: "int \<Rightarrow> val rd" where
  "garg n s =
     (let i = nextID s + 1; prefix = (if n = - 1 then ''rest'' else ''p'' @ nat_str (nat n)) in
      (Inr (VSym None None (prefix @ ''__'' @ nat_str i @ ''#'')), s\<lparr>nextID := i\<rparr>))"

definition fn_args :: "reader \<Rightarrow> (int \<times> val) list" where
  "fn_args s = (case fnArgs s of None \<Rightarrow> [] | Some env \<Rightarrow> env)"

definition registerArg :: "int \<Rightarrow> val rd" where
  "registerArg n s =
     (case map_of (fn_args s) n of
        Some v \<Rightarrow> (Inr v, s)
      | None \<Rightarrow> rbind (garg n) (\<lambda>v. rbind (update (\<lambda>s. s\<lparr>fnArgs := Some ((n, v) # fn_args s)\<rparr>)) (\<lambda>_. ret v)) s)"

text \<open>The parameters 1 to the largest one used; a gap is filled with a fresh symbol.\<close>

primrec fn_params :: "(int \<times> val) list \<Rightarrow> nat list \<Rightarrow> val list rd" where
  "fn_params env [] = ret []"
| "fn_params env (i # is) =
     rbind (case map_of env (int i) of Some v \<Rightarrow> ret v | None \<Rightarrow> garg (int i)) (\<lambda>v.
     rbind (fn_params env is) (\<lambda>vs. ret (v # vs)))"

definition maxArg :: "(int \<times> val) list \<Rightarrow> nat" where
  "maxArg env = nat (foldl max 0 (map fst env))"

definition readFnLiteral :: "rec \<Rightarrow> Position \<Rightarrow> val rd" where
  "readFnLiteral rec start s =
     (if fnArgs s \<noteq> None then errAt start ''Nested #()s are not allowed'' [] s
      else
        finally_do
          (rbind (update (\<lambda>s. s\<lparr>fnArgs := Some []\<rparr>)) (\<lambda>_.
           rbind unreadRune (\<lambda>_.
           rbind (readForm rec) (\<lambda>form s1.
             rbind (fn_params (fn_args s1) [1..<Suc (maxArg (fn_args s1))]) (\<lambda>args.
               let params = (case map_of (fn_args s1) (- 1) of None \<Rightarrow> args | Some r \<Rightarrow> args @ [VSym None None ''&'', r])
               in ret (VList None [VSym None None ''fn*'', VVec None params, form])) s1))))
          (\<lambda>s. s\<lparr>fnArgs := None\<rparr>) s)"

definition readArg :: "ropts \<Rightarrow> rec \<Rightarrow> Position \<Rightarrow> val rd" where
  "readArg opts rec start s =
     (if fnArgs s = None then rbind (readToken PERCENT) (\<lambda>tok. interpretToken opts start (encode tok)) s
      else
        rbind readRune (\<lambda>c. case c of
          None \<Rightarrow> registerArg 1
        | Some c \<Rightarrow>
            rbind unreadRune (\<lambda>_.
              if isWhitespace c \<or> isTerminatingMacro c then registerArg 1
              else rbind (readForm rec) (\<lambda>n.
                case n of
                  VSym m None x \<Rightarrow> if x = ''&'' then registerArg (- 1) else errAt start ''arg literal must be %%, %%& or %%integer'' []
                | VInt i \<Rightarrow> if fits_int64 i \<and> 1 \<le> i then registerArg i else errAt start ''arg literal must be %%, %%& or %%integer'' []
                | _ \<Rightarrow> errAt start ''arg literal must be %%, %%& or %%integer'' []))) s)"

subsection \<open>Syntax quote and unquote\<close>

definition maxSyntaxQuoteDepth :: nat where
  "maxSyntaxQuoteDepth = 64"

definition readSyntaxQuote :: "ropts \<Rightarrow> rec \<Rightarrow> Position \<Rightarrow> val rd" where
  "readSyntaxQuote opts rec start s =
     (if maxSyntaxQuoteDepth \<le> sqDepth s
      then errAt start ''syntax-quote nested too deeply (max %d)'' [MInt (int maxSyntaxQuoteDepth)] s
      else
        finally_do
          (rbind (update (\<lambda>s. s\<lparr>gensymEnv := Some [], sqDepth := sqDepth s + 1\<rparr>)) (\<lambda>_.
           rbind (subform rec start ''syntax-quoted form'' []) (\<lambda>form. syntaxQuote opts start form)))
          (\<lambda>s'. s'\<lparr>gensymEnv := gensymEnv s, sqDepth := sqDepth s' - 1\<rparr>) s)"

definition readUnquote :: "rec \<Rightarrow> Position \<Rightarrow> val rd" where
  "readUnquote rec start =
     rbind readRune (\<lambda>c. case c of
       None \<Rightarrow> readWrapped rec start (core_sym ''unquote'')
     | Some c \<Rightarrow>
         if c = AT then readWrapped rec start (core_sym ''unquote-splicing'')
         else rbind unreadRune (\<lambda>_. readWrapped rec start (core_sym ''unquote'')))"

subsection \<open>Symbolic values and tagged literals\<close>

definition readSymbolicValue :: "rec \<Rightarrow> Position \<Rightarrow> val rd" where
  "readSymbolicValue rec start =
     rbind (subform rec start ''symbolic value'' []) (\<lambda>form.
       if \<not> is_symbol form then errAt start ''Invalid token: ##%s'' [MForm form]
       else if FullName form = ''Inf'' then ret (VLit (LFloat (FInf False)))
       else if FullName form = ''-Inf'' then ret (VLit (LFloat (FInf True)))
       else if FullName form = ''NaN'' then ret (VLit (LFloat FNaN))
       else errAt start ''Unknown symbolic value: ##%s'' [MStr (FullName form)])"

text \<open>What a tag reader returns or throws.\<close>

definition invoke_tag :: "val + val \<Rightarrow> val rd" where
  "invoke_tag r = (case r of Inl e \<Rightarrow> throw (Panic (PUser e)) | Inr v \<Rightarrow> ret v)"

definition builtin_tag :: "string \<Rightarrow> val \<Rightarrow> val option" where
  "builtin_tag tag v =
     (if tag = ''cljgo/ok'' then Some (VData DOk [v])
      else if tag = ''cljgo/err'' then Some (VData DErr [v])
      else if tag = ''cljgo/just'' then Some (VData DJust [v])
      else if tag = ''cljgo/none'' then Some (VData DNone [])
      else None)"

definition uuid_or_inst :: "Position \<Rightarrow> string \<Rightarrow> val \<Rightarrow> val rd option" where
  "uuid_or_inst start tag v =
     (if tag = ''uuid'' then Some
        (case v of
           VStr s \<Rightarrow> (case NewUUID s of None \<Rightarrow> errAt start ''Invalid UUID string: %s'' [MStr s] | Some u \<Rightarrow> ret (VLit (LUUID u)))
         | _ \<Rightarrow> errAt start ''UUID literal expects a string, not %s'' [MForm v])
      else if tag = ''inst'' then Some
        (case v of
           VStr s \<Rightarrow> (case NewInst s of Inl e \<Rightarrow> errAt start ''%v'' [MStr e] | Inr l \<Rightarrow> ret (VLit l))
         | _ \<Rightarrow> errAt start ''Instant literal expects a string, not %s'' [MForm v])
      else None)"

definition tag_value :: "ropts \<Rightarrow> Position \<Rightarrow> val \<Rightarrow> val \<Rightarrow> val rd" where
  "tag_value opts start tag v s =
     (if 0 < tagPreserve s then ret (VData DTagged [tag, v]) s
      else case tagReaders opts (FullName tag) of
        Some f \<Rightarrow> invoke_tag (f v) s
      | None \<Rightarrow>
      (case builtin_tag (FullName tag) v of
        Some r \<Rightarrow> ret r s
      | None \<Rightarrow>
      (case (if ednStrict opts then None else dataReader opts tag) of
        Some f \<Rightarrow> invoke_tag (f v) s
      | None \<Rightarrow>
      (case uuid_or_inst start (FullName tag) v of
        Some r \<Rightarrow> r s
      | None \<Rightarrow>
      (case defaultReader opts of
        Some f \<Rightarrow> invoke_tag (f tag v) s
      | None \<Rightarrow>
          if 0 < tagSuppress s then ret VNil s
          else (case (if ednStrict opts then None else defaultDataReader opts) of
                  Some f \<Rightarrow> invoke_tag (f tag v) s
                | None \<Rightarrow> errAt start ''No reader function for tag #%s'' [MStr (FullName tag)] s))))))"

definition readTaggedLiteral :: "ropts \<Rightarrow> rec \<Rightarrow> Position \<Rightarrow> val rd" where
  "readTaggedLiteral opts rec start =
     rbind (subform rec start ''tagged literal'' []) (\<lambda>tag.
       if \<not> is_symbol tag then errAt start ''Reader tag must be a symbol'' []
       else rbind (subform rec start ''tagged literal %s'' [MStr (FullName tag)]) (\<lambda>v. tag_value opts start tag v))"

end
