(* ===== verification/ReadForm.thy ===== *)
theory ReadForm
  imports Reader
begin

text \<open>
  Reader conditionals (\<^verbatim>\<open>pkg/reader/readcond.go\<close>), namespaced maps (\<^verbatim>\<open>namespacedmap.go\<close>), the
  dispatch macro, and the reader itself: \<^verbatim>\<open>readWithDelim\<close>, \<^verbatim>\<open>ReadOne\<close> and \<^verbatim>\<open>ReadAll\<close>.
\<close>

subsection \<open>Reader conditionals\<close>

definition matchesFeature :: "ropts \<Rightarrow> val \<Rightarrow> bool" where
  "matchesFeature opts feat =
     (case feat of
        VKw ns n \<Rightarrow> kw_string ns n = ''cljgo'' \<or> kw_string ns n = ''default'' \<or> kw_string ns n \<in> set (condFeatures opts)
      | _ \<Rightarrow> False)"

fun is_keyword :: "val \<Rightarrow> bool" where
  "is_keyword (VKw ns n) = True"
| "is_keyword _ = False"

text \<open>Left to right: the value of the first branch that matches, a feature that is no keyword, or nothing.\<close>

datatype selected = Selected val | BadFeature val | Starved

fun select_branch :: "ropts \<Rightarrow> val list \<Rightarrow> selected" where
  "select_branch opts (feat # v # forms) =
     (if \<not> is_keyword feat then BadFeature feat
      else if matchesFeature opts feat then Selected v
      else select_branch opts forms)"
| "select_branch opts _ = Starved"

fun feature_names :: "val list \<Rightarrow> string list" where
  "feature_names (k # v # forms) =
     (case k of VKw ns n \<Rightarrow> ('':'' @ n) # feature_names forms | _ \<Rightarrow> feature_names forms)"
| "feature_names _ = []"

fun join :: "string \<Rightarrow> string list \<Rightarrow> string" where
  "join sep [] = []"
| "join sep [x] = x"
| "join sep (x # xs) = x @ sep @ join sep xs"

definition featureList :: "val list \<Rightarrow> string" where
  "featureList forms =
     (if feature_names forms = [] then ''no feature keywords'' else join '', '' (feature_names forms))"

fun spliceItems :: "val \<Rightarrow> val list option" where
  "spliceItems (VVec m xs) = Some xs"
| "spliceItems (VList m xs) = Some xs"
| "spliceItems _ = None"

definition enclosingColl :: "reader \<Rightarrow> string" where
  "enclosingColl s = (case nest s of [] \<Rightarrow> [] | f # fs \<Rightarrow> fkind f)"

definition enclosingHead :: "reader \<Rightarrow> val" where
  "enclosingHead s = (case nest s of [] \<Rightarrow> VNil | f # fs \<Rightarrow> fhead f)"

definition insideConditionalBody :: "reader \<Rightarrow> bool" where
  "insideConditionalBody s \<longleftrightarrow> list_ex (\<lambda>f. fkind f = ''reader conditional'') (nest s)"

definition add_pending :: "Position \<Rightarrow> string \<Rightarrow> reader \<Rightarrow> reader" where
  "add_pending start feats s =
     (case nest s of
        [] \<Rightarrow> s
      | f # fs \<Rightarrow> s\<lparr>nest := f\<lparr>fpending := fpending f @ [(start, fcount f, feats)]\<rparr> # fs\<rparr>)"

text \<open>No branch matched: the three checks, and the elision (\<open>None\<close>: read on).\<close>

definition starved :: "ropts \<Rightarrow> Position \<Rightarrow> bool \<Rightarrow> val list \<Rightarrow> robj option rd" where
  "starved opts start splicing forms s =
     (if starvedCollError opts \<and> \<not> splicing \<and> 2 \<le> length forms \<and> enclosingColl s \<in> {''vector'', ''map'', ''set''} then
        errAt start ''reader conditional supplies no branch for this platform, and eliding it would change the shape of the enclosing %s; expected one of :cljgo, :default; found %s''
          [MStr (enclosingColl s), MStr (featureList forms)] s
      else if starvedCondError opts \<and> nestDepth s = 0 \<and> 2 \<le> length forms then
        errAt start ''reader conditional supplies no branch for this platform; expected one of :cljgo, :default; found %s''
          [MStr (featureList forms)] s
      else if starvedCondError opts \<and> \<not> splicing \<and> 2 \<le> length forms \<and> enclosingColl s = ''list'' \<and>
              \<not> insideConditionalBody s \<and> discardDepth s = 0 \<and> \<not> is_keyword (enclosingHead s)
        then (Inr None, add_pending start (featureList forms) s)
      else (Inr None, s))"

definition select_or_elide :: "ropts \<Rightarrow> Position \<Rightarrow> bool \<Rightarrow> val list \<Rightarrow> robj option rd" where
  "select_or_elide opts start splicing forms =
     (case select_branch opts forms of
        BadFeature f \<Rightarrow> errAt start ''Feature should be a keyword: %s'' [MForm f]
      | Selected v \<Rightarrow>
          if \<not> splicing then ret (Some (Form v))
          else (case spliceItems v of
                  None \<Rightarrow> errAt start ''Spliced form list in read-cond-splicing must implement clojure.lang.Sequential'' []
                | Some items \<Rightarrow> ret (Some (Splice items)))
      | Starved \<Rightarrow> starved opts start splicing forms)"

definition readConditional :: "ropts \<Rightarrow> nat \<Rightarrow> rec \<Rightarrow> Position \<Rightarrow> bool \<Rightarrow> robj option rd" where
  "readConditional opts n rec start spliceOK =
     (if condMode opts = condForbid then errAt start ''Conditional read not allowed'' []
      else
        rbind readRune (\<lambda>c. case c of
          None \<Rightarrow> incomplete start ''reader conditional'' []
        | Some c \<Rightarrow>
            rbind (if c = AT then ret () else unreadRune) (\<lambda>_.
            let splicing = (c = AT) in
            if splicing \<and> \<not> spliceOK \<and> condMode opts \<noteq> condPreserve
            then errAt start ''Reader conditional splicing not allowed at the top level.'' []
            else
              rbind skipWhitespace (\<lambda>_.
              rbind readRune (\<lambda>oc. case oc of
                None \<Rightarrow> incomplete start ''reader conditional'' []
              | Some oc \<Rightarrow>
                  if oc \<noteq> LPAREN then errAt start ''read-cond body must be a list'' []
                  else if condMode opts = condPreserve then
                    rbind (update (\<lambda>s. s\<lparr>tagPreserve := tagPreserve s + 1\<rparr>)) (\<lambda>_.
                    rbind (finally_do (readDelimited n rec ''reader conditional'' RPAREN start)
                             (\<lambda>s. s\<lparr>tagPreserve := tagPreserve s - 1\<rparr>)) (\<lambda>forms.
                    ret (Some (Form (VData (DConditional splicing) [VList None forms])))))
                  else
                    rbind (update (\<lambda>s. s\<lparr>tagSuppress := tagSuppress s + 1\<rparr>)) (\<lambda>_.
                    rbind (finally_do (readDelimited n rec ''reader conditional'' RPAREN start)
                             (\<lambda>s. s\<lparr>tagSuppress := tagSuppress s - 1\<rparr>)) (\<lambda>forms.
                    select_or_elide opts start splicing forms)))))))"

subsection \<open>Namespaced maps\<close>

definition qualifyNamespacedKey :: "val \<Rightarrow> string \<Rightarrow> rpanic + val" where
  "qualifyNamespacedKey key ns =
     (case key of
        VKw None n \<Rightarrow> Inr (NewKeyword (ns @ ''/'' @ n))
      | VKw (Some q) n \<Rightarrow> Inr (if q = ''_'' then NewKeyword n else key)
      | VSym _ None n \<Rightarrow> symbol_or_panic (ns @ ''/'' @ n) (InternSymbol (Some ns) n)
      | VSym _ (Some q) n \<Rightarrow> if q = ''_'' then symbol_or_panic n (NewSymbol n) else Inr key
      | _ \<Rightarrow> Inr key)"

fun qualify_keys :: "string \<Rightarrow> (val \<times> val) list \<Rightarrow> rpanic + (val \<times> val) list" where
  "qualify_keys ns [] = Inr []"
| "qualify_keys ns ((k, v) # es) =
     bindE (qualifyNamespacedKey k ns) (\<lambda>k'. bindE (qualify_keys ns es) (\<lambda>es'. Inr ((k', v) # es')))"

text \<open>The namespace that the prefix stands for.\<close>

definition map_namespace :: "ropts \<Rightarrow> Position \<Rightarrow> bool \<Rightarrow> val option \<Rightarrow> string rd" where
  "map_namespace opts start auto osym =
     (case osym of
        None \<Rightarrow>
          if auto then
            (case resolver opts of
               None \<Rightarrow> errAt start ''Namespaced map with auto-resolved namespace requires a resolver'' []
             | Some R \<Rightarrow>
                 (case CurrentNS R of
                    None \<Rightarrow> errAt start ''Namespaced map with auto-resolved namespace has no current namespace'' []
                  | Some cur \<Rightarrow> ret (sym_name cur)))
          else errAt start ''Namespaced map must specify a namespace'' []
      | Some q \<Rightarrow>
          if auto then
            (case resolver opts of
               None \<Rightarrow> errAt start ''Namespaced map with auto-resolved namespace requires a resolver'' []
             | Some R \<Rightarrow>
                 (case ResolveAlias R q of
                    None \<Rightarrow> errAt start ''Unknown auto-resolved namespace alias: %s'' [MStr (sym_name q)]
                  | Some t \<Rightarrow> ret (sym_name t)))
          else ret (sym_name q))"

definition readNamespacedMap :: "ropts \<Rightarrow> nat \<Rightarrow> rec \<Rightarrow> Position \<Rightarrow> val rd" where
  "readNamespacedMap opts n rec start =
     rbind readRune (\<lambda>c. case c of
       None \<Rightarrow> incomplete start ''namespaced map'' []
     | Some c \<Rightarrow>
         rbind (if c = COLON then ret () else unreadRune) (\<lambda>_.
         rbind skipWhitespace (\<lambda>_.
         rbind readRune (\<lambda>pc. case pc of
           None \<Rightarrow> incomplete start ''namespaced map'' []
         | Some pc \<Rightarrow>
             rbind unreadRune (\<lambda>_.
             rbind (if pc = LBRACE then ret None
                    else rbind (subform rec start ''namespaced map'' []) (\<lambda>form.
                      case form of
                        VSym m None x \<Rightarrow> ret (Some form)
                      | _ \<Rightarrow> errAt start ''Namespaced map must specify a valid namespace: %s'' [MForm form])) (\<lambda>osym.
             rbind (map_namespace opts start (c = COLON) osym) (\<lambda>ns.
             rbind skipWhitespace (\<lambda>_.
             rbind readRune (\<lambda>oc. case oc of
               None \<Rightarrow> incomplete start ''namespaced map'' []
             | Some oc \<Rightarrow>
                 if oc \<noteq> LBRACE then errAt start ''Namespaced map must specify a map'' []
                 else
                   rbind (readDelimited n rec ''namespaced map'' RBRACE start) (\<lambda>forms.
                     if odd (length forms) then errAt start ''Namespaced map literal must contain an even number of forms'' []
                     else
                       rbind (lift_panic (qualify_keys ns (pairs_of forms))) (\<lambda>es.
                       rbind (checkDuplicates opts start (map fst es)) (\<lambda>_. ret (VMap None es)))))))))))))"

subsection \<open>Dispatch macros\<close>

definition isSymbolLead :: "rune \<Rightarrow> bool" where
  "isSymbolLead c \<longleftrightarrow>
     0x61 \<le> c \<and> c \<le> 0x7A \<or> 0x41 \<le> c \<and> c \<le> 0x5A \<or>
     c \<in> {UNDERSCORE, 0x2E, 0x2A, PLUS, BANG, MINUS, QMARK, 0x24, PERCENT, 0x26, EQUALS}"

text \<open>\<open>None\<close>: nothing was read, go on.\<close>

definition formed :: "val rd \<Rightarrow> robj option rd" where
  "formed m = rbind m (\<lambda>f. ret (Some (Form f)))"

definition readDispatch :: "ropts \<Rightarrow> nat \<Rightarrow> rec \<Rightarrow> Position \<Rightarrow> bool \<Rightarrow> robj option rd" where
  "readDispatch opts n rec start spliceOK =
     rbind readRune (\<lambda>c. case c of
       None \<Rightarrow> incomplete start ''dispatch character'' []
     | Some c \<Rightarrow>
         if c = LBRACE then formed (readSet opts n rec start)
         else if c = UNDERSCORE then
           rbind (update (\<lambda>s. s\<lparr>discardDepth := discardDepth s + 1\<rparr>)) (\<lambda>_.
           rbind (finally_do (subform rec start '''' []) (\<lambda>s. s\<lparr>discardDepth := discardDepth s - 1\<rparr>)) (\<lambda>_. ret None))
         else if c = BANG then
           (if ednStrict opts then errAt start ''No dispatch macro for: !'' [] else rbind skipLine (\<lambda>_. ret None))
         else if c = LESS then errAt start ''Unreadable form'' []
         else if c = QUOTE then formed (readWrapped rec start (VSym None None ''var''))
         else if c = LPAREN then formed (readFnLiteral rec start)
         else if c = DQUOTE then formed (readRegex start)
         else if c = CARET then formed (readMeta rec start)
         else if c = HASH then formed (readSymbolicValue rec start)
         else if c = QMARK then readConditional opts n rec start spliceOK
         else if c = COLON then formed (readNamespacedMap opts n rec start)
         else if c = EQUALS then errAt start ''#= reader macro is not yet implemented (reader Phase 2)'' []
         else if isSymbolLead c then rbind unreadRune (\<lambda>_. formed (readTaggedLiteral opts rec start))
         else errAt start ''No dispatch macro for: %c'' [MInt (int c)])"

subsection \<open>The reader\<close>

text \<open>One pass of the loop of \<^verbatim>\<open>readWithDelim\<close> on the rune \<open>c\<close>; \<open>None\<close> is \<^verbatim>\<open>continue\<close>.\<close>

definition read_on :: "ropts \<Rightarrow> nat \<Rightarrow> rec \<Rightarrow> Position \<Rightarrow> bool \<Rightarrow> rune \<Rightarrow> robj option rd" where
  "read_on opts n rec start spliceOK c =
     (if c = LPAREN then formed (readList n rec start)
      else if c = LBRACK then formed (readVector n rec start)
      else if c = LBRACE then formed (readMapLiteral opts n rec start)
      else if c = RPAREN \<or> c = RBRACK \<or> c = RBRACE then errAt start ''Unmatched delimiter: %c'' [MInt (int c)]
      else if c = DQUOTE then formed (readString start)
      else if c = BSLASH then formed (readChar start)
      else if c = QUOTE then formed (readWrapped rec start symQuote)
      else if c = AT then formed (readWrapped rec start (core_sym ''deref''))
      else if c = CARET then formed (readMeta rec start)
      else if c = SEMI then rbind skipLine (\<lambda>_. ret None)
      else if c = HASH then readDispatch opts n rec start spliceOK
      else if c = BQUOTE then formed (readSyntaxQuote opts rec start)
      else if c = TILDE then formed (readUnquote rec start)
      else if c = PERCENT then formed (readArg opts rec start)
      else if isDigit c then rbind unreadRune (\<lambda>_. formed (readNumber start []))
      else
        rbind (if c = PLUS \<or> c = MINUS then peekIsDigit else ret False) (\<lambda>number.
          if number then formed (readNumber start (encode [c]))
          else formed (rbind (readToken c) (\<lambda>tok. interpretToken opts start (encode tok)))))"

definition read_body :: "ropts \<Rightarrow> nat \<Rightarrow> rec \<Rightarrow> rune option \<Rightarrow> bool \<Rightarrow> robj rd" where
  "read_body opts n rec returnOn spliceOK =
     rbind skipWhitespace (\<lambda>_.
     rbind getPos (\<lambda>start.
     rbind readRune (\<lambda>c. case c of
       None \<Rightarrow> throw ErrEOF
     | Some c \<Rightarrow>
         if returnOn = Some c then ret Finished
         else
           rbind (read_on opts n rec start spliceOK c) (\<lambda>r. case r of
             None \<Rightarrow> rec returnOn spliceOK
           | Some (Form f) \<Rightarrow> rbind (annotate f start) (\<lambda>f'. ret (Form f'))
           | Some obj \<Rightarrow> ret obj))))"

primrec readWithDelim :: "ropts \<Rightarrow> nat \<Rightarrow> rec" where
  "readWithDelim opts 0 = (\<lambda>returnOn spliceOK. throw NoFuel)"
| "readWithDelim opts (Suc n) = read_body opts n (readWithDelim opts n)"

definition ReadOne :: "ropts \<Rightarrow> nat \<Rightarrow> val rd" where
  "ReadOne opts n = readForm (readWithDelim opts n)"

primrec ReadAll :: "ropts \<Rightarrow> nat \<Rightarrow> val list rd" where
  "ReadAll opts 0 = throw NoFuel"
| "ReadAll opts (Suc n) =
     (\<lambda>s. case ReadOne opts n s of
        (Inl ErrEOF, s') \<Rightarrow> (Inr [], s')
      | (Inl e, s') \<Rightarrow> (Inl e, s')
      | (Inr f, s') \<Rightarrow> rbind (ReadAll opts n) (\<lambda>fs. ret (f # fs)) s')"

text \<open>\<^verbatim>\<open>New\<close>: a reader on a text, and the options it starts with.\<close>

definition New :: "string \<Rightarrow> rune list \<Rightarrow> reader" where
  "New file text =
     \<lparr>input = text, lastRune = None, nextPos = \<lparr>File = file, Line = 1, Col = 1\<rparr>,
      history = (\<lparr>File = [], Line = 0, Col = 0\<rparr>, \<lparr>File = [], Line = 0, Col = 0\<rparr>),
      nextID = 0, gensymEnv = None, fnArgs = None, sqDepth = 0, tagSuppress = 0, tagPreserve = 0,
      nestDepth = 0, nest = [], discardDepth = 0, regexes = 0\<rparr>"

definition default_opts :: ropts where
  "default_opts =
     \<lparr>resolver = None, condMode = condAllow, condFeatures = [], tagReaders = (\<lambda>_. None), defaultReader = None,
      ednStrict = False, starvedCondError = False, starvedCollError = False, dataReader = (\<lambda>_. None),
      defaultDataReader = None, refHash = (\<lambda>_. 0)\<rparr>"

definition ReadString :: "ropts \<Rightarrow> rune list \<Rightarrow> rerr + val" where
  "ReadString opts src = fst (ReadOne opts (length src + 1) (New ''NO_SOURCE_FILE'' src))"

end
