(* ===== verification/ReaderSafe.thy ===== *)
theory ReaderSafe
  imports ReadForm
begin

text \<open>
  What every operation of the reader keeps: the text and the position, the control state, the
  errors and panics it may end with, and that it consumes.  The rules for the operations that
  read no form are here; those that do are in \<open>FormReader\<close>.
\<close>

subsection \<open>Positions\<close>

text \<open>The state is somewhere in \<open>txt\<close>, whose first rune was at \<open>p0\<close>, and knows where.\<close>

definition tracks :: "Position \<Rightarrow> rune list \<Rightarrow> 'a scanner_scheme \<Rightarrow> bool" where
  "tracks p0 txt s \<longleftrightarrow>
     (\<exists>before. txt = before @ input s \<and> nextPos s = foldl advance p0 before \<and>
        (\<forall>c. lastRune s = Some c \<longrightarrow> (\<exists>pre. before = pre @ [c] \<and> fst (history s) = foldl advance p0 pre)))"

lemma tracks_Read: "tracks p0 txt s \<Longrightarrow> Read s = (c, s') \<Longrightarrow> tracks p0 txt s'"
  by (auto simp: tracks_def Read_def split: list.splits)

lemma tracks_Unread: "tracks p0 txt s \<Longrightarrow> Unread s = Some s' \<Longrightarrow> tracks p0 txt s'"
  by (auto simp: tracks_def Unread_def split: option.splits)

subsection \<open>What a read leaves as it was\<close>

text \<open>Of the enclosing collections only the innermost may gain pending conditionals.\<close>

definition nest_ext :: "frame list \<Rightarrow> frame list \<Rightarrow> bool" where
  "nest_ext fs gs \<longleftrightarrow>
     (case fs of
        [] \<Rightarrow> gs = []
      | f # fs' \<Rightarrow> (\<exists>ps. gs = f\<lparr>fpending := fpending f @ ps\<rparr> # fs'))"

definition same_ctl :: "reader \<Rightarrow> reader \<Rightarrow> bool" where
  "same_ctl s s' \<longleftrightarrow>
     (gensymEnv s' = None \<longleftrightarrow> gensymEnv s = None) \<and> (fnArgs s' = None \<longleftrightarrow> fnArgs s = None) \<and>
     sqDepth s' = sqDepth s \<and> tagSuppress s' = tagSuppress s \<and> tagPreserve s' = tagPreserve s \<and>
     nestDepth s' = nestDepth s \<and> discardDepth s' = discardDepth s \<and> nest_ext (nest s) (nest s') \<and>
     nextID s \<le> nextID s' \<and> regexes s \<le> regexes s'"

definition goes :: "reader \<Rightarrow> reader \<Rightarrow> bool" where
  "goes s s' \<longleftrightarrow> left s' \<le> left s \<and> (\<forall>p0 txt. tracks p0 txt s \<longrightarrow> tracks p0 txt s') \<and> same_ctl s s'"

lemma nest_ext_refl [simp]: "nest_ext fs fs"
  by (auto simp: nest_ext_def split: list.split intro: exI [of _ "[]"])

lemma nest_ext_trans: "nest_ext fs gs \<Longrightarrow> nest_ext gs hs \<Longrightarrow> nest_ext fs hs"
  by (auto simp: nest_ext_def split: list.splits)

lemma same_ctl_refl [simp]: "same_ctl s s"
  by (simp add: same_ctl_def)

lemma same_ctl_trans: "same_ctl s t \<Longrightarrow> same_ctl t u \<Longrightarrow> same_ctl s u"
  by (auto simp: same_ctl_def dest: nest_ext_trans)

lemma goes_refl [simp]: "goes s s"
  by (simp add: goes_def)

lemma goes_trans [trans]: "goes s t \<Longrightarrow> goes t u \<Longrightarrow> goes s u"
  by (auto simp: goes_def dest: same_ctl_trans)

text \<open>A change of the control state alone.\<close>

definition same_scan :: "reader \<Rightarrow> reader \<Rightarrow> bool" where
  "same_scan s s' \<longleftrightarrow> scanner.truncate s' = scanner.truncate s"

lemma same_scan_iff:
  "same_scan s s' \<longleftrightarrow> input s' = input s \<and> lastRune s' = lastRune s \<and> nextPos s' = nextPos s \<and> history s' = history s"
  by (auto simp: same_scan_def scanner.truncate_def)

lemma goes_same_scan: "same_scan s s' \<Longrightarrow> same_ctl s s' \<Longrightarrow> goes s s'"
  by (auto simp: goes_def same_scan_iff left_def tracks_def)

lemma same_ctl_Read: "Read s = (c, s') \<Longrightarrow> same_ctl s s'"
  by (auto simp: Read_def same_ctl_def split: list.splits)

lemma goes_Read: "Read s = (c, s') \<Longrightarrow> goes s s'"
  by (auto simp: goes_def left_Read tracks_Read same_ctl_Read)

lemma goes_Unread: "Unread s = Some s' \<Longrightarrow> goes s s'"
  by (auto simp: goes_def tracks_Unread) (auto simp: Unread_def left_def same_ctl_def split: option.splits)

subsection \<open>Outcomes\<close>

text \<open>A second \<^verbatim>\<open>Unread\<close> in a row is not among the panics, nor is \<^verbatim>\<open>SetString\<close> in a base it knows.\<close>

fun allowed :: "rpanic \<Rightarrow> bool" where
  "allowed PUnread = False"
| "allowed (PBase b) \<longleftrightarrow> b = 1 \<or> 63 \<le> b \<and> b \<le> 99"
| "allowed _ = True"

text \<open>\<open>k\<close> is 1 for what may begin by pushing a rune back, else 0; \<open>n\<close> bounds the fuel.\<close>

definition well :: "nat \<Rightarrow> nat \<Rightarrow> 'a rd \<Rightarrow> reader \<Rightarrow> bool" where
  "well n k m s \<longleftrightarrow>
     (case m s of (r, s') \<Rightarrow>
        goes s s' \<and> (\<forall>x. r = Inr x \<longrightarrow> length (input s') \<le> length (input s) + k) \<and>
        (length (input s) + k < n \<longrightarrow> r \<noteq> Inl NoFuel) \<and>
        (\<forall>p. r = Inl (Panic p) \<longrightarrow> allowed p) \<and> (r = Inl ErrEOF \<longrightarrow> input s' = []))"

definition steady :: "nat \<Rightarrow> 'a rd \<Rightarrow> bool" where
  "steady n m \<longleftrightarrow> (\<forall>s. well n 0 m s)"

definition after :: "nat \<Rightarrow> 'a rd \<Rightarrow> bool" where
  "after n m \<longleftrightarrow> (\<forall>s. lastRune s \<noteq> None \<longrightarrow> well n (Suc 0) m s)"

named_theorems steady_intro \<open>operations that keep the state of the reader\<close>

lemma well_bind:
  assumes "well n k m s" and "\<And>x s'. m s = (Inr x, s') \<Longrightarrow> well n 0 (f x) s'"
  shows "well n k (rbind m f) s"
proof -
  obtain r s' where m: "m s = (r, s')" by fastforce
  show ?thesis
  proof (cases r)
    case (Inl e)
    with m assms(1) show ?thesis by (auto simp: well_def rbind_def)
  next
    case (Inr x)
    obtain q s'' where f: "f x s' = (q, s'')" by fastforce
    have 1: "goes s s'" "length (input s') \<le> length (input s) + k"
      using assms(1) m Inr by (auto simp: well_def)
    have 2: "well n 0 (f x) s'" using assms(2) m Inr by simp
    from goes_trans [OF 1(1)] 1(2) 2 m f Inr show ?thesis by (fastforce simp: well_def rbind_def)
  qed
qed

lemma steady_bind [steady_intro]: "steady n m \<Longrightarrow> (\<And>x. steady n (f x)) \<Longrightarrow> steady n (rbind m f)"
  by (auto simp: steady_def intro: well_bind)

lemma after_bind: "after n m \<Longrightarrow> (\<And>x. steady n (f x)) \<Longrightarrow> after n (rbind m f)"
  by (auto simp: steady_def after_def intro: well_bind)

lemma steady_after: "steady n m \<Longrightarrow> after n m"
  by (fastforce simp: steady_def after_def well_def split: prod.splits)

lemma steady_prims [steady_intro]:
  "steady n (ret x)" "steady n readRune" "steady n getPos" "steady n (errAt p fmt args)" "steady n (incomplete p what args)"
  by (auto simp: steady_def well_def rd_defs goes_Read split: prod.splits dest: Read_shorter)
    (auto simp: Read_def split: list.splits)

lemma steady_panic [steady_intro]: "allowed p \<Longrightarrow> steady n (throw (Panic p))"
  by (auto simp: steady_def well_def rd_defs)

lemma after_unread: "after n unreadRune"
  by (auto simp: after_def well_def unreadRune_def goes_Unread split: option.splits) (auto simp: Unread_def split: option.splits)

lemma well_moved:
  assumes "well n j m s1" and "goes s s1" and "m' s = m s1" and "length (input s1) + j \<le> length (input s) + k"
  shows "well n k m' s"
proof -
  obtain r s' where m: "m s1 = (r, s')" by fastforce
  from assms(1) m have "goes s1 s'" by (simp add: well_def)
  with assms(2) have "goes s s'" by (rule goes_trans)
  with assms m show ?thesis by (auto simp: well_def)
qed

lemma well_step: "Read s = (Some c, s1) \<Longrightarrow> well n (Suc 0) m s1 \<Longrightarrow> m' s = m s1 \<Longrightarrow> well n 0 m' s"
  by (rule well_moved) (auto simp: goes_Read dest: Read_shorter)

lemma well_eof: "Read s = (None, s1) \<Longrightarrow> well n 0 m s1 \<Longrightarrow> m' s = m s1 \<Longrightarrow> well n 0 m' s"
  by (rule well_moved) (auto simp: goes_Read, auto simp: Read_def split: list.splits)

lemma well_more: "well n 0 m s \<Longrightarrow> well n (Suc 0) m s"
  by (fastforce simp: well_def split: prod.splits)

lemma steadyD: "steady n m \<Longrightarrow> well n 0 m s"
  by (simp add: steady_def)

lemma afterD: "after n m \<Longrightarrow> Read s = (Some c, s1) \<Longrightarrow> well n (Suc 0) m s1"
  by (auto simp: after_def Read_def split: list.splits)

lemma steady_read [steady_intro]:
  assumes "steady n (f None)" and "\<And>c. after n (f (Some c))"
  shows "steady n (rbind readRune f)"
  unfolding steady_def
proof
  fix s :: reader
  obtain c s1 where rd: "Read s = (c, s1)" by fastforce
  then have f: "rbind readRune f s = f c s1" by (simp add: rbind_def readRune_def)
  show "well n 0 (rbind readRune f) s"
  proof (cases c)
    case None
    with rd f assms(1) show ?thesis by (auto intro: well_eof steadyD)
  next
    case (Some d)
    with rd f assms(2) show ?thesis by (auto intro: well_step afterD)
  qed
qed

lemma steady_cases [steady_intro]:
  "(p \<Longrightarrow> steady n a) \<Longrightarrow> (\<not> p \<Longrightarrow> steady n b) \<Longrightarrow> steady n (if p then a else b)"
  "(z = None \<Longrightarrow> steady n a) \<Longrightarrow> (\<And>x. z = Some x \<Longrightarrow> steady n (g x)) \<Longrightarrow> steady n (case z of None \<Rightarrow> a | Some x \<Rightarrow> g x)"
  by (auto split: option.splits)

lemma steady_split [steady_intro]:
  "(\<And>e. r = Inl e \<Longrightarrow> steady n (h e)) \<Longrightarrow> (\<And>x. r = Inr x \<Longrightarrow> steady n (g x)) \<Longrightarrow>
     steady n (case r of Inl e \<Rightarrow> h e | Inr x \<Rightarrow> g x)"
  "(\<And>a b. q = (a, b) \<Longrightarrow> steady n (f a b)) \<Longrightarrow> steady n (case q of (a, b) \<Rightarrow> f a b)"
  by (auto split: sum.splits prod.splits)

lemma after_cases:
  "(p \<Longrightarrow> after n a) \<Longrightarrow> (\<not> p \<Longrightarrow> after n b) \<Longrightarrow> after n (if p then a else b)"
  "(z = None \<Longrightarrow> after n a) \<Longrightarrow> (\<And>x. z = Some x \<Longrightarrow> after n (g x)) \<Longrightarrow> after n (case z of None \<Rightarrow> a | Some x \<Rightarrow> g x)"
  by (auto split: option.splits)

text \<open>After a peek: push the rune back and go on.\<close>

lemma after_unread_bind: "(\<And>x. steady n (f x)) \<Longrightarrow> after n (rbind unreadRune f)"
  by (rule after_bind [OF after_unread])

lemmas after_intro = after_cases after_unread after_unread_bind

subsection \<open>The loops over runes\<close>

lemma steady_skip [steady_intro]: "steady n skipWhitespace" "steady n skipLine" "steady n (takeToken stop)"
proof -
  have "well n 0 skipWhitespace s" for s
  proof (induction s rule: skipWhitespace.induct)
    case (1 s)
    obtain c s1 where rd: "Read s = (c, s1)" by fastforce
    show ?case
    proof (cases c)
      case None
      with rd have "skipWhitespace s = ret () s1" by (subst skipWhitespace.simps) (simp add: ret_def)
      with rd None show ?thesis by (auto intro: well_eof steadyD [OF steady_prims(1)])
    next
      case (Some d)
      with 1 rd have "isWhitespace d \<Longrightarrow> well n 0 skipWhitespace s1" by auto
      moreover from rd Some have "skipWhitespace s = (if isWhitespace d then skipWhitespace else unreadRune) s1"
        by (subst skipWhitespace.simps) simp
      ultimately show ?thesis
        using rd Some afterD [OF after_unread rd [unfolded Some]] by (auto intro: well_step well_more split: if_splits)
    qed
  qed
  then show "steady n skipWhitespace" by (simp add: steady_def)
  have "well n 0 skipLine s" for s
  proof (induction s rule: skipLine.induct)
    case (1 s)
    obtain c s1 where rd: "Read s = (c, s1)" by fastforce
    show ?case
    proof (cases c)
      case None
      with rd have "skipLine s = ret () s1" by (subst skipLine.simps) (simp add: ret_def)
      with rd None show ?thesis by (auto intro: well_eof steadyD [OF steady_prims(1)])
    next
      case (Some d)
      with 1 rd have "\<not> (d = NL \<or> d = CR) \<Longrightarrow> well n 0 skipLine s1" by auto
      moreover from rd Some have "skipLine s = (if d = NL \<or> d = CR then ret () else skipLine) s1"
        by (subst skipLine.simps) (simp add: ret_def)
      ultimately show ?thesis
        using rd Some well_more [OF steadyD [OF steady_prims(1) [of n "()"]], of s1] by (auto intro: well_step well_more split: if_splits)
    qed
  qed
  then show "steady n skipLine" by (simp add: steady_def)
  have "well n 0 (takeToken stop) s" for s
  proof (induction stop s rule: takeToken.induct)
    case (1 stop s)
    obtain c s1 where rd: "Read s = (c, s1)" by fastforce
    show ?case
    proof (cases c)
      case None
      with rd have "takeToken stop s = ret [] s1" by (subst takeToken.simps) (simp add: ret_def)
      with rd None show ?thesis by (auto intro: well_eof steadyD [OF steady_prims(1)])
    next
      case (Some d)
      with 1 rd have "\<not> (isWhitespace d \<or> stop d) \<Longrightarrow> well n 0 (takeToken stop) s1" by auto
      then have "\<not> (isWhitespace d \<or> stop d) \<Longrightarrow> well n 0 (rbind (takeToken stop) (\<lambda>cs. ret (d # cs))) s1"
        by (auto intro: well_bind steadyD [OF steady_prims(1)])
      moreover have "well n (Suc 0) (rbind unreadRune (\<lambda>_. ret ([] :: rune list))) s1"
        using rd Some by (auto intro!: afterD [of _ _ s] after_unread_bind steady_intro)
      moreover from rd Some have "takeToken stop s =
          (if isWhitespace d \<or> stop d then rbind unreadRune (\<lambda>_. ret [])
           else rbind (takeToken stop) (\<lambda>cs. ret (d # cs))) s1"
        by (subst takeToken.simps) simp
      ultimately show ?thesis
        using rd Some by (auto intro: well_step well_more split: if_splits)
    qed
  qed
  then show "steady n (takeToken stop)" by (simp add: steady_def)
qed

subsection \<open>Tokens, numbers, text\<close>

lemma steady_results [steady_intro]:
  "(\<And>p. r = Inl p \<Longrightarrow> allowed p) \<Longrightarrow> steady n (lift_panic r)"
  by (auto simp: lift_panic_def intro!: steady_intro split: sum.splits)

lemma steady_peekIsDigit [steady_intro]: "steady n peekIsDigit"
  unfolding peekIsDigit_def by (auto intro!: steady_intro after_intro)

lemma steady_readToken [steady_intro]: "steady n (readToken c)"
  unfolding readToken_def by (intro steady_intro)

lemma steady_matchSymbol [steady_intro]: "steady n (matchSymbol opts start tok)"
  unfolding matchSymbol_def Let_def by (auto intro!: steady_intro split: prod.split)

lemma steady_interpretToken [steady_intro]: "steady n (interpretToken opts start tok)"
  unfolding interpretToken_def by (intro steady_intro)

text \<open>The panic of a number token is that of its base.\<close>

lemma digit_val_range: "is_digit c \<Longrightarrow> digit_val c \<le> 9" "is_digit c \<Longrightarrow> c \<noteq> CHR ''0'' \<Longrightarrow> 1 \<le> digit_val c"
proof -
  assume c: "is_digit c"
  then show "digit_val c \<le> 9" unfolding is_digit_def digit_val_def by arith
  assume "c \<noteq> CHR ''0''"
  moreover have "char_of (of_char c :: nat) = c" by simp
  ultimately have "of_char c \<noteq> (48 :: nat)" by (auto simp: char_of_def bit_0)
  with c show "1 \<le> digit_val c" unfolding is_digit_def digit_val_def by arith
qed

lemma radix_bounds:
  assumes "radix_form s = Some (r, ds)"
  shows "1 \<le> r \<and> r \<le> 99"
proof -
  from assms consider c where "is_digit c" "c \<noteq> CHR ''0''" "r = int (digit_val c)"
    | c d where "is_digit c" "c \<noteq> CHR ''0''" "is_digit d" "r = int (10 * digit_val c + digit_val d)"
    by (auto simp: radix_form_def split: list.splits if_splits)
  then show ?thesis
  proof cases
    case 1
    then show ?thesis using digit_val_range [of c] by simp
  next
    case 2
    then show ?thesis using digit_val_range [of c] digit_val_range(1) [of d] by simp
  qed
qed

lemma intPat_base: "intPat s = Some (neg, GDigits ds r, big) \<Longrightarrow> 1 \<le> r \<and> r \<le> 99"
  by (auto simp: intPat_def Let_def dest: radix_bounds split: prod.splits if_splits option.splits)

lemma matchNumber_panics: "matchNumber s = Panics p \<Longrightarrow> allowed p"
  by (auto simp: matchNumber_def match_int_def match_float_def match_ratio_def SetString_def Let_def dest!: intPat_base
      split: option.splits prod.splits int_groups.splits sum.splits if_splits)

lemma steady_readNumber [steady_intro]: "steady n (readNumber start prefix)"
  unfolding readNumber_def Let_def
  by (auto intro!: steady_intro split: matched.split dest: matchNumber_panics)

lemma steady_unicodeLoop [steady_intro]: "steady n (unicodeLoop pos base m i uc)"
  by (induction m arbitrary: i uc) (auto intro!: steady_intro after_intro simp: steady_after steady_prims)

lemma steady_readUnicodeChar [steady_intro]: "steady n (readUnicodeChar pos c base len exact)"
  unfolding readUnicodeChar_def by (auto intro!: steady_intro split: prod.split)

lemma steady_readEscape [steady_intro]: "steady n (readEscape start escPos)"
  unfolding readEscape_def by (auto intro!: steady_intro steady_after)

lemma steady_stringLoop: "well n 0 (stringLoop start b) s"
proof (induction start b s rule: stringLoop.induct)
  case (1 start b s)
  obtain c s1 where rd: "Read s = (c, s1)" by fastforce
  show ?case
  proof (cases c)
    case None
    with rd have "stringLoop start b s = incomplete start ''string'' [] s1" by (subst stringLoop.simps) simp
    with rd None show ?thesis by (auto intro: well_eof steadyD [OF steady_prims(5)])
  next
    case (Some d)
    show ?thesis
    proof (cases "d = BSLASH")
      case True
      have "well n 0 (rbind (readEscape start (nextPos s1)) (\<lambda>w. stringLoop start (b @ encode_rune w))) s1"
        using 1(2) rd Some True by (auto intro!: well_bind steadyD [OF steady_readEscape])
      moreover have "stringLoop start b s = rbind (readEscape start (nextPos s1)) (\<lambda>w. stringLoop start (b @ encode_rune w)) s1"
        using rd Some True by (subst stringLoop.simps) (simp add: rbind_def)
      ultimately show ?thesis using rd Some by (auto intro: well_step well_more)
    next
      case False
      with 1(1) rd Some have "d \<noteq> DQUOTE \<Longrightarrow> well n 0 (stringLoop start (b @ encode_rune d)) s1" by auto
      moreover have "stringLoop start b s = (if d = DQUOTE then ret (VStr b) else stringLoop start (b @ encode_rune d)) s1"
        using rd Some False by (subst stringLoop.simps) (simp add: ret_def)
      ultimately show ?thesis
        using rd Some well_more [OF steadyD [OF steady_prims(1) [of n "VStr b"]], of s1]
        by (auto intro: well_step well_more split: if_splits)
    qed
  qed
qed

lemma steady_readString [steady_intro]: "steady n (readString start)"
  by (simp add: steady_def readString_def steady_stringLoop)

lemma steady_readChar [steady_intro]: "steady n (readChar start)"
  unfolding readChar_def by (auto intro!: steady_intro steady_after split: sum.split)

lemma steady_regexLoop: "well n 0 (regexLoop start b) s"
proof (induction start b s rule: regexLoop.induct)
  case (1 start b s)
  obtain c s1 where rd: "Read s = (c, s1)" by fastforce
  show ?case
  proof (cases c)
    case None
    with rd have "regexLoop start b s = incomplete start ''regex'' [] s1" by (subst regexLoop.simps) simp
    with rd None show ?thesis by (auto intro: well_eof steadyD [OF steady_prims(5)])
  next
    case (Some d)
    consider "d = DQUOTE" | "d = BSLASH" | "d \<noteq> DQUOTE" "d \<noteq> BSLASH" by blast
    then show ?thesis
    proof cases
      case [simp]: 1
      let ?m = "\<lambda>s. (Inr (VLit (LRegex (regexes s) b)), s\<lparr>regexes := regexes s + 1\<rparr>) :: (rerr + val) \<times> reader"
      have "goes s1 (s1\<lparr>regexes := regexes s1 + 1\<rparr>)"
        by (rule goes_same_scan) (simp_all add: same_scan_iff same_ctl_def)
      then have "well n (Suc 0) ?m s1" by (simp add: well_def)
      moreover have "regexLoop start b s = ?m s1" using rd Some by (subst regexLoop.simps) simp
      ultimately show ?thesis using rd Some by (auto intro: well_step)
    next
      case [simp]: 2
      obtain e s2 where rd2: "Read s1 = (e, s2)" by fastforce
      show ?thesis
      proof (cases e)
        case None
        with rd2 rd Some have "regexLoop start b s = incomplete start ''regex'' [] s2" by (subst regexLoop.simps) simp
        then show ?thesis
          using well_eof [OF rd2 [unfolded None] steadyD [OF steady_prims(5) [of n start "''regex''" "[]"]], of "\<lambda>_. regexLoop start b s"] rd Some
          by (auto intro: well_step well_more)
      next
        case (Some f)
        with 1(1) rd \<open>c = _\<close> rd2 have "well n 0 (regexLoop start (b @ encode_rune d @ encode_rune f)) s2" by auto
        moreover have "regexLoop start b s = regexLoop start (b @ encode_rune d @ encode_rune f) s2"
          using rd \<open>c = _\<close> rd2 Some by (subst regexLoop.simps) simp
        ultimately have "well n 0 (\<lambda>_. regexLoop start b s) s1"
          using rd2 Some by (auto intro: well_step well_more)
        then show ?thesis using rd \<open>c = _\<close> by (auto intro: well_step well_more)
      qed
    next
      case 3
      with 1(2) rd Some have "well n 0 (regexLoop start (b @ encode_rune d)) s1" by auto
      moreover have "regexLoop start b s = regexLoop start (b @ encode_rune d) s1"
        using rd Some 3 by (subst regexLoop.simps) simp
      ultimately show ?thesis using rd Some by (auto intro: well_step well_more)
    qed
  qed
qed

lemma steady_readRegex [steady_intro]: "steady n (readRegex start)"
  by (simp add: steady_def readRegex_def steady_regexLoop)

subsection \<open>Syntax quote\<close>

lemma symbol_or_panic_allowed: "symbol_or_panic s r = Inl p \<Longrightarrow> allowed p"
  by (auto simp: symbol_or_panic_def split: option.splits)

lemma bindE_allowed:
  "(\<And>p. r = Inl p \<Longrightarrow> allowed p) \<Longrightarrow> (\<And>x p. f x = Inl p \<Longrightarrow> allowed p) \<Longrightarrow> bindE r f = Inl p \<Longrightarrow> allowed p"
  by (auto simp: bindE_Inl_iff)

lemma resolveSymbol_allowed: "resolveSymbol opts s = Inl p \<Longrightarrow> allowed p"
  unfolding resolveSymbol_def
  by (auto split: if_splits option.splits dest: symbol_or_panic_allowed simp: bindE_Inl_iff)

lemma steady_autoGensym [steady_intro]: "steady n (autoGensym start name)"
proof -
  have "goes s (s\<lparr>nextID := nextID s + 1\<rparr>)" for s
    by (rule goes_same_scan) (simp_all add: same_scan_iff same_ctl_def)
  moreover have "gensymEnv s = Some env \<Longrightarrow> goes s (s\<lparr>nextID := nextID s + 1, gensymEnv := Some env'\<rparr>)" for s env env'
    by (rule goes_same_scan) (simp_all add: same_scan_iff same_ctl_def)
  ultimately show ?thesis
    by (auto simp: steady_def well_def autoGensym_def Let_def errAt_def throw_def split: option.splits)
qed

lemma steady_syntaxQuoteSymbol [steady_intro]: "steady n (syntaxQuoteSymbol opts start s)"
  unfolding syntaxQuoteSymbol_def Let_def
  by (intro steady_intro; auto simp: bindE_Inl_iff split: if_splits option.splits dest: symbol_or_panic_allowed resolveSymbol_allowed)

lemma steady_syntaxQuote [steady_intro]:
  "steady n (syntaxQuote opts start form)" "steady n (sqExpandList opts start items)"
proof (induction opts start form and opts start items rule: syntaxQuote_sqExpandList.induct)
  case (1 opts start form)
  show ?case
    using 1 by (subst syntaxQuote.simps, cases form) (auto intro!: steady_intro)
next
  case (3 opts start item items)
  then show ?case by (auto intro!: steady_intro)
qed (auto intro: steady_intro)

subsection \<open>State set for the time of an operation\<close>

lemma bracket:
  assumes "well n k m (g s)" and "same_scan s (g s)" and "\<And>s'. goes (g s) s' \<Longrightarrow> same_scan s' (h s') \<and> same_ctl s (h s')"
  shows "well n k (\<lambda>s. case m (g s) of (r, s') \<Rightarrow> (r, h s')) s"
proof -
  obtain r s' where m: "m (g s) = (r, s')" by fastforce
  with assms(1) have go: "goes (g s) s'" by (simp add: well_def)
  from assms(3) [OF go] have h: "same_scan s' (h s')" "same_ctl s (h s')" by simp_all
  then have "goes s (h s')"
    using go assms(2) by (auto simp: goes_def same_scan_iff left_def tracks_def)
  with m h assms(1,2) show ?thesis by (auto simp: well_def same_scan_iff)
qed

lemma well_cong: "m s = m' s \<Longrightarrow> well n k m s \<longleftrightarrow> well n k m' s"
  by (simp add: well_def)

lemma steady_pointwise: "(\<And>s. \<exists>m. steady n m \<and> f s = m s) \<Longrightarrow> steady n f"
  by (metis steady_def well_cong)

lemma steady_self: "(\<And>t. steady n (F t)) \<Longrightarrow> steady n (\<lambda>s. F s s)"
  by (rule steady_pointwise) blast

lemma steady_bracket:
  assumes "steady n m" and "\<And>s. same_scan s (g s)"
    and "\<And>s s'. goes (g s) s' \<Longrightarrow> same_scan s' (h s') \<and> same_ctl s (h s')" and "\<And>x. steady n (f x)"
  shows "steady n (rbind (update g) (\<lambda>_. rbind (finally_do m h) f))"
proof -
  have "steady n (\<lambda>s. case m (g s) of (r, s') \<Rightarrow> (r, h s'))"
    unfolding steady_def by (intro allI bracket) (use assms(1-3) in \<open>auto intro: steadyD\<close>)
  moreover have "rbind (update g) (\<lambda>_. rbind (finally_do m h) f) = rbind (\<lambda>s. case m (g s) of (r, s') \<Rightarrow> (r, h s')) f"
    by (auto simp: rbind_def update_def finally_do_def fun_eq_iff split: prod.splits)
  ultimately show ?thesis using assms(4) by (simp add: steady_bind)
qed

subsection \<open>Consumption\<close>

text \<open>After a rune was read, success leaves less to read than before, even if that rune is pushed back.\<close>

definition eats :: "'a rd \<Rightarrow> bool" where
  "eats m \<longleftrightarrow> (\<forall>s x s'. lastRune s \<noteq> None \<longrightarrow> m s = (Inr x, s') \<longrightarrow> left s' < left s)"

lemma eatsD: "eats m \<Longrightarrow> lastRune s \<noteq> None \<Longrightarrow> m s = (Inr x, s') \<Longrightarrow> left s' < left s"
  by (simp add: eats_def)

named_theorems eats_intro \<open>operations that consume\<close>

lemma goes_left: "goes s s' \<Longrightarrow> left s' \<le> left s"
  by (simp add: goes_def)

lemma well_goes: "well n k m s \<Longrightarrow> m s = (r, s') \<Longrightarrow> goes s s'"
  by (simp add: well_def)

lemma eats_read [eats_intro]:
  assumes "steady n (f None)" and "\<And>c. after n (f (Some c))"
  shows "eats (rbind readRune f)"
  unfolding eats_def
proof (intro allI impI)
  fix s x s'
  assume last: "lastRune s \<noteq> None" and r: "rbind readRune f s = (Inr x, s')"
  obtain c s1 where rd: "Read s = (c, s1)" by fastforce
  with r have f: "f c s1 = (Inr x, s')" by (simp add: rbind_def readRune_def)
  have "goes s1 s'"
  proof (cases c)
    case None
    with f assms(1) show ?thesis by (auto intro: well_goes dest: steadyD)
  next
    case (Some d)
    with f rd assms(2) [of d] show ?thesis by (auto intro: well_goes dest: afterD)
  qed
  moreover have "left s1 < left s" using rd last by (auto simp: Read_def left_def split: list.splits)
  ultimately show "left s' < left s" by (auto dest: goes_left)
qed

lemma eats_bind: "eats m \<Longrightarrow> (\<And>x. steady n (f x)) \<Longrightarrow> eats (rbind m f)"
  unfolding eats_def rbind_def
  by (fastforce split: prod.splits sum.splits dest: goes_left well_goes [OF steadyD])

lemma eats_cases [eats_intro]:
  "(p \<Longrightarrow> eats a) \<Longrightarrow> (\<not> p \<Longrightarrow> eats b) \<Longrightarrow> eats (if p then a else b)" "eats (errAt q fmt args)"
  "(\<And>x. eats (f x)) \<Longrightarrow> eats (rbind getPos f)"
  by (auto simp: eats_def rd_defs rbind_def)

lemma eats_shrinks:
  assumes "\<And>s x s'. m s = (Inr x, s') \<Longrightarrow> length (input s') < length (input s)"
  shows "eats m"
  unfolding eats_def using assms by (fastforce simp: left_def)

lemma takeToken_eq:
  "takeToken stop = rbind readRune (\<lambda>c. case c of
     None \<Rightarrow> ret []
   | Some c \<Rightarrow> if isWhitespace c \<or> stop c then rbind unreadRune (\<lambda>_. ret []) else rbind (takeToken stop) (\<lambda>cs. ret (c # cs)))"
  by (rule ext, subst takeToken.simps) (auto simp: rbind_def readRune_def ret_def split: prod.splits option.splits)

lemma skipLine_eq:
  "skipLine = rbind readRune (\<lambda>c. case c of
     None \<Rightarrow> ret ()
   | Some c \<Rightarrow> if c = NL \<or> c = CR then ret () else skipLine)"
  by (rule ext, subst skipLine.simps) (auto simp: rbind_def readRune_def ret_def split: prod.splits option.splits)

lemma eats_takeToken [eats_intro]: "eats (takeToken stop)"
  by (subst takeToken_eq, rule eats_read [where n = 0])
    (auto intro!: steady_intro after_intro intro: steady_after)

lemma eats_skipLine [eats_intro]: "eats skipLine"
  by (subst skipLine_eq, rule eats_read [where n = 0]) (auto intro!: steady_intro intro: steady_after)

lemma eats_readToken [eats_intro]: "eats (readToken c)"
  unfolding readToken_def by (rule eats_bind [OF eats_takeToken]) (rule steady_prims)

lemma eats_peekIsDigit [eats_intro]: "eats peekIsDigit"
  unfolding peekIsDigit_def by (rule eats_read [where n = 0]) (auto intro!: steady_intro after_intro)

lemma stringLoop_shrinks: "stringLoop start b s = (Inr x, s') \<Longrightarrow> length (input s') < length (input s)"
proof (induction start b s rule: stringLoop.induct)
  case (1 start b s)
  obtain c s1 where rd: "Read s = (c, s1)" by fastforce
  from 1(3) rd obtain d where [simp]: "c = Some d"
    by (subst (asm) stringLoop.simps) (auto simp: incomplete_def split: option.splits)
  have le: "length (input s1) < length (input s)" using rd by (auto dest: Read_shorter)
  show ?case
  proof (cases "d = BSLASH")
    case True
    with 1(3) rd obtain w s2 where e: "readEscape start (nextPos s1) s1 = (Inr w, s2)" "stringLoop start (b @ encode_rune w) s2 = (Inr x, s')"
      by (subst (asm) stringLoop.simps) (auto split: prod.splits sum.splits)
    with 1(2) rd True have "length (input s') < length (input s2)" by auto
    with escape_shorter [OF _ e(1)] rd show ?thesis by fastforce
  next
    case False
    with 1(3) rd have "(if d = DQUOTE then (Inr (VStr b), s1) else stringLoop start (b @ encode_rune d) s1) = (Inr x, s')"
      by (subst (asm) stringLoop.simps) (simp split: if_splits)
    then consider "input s' = input s1" | "d \<noteq> DQUOTE" "stringLoop start (b @ encode_rune d) s1 = (Inr x, s')"
      by (auto split: if_splits)
    then show ?thesis
    proof cases
      case 1
      with le show ?thesis by simp
    next
      case 2
      with "1.IH"(1) rd False have "length (input s') < length (input s1)" by auto
      with le show ?thesis by simp
    qed
  qed
qed

lemma regexLoop_shrinks: "regexLoop start b s = (Inr x, s') \<Longrightarrow> length (input s') < length (input s)"
proof (induction start b s rule: regexLoop.induct)
  case (1 start b s)
  obtain c s1 where rd: "Read s = (c, s1)" by fastforce
  from 1(3) rd obtain d where [simp]: "c = Some d"
    by (subst (asm) regexLoop.simps) (auto simp: incomplete_def split: option.splits)
  have le: "length (input s1) < length (input s)" using rd by (auto dest: Read_shorter)
  show ?case
  proof (cases "d = BSLASH")
    case True
    with 1(3) rd obtain e s2 where e: "Read s1 = (Some e, s2)" "regexLoop start (b @ encode_rune d @ encode_rune e) s2 = (Inr x, s')"
      by (subst (asm) regexLoop.simps) (auto simp: incomplete_def split: prod.splits option.splits)
    with 1(1) rd True have "length (input s') < length (input s2)" by auto
    with le Read_shorter [OF e(1)] show ?thesis by simp
  next
    case False
    with 1(3) rd have "(if d = DQUOTE then (Inr (VLit (LRegex (regexes s1) b)), s1\<lparr>regexes := regexes s1 + 1\<rparr>)
        else regexLoop start (b @ encode_rune d) s1) = (Inr x, s')"
      by (subst (asm) regexLoop.simps) (simp split: if_splits)
    then consider "input s' = input s1" | "d \<noteq> DQUOTE" "regexLoop start (b @ encode_rune d) s1 = (Inr x, s')"
      by (auto split: if_splits)
    then show ?thesis
    proof cases
      case 1
      with le show ?thesis by simp
    next
      case 2
      with "1.IH"(2) rd False have "length (input s') < length (input s1)" by auto
      with le show ?thesis by simp
    qed
  qed
qed

lemma eats_text [eats_intro]: "eats (readString start)" "eats (readRegex start)"
  by (auto intro!: eats_shrinks simp: readString_def readRegex_def dest: stringLoop_shrinks regexLoop_shrinks)

lemma eats_readChar [eats_intro]: "eats (readChar start)"
  unfolding readChar_def by (rule eats_read [where n = 0]) (auto intro!: steady_intro steady_after)

text \<open>A digit that is pushed back is read again.\<close>

lemma digit_eaten:
  assumes "lastRune s = Some c" and "isDigit c" and "rbind unreadRune (\<lambda>_. takeToken isMacro) s = (Inr x, s')"
  shows "left s' < left s"
proof -
  define s1 where "s1 = s\<lparr>input := c # input s, lastRune := None, nextPos := fst (history s), history := (snd (history s), snd (history s))\<rparr>"
  have u: "Unread s = Some s1" using assms(1) by (simp add: Unread_def s1_def)
  obtain d s2 where rd: "Read s1 = (d, s2)" by fastforce
  then have "d = Some c" "lastRune s2 = Some c" by (auto simp: Read_def s1_def)
  moreover have "left s2 \<le> left s" using rd assms(1) by (auto simp: Read_def left_def s1_def)
  ultimately have d: "d = Some c" "lastRune s2 \<noteq> None" "left s2 \<le> left s" by simp_all
  have "\<not> (isWhitespace c \<or> isMacro c)" using assms(2) by (auto simp: isDigit_def isWhitespace_def isMacro_def)
  with assms(3) u rd d(1) obtain y where "takeToken isMacro s2 = (Inr y, s')"
    by (subst (asm) takeToken_eq) (auto simp: rbind_def unreadRune_def readRune_def ret_def split: prod.splits sum.splits)
  with eats_takeToken d(2) have "left s' < left s2" by (auto simp: eats_def)
  with d(3) show ?thesis by simp
qed

end
