(* ===== verification/FormReader.thy ===== *)
theory FormReader
  imports ReaderSafe
begin

text \<open>
  The interface between the operations of the reader and the recursive reader they call is the
  locale \<open>form_reader\<close>: each operation is proved safe in it once, and \<open>readWithDelim\<close> at any
  fuel is an instance of it.
\<close>

subsection \<open>The interface to the recursive reader\<close>

locale form_reader =
  fixes n :: nat and rec :: rec
  assumes rec_goes: "rec d sp s = (r, s') \<Longrightarrow> goes s s'"
    and rec_eats: "rec d sp s = (Inr x, s') \<Longrightarrow> length (input s') < length (input s)"
    and rec_fuel: "length (input s) < n \<Longrightarrow> rec d sp s \<noteq> (Inl NoFuel, s')"
    and rec_panics: "rec d sp s = (Inl (Panic p), s') \<Longrightarrow> allowed p"
    and rec_eof: "rec d sp s = (Inl ErrEOF, s') \<Longrightarrow> input s' = []"
begin

lemma rec_steady [steady_intro]: "steady n (rec d sp)"
  unfolding steady_def well_def
  by (auto split: prod.split dest: rec_goes rec_eats rec_panics rec_eof rec_fuel)

lemma steady_readForm [steady_intro]: "steady n (readForm rec)"
  unfolding readForm_def by (intro steady_intro)

lemma eats_readForm [eats_intro]: "eats (readForm rec)"
  unfolding readForm_def
  by (rule eats_bind [OF eats_shrinks], erule rec_eats, rule steady_prims)

lemma steady_subform [steady_intro]: "steady n (subform rec start what args)"
  unfolding steady_def
proof
  fix s :: reader
  obtain r s' where m: "readForm rec s = (r, s')" by fastforce
  moreover have "well n 0 (readForm rec) s" using steadyD [OF steady_readForm] .
  ultimately show "well n 0 (subform rec start what args) s"
    by (auto simp: well_def subform_def incomplete_def split: sum.split rerr.split)
qed

lemma subform_Inr: "subform rec start what args s = (Inr x, s') \<Longrightarrow> readForm rec s = (Inr x, s')"
  by (auto simp: subform_def incomplete_def split: prod.splits sum.splits rerr.splits)

lemma eats_subform [eats_intro]: "eats (subform rec start what args)"
  using eats_readForm by (auto simp: eats_def dest: subform_Inr)

subsection \<open>Collections\<close>

lemma same_scan_pop: "tracks p txt (pop_frame s) \<longleftrightarrow> tracks p txt s" "left (pop_frame s) = left s"
  by (simp_all add: pop_frame_def tracks_def left_def)

lemma goes_pop: assumes "goes s s'" shows "goes (pop_frame s) (pop_frame s')"
proof -
  have "tl (nest s') = tl (nest s)"
    using assms by (auto simp: goes_def same_ctl_def nest_ext_def split: list.splits)
  with assms show ?thesis
    unfolding goes_def same_scan_pop by (auto simp: same_ctl_def pop_frame_def)
qed

lemma pop_recordHead [simp]: "pop_frame (recordHead forms s) = pop_frame s"
  by (auto simp: pop_frame_def recordHead_def Let_def split: list.split)

lemma input_recordHead [simp]: "input (recordHead forms s) = input s"
  by (auto simp: recordHead_def Let_def split: list.split)

lemma pop_push [simp]: "pop_frame (push_frame what s) = s"
  by (simp add: pop_frame_def push_frame_def)

text \<open>The loop, seen from outside its frame.\<close>

lemma delimLoop_ok:
  assumes "delimLoop k rec what end start forms s = (r, s')"
  shows "goes (pop_frame s) (pop_frame s') \<and> (\<forall>x. r = Inr x \<longrightarrow> length (input s') < length (input s)) \<and>
    (length (input s) < n \<and> length (input s) < k \<longrightarrow> r \<noteq> Inl NoFuel) \<and> (\<forall>p. r = Inl (Panic p) \<longrightarrow> allowed p) \<and> r \<noteq> Inl ErrEOF"
  using assms
proof (induction k arbitrary: forms s)
  case (Suc k)
  obtain q s1 where rc: "rec (Some end) True s = (q, s1)" by fastforce
  then have go: "goes (pop_frame s) (pop_frame s1)" by (intro goes_pop rec_goes)
  show ?case
  proof (cases q)
    case (Inl e)
    with rc go Suc.prems show ?thesis
      by (cases e) (auto simp: incomplete_def dest: rec_panics rec_fuel)
  next
    case (Inr x)
    with rc have le: "length (input s1) < length (input s)" by (auto intro: rec_eats)
    have more: ?thesis if "delimLoop k rec what end start fs (recordHead fs s1) = (r, s')" for fs
      using Suc.IH [OF that] goes_trans [OF go] le by auto
    show ?thesis
      using Suc.prems rc Inr go le more by (cases x) auto
  qed
qed (auto simp: throw_def)

lemma well_checkPendingStarved: "well m 0 (checkPendingStarved ps k) s"
  by (induction ps k rule: checkPendingStarved.induct)
    (auto intro!: steadyD [OF steady_prims(1)] steadyD [OF steady_prims(4)] split: if_splits)

lemma readDelimited_ok: "well n 0 (readDelimited n rec what end start) s"
  "readDelimited n rec what end start s = (Inr x, s') \<Longrightarrow> length (input s') < length (input s)"
proof -
  obtain r s1 where dl: "delimLoop n rec what end start [] (push_frame what s) = (r, s1)" by fastforce
  have same [simp]: "input (push_frame what s) = input s" "input (pop_frame s1) = input s1"
    by (simp_all add: push_frame_def pop_frame_def)
  note ok = delimLoop_ok [OF dl, simplified]
  let ?check = "\<lambda>forms. rbind (checkPendingStarved (fpending (hd (nest s1))) (length forms)) (\<lambda>_. ret forms)"
  have "readDelimited n rec what end start s = (case r of Inl e \<Rightarrow> (Inl e, pop_frame s1) | Inr forms \<Rightarrow> ?check forms (pop_frame s1))"
    using dl by (simp add: readDelimited_def split: sum.split)
  note eq = this
  have ch: "well n 0 (?check forms) (pop_frame s1)" for forms
    by (intro well_bind well_checkPendingStarved steadyD [OF steady_prims(1)])
  show "well n 0 (readDelimited n rec what end start) s"
  proof (cases r)
    case (Inl e)
    with eq ok show ?thesis by (auto simp: well_def)
  next
    case (Inr forms)
    with eq ok ch [of forms] show ?thesis by (auto intro: well_moved)
  qed
  show "length (input s') < length (input s)" if "readDelimited n rec what end start s = (Inr x, s')"
  proof (cases r)
    case (Inr forms)
    with that eq have "?check forms (pop_frame s1) = (Inr x, s')" by simp
    with ch [of forms] have "length (input s') \<le> length (input s1)" by (simp add: well_def)
    with ok Inr show ?thesis by auto
  qed (use that eq in simp)
qed

lemma steady_readDelimited [steady_intro]: "steady n (readDelimited n rec what end start)"
  by (simp add: steady_def readDelimited_ok)

lemma eats_readDelimited [eats_intro]: "eats (readDelimited n rec what end start)"
  by (rule eats_shrinks) (rule readDelimited_ok)

lemma steady_checkDuplicates [steady_intro]: "steady n (checkDuplicates opts start ks)"
  unfolding checkDuplicates_def by (intro steady_intro)

lemma collections [steady_intro]:
  "steady n (readList n rec start)" "steady n (readVector n rec start)" "steady n (readMapLiteral opts n rec start)"
  "steady n (readSet opts n rec start)"
  unfolding readList_def readVector_def readMapLiteral_def readSet_def by (intro steady_intro)+

lemma eats_collections [eats_intro]:
  "eats (readList n rec start)" "eats (readVector n rec start)" "eats (readMapLiteral opts n rec start)"
  unfolding readList_def readVector_def readMapLiteral_def
  by (rule eats_bind [OF eats_readDelimited, where n = n], intro steady_intro)+

subsection \<open>Wrapped forms, metadata, tags\<close>

lemma steady_readWrapped [steady_intro]: "steady n (readWrapped rec start symbol)"
  unfolding readWrapped_def by (intro steady_intro)

lemma eats_readWrapped [eats_intro]: "eats (readWrapped rec start symbol)"
  unfolding readWrapped_def by (rule eats_bind [OF eats_subform]) (intro steady_intro)

lemma steady_readMeta [steady_intro]: "steady n (readMeta rec start)"
  unfolding readMeta_def by (auto intro!: steady_intro)

lemma eats_readMeta [eats_intro]: "eats (readMeta rec start)"
  unfolding readMeta_def
  by (rule eats_cases(3), rule eats_bind [OF eats_subform, where n = n]) (auto intro!: steady_intro)

lemma steady_readUnquote [steady_intro]: "steady n (readUnquote rec start)"
  unfolding readUnquote_def by (auto intro!: steady_intro after_intro simp: steady_after [OF steady_readWrapped])

lemma eats_readUnquote [eats_intro]: "eats (readUnquote rec start)"
  unfolding readUnquote_def
  by (rule eats_read [where n = n]) (auto intro!: steady_intro after_intro simp: steady_after [OF steady_readWrapped])

lemma steady_readSymbolicValue [steady_intro]: "steady n (readSymbolicValue rec start)"
  unfolding readSymbolicValue_def by (intro steady_intro)

lemma steady_invoke_tag [steady_intro]: "steady n (invoke_tag r)"
  unfolding invoke_tag_def by (auto intro!: steady_intro split: sum.split)

lemma steady_uuid_or_inst: "uuid_or_inst start tag v = Some m \<Longrightarrow> steady n m"
  by (auto simp: uuid_or_inst_def intro!: steady_intro split: if_splits val.splits)

lemma steady_tag_value [steady_intro]: "steady n (tag_value opts start tag v)"
  by (rule steady_pointwise, unfold tag_value_def)
    (auto split: option.split intro: steady_intro steady_uuid_or_inst)

lemma steady_readTaggedLiteral [steady_intro]: "steady n (readTaggedLiteral opts rec start)"
  unfolding readTaggedLiteral_def by (intro steady_intro)

subsection \<open>Function literals\<close>

lemma steady_garg [steady_intro]: "steady n (garg i)"
proof -
  have "goes s (s\<lparr>nextID := nextID s + 1\<rparr>)" for s
    by (rule goes_same_scan) (simp_all add: same_scan_iff same_ctl_def)
  then show ?thesis by (simp add: steady_def well_def garg_def Let_def)
qed

lemma steady_fn_params [steady_intro]: "steady n (fn_params env is)"
  by (induction "is") (auto intro!: steady_intro)

text \<open>Inside a function literal an argument may be registered.\<close>

definition armed :: "nat \<Rightarrow> 'a rd \<Rightarrow> bool" where
  "armed k m \<longleftrightarrow> (\<forall>s. fnArgs s \<noteq> None \<longrightarrow> (k \<noteq> 0 \<longrightarrow> lastRune s \<noteq> None) \<longrightarrow> well n k m s)"

lemma armed_bind:
  assumes "armed k m" and "\<And>x. armed 0 (f x)"
  shows "armed k (rbind m f)"
  unfolding armed_def
proof (intro allI impI)
  fix s :: reader
  assume s: "fnArgs s \<noteq> None" "k \<noteq> 0 \<longrightarrow> lastRune s \<noteq> None"
  with assms(1) have w: "well n k m s" by (simp add: armed_def)
  show "well n k (rbind m f) s"
  proof (rule well_bind [OF w])
    fix x s'
    assume "m s = (Inr x, s')"
    with w have "goes s s'" by (simp add: well_def)
    with s have "fnArgs s' \<noteq> None" by (simp add: goes_def same_ctl_def)
    with assms(2) show "well n 0 (f x) s'" by (simp add: armed_def)
  qed
qed

lemma armed_of: "steady n m \<Longrightarrow> armed 0 m" "after n m \<Longrightarrow> armed (Suc 0) m"
  by (auto simp: armed_def steady_def after_def)

lemma armed_registerArg: "armed 0 (registerArg i)"
  unfolding armed_def
proof (intro allI impI)
  fix s :: reader
  assume s: "fnArgs s \<noteq> None"
  let ?note = "\<lambda>v. rbind (update (\<lambda>s. s\<lparr>fnArgs := Some ((i, v) # fn_args s)\<rparr>)) (\<lambda>_. ret v)"
  have "goes t (t\<lparr>fnArgs := Some ((i, v) # fn_args t)\<rparr>)" if "fnArgs t \<noteq> None" for t v
    by (rule goes_same_scan) (use that in \<open>simp_all add: same_scan_iff same_ctl_def\<close>)
  then have "armed 0 (?note v)" for v by (simp add: armed_def well_def rbind_def update_def ret_def)
  then have "armed 0 (rbind (garg i) ?note)" by (rule armed_bind [OF armed_of(1) [OF steady_garg]])
  with s have "well n 0 (rbind (garg i) ?note) s" by (simp add: armed_def)
  then show "well n 0 (registerArg i) s"
    by (cases "map_of (fn_args s) i") (auto simp: registerArg_def well_def)
qed

lemma steady_readArg [steady_intro]: "steady n (readArg opts rec start)"
  unfolding steady_def
proof
  fix s :: reader
  let ?arg = "\<lambda>v :: val. case v of
      VSym m None x \<Rightarrow> if x = ''&'' then registerArg (- 1) else errAt start ''arg literal must be %%, %%& or %%integer'' []
    | VInt i \<Rightarrow> if fits_int64 i \<and> 1 \<le> i then registerArg i else errAt start ''arg literal must be %%, %%& or %%integer'' []
    | _ \<Rightarrow> errAt start ''arg literal must be %%, %%& or %%integer'' []"
  have arg: "armed 0 (?arg v)" for v
    by (auto split: val.split option.split intro: armed_registerArg armed_of steady_intro)
  show "well n 0 (readArg opts rec start) s"
  proof (cases "fnArgs s")
    case None
    have "well n 0 (rbind (readToken PERCENT) (\<lambda>tok. interpretToken opts start (encode tok))) s"
      by (rule steadyD) (intro steady_intro)
    with None show ?thesis by (auto simp: readArg_def well_def)
  next
    case (Some env)
    obtain c s1 where rd: "Read s = (c, s1)" by fastforce
    then have s1: "fnArgs s1 \<noteq> None" using Some by (auto dest: same_ctl_Read simp: same_ctl_def)
    show ?thesis
    proof (cases c)
      case None
      have "well n 0 (registerArg 1) s1" using armed_registerArg s1 by (simp add: armed_def)
      with rd None Some show ?thesis
        by (intro well_eof [of s s1]) (simp_all add: readArg_def rbind_def readRune_def)
    next
      case [simp]: (Some d)
      let ?go = "\<lambda>_ :: unit. if isWhitespace d \<or> isTerminatingMacro d then registerArg 1 else rbind (readForm rec) ?arg"
      have "armed (Suc 0) (rbind unreadRune ?go)"
        by (rule armed_bind [OF armed_of(2) [OF after_unread]])
          (auto intro: armed_registerArg armed_bind [OF armed_of(1) [OF steady_readForm] arg])
      moreover have "lastRune s1 \<noteq> None" using rd by (auto simp: Read_def split: list.splits)
      ultimately have "well n (Suc 0) (rbind unreadRune ?go) s1" using s1 by (simp add: armed_def)
      moreover have "readArg opts rec start s = rbind unreadRune ?go s1"
        using rd \<open>fnArgs s = _\<close> by (simp add: readArg_def rbind_def [of readRune] readRune_def)
      ultimately show ?thesis using rd by (auto intro: well_step)
    qed
  qed
qed

lemma calm_readForm: "calm (readForm rec)"
  unfolding readForm_def
  by (rule calm_rbind) (auto simp: calm_def ret_def intro: goes_left rec_goes [OF surjective_pairing])

lemma calm_registerArg: "calm (registerArg i)"
  by (auto simp: calm_def registerArg_def rbind_def garg_def update_def ret_def Let_def left_def split: option.split)

lemma eats_read_calm: "(\<And>c. calm (f c)) \<Longrightarrow> eats (rbind readRune f)"
  unfolding eats_def
proof (intro allI impI)
  fix s x s'
  assume calm: "\<And>c. calm (f c)" and last: "lastRune s \<noteq> None" and r: "rbind readRune f s = (Inr x, s')"
  obtain c s1 where rd: "Read s = (c, s1)" by fastforce
  with r have "f c s1 = (Inr x, s')" by (simp add: rbind_def readRune_def)
  with calm have "left s' \<le> left s1" by (rule calm_left)
  moreover have "left s1 < left s" using rd last by (auto simp: Read_def left_def split: list.splits)
  ultimately show "left s' < left s" by simp
qed

lemma eats_readArg [eats_intro]: "eats (readArg opts rec start)"
proof -
  let ?arg = "\<lambda>c. case c of
      None \<Rightarrow> registerArg 1
    | Some c \<Rightarrow>
        rbind unreadRune (\<lambda>_.
          if isWhitespace c \<or> isTerminatingMacro c then registerArg 1
          else rbind (readForm rec) (\<lambda>n.
            case n of
              VSym m None x \<Rightarrow> if x = ''&'' then registerArg (- 1) else errAt start ''arg literal must be %%, %%& or %%integer'' []
            | VInt i \<Rightarrow> if fits_int64 i \<and> 1 \<le> i then registerArg i else errAt start ''arg literal must be %%, %%& or %%integer'' []
            | _ \<Rightarrow> errAt start ''arg literal must be %%, %%& or %%integer'' []))"
  have "eats (rbind readRune ?arg)"
    by (rule eats_read_calm)
      (auto intro!: calm_intro calm_registerArg calm_readForm split: val.split option.split)
  moreover have "eats (rbind (readToken PERCENT) (\<lambda>tok. interpretToken opts start (encode tok)))"
    by (rule eats_bind [OF eats_readToken]) (rule steady_interpretToken)
  ultimately show ?thesis by (auto simp: eats_def readArg_def)
qed

lemma after_readFnLiteral: "after n (readFnLiteral rec start)"
proof -
  let ?fn = "\<lambda>form s1. rbind (fn_params (fn_args s1) [1..<Suc (maxArg (fn_args s1))]) (\<lambda>args.
               let params = (case map_of (fn_args s1) (- 1) of None \<Rightarrow> args | Some r \<Rightarrow> args @ [VSym None None ''&'', r])
               in ret (VList None [VSym None None ''fn*'', VVec None params, form]))"
  let ?body = "rbind unreadRune (\<lambda>_. rbind (readForm rec) (\<lambda>form s1. ?fn form s1 s1))"
  have "steady n (?fn form t)" for form t
    unfolding Let_def by (intro steady_intro)
  then have "steady n (\<lambda>s1. ?fn form s1 s1)" for form
    by (rule steady_self)
  then have body: "after n ?body"
    by (rule after_unread_bind [OF steady_bind [OF steady_readForm]])
  have "well n (Suc 0) (readFnLiteral rec start) s" if last: "lastRune s \<noteq> None" for s
  proof (cases "fnArgs s")
    case (Some env)
    have "well n (Suc 0) (errAt start ''Nested #()s are not allowed'' []) s"
      by (rule well_more [OF steadyD]) (rule steady_prims)
    with Some show ?thesis by (auto simp: readFnLiteral_def well_def)
  next
    case None
    have "well n (Suc 0) ?body (s\<lparr>fnArgs := Some []\<rparr>)" using body last by (auto simp: after_def)
    then have "well n (Suc 0) (\<lambda>s. case ?body (s\<lparr>fnArgs := Some []\<rparr>) of (r, s') \<Rightarrow> (r, s'\<lparr>fnArgs := None\<rparr>)) s"
      by (rule bracket) (use None in \<open>auto simp: same_scan_iff same_ctl_def goes_def\<close>)
    then show ?thesis
      by (rule well_cong [THEN iffD1, rotated])
        (simp add: readFnLiteral_def None finally_do_def rbind_def [of "update _"] update_def split: prod.split)
  qed
  then show ?thesis by (simp add: after_def)
qed

subsection \<open>Syntax quote\<close>

lemma steady_readSyntaxQuote [steady_intro]: "steady n (readSyntaxQuote opts rec start)"
  and eats_readSyntaxQuote [eats_intro]: "eats (readSyntaxQuote opts rec start)"
proof -
  let ?body = "rbind (subform rec start ''syntax-quoted form'' []) (\<lambda>form. syntaxQuote opts start form)"
  let ?set = "\<lambda>s :: reader. s\<lparr>gensymEnv := Some [], sqDepth := sqDepth s + 1\<rparr>"
  have unfold: "readSyntaxQuote opts rec start s =
      (if maxSyntaxQuoteDepth \<le> sqDepth s
       then errAt start ''syntax-quote nested too deeply (max %d)'' [MInt (int maxSyntaxQuoteDepth)] s
       else case ?body (?set s) of (r, s') \<Rightarrow> (r, s'\<lparr>gensymEnv := gensymEnv s, sqDepth := sqDepth s' - 1\<rparr>))" for s
    by (simp add: readSyntaxQuote_def finally_do_def rbind_def [of "update _"] update_def split: prod.split)
  have body: "steady n ?body" by (intro steady_intro)
  show "steady n (readSyntaxQuote opts rec start)"
    unfolding steady_def
  proof
    fix s :: reader
    have "well n 0 (\<lambda>t. case ?body (?set t) of (r, s') \<Rightarrow> (r, s'\<lparr>gensymEnv := gensymEnv s, sqDepth := sqDepth s' - 1\<rparr>)) s"
      by (rule bracket [OF steadyD [OF body]]) (auto simp: same_scan_iff same_ctl_def goes_def)
    moreover have "well n 0 (errAt start ''syntax-quote nested too deeply (max %d)'' [MInt (int maxSyntaxQuoteDepth)] :: val rd) s"
      by (rule steadyD) (rule steady_prims)
    ultimately show "well n 0 (readSyntaxQuote opts rec start) s"
      by (simp add: well_def unfold)
  qed
  have eb: "eats ?body" by (rule eats_bind [OF eats_subform]) (rule steady_syntaxQuote)
  show "eats (readSyntaxQuote opts rec start)"
    unfolding eats_def
  proof (intro allI impI)
    fix s x s'
    assume last: "lastRune s \<noteq> None" and r: "readSyntaxQuote opts rec start s = (Inr x, s')"
    then obtain s1 where "?body (?set s) = (Inr x, s1)" "left s' = left s1"
      by (auto simp: unfold errAt_def throw_def left_def split: if_splits prod.splits)
    moreover from this last have "left s1 < left (?set s)" by (intro eatsD [OF eb]) simp_all
    ultimately show "left s' < left s" by (simp add: left_def)
  qed
qed

subsection \<open>Reader conditionals\<close>

lemma goes_add_pending: "goes s (add_pending start feats s)"
  by (rule goes_same_scan) (auto simp: same_scan_iff same_ctl_def add_pending_def nest_ext_def split: list.splits)

lemma input_add_pending: "input (add_pending start feats s) = input s"
  by (simp add: add_pending_def split: list.split)

lemma steady_starved [steady_intro]: "steady n (starved opts start splicing forms)"
  by (simp add: steady_def well_def starved_def errAt_def throw_def goes_add_pending input_add_pending)

lemma steady_select_or_elide [steady_intro]: "steady n (select_or_elide opts start splicing forms)"
  unfolding select_or_elide_def by (auto intro!: steady_intro split: selected.split option.split)

text \<open>A counter raised for the time of a read.\<close>

lemma steady_counted:
  "(\<And>x. steady n (f x)) \<Longrightarrow> steady n (rbind (update (\<lambda>s. s\<lparr>tagPreserve := tagPreserve s + 1\<rparr>)) (\<lambda>_.
     rbind (finally_do (readDelimited n rec what end start) (\<lambda>s. s\<lparr>tagPreserve := tagPreserve s - 1\<rparr>)) f))"
  "(\<And>x. steady n (f x)) \<Longrightarrow> steady n (rbind (update (\<lambda>s. s\<lparr>tagSuppress := tagSuppress s + 1\<rparr>)) (\<lambda>_.
     rbind (finally_do (readDelimited n rec what end start) (\<lambda>s. s\<lparr>tagSuppress := tagSuppress s - 1\<rparr>)) f))"
  "(\<And>x. steady n (g x)) \<Longrightarrow> steady n (rbind (update (\<lambda>s. s\<lparr>discardDepth := discardDepth s + 1\<rparr>)) (\<lambda>_.
     rbind (finally_do (subform rec start [] []) (\<lambda>s. s\<lparr>discardDepth := discardDepth s - 1\<rparr>)) g))"
  by (rule steady_bracket; auto intro!: steady_intro simp: same_scan_iff same_ctl_def goes_def)+

lemma steady_readConditional [steady_intro]: "steady n (readConditional opts n rec start spliceOK)"
proof -
  let ?body = "\<lambda>splicing. if condMode opts = condPreserve then
                    rbind (update (\<lambda>s. s\<lparr>tagPreserve := tagPreserve s + 1\<rparr>)) (\<lambda>_.
                    rbind (finally_do (readDelimited n rec ''reader conditional'' RPAREN start)
                             (\<lambda>s. s\<lparr>tagPreserve := tagPreserve s - 1\<rparr>)) (\<lambda>forms.
                    ret (Some (Form (VData (DConditional splicing) [VList None forms])))))
                  else
                    rbind (update (\<lambda>s. s\<lparr>tagSuppress := tagSuppress s + 1\<rparr>)) (\<lambda>_.
                    rbind (finally_do (readDelimited n rec ''reader conditional'' RPAREN start)
                             (\<lambda>s. s\<lparr>tagSuppress := tagSuppress s - 1\<rparr>)) (\<lambda>forms.
                    select_or_elide opts start splicing forms))"
  have body: "steady n (?body splicing)" for splicing
    by (intro steady_cases(1) steady_counted steady_select_or_elide steady_prims)
  have rest: "steady n (rbind skipWhitespace (\<lambda>_. rbind readRune (\<lambda>oc. case oc of
      None \<Rightarrow> incomplete start ''reader conditional'' []
    | Some oc \<Rightarrow> if oc \<noteq> LPAREN then errAt start ''read-cond body must be a list'' [] else ?body splicing)))" for splicing
    by (rule steady_bind [OF steady_skip(1)], rule steady_read, unfold option.case, rule steady_prims,
        rule steady_after, rule steady_cases(1), rule steady_prims, rule body)
  show ?thesis
    unfolding readConditional_def Let_def
    by (rule steady_cases(1), rule steady_prims, rule steady_read, unfold option.case, rule steady_prims,
        rule after_bind, rule after_cases(1), rule steady_after, rule steady_prims, rule after_unread,
        rule steady_cases(1), rule steady_prims, rule rest)
qed

subsection \<open>Namespaced maps\<close>

lemma qualify_keys_allowed: "qualify_keys ns es = Inl p \<Longrightarrow> allowed p"
  by (induction es) (auto simp: bindE_Inl_iff qualifyNamespacedKey_def split: val.splits option.splits if_splits dest: symbol_or_panic_allowed)

lemma steady_map_namespace [steady_intro]: "steady n (map_namespace opts start auto osym)"
  unfolding map_namespace_def by (intro steady_intro)

lemma steady_map_prefix: "steady n (rbind (subform rec start what args) (\<lambda>form.
    case form of VSym m None x \<Rightarrow> ret (Some form) | _ \<Rightarrow> errAt start fmt [MForm form]))"
  by (rule steady_bind [OF steady_subform]) (auto intro!: steady_prims split: val.split option.split)

lemma steady_readNamespacedMap [steady_intro]: "steady n (readNamespacedMap opts n rec start)"
  unfolding readNamespacedMap_def
  by (intro steady_read steady_prims after_bind after_cases after_unread after_unread_bind steady_cases(1) steady_bind steady_skip(1)
      steady_map_prefix steady_map_namespace steady_readDelimited steady_results steady_checkDuplicates
      steady_after [OF steady_bind [OF steady_readDelimited]] steady_after [OF steady_prims(1)] steady_after [OF steady_prims(4)]
      qualify_keys_allowed | simp)+

subsection \<open>Dispatch and the loop\<close>

lemma steady_formed [steady_intro]: "steady n m \<Longrightarrow> steady n (formed m)"
  unfolding formed_def by (intro steady_intro)

lemma after_formed: "after n m \<Longrightarrow> after n (formed m)"
  unfolding formed_def by (rule after_bind, assumption, rule steady_prims)

lemma eats_formed [eats_intro]: "eats m \<Longrightarrow> eats (formed m)"
  unfolding formed_def by (rule eats_bind [where n = n], assumption, rule steady_prims)

lemma dispatch_cases:
  "after n (if c = LBRACE then formed (readSet opts n rec start)
         else if c = UNDERSCORE then
           rbind (update (\<lambda>s. s\<lparr>discardDepth := discardDepth s + 1\<rparr>)) (\<lambda>_.
           rbind (finally_do (subform rec start '''' []) (\<lambda>s. s\<lparr>discardDepth := discardDepth s - 1\<rparr>)) (\<lambda>_. ret None))
         else if c = BANG then
           (if ednStrict opts then errAt start ''No dispatch macro for: !'' [] else rbind skipLine (\<lambda>_. ret None))
         else if c = LESS then errAt start ''Unreadable form'' []
         else if c = QUOTE then formed (readWrapped rec start (VSym None None ''var''))
         else if c = LPAREN then formed (readFnLiteral rec start)
         else if c = DQUOTE then formed (readRegex start)
         else if c = CARET then formed (readMeta rec start)
         else if c = HASH then formed (readSymbolicValue rec start)
         else if c = QMARK then readConditional opts n rec start spliceOK
         else if c = COLON then formed (readNamespacedMap opts n rec start)
         else if c = EQUALS then errAt start ''#= reader macro is not yet implemented (reader Phase 2)'' []
         else if isSymbolLead c then rbind unreadRune (\<lambda>_. formed (readTaggedLiteral opts rec start))
         else errAt start ''No dispatch macro for: %c'' [MInt (int c)])"
proof -
  have discard: "steady n (rbind (update (\<lambda>s. s\<lparr>discardDepth := discardDepth s + 1\<rparr>)) (\<lambda>_.
           rbind (finally_do (subform rec start '''' []) (\<lambda>s. s\<lparr>discardDepth := discardDepth s - 1\<rparr>)) (\<lambda>_. ret None)))"
    by (rule steady_counted(3)) (rule steady_prims)
  have line: "steady n (if ednStrict opts then errAt start ''No dispatch macro for: !'' [] else rbind skipLine (\<lambda>_. ret None))"
    by (intro steady_intro)
  have fn: "after n (formed (readFnLiteral rec start))"
    by (rule after_formed [OF after_readFnLiteral])
  have tag: "after n (rbind unreadRune (\<lambda>_. formed (readTaggedLiteral opts rec start)))"
    by (intro after_unread_bind steady_formed steady_readTaggedLiteral)
  show ?thesis
    by (intro after_cases(1); (rule fn | rule tag | rule steady_after [OF discard] | rule steady_after [OF line] | rule steady_after, intro steady_intro))
qed

lemma readDispatch_ok [steady_intro]: "steady n (readDispatch opts n rec start spliceOK)"
  and eats_readDispatch [eats_intro]: "eats (readDispatch opts n rec start spliceOK)"
  unfolding readDispatch_def
  by (rule steady_read eats_read, unfold option.case, rule steady_prims, rule dispatch_cases)+

text \<open>A token that starts with a digit begins by pushing it back; all else goes on behind its first rune.\<close>

lemma read_on_digit: "isDigit c \<Longrightarrow> read_on opts n rec start spliceOK c = rbind unreadRune (\<lambda>_. formed (readNumber start []))"
  by (auto simp: read_on_def isDigit_def)

lemma steady_read_on: "\<not> isDigit c \<Longrightarrow> steady n (read_on opts n rec start spliceOK c)"
  unfolding read_on_def by (intro steady_intro) (auto intro!: steady_intro)

lemma digit_number:
  assumes "lastRune s = Some c" and "isDigit c" and "rbind unreadRune (\<lambda>_. formed (readNumber start [])) s = (Inr x, s')"
  shows "left s' < left s"
proof -
  from assms(3) obtain cs where "rbind unreadRune (\<lambda>_. takeToken isMacro) s = (Inr cs, s')"
    by (auto simp: rbind_def formed_def readNumber_def Let_def ret_def throw_def errAt_def split: prod.splits sum.splits matched.splits)
  with assms(1,2) show ?thesis by (rule digit_eaten)
qed

lemma read_on_eats:
  assumes "lastRune s = Some c" and "read_on opts n rec start spliceOK c s = (Inr x, s')"
  shows "left s' < left s"
proof (cases "isDigit c")
  case True
  with assms show ?thesis by (auto intro: digit_number simp: read_on_digit)
next
  case False
  have token: "eats (rbind (if c = PLUS \<or> c = MINUS then peekIsDigit else ret False) (\<lambda>number.
          if number then formed (readNumber start (encode [c]))
          else formed (rbind (readToken c) (\<lambda>tok. interpretToken opts start (encode tok)))))"
  proof (cases "c = PLUS \<or> c = MINUS")
    case True
    then show ?thesis
      by (simp only: if_True) (rule eats_bind [OF eats_peekIsDigit, where n = n], intro steady_intro)
  next
    case False
    have "eats (formed (rbind (readToken c) (\<lambda>tok. interpretToken opts start (encode tok))))"
      by (rule eats_formed, rule eats_bind [OF eats_readToken, where n = n], intro steady_intro)
    with False show ?thesis by (simp add: eats_def rbind_def [of "ret False"] ret_def)
  qed
  have line: "eats (rbind skipLine (\<lambda>_. ret None))"
    by (rule eats_bind [OF eats_skipLine, where n = n]) (rule steady_prims)
  have digit: "isDigit c \<Longrightarrow> eats (rbind unreadRune (\<lambda>_. formed (readNumber start [])))"
    using False by simp
  have "eats (read_on opts n rec start spliceOK c)"
    unfolding read_on_def
    by (intro eats_cases(1); (rule token | rule line | erule digit | intro eats_intro))
  with assms show ?thesis by (auto intro: eatsD)
qed

lemma read_on_ok:
  assumes "lastRune s = Some c" and "read_on opts n rec start spliceOK c s = (r, s')"
  shows "goes s s'" "r = Inr x \<Longrightarrow> left s' < left s" "length (input s) < n \<Longrightarrow> r \<noteq> Inl NoFuel"
    "r = Inl (Panic p) \<Longrightarrow> allowed p" "r = Inl ErrEOF \<Longrightarrow> input s' = []"
proof -
  define m where "m = (if isDigit c then length (input s) + 2 else n)"
  have "well m (Suc 0) (read_on opts n rec start spliceOK c) s \<and> (\<not> isDigit c \<longrightarrow> well n 0 (read_on opts n rec start spliceOK c) s)"
  proof (cases "isDigit c")
    case True
    have "after m (rbind unreadRune (\<lambda>_. formed (readNumber start [])))"
      unfolding formed_def by (intro after_unread_bind steady_bind steady_readNumber steady_prims)
    with True assms(1) show ?thesis by (simp add: read_on_digit after_def)
  next
    case False
    then show ?thesis by (auto simp: m_def intro: steadyD steady_read_on well_more)
  qed
  with assms(2) show "goes s s'" "length (input s) < n \<Longrightarrow> r \<noteq> Inl NoFuel"
    "r = Inl (Panic p) \<Longrightarrow> allowed p" "r = Inl ErrEOF \<Longrightarrow> input s' = []"
    by (auto simp: well_def m_def split: if_splits)
  show "r = Inr x \<Longrightarrow> left s' < left s" using assms read_on_eats by blast
qed

text \<open>One level of fuel more.\<close>

lemma read_body_ok:
  "well (Suc n) 0 (read_body opts n rec d sp) s"
  "read_body opts n rec d sp s = (Inr x, s') \<Longrightarrow> length (input s') < length (input s)"
proof -
  define next_step where "next_step = (\<lambda>start r. case r of
             None \<Rightarrow> rec d sp
           | Some (Form f) \<Rightarrow> rbind (annotate f start) (\<lambda>f'. ret (Form f'))
           | Some obj \<Rightarrow> ret obj)"
  define on_rune where "on_rune = (\<lambda>start c. case c of None \<Rightarrow> throw ErrEOF | Some c \<Rightarrow>
     if d = Some c then ret Finished else rbind (read_on opts n rec start sp c) (next_step start))"
  have eq: "read_body opts n rec d sp = rbind skipWhitespace (\<lambda>_. rbind getPos (\<lambda>start. rbind readRune (on_rune start)))"
    unfolding read_body_def on_rune_def next_step_def by (rule refl)
  have annotate: "steady n (annotate f start)" for f start
    unfolding annotate_def by (intro steady_intro)
  have steady: "steady n (next_step start r)" for start r
    unfolding next_step_def by (auto intro!: steady_intro annotate split: option.split robj.split)
  have rest: "well (Suc n) 0 (rbind readRune (on_rune start)) t \<and>
      (\<forall>x u. rbind readRune (on_rune start) t = (Inr x, u) \<longrightarrow> length (input u) < length (input t))" for start t
  proof -
    obtain c t1 where rd: "Read t = (c, t1)" by fastforce
    then have go: "goes t t1" by (rule goes_Read)
    have m: "rbind readRune (on_rune start) t = on_rune start c t1" using rd by (simp add: rbind_def readRune_def)
    show ?thesis
    proof (cases c)
      case None
      moreover have "input t1 = []" using rd None by (auto simp: Read_def split: list.splits)
      ultimately show ?thesis using m go by (simp add: well_def on_rune_def throw_def)
    next
      case [simp]: (Some e)
      have le: "length (input t1) < length (input t)" "left t1 = length (input t)" "lastRune t1 = Some e"
        using rd by (auto dest: Read_shorter left_Read_Some) (auto simp: Read_def split: list.splits)
      show ?thesis
      proof (cases "d = Some e")
        case True
        with m go le show ?thesis by (simp add: well_def on_rune_def ret_def)
      next
        case False
        obtain r t2 where ro: "read_on opts n rec start sp e t1 = (r, t2)" by fastforce
        note ok = read_on_ok [OF le(3) ro]
        have go2: "goes t t2" using go ok(1) by (rule goes_trans)
        show ?thesis
        proof (cases r)
          case (Inl err)
          with m False ro have "rbind readRune (on_rune start) t = (Inl err, t2)" by (simp add: on_rune_def rbind_def)
          with ok le go2 Inl show ?thesis by (auto simp: well_def)
        next
          case (Inr v)
          obtain q t3 where nx: "next_step start v t2 = (q, t3)" by fastforce
          have w: "well n 0 (next_step start v) t2" using steady by (rule steadyD)
          have less: "length (input t2) < length (input t)" using ok(2) [OF Inr] le(2) left_input [of t2] by linarith
          from m False ro Inr nx have "rbind readRune (on_rune start) t = (q, t3)" by (simp add: on_rune_def rbind_def)
          with w nx less go2 show ?thesis by (auto simp: well_def dest: goes_trans)
        qed
      qed
    qed
  qed
  have body: "well (Suc n) 0 (rbind getPos (\<lambda>start. rbind readRune (on_rune start))) t" for t
    by (rule well_bind [OF steadyD [OF steady_prims(3)]]) (use rest in blast)
  show "well (Suc n) 0 (read_body opts n rec d sp) s"
    unfolding eq by (rule well_bind [OF steadyD [OF steady_skip(1)]]) (rule body)
  assume "read_body opts n rec d sp s = (Inr x, s')"
  then obtain t where t: "skipWhitespace s = (Inr (), t)" and r: "rbind readRune (on_rune (nextPos t)) t = (Inr x, s')"
    by (auto simp: eq rbind_def [of skipWhitespace] rbind_def [of getPos] getPos_def split: prod.splits sum.splits)
  have "length (input t) \<le> length (input s)" using t steadyD [OF steady_skip(1) [of 0], of s] by (auto simp: well_def)
  with r rest show "length (input s') < length (input s)" by fastforce
qed

lemma form_reader_Suc: "form_reader (Suc n) (read_body opts n rec)"
proof
  show "goes s s'" if "read_body opts n rec d sp s = (r, s')" for d sp s r s'
    using that read_body_ok(1) [of opts d sp s] by (simp add: well_def)
  show "length (input s') < length (input s)" if "read_body opts n rec d sp s = (Inr x, s')" for d sp s x s'
    using that by (rule read_body_ok(2))
  show "read_body opts n rec d sp s \<noteq> (Inl NoFuel, s')" if "length (input s) < Suc n" for d sp s s'
    using that read_body_ok(1) [of opts d sp s] by (auto simp: well_def)
  show "allowed p" if "read_body opts n rec d sp s = (Inl (Panic p), s')" for d sp s p s'
    using that read_body_ok(1) [of opts d sp s] by (simp add: well_def)
  show "input s' = []" if "read_body opts n rec d sp s = (Inl ErrEOF, s')" for d sp s s'
    using that read_body_ok(1) [of opts d sp s] by (simp add: well_def)
qed

end

lemma form_reader_readWithDelim: "form_reader n (readWithDelim opts n)"
proof (induction n)
  case 0
  show ?case by unfold_locales (auto simp: throw_def)
next
  case (Suc n)
  then show ?case by (simp add: form_reader.form_reader_Suc)
qed

interpretation rd: form_reader n "readWithDelim opts n" for n opts
  by (rule form_reader_readWithDelim)

end
