(* ===== verification/ReaderProps.thy ===== *)
theory ReaderProps
  imports FormReader
begin

text \<open>
  The properties of the reader as a whole: it always answers, what it leaves of its state, and the
  errors and panics it can end with.
\<close>

subsection \<open>Evaluation on concrete text\<close>

lemma readWithDelim_step:
  "readWithDelim opts (numeral k) d sp s = read_body opts (pred_numeral k) (readWithDelim opts (pred_numeral k)) d sp s"
  "readWithDelim opts (Suc n) d sp s = read_body opts n (readWithDelim opts n) d sp s"
  by (simp_all add: numeral_eq_Suc)

lemmas rune_eval =
  New_def rd_defs rbind_def Read_def Unread_def advance_def ascii_def encode_def encode_rune_def char_of_def bit_0 Let_def
  isWhitespace_def isDigit_def isMacro_def isTerminatingMacro_def skipWhitespace.simps takeToken.simps

lemmas reader_eval =
  rune_eval ReadString_def ReadOne_def readForm_def readWithDelim_step read_body_def read_on_def formed_def annotate_def
  readNumber_def lift_panic_def default_opts_def

lemmas number_eval =
  matchNumber_def intPat_def strip_sign_def strip_last_def some_of_def is_octal_def is_hex_def is_alnum_def digit_in_base_def
  code_def radix_form_def is_radix_def match_int_def SetString_def is_digit_def digit_val_def

lemmas form_eval =
  readSyntaxQuote_def maxSyntaxQuoteDepth_def finally_do_def subform_def readToken_def interpretToken_def matchSymbol_def
  symbolPat_def symbol_groups_def ns_group_def name_group_def NewSymbol_def isValidSymbol_def before_slash_def after_slash_def
  has_suffix_def readMeta_def readMapLiteral_def readVector_def readDelimited_def push_frame_def pop_frame_def
  checkDuplicates_def meta_map_def recordHead_def entries_of_def position_meta_def assoc_all_def
  syntaxQuote.simps isUnquote_def isUnquoteSplicing_def isSpecial_def specials_def syntaxQuoteSymbol_def symbol_or_panic_def
  bindE_def resolveSymbol_def

text \<open>Each panic but that of a tag reader does occur.\<close>

lemma base_panics: "ReadString default_opts (ascii ''1r0'') = Inl (Panic (PBase 1))"
  by (simp add: reader_eval number_eval del: readWithDelim.simps)

lemma empty_meta_panics: "ReadString default_opts (ascii ''^{} [1]'') = Inl (Panic PNilMap)"
  by (simp add: reader_eval number_eval form_eval del: readWithDelim.simps)

lemma quoted_symbol_panics: "ReadString default_opts (ascii ''`a:.'') = Inl (Panic (PSymbol ''a:''))"
  by (simp add: reader_eval number_eval form_eval del: readWithDelim.simps)

subsection \<open>One read\<close>

lemma ReadOne_ok: "well n 0 (ReadOne opts n) s"
  unfolding ReadOne_def by (rule steadyD) (rule rd.steady_readForm)

lemma ReadOne_shrinks:
  assumes "ReadOne opts n s = (Inr v, s')"
  shows "length (input s') < length (input s)"
proof -
  from assms obtain r where "readWithDelim opts n None False s = (Inr r, s')"
    by (auto simp: ReadOne_def readForm_def rbind_def ret_def split: prod.splits sum.splits)
  then show ?thesis by (rule rd.rec_eats)
qed

lemma ReadAll_answers: "length (input s) + 1 < n \<Longrightarrow> fst (ReadAll opts n s) \<noteq> Inl NoFuel"
proof (induction n arbitrary: s)
  case (Suc n)
  obtain r s1 where one: "ReadOne opts n s = (r, s1)" by fastforce
  then have nf: "r \<noteq> Inl NoFuel" using ReadOne_ok [of n opts s] Suc.prems by (auto simp: well_def)
  show ?case
  proof (cases r)
    case (Inl e)
    with one nf show ?thesis by (cases e) auto
  next
    case (Inr f)
    with one have "length (input s1) < length (input s)" by (auto dest: ReadOne_shrinks)
    with Suc.prems have "fst (ReadAll opts n s1) \<noteq> Inl NoFuel" by (intro Suc.IH) simp
    with one Inr show ?thesis by (auto simp: rbind_def ret_def split: prod.splits sum.splits)
  qed
qed simp

text \<open>C29. The reader always answers.  On every text, \<open>ReadString\<close> and \<open>ReadAll\<close> end within fuel
  just above the number of runes, whatever the options; so does every single read, which on success
  has consumed at least one rune.\<close>

theorem reader_always_answers:
  assumes "length (input s) < n"
  shows "(case ReadOne opts n s of
            (Inl e, s') \<Rightarrow> e \<noteq> NoFuel
          | (Inr v, s') \<Rightarrow> length (input s') < length (input s)) \<and>
    ReadString opts src \<noteq> Inl NoFuel \<and>
    fst (ReadAll opts (length src + 2) (New fname src)) \<noteq> Inl NoFuel"
proof (intro conjI)
  have *: "r \<noteq> Inl NoFuel" if "ReadOne opts m t = (r, t')" "length (input t) < m" for m t t' r
    using that ReadOne_ok [of m opts t] by (auto simp: well_def)
  show "case ReadOne opts n s of (Inl e, s') \<Rightarrow> e \<noteq> NoFuel | (Inr v, s') \<Rightarrow> length (input s') < length (input s)"
    using * [of n s] assms by (auto split: prod.split sum.split dest: ReadOne_shrinks)
  show "ReadString opts src \<noteq> Inl NoFuel"
    unfolding ReadString_def
    by (rule * [OF surjective_pairing]) (simp add: New_def)
  show "fst (ReadAll opts (length src + 2) (New fname src)) \<noteq> Inl NoFuel"
    by (rule ReadAll_answers) (simp add: New_def)
qed

lemma reader_always_answers_witness:
  "(case ReadOne default_opts 9 (New ''f'' (ascii ''(a #_b c'')) of
      (Inl e, s') \<Rightarrow> e \<noteq> NoFuel
    | (Inr v, s') \<Rightarrow> length (input s') < length (input (New ''f'' (ascii ''(a #_b c'')))) \<and>
   ReadString default_opts (ascii ''[1'') \<noteq> Inl NoFuel \<and>
   fst (ReadAll default_opts (length (ascii ''[1'') + 2) (New ''g'' (ascii ''[1''))) \<noteq> Inl NoFuel"
  by (rule reader_always_answers) (simp add: New_def ascii_def)

subsection \<open>A reader in use\<close>

text \<open>What a reader on a text may have become: any reads, with any outcome, one after the other.\<close>

inductive reads_from :: "ropts \<Rightarrow> string \<Rightarrow> rune list \<Rightarrow> reader \<Rightarrow> bool"
  for opts :: ropts and fname :: string and src :: "rune list" where
  start: "reads_from opts fname src (New fname src)"
| more: "reads_from opts fname src s \<Longrightarrow> reads_from opts fname src (snd (ReadOne opts n s))"

definition at_rest :: "reader \<Rightarrow> bool" where
  "at_rest s \<longleftrightarrow>
     gensymEnv s = None \<and> fnArgs s = None \<and> sqDepth s = 0 \<and> tagSuppress s = 0 \<and> tagPreserve s = 0 \<and>
     nestDepth s = 0 \<and> nest s = [] \<and> discardDepth s = 0"

lemma reads_from_goes: "reads_from opts fname src s \<Longrightarrow> goes (New fname src) s"
proof (induction rule: reads_from.induct)
  case (more s n)
  have "goes s (snd (ReadOne opts n s))"
    by (rule well_goes [OF ReadOne_ok surjective_pairing])
  with more show ?case by (auto intro: goes_trans)
qed simp



subsection \<open>Outcomes\<close>

definition known_panics :: "rpanic set" where
  "known_panics = {PNilMap} \<union> range PSymbol \<union> range PUser \<union> PBase ` ({1} \<union> {63..99})"



end
