(* ===== verification/Printer.thy ===== *)
theory Printer
  imports ReadForm
begin

text \<open>
  \<^verbatim>\<open>pkg/lang/strconv.go\<close>, with the \<^verbatim>\<open>String\<close> methods that it calls: what \<open>pr\<close>, \<open>print\<close> and
  \<open>str\<close> write for a value.  The printer is a function of the dynamic vars that steer it.
\<close>

subsection \<open>Numbers and characters\<close>

definition int_str :: "int \<Rightarrow> string" where
  "int_str n = (if n < 0 then CHR ''-'' # nat_str (nat (- n)) else nat_str (nat n))"

text \<open>\<^verbatim>\<open>BigDecimal.String\<close> of an unscaled value and a scale.\<close>

definition decimal_str :: "int \<Rightarrow> int \<Rightarrow> string" where
  "decimal_str u scale =
     (let ds = nat_str (nat \<bar>u\<bar>); n = int (length ds); adj = n - scale - 1;
          body =
            (if 0 \<le> scale \<and> - 6 \<le> adj then
               (if scale = 0 then ds
                else if scale < n then take (nat (n - scale)) ds @ ''.'' @ drop (nat (n - scale)) ds
                else ''0.'' @ replicate (nat (scale - n)) CHR ''0'' @ ds)
             else (if n = 1 then ds else take 1 ds @ ''.'' @ drop 1 ds) @
               (if 0 \<le> adj then ''E+'' @ int_str adj else ''E'' @ int_str adj))
      in if u < 0 then CHR ''-'' # body else body)"

text \<open>\<^verbatim>\<open>CharLiteralFromRune\<close>.\<close>

definition CharLiteralFromRune :: "rune \<Rightarrow> string" where
  "CharLiteralFromRune r =
     CHR 0x5C #
     (if r = 0x0A then ''newline'' else if r = 0x20 then ''space'' else if r = 0x09 then ''tab''
      else if r = 0x0C then ''formfeed'' else if r = 0x08 then ''backspace'' else if r = 0x0D then ''return''
      else encode_rune r)"

subsection \<open>Floats\<close>

text \<open>
  \<^verbatim>\<open>strconv.FormatFloat\<close> with precision \<open>- 1\<close>: the fewest decimal digits that read back as the
  same \<^verbatim>\<open>float64\<close>, and of these the nearest.  A decimal is \<open>d * 10 ^ k\<close>.
\<close>

definition decimal_fraction :: "nat \<Rightarrow> int \<Rightarrow> nat \<times> nat" where
  "decimal_fraction d k = (d * 10 ^ nat k, 10 ^ nat (- k))"

definition float_fraction :: "nat \<Rightarrow> int \<Rightarrow> nat \<times> nat" where
  "float_fraction m e = (m * 2 ^ nat e, 2 ^ nat (- e))"

text \<open>The decimal exponent of the leading digit of \<open>a / b\<close>.\<close>

function leading_zeros :: "nat \<Rightarrow> nat \<Rightarrow> nat" where
  "leading_zeros a b = (if a = 0 \<or> b \<le> a then 0 else Suc (leading_zeros (10 * a) b))"
  by auto
termination
  by (relation "measure (\<lambda>(a, b). b - a)") auto

declare leading_zeros.simps [simp del]

definition leading_exponent :: "nat \<Rightarrow> nat \<Rightarrow> int" where
  "leading_exponent a b = (if b \<le> a then int (length (nat_str (a div b))) - 1 else - int (leading_zeros a b))"

text \<open>\<open>a / b\<close> in units of \<open>10 ^ k\<close>, as a fraction.\<close>

definition in_units :: "nat \<Rightarrow> nat \<Rightarrow> int \<Rightarrow> nat \<times> nat" where
  "in_units a b k = (a * 10 ^ nat (- k), b * 10 ^ nat k)"

definition reads_back :: "f64 \<Rightarrow> nat \<Rightarrow> int \<Rightarrow> bool" where
  "reads_back f d k = (case decimal_fraction d k of (p, q) \<Rightarrow> nearest_f64 False p q = f)"

text \<open>Of the two decimals of \<open>n\<close> digits around the value, the one that reads back; the nearer if both do.\<close>

definition digits_try :: "f64 \<Rightarrow> nat \<Rightarrow> nat \<Rightarrow> nat \<Rightarrow> (nat \<times> int) option" where
  "digits_try f a b n =
     (let k = leading_exponent a b - int n + 1; (p, q) = in_units a b k; lo = p div q; near = round_half_even p q;
          far = (if near = lo then lo + 1 else lo)
      in if reads_back f near k then Some (near, k) else if reads_back f far k then Some (far, k) else None)"

primrec digits_search :: "f64 \<Rightarrow> nat \<Rightarrow> nat \<Rightarrow> nat \<Rightarrow> nat \<Rightarrow> nat \<times> int" where
  "digits_search f a b n 0 = (let k = leading_exponent a b - int n + 1; (p, q) = in_units a b k in (round_half_even p q, k))"
| "digits_search f a b n (Suc rest) =
     (case digits_try f a b n of Some r \<Rightarrow> r | None \<Rightarrow> digits_search f a b (Suc n) rest)"

fun strip_zeros :: "nat \<times> int \<Rightarrow> nat \<times> int" where
  "strip_zeros (d, k) = (if d = 0 \<or> d mod 10 \<noteq> 0 then (d, k) else strip_zeros (d div 10, k + 1))"

declare strip_zeros.simps [simp del]

text \<open>Seventeen digits are always enough for a \<^verbatim>\<open>float64\<close>.\<close>

definition shortest :: "nat \<Rightarrow> int \<Rightarrow> nat \<times> int" where
  "shortest m e = (case float_fraction m e of (a, b) \<Rightarrow> strip_zeros (digits_search (F64 False m e) a b 1 16))"

text \<open>The correctly rounded decimal of \<open>n\<close> digits: precision \<open>n - 1\<close> with verb \<^verbatim>\<open>E\<close>.\<close>

definition rounded :: "nat \<Rightarrow> int \<Rightarrow> nat \<Rightarrow> nat \<times> int" where
  "rounded m e n =
     (case float_fraction m e of
        (a, b) \<Rightarrow> let k = leading_exponent a b - int n + 1; (p, q) = in_units a b k in (round_half_even p q, k))"

text \<open>\<^verbatim>\<open>formatFloat\<close>: plain from a thousandth below ten million, else scientific, as Java does.\<close>

definition plain_text :: "nat \<times> int \<Rightarrow> string" where
  "plain_text r =
     (case r of (d, k) \<Rightarrow>
        let ds = nat_str d; n = int (length ds) in
        if 0 \<le> k then ds @ replicate (nat k) CHR ''0'' @ ''.0''
        else if - k < n then take (nat (n + k)) ds @ ''.'' @ drop (nat (n + k)) ds
        else ''0.'' @ replicate (nat (- k - n)) CHR ''0'' @ ds)"

definition scientific_text :: "nat \<times> int \<Rightarrow> string" where
  "scientific_text r =
     (case r of (d, k) \<Rightarrow>
        let ds = nat_str d in
        take 1 ds @ ''.'' @ (if length ds = 1 then ''0'' else drop 1 ds) @ ''E'' @ int_str (k + int (length ds) - 1))"

definition below :: "nat \<Rightarrow> int \<Rightarrow> nat \<Rightarrow> nat \<Rightarrow> bool" where
  "below m e p q = (case float_fraction m e of (a, b) \<Rightarrow> a * q < p * b)"

definition formatFloat :: "f64 \<Rightarrow> string" where
  "formatFloat f =
     (case f of
        FInf neg \<Rightarrow> if neg then ''-Infinity'' else ''Infinity''
      | FNaN \<Rightarrow> ''NaN''
      | F64 neg m e \<Rightarrow>
          (let sign = (if neg then ''-'' else []) in
           if m = 0 then sign @ ''0.0''
           else if below m e 1 1000 \<or> \<not> below m e 10000000 1 then
             (let r = shortest m e;
                  r' = (if m < 2 ^ 52 \<and> fst r < 10 \<and> fst (rounded m e 2) mod 10 \<noteq> 0 then rounded m e 2 else r)
              in sign @ scientific_text r')
           else sign @ plain_text (shortest m e)))"

subsection \<open>Strings\<close>

text \<open>\<^verbatim>\<open>utf8.DecodeRune\<close> on bytes, not empty: the rune and how many bytes it took.  A byte that is
  not there is 0, which continues nothing.\<close>

definition byte_at :: "nat list \<Rightarrow> nat \<Rightarrow> nat" where
  "byte_at bs i = (case drop i bs of b # _ \<Rightarrow> b | [] \<Rightarrow> 0)"

definition DecodeRune :: "nat list \<Rightarrow> nat \<times> nat" where
  "DecodeRune bs =
     (let b = byte_at bs 0; c = byte_at bs 1; d = byte_at bs 2; e = byte_at bs 3 in
      if b < 0x80 then (b, 1)
      else if 0xC2 \<le> b \<and> b \<le> 0xDF \<and> cont c then ((b - 0xC0) * 64 + (c - 0x80), 2)
      else if 0xE0 \<le> b \<and> b \<le> 0xEF \<and> cont c \<and> cont d \<and> (b = 0xE0 \<longrightarrow> 0xA0 \<le> c) \<and> (b = 0xED \<longrightarrow> c \<le> 0x9F)
        then ((b - 0xE0) * 4096 + (c - 0x80) * 64 + (d - 0x80), 3)
      else if 0xF0 \<le> b \<and> b \<le> 0xF4 \<and> cont c \<and> cont d \<and> cont e \<and> (b = 0xF0 \<longrightarrow> 0x90 \<le> c) \<and> (b = 0xF4 \<longrightarrow> c \<le> 0x8F)
        then ((b - 0xF0) * 262144 + (c - 0x80) * 4096 + (d - 0x80) * 64 + (e - 0x80), 4)
      else (0xFFFD, 1))"

definition hex_digit :: "nat \<Rightarrow> char" where
  "hex_digit d = (if d < 10 then char_of (0x30 + d) else char_of (0x61 + d - 10))"

primrec hex_str :: "nat \<Rightarrow> nat \<Rightarrow> string" where
  "hex_str 0 n = []"
| "hex_str (Suc k) n = hex_str k (n div 16) @ [hex_digit (n mod 16)]"

text \<open>\<^verbatim>\<open>unicode.IsPrint\<close> beyond ASCII is a parameter; the rest of \<^verbatim>\<open>strconv.Quote\<close> is written out.\<close>

definition IsPrint :: "(nat \<Rightarrow> bool) \<Rightarrow> nat \<Rightarrow> bool" where
  "IsPrint p r = (if r < 0x80 then 0x20 \<le> r \<and> r \<le> 0x7E else p r)"

definition escaped_rune :: "(nat \<Rightarrow> bool) \<Rightarrow> nat \<Rightarrow> string" where
  "escaped_rune p r =
     (if r = DQUOTE \<or> r = BSLASH then [CHR 0x5C, char_of r]
      else if IsPrint p r then encode_rune r
      else CHR 0x5C #
        (if r = 0x07 then ''a'' else if r = 0x08 then ''b'' else if r = 0x0C then ''f'' else if r = 0x0A then ''n''
         else if r = 0x0D then ''r'' else if r = 0x09 then ''t'' else if r = 0x0B then ''v''
         else if r < 0x20 \<or> r = 0x7F then ''x'' @ hex_str 2 r
         else if r < 0x10000 then ''u'' @ hex_str 4 r
         else ''U'' @ hex_str 8 r))"

function quote_body :: "(nat \<Rightarrow> bool) \<Rightarrow> nat list \<Rightarrow> string" where
  "quote_body p bs =
     (if bs = [] then []
      else
        let (r, w) = DecodeRune bs in
        (if w = 1 \<and> r = 0xFFFD then CHR 0x5C # ''x'' @ hex_str 2 (hd bs) else escaped_rune p r) @ quote_body p (drop w bs))"
  by auto
termination
  by (relation "measure (\<lambda>(p, bs). length bs)") (auto simp: DecodeRune_def Let_def split: if_splits)

declare quote_body.simps [simp del]

definition Quote :: "(nat \<Rightarrow> bool) \<Rightarrow> string \<Rightarrow> string" where
  "Quote p s = ''\"'' @ quote_body p (map of_char s) @ ''\"''"

subsection \<open>What steers the printer\<close>

text \<open>
  The dynamic vars but \<^verbatim>\<open>*print-level*\<close>, which the printer itself binds; the method that
  \<^verbatim>\<open>PrintDispatch\<close> finds for a value at a level, if it finds one, as what it writes; the names of
  vars; the text of functions, errors and other host objects; \<^verbatim>\<open>unicode.IsPrint\<close> beyond ASCII.
  The var \<^verbatim>\<open>print-initialized\<close> has no root, so the call of \<^verbatim>\<open>pr-on\<close> is never made.
\<close>

record pvars =
  readably :: bool
  printLengthVar :: "int option"
  printMetaVar :: bool
  namespaceMaps :: bool
  printMethod :: "int option \<Rightarrow> val \<Rightarrow> string option"
  varName :: "nat \<Rightarrow> string \<times> string"
  hostText :: "val \<Rightarrow> string"
  unicodePrint :: "nat \<Rightarrow> bool"

text \<open>\<^verbatim>\<open>printLevelStep\<close>: \<open>None\<close> when the level is used up, else the level of the contents.\<close>

definition printLevelStep :: "int option \<Rightarrow> int option option" where
  "printLevelStep lvl = (case lvl of None \<Rightarrow> Some None | Some n \<Rightarrow> if n \<le> 0 then None else Some (Some (n - 1)))"

text \<open>The loop over the elements: at most so many, then an ellipsis.\<close>

fun print_items :: "int option \<Rightarrow> int \<Rightarrow> string \<Rightarrow> string list \<Rightarrow> string" where
  "print_items lim n sep [] = []"
| "print_items lim n sep (t # ts) =
     (if (case lim of None \<Rightarrow> False | Some l \<Rightarrow> l \<le> n) then ''...''
      else t @ (if ts = [] then [] else sep) @ print_items lim (n + 1) sep ts)"

text \<open>\<^verbatim>\<open>liftableMapNS\<close>: the one namespace of all keys; empty for none.\<close>

definition key_ns :: "val \<Rightarrow> string option" where
  "key_ns k =
     (case k of
        VKw ns n \<Rightarrow> Some (case ns of None \<Rightarrow> [] | Some q \<Rightarrow> q)
      | VSym _ ns n \<Rightarrow> Some (case ns of None \<Rightarrow> [] | Some q \<Rightarrow> q)
      | _ \<Rightarrow> None)"

fun liftable_from :: "string \<Rightarrow> (val \<times> val) list \<Rightarrow> string" where
  "liftable_from ns [] = ns"
| "liftable_from ns (e # es) =
     (case key_ns (fst e) of
        None \<Rightarrow> []
      | Some q \<Rightarrow> if q = [] \<or> ns \<noteq> [] \<and> q \<noteq> ns then [] else liftable_from q es)"

definition liftableMapNS :: "(val \<times> val) list \<Rightarrow> string" where
  "liftableMapNS es = liftable_from [] es"

text \<open>The name of a key whose namespace has moved to the prefix.\<close>

fun bare_key :: "val \<Rightarrow> string" where
  "bare_key (VKw ns n) = '':'' @ n"
| "bare_key (VSym m ns n) = n"
| "bare_key _ = []"

subsection \<open>Values without contents\<close>

definition big_suffix :: "pvars \<Rightarrow> string" where
  "big_suffix pv = (if readably pv then ''N'' else [])"

definition literal_text :: "pvars \<Rightarrow> literal \<Rightarrow> string" where
  "literal_text pv l =
     (case l of
        LChar c \<Rightarrow> if readably pv then CharLiteralFromRune c else encode_rune c
      | LBigInt n \<Rightarrow> int_str n @ big_suffix pv
      | LRatio p q \<Rightarrow> int_str p @ ''/'' @ int_str q
      | LDecimal u s \<Rightarrow> decimal_str u s @ (if readably pv then ''M'' else [])
      | LFloat f \<Rightarrow> (case f of FInf neg \<Rightarrow> if neg then ''##-Inf'' else ''##Inf'' | FNaN \<Rightarrow> ''##NaN'' | _ \<Rightarrow> formatFloat f)
      | LRegex i p \<Rightarrow> ''#\"'' @ p @ ''\"''
      | LUUID s \<Rightarrow> ''#uuid \"'' @ s @ ''\"''
      | LInst s t \<Rightarrow> ''#inst \"'' @ s @ ''\"'')"

definition var_text :: "pvars \<Rightarrow> nat \<Rightarrow> string" where
  "var_text pv k = fst (varName pv k) @ ''/'' @ snd (varName pv k)"

definition leaf_text :: "pvars \<Rightarrow> val \<Rightarrow> string" where
  "leaf_text pv v =
     (case v of
        VNil \<Rightarrow> ''nil''
      | VBool b \<Rightarrow> if b then ''true'' else ''false''
      | VInt n \<Rightarrow> int_str n @ (if fits_int64 n then [] else big_suffix pv)
      | VLit l \<Rightarrow> literal_text pv l
      | VStr s \<Rightarrow> if readably pv then Quote (unicodePrint pv) s else s
      | VKw ns n \<Rightarrow> '':'' @ kw_string ns n
      | VSym _ ns n \<Rightarrow> FullName v
      | VVar k \<Rightarrow> ''#=(var '' @ var_text pv k @ '')''
      | VUnbound k \<Rightarrow> ''Unbound: #'' @ CHR 0x27 # var_text pv k
      | VNs n \<Rightarrow> n
      | _ \<Rightarrow> hostText pv v)"

subsection \<open>The printer\<close>

text \<open>\<^verbatim>\<open>printMetaPrefix\<close>: what is printed behind the caret; a single tag stands for itself.\<close>

definition meta_form :: "pvars \<Rightarrow> val \<Rightarrow> val option" where
  "meta_form pv v =
     (if \<not> readably pv \<or> \<not> printMetaVar pv then None
      else case form_meta v of
        None \<Rightarrow> None
      | Some m \<Rightarrow>
          if m = [] then None
          else if length m = 1 \<and> is_truthy (meta_get m ''tag'') then Some (meta_get m ''tag'')
          else Some (VMap None m))"

text \<open>Metadata and contents rank below their value.\<close>

definition rank :: "val \<Rightarrow> nat" where
  "rank v = 2 * size v + of_bool (form_meta v \<noteq> None)"

lemma size_meta_get: "size (meta_get m k) \<le> size_list (size_prod size size) m"
  by (induction m k rule: meta_get.induct) (simp_all add: le_SucI trans_le_add2)

lemma rank_meta: "meta_form pv v = Some m \<Longrightarrow> rank m < rank v"
proof -
  assume "meta_form pv v = Some m"
  then obtain es where es: "form_meta v = Some es" and m: "m = meta_get es ''tag'' \<or> m = VMap None es"
    by (auto simp: meta_form_def split: if_splits option.splits)
  have "size_list (size_prod size size) es < size v" "size (VMap None es) \<le> size v" using es by (cases v; simp)+
  with m es size_meta_get [of es "''tag''"] show ?thesis by (auto simp: rank_def)
qed

lemma rank_elem: "x \<in> set xs \<Longrightarrow> rank x < 2 * size_list size xs"
  by (induction xs) (auto simp: rank_def)

lemma rank_entry:
  "e \<in> set es \<Longrightarrow> rank (fst e) < 2 * size_list (size_prod size size) es"
  "e \<in> set es \<Longrightarrow> rank (snd e) < 2 * size_list (size_prod size size) es"
  by (induction es) (auto simp: rank_def)

lemma rank_coll:
  "2 * size_list size xs < rank (VList m xs)" "2 * size_list size xs < rank (VVec m xs)" "2 * size_list size xs < rank (VSet m xs)"
  "2 * size_list size xs < rank (VData k xs)" "2 * size_list (size_prod size size) es < rank (VMap m es)"
  by (simp_all add: rank_def)

text \<open>\<^verbatim>\<open>Print\<close> with \<^verbatim>\<open>PrintNative\<close>, which only it calls.\<close>

function Print :: "pvars \<Rightarrow> int option \<Rightarrow> val \<Rightarrow> string" where
  "Print pv lvl v =
     (case (if v = VNil then None else printMethod pv lvl v) of
        Some t \<Rightarrow> t
      | None \<Rightarrow>
          (case meta_form pv v of None \<Rightarrow> [] | Some m \<Rightarrow> ''^'' @ Print pv lvl m @ '' '') @
          (case v of
             VList _ xs \<Rightarrow>
               (case printLevelStep lvl of
                  None \<Rightarrow> ''#''
                | Some l \<Rightarrow> ''('' @ print_items (printLengthVar pv) 0 '' '' (map (Print pv l) xs) @ '')'')
           | VVec _ xs \<Rightarrow>
               (case printLevelStep lvl of
                  None \<Rightarrow> ''#''
                | Some l \<Rightarrow> ''['' @ print_items (printLengthVar pv) 0 '' '' (map (Print pv l) xs) @ '']'')
           | VSet _ xs \<Rightarrow>
               (case printLevelStep lvl of
                  None \<Rightarrow> ''#''
                | Some l \<Rightarrow> ''#{'' @ print_items (printLengthVar pv) 0 '' '' (map (Print pv l) xs) @ ''}'')
           | VMap _ es \<Rightarrow>
               (case printLevelStep lvl of
                  None \<Rightarrow> ''#''
                | Some l \<Rightarrow>
                    let lifted = (if readably pv \<and> namespaceMaps pv then liftableMapNS es else []) in
                    (if lifted = [] then ''{'' else ''#:'' @ lifted @ ''{'') @
                    print_items (printLengthVar pv) 0 '', ''
                      (map (\<lambda>e. (if lifted = [] then Print pv l (fst e) else bare_key (fst e)) @ '' '' @ Print pv l (snd e)) es) @
                    ''}'')
           | VData k xs \<Rightarrow>
               (case (k, map (Print pv lvl) xs) of
                  (DOk, [t]) \<Rightarrow> ''#cljgo/ok '' @ t
                | (DErr, [t]) \<Rightarrow> ''#cljgo/err '' @ t
                | (DJust, [t]) \<Rightarrow> ''#cljgo/just '' @ t
                | (DTagged, [t, u]) \<Rightarrow> ''#'' @ t @ '' '' @ u
                | (DConditional splicing, [t]) \<Rightarrow> ''#?'' @ (if splicing then ''@'' else []) @ t
                | _ \<Rightarrow> ''none'')
           | _ \<Rightarrow> leaf_text pv v))"
  by auto
termination
  by (relation "measure (\<lambda>(pv, lvl, v). rank v)")
    (auto simp: rank_meta split: if_splits dest: rank_elem rank_entry intro: less_trans [OF _ rank_coll(1)] less_trans [OF _ rank_coll(2)]
      less_trans [OF _ rank_coll(3)] less_trans [OF _ rank_coll(4)] less_trans [OF _ rank_coll(5)])

declare Print.simps [simp del]

subsection \<open>Its callers\<close>

text \<open>\<open>str\<close>: \<^verbatim>\<open>ToString\<close>, where collections print as \<open>pr\<close> does and scalars bare.\<close>

definition ToString :: "pvars \<Rightarrow> int option \<Rightarrow> val \<Rightarrow> string" where
  "ToString pv lvl v =
     (case v of
        VStr s \<Rightarrow> s
      | VLit (LChar c) \<Rightarrow> encode_rune c
      | VLit (LFloat f) \<Rightarrow> formatFloat f
      | VLit (LBigInt n) \<Rightarrow> int_str n
      | VLit (LDecimal u s) \<Rightarrow> decimal_str u s
      | VLit (LUUID s) \<Rightarrow> s
      | VLit l \<Rightarrow> literal_text pv l
      | VInt n \<Rightarrow> int_str n
      | VVar k \<Rightarrow> ''#'' @ CHR 0x27 # var_text pv k
      | VList _ xs \<Rightarrow> if xs = [] then ''()'' else Print pv lvl v
      | VVec _ _ \<Rightarrow> Print pv lvl v
      | VMap _ _ \<Rightarrow> Print pv lvl v
      | VSet _ _ \<Rightarrow> Print pv lvl v
      | VData DTagged _ \<Rightarrow> ''#object[*lang.TaggedLiteral]''
      | VData (DConditional _) _ \<Rightarrow> ''#object[*lang.ReaderConditional]''
      | VData k [x] \<Rightarrow> (case k of DOk \<Rightarrow> ''#cljgo/ok '' | DErr \<Rightarrow> ''#cljgo/err '' | _ \<Rightarrow> ''#cljgo/just '') @ Print pv lvl x
      | VData _ _ \<Rightarrow> ''none''
      | _ \<Rightarrow> leaf_text pv v)"

definition PrintString :: "pvars \<Rightarrow> int option \<Rightarrow> val \<Rightarrow> string" where
  "PrintString pv lvl v = Print pv lvl v"

definition PrintStringReadably :: "pvars \<Rightarrow> int option \<Rightarrow> val \<Rightarrow> bool \<Rightarrow> string" where
  "PrintStringReadably pv lvl v b = Print (pv\<lparr>readably := b\<rparr>) lvl v"

definition PrintSimple :: "pvars \<Rightarrow> int option \<Rightarrow> val \<Rightarrow> string" where
  "PrintSimple pv lvl v =
     (case meta_form pv v of None \<Rightarrow> [] | Some m \<Rightarrow> ''^'' @ Print pv lvl m @ '' '') @ ToString pv lvl v"

end
