(* ===== verification/PrintRead.thy ===== *)
theory PrintRead
  imports Printer FormReader
begin

text \<open>
  What the printer writes readably, the reader reads back: for every kind of token and collection
  first, then for data of any depth.
\<close>

subsection \<open>Values without their metadata\<close>

fun plain :: "val \<Rightarrow> val" where
  "plain (VSym m ns n) = VSym None ns n"
| "plain (VList m xs) = VList None (map plain xs)"
| "plain (VVec m xs) = VVec None (map plain xs)"
| "plain (VSet m xs) = VSet None (map plain xs)"
| "plain (VMap m es) = VMap None (map (\<lambda>e. (plain (fst e), plain (snd e))) es)"
| "plain (VData k xs) = VData k (map plain xs)"
| "plain v = v"

lemma plain_with_meta [simp]: "plain (with_meta m v) = plain v"
  by (cases v) auto

text \<open>Equality does not see metadata.\<close>

lemma first_match_map: "first_match p q (map f xs) = first_match (\<lambda>x. p (f x)) (\<lambda>x. q (f x)) xs"
  by (induction xs) auto

lemma plain_VInt [simp]: "plain k = VInt n \<longleftrightarrow> k = VInt n"
  by (cases k) auto

lemma int_key_plain [simp]: "int_key (plain k) = int_key k"
  by (cases k) (simp_all add: int_key_def)

lemma vec_entry_plain: "vec_entry (map plain ys) (plain k) = map_option plain (vec_entry ys k)"
  by (auto simp: vec_entry_def split: option.split)

lemma Equiv_plain: "Equiv (plain a) (plain b) \<longleftrightarrow> Equiv a b"
proof (induction a arbitrary: b rule: measure_induct_rule [of size])
  case (less a)
  have seq: "list_all2 Equiv (map plain xs) (map plain ys) = list_all2 Equiv xs ys" if "\<And>x. x \<in> set xs \<Longrightarrow> size x < size a" for xs ys
    using that less by (auto simp: list_all2_conv_all_nth)
  show ?case
  proof (cases a)
    case (VMap m es)
    have *: "Equiv (plain (fst e)) (plain c) = Equiv (fst e) c" "Equiv (plain (snd e)) (plain c) = Equiv (snd e) c" if "e \<in> set es" for e c
      using less that VMap by auto
    show ?thesis
    proof (cases b)
      case (VMap m' fs)
      with \<open>a = _\<close> * show ?thesis by (simp add: Equiv_simps first_match_map)
    next
      case (VVec m' ys)
      with \<open>a = _\<close> * show ?thesis
        by (auto simp: Equiv_simps vec_entry_plain split: option.splits)
    qed (use VMap in \<open>simp_all add: Equiv_simps\<close>)
  next
    case (VSet m xs)
    then show ?thesis using less by (cases b) (auto simp: Equiv_simps)
  next
    case (VList m xs)
    with seq [of xs] show ?thesis by (cases b) (auto simp: Equiv_simps)
  next
    case (VVec m xs)
    with seq [of xs] show ?thesis by (cases b) (auto simp: Equiv_simps)
  next
    case (VData k xs)
    with seq [of xs] show ?thesis by (cases b) (auto simp: Equiv_simps)
  qed (cases b; simp add: Equiv_simps)+
qed

subsection \<open>ASCII text\<close>

definition is_ascii :: "string \<Rightarrow> bool" where
  "is_ascii t \<longleftrightarrow> (\<forall>c\<in>set t. of_char c < (0x80 :: nat))"

lemma is_ascii_simps [simp]:
  "is_ascii []" "is_ascii (c # t) \<longleftrightarrow> of_char c < (0x80 :: nat) \<and> is_ascii t" "is_ascii (t @ u) \<longleftrightarrow> is_ascii t \<and> is_ascii u"
  by (auto simp: is_ascii_def)

lemma decode_ascii: "is_ascii t \<Longrightarrow> decode t = ascii t"
  by (induction t) (auto simp: decode_def ascii_def)

lemma encode_ascii: "is_ascii t \<Longrightarrow> encode (ascii t) = t"
  by (induction t) (auto simp: encode_def ascii_def encode_rune_def)

lemma ascii_simps [simp]:
  "ascii [] = []" "ascii (c # t) = of_char c # ascii t" "ascii (t @ u) = ascii t @ ascii u" "ascii t = [] \<longleftrightarrow> t = []"
  by (simp_all add: ascii_def)

subsection \<open>Reading one token\<close>

text \<open>A step that consumes text and leaves the control state.\<close>

definition kept :: "reader \<Rightarrow> rune list \<Rightarrow> reader \<Rightarrow> bool" where
  "kept s rest s' \<longleftrightarrow> input s' = rest \<and> nest s' = nest s \<and> tagPreserve s' = tagPreserve s"

lemma kept_trans: "kept s r s' \<Longrightarrow> kept s' r' s'' \<Longrightarrow> kept s r' s''"
  by (simp add: kept_def)

text \<open>The end of a token: the end of input, whitespace, or what closes a collection.\<close>

definition ends :: "rune list \<Rightarrow> bool" where
  "ends rest \<longleftrightarrow> rest = [] \<or> isWhitespace (hd rest) \<or> hd rest \<in> {RPAREN, RBRACK, RBRACE}"

lemma readRune_Cons:
  assumes "input s = c # cs"
  shows "\<exists>s'. readRune s = (Inr (Some c), s') \<and> Read s = (Some c, s') \<and> kept s cs s' \<and> lastRune s' = Some c"
  using assms by (auto simp: readRune_def Read_def kept_def)

lemma unreadRune_Some:
  assumes "lastRune s = Some c"
  shows "\<exists>s'. unreadRune s = (Inr (), s') \<and> kept s (c # input s) s'"
  using assms by (auto simp: unreadRune_def Unread_def kept_def)

lemma takeToken_exact:
  assumes "\<forall>x\<in>set cs. \<not> isWhitespace x \<and> \<not> stop x" and "rest = [] \<or> isWhitespace (hd rest) \<or> stop (hd rest)"
    and "input s = cs @ rest"
  shows "\<exists>s'. takeToken stop s = (Inr cs, s') \<and> kept s rest s'"
  using assms
proof (induction cs arbitrary: s)
  case Nil
  show ?case
  proof (cases rest)
    case Nil
    with \<open>input s = _\<close> show ?thesis
      by (subst takeToken.simps) (simp add: Read_def kept_def)
  next
    case (Cons c rs)
    with Nil obtain s1 where rd: "Read s = (Some c, s1)" "kept s rs s1" "lastRune s1 = Some c"
      using readRune_Cons [of s c rs] by auto
    then obtain s2 where "unreadRune s1 = (Inr (), s2)" "kept s1 (c # rs) s2"
      using unreadRune_Some [of s1 c] by (auto simp: kept_def)
    with rd Nil Cons show ?thesis
      by (subst takeToken.simps) (auto simp: rbind_def ret_def kept_def)
  qed
next
  case (Cons c cs)
  then obtain s1 where rd: "Read s = (Some c, s1)" "kept s (cs @ rest) s1"
    using readRune_Cons [of s c "cs @ rest"] by auto
  moreover from this Cons.IH [of s1] Cons.prems obtain s2 where "takeToken stop s1 = (Inr cs, s2)" "kept s1 rest s2"
    by (auto simp: kept_def)
  ultimately show ?case
    using Cons.prems by (subst takeToken.simps) (auto simp: rbind_def ret_def kept_def)
qed

lemma skipWhitespace_exact:
  assumes "list_all isWhitespace ws" and "\<not> isWhitespace c" and "input s = ws @ c # cs"
  shows "\<exists>s'. skipWhitespace s = (Inr (), s') \<and> kept s (c # cs) s'"
  using assms
proof (induction ws arbitrary: s)
  case Nil
  then obtain s1 where rd: "Read s = (Some c, s1)" "kept s cs s1" "lastRune s1 = Some c"
    using readRune_Cons [of s c cs] by auto
  then obtain s2 where "unreadRune s1 = (Inr (), s2)" "kept s1 (c # cs) s2"
    using unreadRune_Some [of s1 c] by (auto simp: kept_def)
  with rd Nil show ?case by (subst skipWhitespace.simps) (auto simp: kept_def)
next
  case (Cons w ws)
  then obtain s1 where rd: "Read s = (Some w, s1)" "kept s (ws @ c # cs) s1"
    using readRune_Cons [of s w "ws @ c # cs"] by auto
  moreover from this Cons.IH [of s1] Cons.prems obtain s2 where "skipWhitespace s1 = (Inr (), s2)" "kept s1 (c # cs) s2"
    by (auto simp: kept_def)
  ultimately show ?case using Cons.prems by (subst skipWhitespace.simps) (auto simp: kept_def)
qed

subsection \<open>Reading one form\<close>

definition plain_opts :: "ropts \<Rightarrow> bool" where
  "plain_opts opts \<longleftrightarrow> \<not> ednStrict opts \<and> tagReaders opts = (\<lambda>_. None) \<and> dataReader opts = (\<lambda>_. None)"

text \<open>Wherever the text stands the reader reads the value, up to metadata, and stops behind the text.\<close>

definition reads :: "ropts \<Rightarrow> string \<Rightarrow> val \<Rightarrow> bool" where
  "reads opts t v \<longleftrightarrow>
     (\<forall>n d sp s ws rest.
        list_all isWhitespace ws \<longrightarrow> ends rest \<longrightarrow> input s = ws @ ascii t @ rest \<longrightarrow> length (input s) < n \<longrightarrow>
        d \<in> {None, Some RPAREN, Some RBRACK, Some RBRACE} \<longrightarrow> tagPreserve s = 0 \<longrightarrow>
        (\<exists>w s'. readWithDelim opts n d sp s = (Inr (Form w), s') \<and> plain w = plain v \<and> kept s rest s'))"

lemma readsD:
  assumes "reads opts t v" and "list_all isWhitespace ws" and "ends rest" and "input s = ws @ ascii t @ rest"
    and "length (input s) < n" and "d \<in> {None, Some RPAREN, Some RBRACK, Some RBRACE}" and "tagPreserve s = 0"
  obtains w s' where "readWithDelim opts n d sp s = (Inr (Form w), s')" "plain w = plain v" "kept s rest s'"
  using assms unfolding reads_def by blast

lemma annotate_plain: "\<exists>w. annotate f start s = (Inr w, s) \<and> plain w = plain f"
  by (auto simp: annotate_def rbind_def getPos_def ret_def)

text \<open>What remains once whitespace and the first rune are read.\<close>

lemma readsI:
  assumes first: "\<not> isWhitespace (of_char c)" "of_char c \<notin> {RPAREN, RBRACK, RBRACE}"
    and on: "\<And>m start sp s rest. ends rest \<Longrightarrow> input s = ascii t @ rest \<Longrightarrow> lastRune s = Some (of_char c) \<Longrightarrow>
      length (input s) < m \<Longrightarrow> tagPreserve s = 0 \<Longrightarrow>
      \<exists>w s'. read_on opts m (readWithDelim opts m) start sp (of_char c) s = (Inr (Some (Form w)), s') \<and> plain w = plain v \<and> kept s rest s'"
  shows "reads opts (c # t) v"
  unfolding reads_def
proof (intro allI impI)
  fix n d sp and s :: reader and ws rest
  assume ws: "list_all isWhitespace ws" and "ends rest" and inp: "input s = ws @ ascii (c # t) @ rest"
    and n: "length (input s) < n" and d: "d \<in> {None, Some RPAREN, Some RBRACK, Some RBRACE}" and tp: "tagPreserve s = 0"
  obtain m where m: "n = Suc m" using n by (cases n) auto
  obtain s1 where s1: "skipWhitespace s = (Inr (), s1)" "kept s (of_char c # ascii t @ rest) s1"
    using skipWhitespace_exact [OF ws first(1)] inp by auto
  then obtain s2 where s2: "readRune s1 = (Inr (Some (of_char c)), s2)" "kept s1 (ascii t @ rest) s2" "lastRune s2 = Some (of_char c)"
    using readRune_Cons [of s1 "of_char c" "ascii t @ rest"] by (auto simp: kept_def)
  have "\<exists>w s'. read_on opts m (readWithDelim opts m) (nextPos s1) sp (of_char c) s2 = (Inr (Some (Form w)), s') \<and>
      plain w = plain v \<and> kept s2 rest s'"
    by (rule on [OF \<open>ends rest\<close>]) (use s1 s2 inp n m tp in \<open>auto simp: kept_def\<close>)
  then obtain w s3 where on: "read_on opts m (readWithDelim opts m) (nextPos s1) sp (of_char c) s2 = (Inr (Some (Form w)), s3)"
    "plain w = plain v" "kept s2 rest s3" by blast
  obtain w' where w': "annotate w (nextPos s1) s3 = (Inr w', s3)" "plain w' = plain w" using annotate_plain by blast
  have "d \<noteq> Some (of_char c)" using d first(2) by auto
  then have "readWithDelim opts n d sp s = (Inr (Form w'), s3)"
    using s1(1) s2(1) on(1) w'(1) by (simp add: m read_body_def rbind_def getPos_def ret_def)
  moreover have "kept s rest s3" using s1(2) s2(2) on(3) by (simp add: kept_def)
  ultimately show "\<exists>w s'. readWithDelim opts n d sp s = (Inr (Form w), s') \<and> plain w = plain v \<and> kept s rest s'"
    using on(2) w'(2) by auto
qed

subsection \<open>Symbols and keywords\<close>

definition constituent :: "char \<Rightarrow> bool" where
  "constituent c \<longleftrightarrow>
     (0x21 :: nat) \<le> of_char c \<and> of_char c \<le> (0x7E :: nat) \<and> \<not> isWhitespace (of_char c) \<and> \<not> isTerminatingMacro (of_char c)"

text \<open>The parts of names: no slash or colon inside, no digit in front.\<close>

definition name_ok :: "string \<Rightarrow> bool" where
  "name_ok n \<longleftrightarrow> n \<noteq> [] \<and> list_all constituent n \<and> CHR ''/'' \<notin> set n \<and> CHR '':'' \<notin> set n \<and> \<not> is_digit (hd n)"

definition names_ok :: "string option \<Rightarrow> string \<Rightarrow> bool" where
  "names_ok ns n \<longleftrightarrow> name_ok n \<and> (case ns of None \<Rightarrow> True | Some q \<Rightarrow> name_ok q)"

text \<open>A symbol is no macro, no sign of a number and none of the three reserved words.\<close>

definition symbol_ok :: "string option \<Rightarrow> string \<Rightarrow> bool" where
  "symbol_ok ns n \<longleftrightarrow>
     names_ok ns n \<and> \<not> isMacro (of_char (hd (kw_string ns n))) \<and>
     (hd (kw_string ns n) \<in> {CHR ''+'', CHR ''-''} \<longrightarrow>
        (case tl (kw_string ns n) of [] \<Rightarrow> True | d # _ \<Rightarrow> \<not> is_digit d)) \<and>
     kw_string ns n \<notin> {''nil'', ''true'', ''false''}"

lemma char_code: "of_char c = (k :: nat) \<Longrightarrow> c = char_of k"
  by auto

lemma digit_rune: "isDigit (of_char c) \<longleftrightarrow> is_digit c"
  by (simp add: isDigit_def is_digit_def)

lemma constituent_ascii: "list_all constituent t \<Longrightarrow> is_ascii t"
  by (induction t) (auto simp: constituent_def)

lemma constituent_rune: "constituent c \<Longrightarrow> \<not> isWhitespace (of_char c) \<and> \<not> isTerminatingMacro (of_char c)"
  by (simp add: constituent_def)

lemma ends_stop: "ends rest \<Longrightarrow> rest = [] \<or> isWhitespace (hd rest) \<or> isTerminatingMacro (hd rest)"
  by (auto simp: ends_def isTerminatingMacro_def isMacro_def)

lemma ends_no_digit: "ends rest \<Longrightarrow> rest = [] \<or> \<not> isDigit (hd rest)"
  by (auto simp: ends_def isDigit_def isWhitespace_def)

lemma peekIsDigit_no:
  assumes "input s = [] \<or> \<not> isDigit (hd (input s))"
  shows "\<exists>s'. peekIsDigit s = (Inr False, s') \<and> kept s (input s) s'"
proof (cases "input s")
  case Nil
  then show ?thesis by (simp add: peekIsDigit_def rbind_def readRune_def Read_def ret_def kept_def)
next
  case (Cons c cs)
  then obtain s1 where s1: "readRune s = (Inr (Some c), s1)" "kept s cs s1" "lastRune s1 = Some c"
    using readRune_Cons [of s c cs] by auto
  then obtain s2 where "unreadRune s1 = (Inr (), s2)" "kept s1 (c # cs) s2"
    using unreadRune_Some [of s1 c] by (auto simp: kept_def)
  with s1 Cons assms show ?thesis by (simp add: peekIsDigit_def rbind_def ret_def kept_def)
qed

lemma reads_token:
  assumes c: "constituent c" "\<not> isMacro (of_char c)" "\<not> is_digit c" and t: "list_all constituent t"
    and sign: "c \<in> {CHR ''+'', CHR ''-''} \<Longrightarrow> case t of [] \<Rightarrow> True | d # _ \<Rightarrow> \<not> is_digit d"
    and tok: "\<And>start. interpretToken opts start (c # t) = ret v"
  shows "reads opts (c # t) v"
proof (rule readsI)
  show "\<not> isWhitespace (of_char c)" using c(1) by (simp add: constituent_def)
  show "of_char c \<notin> {RPAREN, RBRACK, RBRACE}" using c(2) by (auto simp: isMacro_def)
  fix m start sp and s :: reader and rest
  assume "ends rest" and inp: "input s = ascii t @ rest"
  let ?tail = "\<lambda>number. if number then formed (readNumber start (encode [of_char c]))
          else formed (rbind (readToken (of_char c)) (\<lambda>tok. interpretToken opts start (encode tok)))"
  have on: "read_on opts m (readWithDelim opts m) start sp (of_char c) =
      rbind (if of_char c = PLUS \<or> of_char c = MINUS then peekIsDigit else ret False) ?tail"
    using c(2,3) by (simp add: read_on_def isMacro_def digit_rune)
  have "\<exists>s1. (if of_char c = PLUS \<or> of_char c = MINUS then peekIsDigit else ret False) s = (Inr False, s1) \<and> kept s (input s) s1"
  proof (cases "of_char c = PLUS \<or> of_char c = MINUS")
    case True
    then have "c \<in> {CHR ''+'', CHR ''-''}" by (auto dest!: char_code simp: char_of_def bit_0)
    with sign \<open>ends rest\<close> inp have "input s = [] \<or> \<not> isDigit (hd (input s))"
      using ends_no_digit by (cases t) (auto simp: digit_rune)
    from peekIsDigit_no [OF this] True show ?thesis by simp
  qed (simp add: ret_def kept_def)
  then obtain s1 where s1: "(if of_char c = PLUS \<or> of_char c = MINUS then peekIsDigit else ret False) s = (Inr False, s1)"
    "kept s (ascii t @ rest) s1" using inp by auto
  obtain s2 where "takeToken isTerminatingMacro s1 = (Inr (ascii t), s2)" "kept s1 rest s2"
    using takeToken_exact [of "ascii t" isTerminatingMacro rest s1] t constituent_rune ends_stop [OF \<open>ends rest\<close>] s1(2)
    by (auto simp: ascii_def list_all_iff kept_def)
  moreover have "encode (of_char c # ascii t) = c # t"
    using encode_ascii [OF constituent_ascii, of "c # t"] c(1) t by simp
  ultimately show "\<exists>w s'. read_on opts m (readWithDelim opts m) start sp (of_char c) s = (Inr (Some (Form w)), s') \<and>
      plain w = plain v \<and> kept s rest s'"
    using s1 tok by (auto simp: on rbind_def [of "if _ then _ else _"] formed_def readToken_def rbind_def ret_def kept_def)
qed

lemma find_in: "find P xs = Some x \<Longrightarrow> x \<in> set xs"
  by (induction xs) (auto split: if_splits)

lemma symbol_groups_Some: "symbol_groups t = Some (p, q) \<Longrightarrow> p @ q = t"
  unfolding symbol_groups_def by (drule find_in) (auto simp del: upt_Suc)

lemma symbol_groups_exist:
  assumes "names_ok ns n"
  shows "symbol_groups (kw_string ns n) \<noteq> None"
proof -
  let ?t = "kw_string ns n" and ?i = "case ns of None \<Rightarrow> 0 | Some q \<Rightarrow> Suc (length q)"
  have "name_group n" using assms by (auto simp: names_ok_def name_ok_def name_group_def)
  moreover have "ns_group (q @ ''/'')" if "ns = Some q" for q
    using assms that by (cases q) (auto simp: names_ok_def name_ok_def ns_group_def list_all_iff constituent_def isWhitespace_def)
  ultimately have "ns_group (take ?i ?t) \<and> name_group (drop ?i ?t)"
    by (cases ns) (auto simp: kw_string_def ns_group_def)
  moreover have "(take ?i ?t, drop ?i ?t) \<in> set (map (\<lambda>i. (take i ?t, drop i ?t)) (rev [0..<Suc (length ?t)]))"
    by (rule image_eqI [of _ _ ?i, THEN set_map [THEN equalityD2, THEN subsetD]]) (auto simp: kw_string_def split: option.split)
  ultimately show ?thesis
    unfolding symbol_groups_def find_None_iff by (metis (mono_tags, lifting) case_prodI)
qed

lemma no_double_colon: "CHR '':'' \<notin> set t \<Longrightarrow> \<not> double_colon t"
  by (induction t rule: double_colon.induct) auto

lemma names_ok_text:
  assumes "names_ok ns n"
  shows "CHR '':'' \<notin> set (kw_string ns n)" "list_all constituent (kw_string ns n)" "kw_string ns n \<noteq> []" "\<not> is_digit (hd (kw_string ns n))"
  using assms by (auto simp: names_ok_def name_ok_def kw_string_def constituent_def isWhitespace_def isTerminatingMacro_def isMacro_def split: option.splits)

lemma groups_ok:
  assumes "symbol_groups t = Some (p, q)" and "CHR '':'' \<notin> set t"
  shows "\<not> (2 \<le> length p \<and> drop (length p - 2) p = '':/'')" "\<not> has_suffix q CHR '':''"
proof -
  have t: "p @ q = t" using assms(1) by (rule symbol_groups_Some)
  show "\<not> (2 \<le> length p \<and> drop (length p - 2) p = '':/'')"
  proof
    assume "2 \<le> length p \<and> drop (length p - 2) p = '':/''"
    then have "CHR '':'' \<in> set (drop (length p - 2) p)" by simp
    then have "CHR '':'' \<in> set p" by (rule in_set_dropD)
    with t assms(2) show False by auto
  qed
  show "\<not> has_suffix q CHR '':''" using t assms(2) by (auto simp: has_suffix_def dest: last_in_set)
qed

lemma split_names: "CHR ''/'' \<notin> set q \<Longrightarrow> before_slash (q @ CHR ''/'' # n) = q" "CHR ''/'' \<notin> set q \<Longrightarrow> after_slash (q @ CHR ''/'' # n) = n"
  by (auto simp: before_slash_def after_slash_def takeWhile_append dropWhile_append)

lemma NewSymbol_names:
  assumes "names_ok ns n"
  shows "NewSymbol (kw_string ns n) = Some (VSym None ns n)"
proof -
  note ok = assms names_ok_text [OF assms] symbol_groups_exist [OF assms] no_double_colon [OF names_ok_text(1) [OF assms]]
  show ?thesis
  proof (cases ns)
    case None
    then show ?thesis
      using ok hd_in_set [of n] last_in_set [of n]
      by (auto simp: NewSymbol_def isValidSymbol_def kw_string_def names_ok_def name_ok_def has_suffix_def simp del: hd_in_set last_in_set)
  next
    case (Some q)
    have "hd q \<noteq> CHR ''/''" using assms Some by (cases q) (auto simp: names_ok_def name_ok_def)
    with ok Some show ?thesis
      by (auto simp: NewSymbol_def isValidSymbol_def kw_string_def split_names names_ok_def name_ok_def has_suffix_def append_eq_Cons_conv
          dest: last_in_set)
  qed
qed

lemma reads_symbol:
  assumes "plain_opts opts" and "symbol_ok ns n"
  shows "reads opts (kw_string ns n) (VSym m ns n)"
proof -
  let ?t = "kw_string ns n"
  have ok: "names_ok ns n" using assms(2) by (simp add: symbol_ok_def)
  obtain c t where t: "?t = c # t" using names_ok_text(3) [OF ok] by (cases ?t) auto
  obtain p q where g: "symbol_groups ?t = Some (p, q)" using symbol_groups_exist [OF ok] by auto
  have "take 1 ?t \<noteq> '':''" using names_ok_text(1) [OF ok] t by auto
  with g have pat: "symbolPat ?t = Some (p, q)" by (simp add: symbolPat_def)
  have "take 2 ?t \<noteq> ''::''" using names_ok_text(1) [OF ok] t by (cases t) auto
  moreover have "CHR '':'' \<notin> set (drop 1 ?t)" using names_ok_text(1) [OF ok] t by auto
  ultimately have "interpretToken opts start ?t = ret (VSym None ns n)" for start
    using assms pat groups_ok [OF g names_ok_text(1) [OF ok]] NewSymbol_names [OF ok] \<open>take 1 ?t \<noteq> _\<close> no_double_colon
    by (auto simp: interpretToken_def symbol_ok_def matchSymbol_def Let_def plain_opts_def)
  then have "reads opts (c # t) (VSym None ns n)"
    using assms(2) names_ok_text [OF ok] by (intro reads_token) (auto simp: t symbol_ok_def)
  then show ?thesis unfolding t by (simp add: reads_def)
qed

lemma reads_keyword:
  assumes "plain_opts opts" and "names_ok ns n"
  shows "reads opts ('':'' @ kw_string ns n) (VKw ns n)"
proof -
  let ?t = "kw_string ns n"
  obtain p q where g: "symbol_groups ?t = Some (p, q)" using symbol_groups_exist [OF assms(2)] by auto
  have pat: "symbolPat (CHR '':'' # ?t) = Some (p, q)" using g by (simp add: symbolPat_def)
  have two: "take 2 (CHR '':'' # ?t) \<noteq> ''::''" using names_ok_text(1) [OF assms(2)] by (cases ?t) auto
  have "NewKeyword ?t = VKw ns n"
    using assms(2) by (cases ns) (auto simp: NewKeyword_def kw_string_def split_names names_ok_def name_ok_def)
  then have "interpretToken opts start (CHR '':'' # ?t) = ret (VKw ns n)" for start
    using assms pat two groups_ok [OF g names_ok_text(1) [OF assms(2)]] no_double_colon [OF names_ok_text(1) [OF assms(2)]]
    by (auto simp: interpretToken_def matchSymbol_def Let_def plain_opts_def)
  then have "reads opts (CHR '':'' # ?t) (VKw ns n)"
    using names_ok_text [OF assms(2)]
    by (intro reads_token) (auto simp: constituent_def isWhitespace_def isTerminatingMacro_def isMacro_def is_digit_def)
  then show ?thesis by simp
qed

lemma reads_word:
  "reads opts ''nil'' VNil" "reads opts ''true'' (VBool True)" "reads opts ''false'' (VBool False)"
  by (intro reads_token; simp add: constituent_def isWhitespace_def isTerminatingMacro_def isMacro_def is_digit_def interpretToken_def)+

subsection \<open>Numbers\<close>

lemma peekIsDigit_yes:
  assumes "input s = c # cs" and "isDigit c"
  shows "\<exists>s'. peekIsDigit s = (Inr True, s') \<and> kept s (c # cs) s'"
proof -
  obtain s1 where s1: "readRune s = (Inr (Some c), s1)" "kept s cs s1" "lastRune s1 = Some c"
    using readRune_Cons assms by blast
  then obtain s2 where "unreadRune s1 = (Inr (), s2)" "kept s1 (c # cs) s2"
    using unreadRune_Some [of s1 c] by (auto simp: kept_def)
  with s1 assms show ?thesis by (simp add: peekIsDigit_def rbind_def ret_def kept_def)
qed

definition number_char :: "char \<Rightarrow> bool" where
  "number_char c \<longleftrightarrow> is_digit c \<or> c = CHR ''N'' \<or> c = CHR ''/''"

lemma number_char_rune:
  assumes "number_char c"
  shows "\<not> isWhitespace (of_char c)" "\<not> isMacro (of_char c)" "of_char c < (0x80 :: nat)"
  using assms by (auto simp: number_char_def is_digit_def isWhitespace_def isMacro_def)

lemma ends_macro: "ends rest \<Longrightarrow> rest = [] \<or> isWhitespace (hd rest) \<or> isMacro (hd rest)"
  by (auto simp: ends_def isMacro_def)

lemma readNumber_exact:
  assumes "list_all number_char t" and "ends rest" and "input s = ascii t @ rest" and "matchNumber (prefix @ t) = Number v"
  shows "\<exists>s'. readNumber start prefix s = (Inr v, s') \<and> kept s rest s'"
proof -
  obtain s1 where "takeToken isMacro s = (Inr (ascii t), s1)" "kept s rest s1"
    using takeToken_exact [of "ascii t" isMacro rest s] assms(1,3) ends_macro [OF assms(2)] number_char_rune
    by (auto simp: ascii_def list_all_iff)
  moreover have "encode (ascii t) = t"
    using assms(1) number_char_rune(3) by (intro encode_ascii) (auto simp: is_ascii_def list_all_iff)
  ultimately show ?thesis using assms(4) by (simp add: readNumber_def rbind_def ret_def)
qed

lemma reads_number:
  assumes "is_digit c" and "list_all number_char t" and "matchNumber (c # t) = Number v"
  shows "reads opts (c # t) v"
proof (rule readsI)
  show "\<not> isWhitespace (of_char c)" "of_char c \<notin> {RPAREN, RBRACK, RBRACE}"
    using assms(1) by (auto simp: is_digit_def isWhitespace_def)
  fix m start sp and s :: reader and rest
  assume "ends rest" and inp: "input s = ascii t @ rest" and last: "lastRune s = Some (of_char c)"
  obtain s1 where s1: "unreadRune s = (Inr (), s1)" "kept s (ascii (c # t) @ rest) s1"
    using unreadRune_Some [OF last] inp by auto
  obtain s2 where "readNumber start [] s1 = (Inr v, s2)" "kept s1 rest s2"
    using readNumber_exact [of "c # t" rest s1 "[]" v start] assms \<open>ends rest\<close> s1 by (auto simp: number_char_def kept_def)
  with s1 show "\<exists>w s'. read_on opts m (readWithDelim opts m) start sp (of_char c) s = (Inr (Some (Form w)), s') \<and>
      plain w = plain v \<and> kept s rest s'"
    using assms(1) by (auto simp: form_reader.read_on_digit [OF form_reader_readWithDelim] digit_rune formed_def rbind_def ret_def kept_def)
qed

lemma reads_negative:
  assumes "is_digit d" and "list_all number_char t" and "matchNumber (CHR ''-'' # d # t) = Number v"
  shows "reads opts (CHR ''-'' # d # t) v"
proof (rule readsI)
  show "\<not> isWhitespace (of_char CHR ''-'')" "of_char CHR ''-'' \<notin> {RPAREN, RBRACK, RBRACE}"
    by (auto simp: isWhitespace_def)
  fix m start sp and s :: reader and rest
  assume "ends rest" and inp: "input s = ascii (d # t) @ rest"
  obtain s1 where s1: "peekIsDigit s = (Inr True, s1)" "kept s (ascii (d # t) @ rest) s1"
    using peekIsDigit_yes [of s "of_char d" "ascii t @ rest"] inp assms(1) by (auto simp: digit_rune)
  obtain s2 where "readNumber start ''-'' s1 = (Inr v, s2)" "kept s1 rest s2"
    using readNumber_exact [of "d # t" rest s1 "''-''" v start] assms \<open>ends rest\<close> s1 by (auto simp: number_char_def kept_def)
  with s1 show "\<exists>w s'. read_on opts m (readWithDelim opts m) start sp (of_char CHR ''-'') s = (Inr (Some (Form w)), s') \<and>
      plain w = plain v \<and> kept s rest s'"
    by (auto simp: read_on_def isDigit_def formed_def rbind_def ret_def kept_def encode_def encode_rune_def char_of_def bit_0)
qed

text \<open>Decimal digits.\<close>

lemma digit_of_base: "is_digit c \<Longrightarrow> digit_in_base 10 c = Some (int (digit_val c))"
  by (auto simp: digit_in_base_def code_def is_digit_def digit_val_def Let_def)

lemma digits_value_read:
  "list_all is_digit ds \<Longrightarrow> digits_value 10 (int acc) ds = Some (int (foldl (\<lambda>n c. 10 * n + digit_val c) acc ds))"
proof (induction ds arbitrary: acc)
  case (Cons c ds)
  have "int acc * 10 + int (digit_val c) = int (10 * acc + digit_val c)" by simp
  moreover have "is_digit c" "list_all is_digit ds" using Cons.prems by simp_all
  ultimately show ?case
    by (simp only: digits_value.simps digit_of_base option.case Cons.IH foldl.simps)
qed simp

lemma SetString_nat: "SetString (nat_str k) 10 = Inr (Some (int k))"
  using digits_value_read [of "nat_str k" 0] read_nat_str [of k]
  by (simp add: SetString_def nat_str_digits read_nat_def)

lemma nat_str_0 [simp]: "nat_str 0 = ''0''"
  by (subst nat_str.simps) (simp add: digit_char_def)

lemma hd_nat_str: "0 < k \<Longrightarrow> hd (nat_str k) \<noteq> CHR ''0''"
proof (induction k rule: nat_str.induct)
  case (1 k)
  show ?case
  proof (cases "k < 10")
    case True
    then have "digit_val (digit_char k) = k" by (rule digit_char_val)
    then have "digit_char k \<noteq> CHR ''0''" using 1(2) by (auto simp: digit_val_def)
    with True show ?thesis by (subst nat_str.simps) simp
  next
    case False
    with 1 show ?thesis by (subst nat_str.simps) simp
  qed
qed

lemma nat_str_char: "c \<in> set (nat_str k) \<Longrightarrow> is_digit c"
  using nat_str_digits by (auto simp: list_all_iff)

lemma last_nat_str: "last (nat_str k) \<noteq> CHR ''N''" "last (nat_str k) \<noteq> CHR ''M''"
  using nat_str_char [OF last_in_set [OF nat_str_nonempty], of k] by (auto simp: is_digit_def)

lemma strip_last_nat_str: "strip_last CHR ''N'' (nat_str k @ (if big then ''N'' else [])) = (nat_str k, big)"
  using last_nat_str by (simp add: strip_last_def)

lemma strip_sign_nat_str: "strip_sign (nat_str k @ t) = (False, nat_str k @ t)"
proof -
  obtain c cs where c: "nat_str k = c # cs" by (cases "nat_str k") auto
  with nat_str_char [of c k] show ?thesis by (auto simp: strip_sign_def is_digit_def)
qed

lemma intPat_nat_str:
  assumes "strip_sign s = (neg, nat_str k @ (if big then ''N'' else []))"
  shows "intPat s = Some (neg, if k = 0 then GZero else GDigits (nat_str k) 10, big)"
  using assms hd_nat_str [of k] nat_str_digits [of k] nat_str_inject [of k 0]
  by (simp add: intPat_def strip_last_nat_str some_of_def del: nat_str_inject)

lemma matchNumber_int:
  assumes "strip_sign s = (neg, nat_str k @ (if big then ''N'' else []))" and "k = 0 \<Longrightarrow> \<not> neg"
  shows "matchNumber s = Number (if big then big_int (if neg then - int k else int k) else VInt (if neg then - int k else int k))"
  using assms(2) by (auto simp: matchNumber_def intPat_nat_str [OF assms(1)] match_int_def SetString_nat Let_def)

text \<open>An integer, with or without suffix.\<close>

lemma reads_int: "reads opts (int_str n @ (if big then ''N'' else [])) (if big then big_int n else VInt n)"
proof -
  define k where "k = nat \<bar>n\<bar>"
  obtain c cs where c: "nat_str k = c # cs" by (cases "nat_str k") auto
  have dig: "is_digit c" "list_all number_char cs"
    using nat_str_digits [of k] c by (auto simp: number_char_def list_all_iff)
  let ?N = "if big then ''N'' else []"
  have N: "list_all number_char (cs @ ?N)" using dig(2) by (simp add: number_char_def)
  show ?thesis
  proof (cases "n < 0")
    case True
    then have t: "int_str n @ ?N = CHR ''-'' # c # cs @ ?N" using c by (simp add: int_str_def k_def)
    have "strip_sign (CHR ''-'' # c # cs @ ?N) = (True, nat_str k @ ?N)" using c by (simp add: strip_sign_def)
    from matchNumber_int [OF this] True show ?thesis
      unfolding t by (intro reads_negative [OF dig(1) N]) (simp add: k_def)
  next
    case False
    then have t: "int_str n @ ?N = c # cs @ ?N" using c by (simp add: int_str_def k_def)
    have "strip_sign (c # cs @ ?N) = (False, nat_str k @ ?N)" using c strip_sign_nat_str [of k ?N] by simp
    from matchNumber_int [OF this] False show ?thesis
      unfolding t by (intro reads_number [OF dig(1) N]) (simp add: k_def)
  qed
qed

text \<open>A ratio in lowest terms.\<close>

lemma takeWhile_nat_str: "takeWhile is_digit (nat_str k @ CHR ''/'' # t) = nat_str k" "dropWhile is_digit (nat_str k @ CHR ''/'' # t) = CHR ''/'' # t"
  using nat_str_digits [of k] by (simp_all add: takeWhile_append dropWhile_append list_all_iff is_digit_def)

lemma radix_form_ratio: "radix_form (nat_str k @ CHR ''/'' # t) = None"
proof -
  obtain c cs where c: "nat_str k = c # cs" by (cases "nat_str k") auto
  have slash: "\<not> is_radix CHR ''/''" "\<not> is_digit CHR ''/''" "\<And>d. is_digit d \<Longrightarrow> \<not> is_radix d" by (auto simp: is_radix_def is_digit_def)
  have d: "\<And>d. d \<in> set cs \<Longrightarrow> is_digit d" using nat_str_char [of _ k] c by auto
  show ?thesis
    unfolding radix_form_def c using slash d
    by (cases cs; cases "tl cs") (auto simp: neq_Nil_conv split: list.splits)
qed

lemma matchNumber_ratio:
  assumes "strip_sign s = (neg, nat_str p @ ''/'' @ nat_str q)" and "strip_sign (fst (strip_last CHR ''M'' s)) = strip_sign s"
    and "0 < p" and "1 < q" and "coprime p q"
  shows "matchNumber s = Number (VLit (LRatio (if neg then - int p else int p) (int q)))"
proof -
  obtain c cs where c: "nat_str p = c # cs" by (cases "nat_str p") auto
  have c0: "c \<noteq> CHR ''0''" using hd_nat_str [OF assms(3)] c by simp
  have notall: "\<not> list_all is_digit (c # cs @ CHR ''/'' # nat_str q)" by (simp add: is_digit_def)
  have last: "last (nat_str q) \<noteq> CHR ''N''" by (rule last_nat_str)
  have "strip_last CHR ''N'' (nat_str p @ CHR ''/'' # nat_str q) = (nat_str p @ CHR ''/'' # nat_str q, False)"
    using last by (simp add: strip_last_def)
  then have "intPat s = None"
    using assms(1) c c0 notall radix_form_ratio [of p "nat_str q"]
    by (auto simp: intPat_def some_of_def)
  moreover have "floatPat s = None"
    using assms(1,2) takeWhile_nat_str [of p "nat_str q"]
    by (auto simp: floatPat_def exponent_part_def split: prod.splits)
  moreover have "ratioPat s = Some (neg, nat_str p, nat_str q)"
    using assms(1) takeWhile_nat_str [of p "nat_str q"] nat_str_digits [of q] by (auto simp: ratioPat_def some_of_def)
  moreover have "gcd (int p) (int q) = 1" using assms(5) by simp
  ultimately show ?thesis
    using assms(4) by (auto simp: matchNumber_def match_ratio_def read_nat_str new_ratio_def)
qed

lemma reads_ratio:
  assumes "1 < q" and "coprime p q"
  shows "reads opts (int_str p @ ''/'' @ int_str q) (VLit (LRatio p q))"
proof -
  define k l where "k = nat \<bar>p\<bar>" and "l = nat q"
  have "p \<noteq> 0" using assms by auto
  then have k: "0 < k" by (simp add: k_def)
  have l: "1 < l" using assms(1) by (simp add: l_def)
  have "coprime (int k) (int l)" using assms by (simp add: k_def l_def)
  then have cop: "coprime k l" by simp
  have ql: "int_str q = nat_str l" using assms(1) by (simp add: int_str_def l_def)
  obtain c cs where c: "nat_str k = c # cs" by (cases "nat_str k") auto
  have dig: "is_digit c" "list_all number_char (cs @ CHR ''/'' # nat_str l)"
    using nat_str_digits [of k] nat_str_digits [of l] c by (auto simp: number_char_def list_all_iff)
  have M: "strip_last CHR ''M'' (t @ CHR ''/'' # nat_str l) = (t @ CHR ''/'' # nat_str l, False)" for t
    using last_nat_str by (simp add: strip_last_def)
  show ?thesis
  proof (cases "p < 0")
    case True
    then have t: "int_str p @ ''/'' @ int_str q = CHR ''-'' # c # cs @ CHR ''/'' # nat_str l"
      using c ql by (simp add: int_str_def k_def)
    have "strip_sign (CHR ''-'' # c # cs @ CHR ''/'' # nat_str l) = (True, nat_str k @ ''/'' @ nat_str l)" using c by (simp add: strip_sign_def)
    from matchNumber_ratio [OF this _ k l cop] M [of "CHR ''-'' # c # cs"] True assms(1) show ?thesis
      unfolding t by (intro reads_negative [OF dig]) (simp add: k_def l_def)
  next
    case False
    then have t: "int_str p @ ''/'' @ int_str q = c # cs @ CHR ''/'' # nat_str l" using c ql by (simp add: int_str_def k_def)
    have "strip_sign (c # cs @ CHR ''/'' # nat_str l) = (False, nat_str k @ ''/'' @ nat_str l)"
      using c strip_sign_nat_str [of k "''/'' @ nat_str l"] by simp
    from matchNumber_ratio [OF this _ k l cop] M [of "c # cs"] False assms(1) show ?thesis
      unfolding t by (intro reads_number [OF dig]) (simp add: k_def l_def)
  qed
qed

subsection \<open>Strings and characters\<close>

definition string_char :: "char \<Rightarrow> bool" where
  "string_char c \<longleftrightarrow> 0x20 \<le> (of_char c :: nat) \<and> (of_char c :: nat) \<le> 0x7E \<or> (of_char c :: nat) \<in> {0x08, 0x09, 0x0A, 0x0C, 0x0D}"

text \<open>Written as it is between the quotes.\<close>

definition bare_char :: "char \<Rightarrow> bool" where
  "bare_char c \<longleftrightarrow> 0x20 \<le> (of_char c :: nat) \<and> (of_char c :: nat) \<le> 0x7E \<and> of_char c \<noteq> DQUOTE \<and> of_char c \<noteq> BSLASH"

lemma string_char_ascii: "string_char c \<Longrightarrow> of_char c < (0x80 :: nat)"
  by (auto simp: string_char_def)

lemma quote_body_Nil [simp]: "quote_body p [] = []"
  by (subst quote_body.simps) simp

lemma quote_body_Cons:
  "b < 0x80 \<Longrightarrow> quote_body p (b # bs) = escaped_rune p b @ quote_body p bs"
  by (subst quote_body.simps) (simp add: DecodeRune_def byte_at_def)

lemma encode_rune_char: "of_char c < (0x80 :: nat) \<Longrightarrow> encode_rune (of_char c) = [c]"
  by (simp add: encode_rune_def)

lemma escaped_bare: "bare_char c \<Longrightarrow> escaped_rune p (of_char c) = [c]"
  by (auto simp: escaped_rune_def bare_char_def IsPrint_def encode_rune_char)

lemma escaped_char:
  assumes "string_char c"
  obtains "bare_char c" | e where "escaped_rune p (of_char c) = [CHR 0x5C, e]" "simple_escape (of_char e) = Some (of_char c)"
    "of_char e < (0x80 :: nat)"
proof (cases "bare_char c")
  case False
  show thesis
    by (rule that(2) [of "if of_char c = DQUOTE \<or> of_char c = BSLASH then c
          else if of_char c = (0x08 :: nat) then CHR ''b'' else if of_char c = (0x0C :: nat) then CHR ''f''
          else if of_char c = (0x0A :: nat) then CHR ''n'' else if of_char c = (0x0D :: nat) then CHR ''r'' else CHR ''t''"])
      (use assms False in \<open>auto simp: string_char_def bare_char_def escaped_rune_def IsPrint_def simple_escape_def\<close>)
qed (rule that(1))

lemma stringLoop_exact:
  assumes "list_all string_char t" and "input s = ascii (quote_body p (map of_char t)) @ DQUOTE # rest"
  shows "\<exists>s'. stringLoop start b s = (Inr (VStr (b @ t)), s') \<and> kept s rest s'"
  using assms
proof (induction t arbitrary: b s)
  case Nil
  then obtain s1 where "Read s = (Some DQUOTE, s1)" "kept s rest s1"
    using readRune_Cons [of s DQUOTE rest] by auto
  then show ?case by (subst stringLoop.simps) simp
next
  case (Cons c t)
  then have c: "string_char c" "of_char c < (0x80 :: nat)" using string_char_ascii by auto
  let ?more = "ascii (quote_body p (map of_char t)) @ DQUOTE # rest"
  from c(1) show ?case
  proof (cases rule: escaped_char [where p = p])
    case 1
    with c Cons.prems have "input s = of_char c # ?more" by (simp add: quote_body_Cons escaped_bare)
    then obtain s1 where s1: "Read s = (Some (of_char c), s1)" "kept s ?more s1"
      using readRune_Cons [of s "of_char c" ?more] by auto
    obtain s2 where "stringLoop start (b @ [c]) s1 = (Inr (VStr ((b @ [c]) @ t)), s2)" "kept s1 rest s2"
      using Cons.IH [of s1 "b @ [c]"] Cons.prems s1(2) by (auto simp: kept_def)
    with s1 1 c(2) show ?thesis
      by (subst stringLoop.simps) (auto simp: bare_char_def encode_rune_char kept_def)
  next
    case (2 e)
    with c Cons.prems have "input s = BSLASH # of_char e # ?more" by (simp add: quote_body_Cons)
    then obtain s1 where s1: "Read s = (Some BSLASH, s1)" "kept s (of_char e # ?more) s1"
      using readRune_Cons [of s BSLASH "of_char e # ?more"] by auto
    then obtain s2 where s2: "readRune s1 = (Inr (Some (of_char e)), s2)" "kept s1 ?more s2"
      using readRune_Cons [of s1 "of_char e" ?more] by (auto simp: kept_def)
    obtain s3 where "stringLoop start (b @ [c]) s2 = (Inr (VStr ((b @ [c]) @ t)), s3)" "kept s2 rest s3"
      using Cons.IH [of s2 "b @ [c]"] Cons.prems s2(2) by (auto simp: kept_def)
    with s1 s2 2(2) c(2) show ?thesis
      by (subst stringLoop.simps) (auto simp: readEscape_def rbind_def ret_def encode_rune_char kept_def)
  qed
qed

lemma reads_string:
  assumes "list_all string_char t"
  shows "reads opts (Quote p t) (VStr t)"
proof -
  have "reads opts (CHR 0x22 # quote_body p (map of_char t) @ ''\"'') (VStr t)"
  proof (rule readsI)
    show "\<not> isWhitespace (of_char CHR 0x22)" "of_char CHR 0x22 \<notin> {RPAREN, RBRACK, RBRACE}"
      by (auto simp: isWhitespace_def)
    fix m start sp and s :: reader and rest
    assume "input s = ascii (quote_body p (map of_char t) @ ''\"'') @ rest"
    then obtain s1 where "stringLoop start [] s = (Inr (VStr t), s1)" "kept s rest s1"
      using stringLoop_exact [OF assms, of s p rest start "[]"] by auto
    then show "\<exists>w s'. read_on opts m (readWithDelim opts m) start sp (of_char CHR 0x22) s = (Inr (Some (Form w)), s') \<and>
        plain w = plain (VStr t) \<and> kept s rest s'"
      by (auto simp: read_on_def formed_def readString_def rbind_def ret_def)
  qed
  then show ?thesis by (simp add: Quote_def)
qed

lemma Quote_bare: "list_all bare_char t \<Longrightarrow> Quote p t = ''\"'' @ t @ ''\"''"
proof -
  assume "list_all bare_char t"
  then have "quote_body p (map of_char t) = t"
    by (induction t) (auto simp: quote_body_Cons escaped_bare, auto simp: bare_char_def quote_body_Cons escaped_bare)
  then show ?thesis by (simp add: Quote_def)
qed

lemma bare_string_char: "bare_char c \<Longrightarrow> string_char c"
  by (auto simp: bare_char_def string_char_def)

definition char_ok :: "rune \<Rightarrow> bool" where
  "char_ok r \<longleftrightarrow> 0x20 \<le> r \<and> r \<le> 0x7E \<or> r \<in> {0x08, 0x09, 0x0A, 0x0C, 0x0D}"

lemma readChar_exact:
  assumes "list_all constituent t" and "ends rest" and "input s = of_char c # ascii t @ rest"
    and "t = [] \<and> v = VLit (LChar (of_char c)) \<or>
      t \<noteq> [] \<and> (\<exists>r. named_char (ascii (c # t)) = Some r \<and> v = VLit (LChar r))"
  shows "\<exists>s'. readChar start s = (Inr v, s') \<and> kept s rest s'"
proof -
  obtain s1 where s1: "readRune s = (Inr (Some (of_char c)), s1)" "kept s (ascii t @ rest) s1"
    using readRune_Cons [OF assms(3)] by auto
  obtain s2 where s2: "takeToken isTerminatingMacro s1 = (Inr (ascii t), s2)" "kept s1 rest s2"
    using takeToken_exact [of "ascii t" isTerminatingMacro rest s1] assms(1) constituent_rune ends_stop [OF assms(2)] s1(2)
    by (auto simp: ascii_def list_all_iff kept_def)
  have "length (ascii t) = length t" by (simp add: ascii_def)
  with s1 s2 assms(4) show ?thesis
    by (auto simp: readChar_def readToken_def rbind_def ret_def kept_def)
qed

lemma reads_char:
  assumes "char_ok r"
  shows "reads opts (CharLiteralFromRune r) (VLit (LChar r))"
proof -
  define t where "t = tl (CharLiteralFromRune r)"
  define c where "c = hd t"
  have r: "r < 0x80" using assms by (auto simp: char_ok_def)
  have ne: "t \<noteq> []" using r by (auto simp: t_def CharLiteralFromRune_def encode_rune_def)
  have lit: "CharLiteralFromRune r = CHR 0x5C # c # tl t"
    using ne by (auto simp: t_def c_def CharLiteralFromRune_def)
  have tl: "list_all constituent (tl t)"
    using r by (auto simp: t_def CharLiteralFromRune_def encode_rune_def constituent_def isWhitespace_def isTerminatingMacro_def isMacro_def)
  have val: "tl t = [] \<and> VLit (LChar r) = VLit (LChar (of_char c)) \<or>
      tl t \<noteq> [] \<and> (\<exists>r'. named_char (ascii (c # tl t)) = Some r' \<and> VLit (LChar r) = VLit (LChar r'))"
    using r by (auto simp: t_def c_def CharLiteralFromRune_def encode_rune_def named_char_def)
  have "reads opts (CHR 0x5C # c # tl t) (VLit (LChar r))"
  proof (rule readsI)
    show "\<not> isWhitespace (of_char CHR 0x5C)" "of_char CHR 0x5C \<notin> {RPAREN, RBRACK, RBRACE}"
      by (auto simp: isWhitespace_def)
    fix m start sp and s :: reader and rest
    assume "ends rest" "input s = ascii (c # tl t) @ rest"
    then obtain s1 where "readChar start s = (Inr (VLit (LChar r)), s1)" "kept s rest s1"
      using readChar_exact [OF tl _ _ val, of rest s start] by auto
    then show "\<exists>w s'. read_on opts m (readWithDelim opts m) start sp (of_char CHR 0x5C) s = (Inr (Some (Form w)), s') \<and>
        plain w = plain (VLit (LChar r)) \<and> kept s rest s'"
      by (auto simp: read_on_def formed_def rbind_def ret_def)
  qed
  with lit show ?thesis by simp
qed

subsection \<open>Collections\<close>

text \<open>Each item is a text with what separates it from the one before.\<close>

definition texts :: "(string \<times> string) list \<Rightarrow> string" where
  "texts items = concat (map (\<lambda>i. fst i @ snd i) items)"

definition item_reads :: "ropts \<Rightarrow> string \<times> string \<Rightarrow> val \<Rightarrow> bool" where
  "item_reads opts i v \<longleftrightarrow> list_all isWhitespace (ascii (fst i)) \<and> reads opts (snd i) v"

lemma texts_simps [simp]: "texts [] = []" "texts (i # items) = fst i @ snd i @ texts items"
  by (simp_all add: texts_def)

lemma reads_closer:
  assumes "input s = c # rest" and "c \<in> {RPAREN, RBRACK, RBRACE}" and "0 < n"
  shows "\<exists>s'. readWithDelim opts n (Some c) sp s = (Inr Finished, s') \<and> kept s rest s'"
proof -
  obtain m where m: "n = Suc m" using assms(3) by (cases n) auto
  have "\<not> isWhitespace c" using assms(2) by (auto simp: isWhitespace_def)
  then obtain s1 where s1: "skipWhitespace s = (Inr (), s1)" "kept s (c # rest) s1"
    using skipWhitespace_exact [of "[]" c s rest] assms(1) by auto
  then obtain s2 where "readRune s1 = (Inr (Some c), s2)" "kept s1 rest s2"
    using readRune_Cons [of s1 c rest] by (auto simp: kept_def)
  with s1 show ?thesis by (auto simp: m read_body_def rbind_def getPos_def ret_def kept_def)
qed

definition framed :: "reader \<Rightarrow> reader \<Rightarrow> bool" where
  "framed s s' \<longleftrightarrow>
     (\<exists>f f' fs. nest s = f # fs \<and> nest s' = f' # fs \<and> fpending f' = fpending f) \<and> tagPreserve s' = tagPreserve s"

lemma framed_trans: "framed s t \<Longrightarrow> framed t u \<Longrightarrow> framed s u"
  by (auto simp: framed_def)

lemma framed_kept: "kept s r s' \<Longrightarrow> nest s \<noteq> [] \<Longrightarrow> framed s s'"
  by (auto simp: framed_def kept_def neq_Nil_conv)

lemma framed_recordHead: "nest s \<noteq> [] \<Longrightarrow> framed s (recordHead forms s)"
  by (auto simp: framed_def recordHead_def Let_def neq_Nil_conv)

lemma framed_nest: "framed s s' \<Longrightarrow> nest s' \<noteq> []"
  by (auto simp: framed_def)

lemma input_recordHead' [simp]: "input (recordHead forms s) = input s"
  by (auto simp: recordHead_def Let_def split: list.split)

lemma delimLoop_exact:
  assumes "list_all2 (item_reads opts) items vs" and "\<forall>i\<in>set (tl items). fst i \<noteq> []"
    and "input s = ascii (texts items) @ e # rest" and "e \<in> {RPAREN, RBRACK, RBRACE}"
    and "length (input s) < n" and "length (input s) < k" and "tagPreserve s = 0" and "nest s \<noteq> []"
  shows "\<exists>ws s'. delimLoop k (readWithDelim opts n) what e start forms s = (Inr (forms @ ws), s') \<and>
    map plain ws = map plain vs \<and> input s' = rest \<and> framed s s'"
  using assms
proof (induction items vs arbitrary: s k forms rule: list_all2_induct)
  case Nil
  obtain k' where k: "k = Suc k'" using Nil.prems by (cases k) auto
  obtain s1 where "readWithDelim opts n (Some e) True s = (Inr Finished, s1)" "kept s rest s1"
    using reads_closer [of s e rest n opts True] Nil.prems by auto
  with k Nil.prems framed_kept [of s rest s1] show ?case by (auto simp: kept_def)
next
  case (Cons i items v vs)
  obtain k' where k: "k = Suc k'" using Cons.prems by (cases k) auto
  let ?more = "ascii (texts items) @ e # rest"
  have "ends ?more"
  proof (cases items)
    case Nil
    with Cons.prems(3) show ?thesis by (auto simp: ends_def)
  next
    case (Cons j js)
    with \<open>list_all2 _ items vs\<close> \<open>\<forall>i\<in>set (tl (i # items)). fst i \<noteq> []\<close> show ?thesis
      by (auto simp: ends_def item_reads_def list_all2_Cons1 neq_Nil_conv)
  qed
  moreover have "reads opts (snd i) v" "list_all isWhitespace (ascii (fst i))" using Cons.hyps(1) by (simp_all add: item_reads_def)
  ultimately obtain w s1 where w: "readWithDelim opts n (Some e) True s = (Inr (Form w), s1)" "plain w = plain v" "kept s ?more s1"
    using Cons.prems by (elim readsD [of opts "snd i" v "ascii (fst i)" ?more s n "Some e" True]) auto
  let ?s2 = "recordHead (forms @ [w]) s1"
  have less: "length (input s1) < length (input s)" using rd.rec_eats [OF w(1)] .
  have s1: "nest s1 \<noteq> []" "tagPreserve s1 = 0" using w(3) Cons.prems by (simp_all add: kept_def)
  have fr: "framed s ?s2"
    using framed_trans [OF framed_kept [OF w(3)] framed_recordHead [OF s1(1)]] Cons.prems by blast
  have "\<exists>ws s'. delimLoop k' (readWithDelim opts n) what e start (forms @ [w]) ?s2 = (Inr ((forms @ [w]) @ ws), s') \<and>
      map plain ws = map plain vs \<and> input s' = rest \<and> framed ?s2 s'"
  proof (rule Cons.IH)
    have "\<forall>i\<in>set items. fst i \<noteq> []" using Cons.prems(1) by simp
    then show "\<forall>i\<in>set (tl items). fst i \<noteq> []" by (cases items) auto
    show "input ?s2 = ascii (texts items) @ e # rest" using w(3) by (simp add: kept_def)
    show "length (input ?s2) < n" "length (input ?s2) < k'"
      using less \<open>length (input s) < n\<close> \<open>length (input s) < k\<close> k by simp_all
    show "tagPreserve ?s2 = 0" using fr Cons.prems(6) by (simp add: framed_def)
  qed (use Cons.prems framed_nest [OF fr] in simp_all)
  then obtain ws s3 where "delimLoop k' (readWithDelim opts n) what e start (forms @ [w]) ?s2 = (Inr (forms @ w # ws), s3)"
    "map plain ws = map plain vs" "input s3 = rest" "framed ?s2 s3" by auto
  with k w(1,2) framed_trans [OF fr] show ?case by (auto intro!: exI [of _ "w # ws"])
qed

lemma readDelimited_exact:
  assumes "list_all2 (item_reads opts) items vs" and "\<forall>i\<in>set (tl items). fst i \<noteq> []"
    and "input s = ascii (texts items) @ e # rest" and "e \<in> {RPAREN, RBRACK, RBRACE}"
    and "length (input s) < n" and "tagPreserve s = 0"
  shows "\<exists>ws s'. readDelimited n (readWithDelim opts n) what e start s = (Inr ws, s') \<and> map plain ws = map plain vs \<and> kept s rest s'"
proof -
  obtain ws s1 where "delimLoop n (readWithDelim opts n) what e start [] (push_frame what s) = (Inr ([] @ ws), s1)"
    "map plain ws = map plain vs" "input s1 = rest" "framed (push_frame what s) s1"
    using delimLoop_exact [OF assms(1,2), of "push_frame what s" e rest n n what start "[]"] assms
    by (auto simp: push_frame_def)
  then show ?thesis
    by (auto simp: readDelimited_def rbind_def ret_def kept_def pop_frame_def framed_def push_frame_def)
qed

fun seq_items :: "string \<Rightarrow> string list \<Rightarrow> (string \<times> string) list" where
  "seq_items sep [] = []"
| "seq_items sep (t # ts) = (sep, t) # seq_items '' '' ts"

fun entry_items :: "string \<Rightarrow> (string \<times> string) list \<Rightarrow> (string \<times> string) list" where
  "entry_items sep [] = []"
| "entry_items sep ((k, v) # es) = (sep, k) # ('' '', v) # entry_items '', '' es"

lemma print_seq: "texts (seq_items sep ts) = (if ts = [] then [] else sep @ print_items None n '' '' ts)"
proof (induction ts arbitrary: sep n)
  case (Cons t ts)
  from Cons.IH [of "'' ''" "n + 1"] show ?case by simp
qed simp

lemma print_entries:
  "texts (entry_items sep es) = (if es = [] then [] else sep @ print_items None n '', '' (map (\<lambda>e. fst e @ '' '' @ snd e) es))"
proof (induction es arbitrary: sep n)
  case (Cons e es)
  from Cons.IH [of "'', ''" "n + 1"] show ?case by (cases e) simp
qed simp

lemma items_spaced: "\<forall>i\<in>set (tl (seq_items sep ts)). fst i \<noteq> []" "\<forall>i\<in>set (tl (entry_items sep es)). fst i \<noteq> []"
proof -
  have seq: "\<forall>i\<in>set (seq_items '' '' us). fst i \<noteq> []" for us
    by (induction us) simp_all
  show "\<forall>i\<in>set (tl (seq_items sep ts)). fst i \<noteq> []" using seq [of "tl ts"] by (cases ts) simp_all
  have ent: "\<forall>i\<in>set (entry_items '', '' fs). fst i \<noteq> []" for fs
    by (induction fs) auto
  show "\<forall>i\<in>set (tl (entry_items sep es)). fst i \<noteq> []" using ent [of "tl es"] by (cases es) auto
qed

lemma blanks [simp]: "list_all isWhitespace (ascii '' '')" "list_all isWhitespace (ascii '', '')" "list_all isWhitespace (ascii [])"
  by (auto simp: isWhitespace_def)

lemma seq_items_read:
  "list_all2 (reads opts) ts vs \<Longrightarrow> list_all isWhitespace (ascii sep) \<Longrightarrow> list_all2 (item_reads opts) (seq_items sep ts) vs"
proof (induction ts vs arbitrary: sep rule: list_all2_induct)
  case (Cons t ts v vs)
  from Cons.IH [of "'' ''"] Cons.hyps Cons.prems blanks show ?case by (simp add: item_reads_def del: ascii_simps)
qed simp

lemma entry_items_read:
  "list_all2 (\<lambda>t e. reads opts (fst t) (fst e) \<and> reads opts (snd t) (snd e)) ts es \<Longrightarrow> list_all isWhitespace (ascii sep) \<Longrightarrow>
     list_all2 (item_reads opts) (entry_items sep ts) (flatten es)"
proof (induction ts es arbitrary: sep rule: list_all2_induct)
  case (Cons t ts e es)
  from Cons.IH [of "'', ''"] Cons.hyps Cons.prems blanks show ?case
    by (cases t; cases e) (simp add: item_reads_def del: ascii_simps)
qed simp

text \<open>What stands between the delimiters, for a sequence and for a map.\<close>

definition body_reads :: "ropts \<Rightarrow> string \<Rightarrow> val list \<Rightarrow> bool" where
  "body_reads opts t vs \<longleftrightarrow>
     (\<exists>items. t = texts items \<and> list_all2 (item_reads opts) items vs \<and> (\<forall>i\<in>set (tl items). fst i \<noteq> []))"

lemma body_reads_seq:
  assumes "list_all2 (reads opts) ts vs"
  shows "body_reads opts (print_items None 0 '' '' ts) vs"
proof -
  have "print_items None 0 '' '' ts = texts (seq_items [] ts)" using print_seq [of "[]" ts 0] by simp
  then show ?thesis
    unfolding body_reads_def using seq_items_read [OF assms blanks(3)] items_spaced(1) by blast
qed

lemma body_reads_map:
  assumes "list_all2 (\<lambda>t e. reads opts (fst t) (fst e) \<and> reads opts (snd t) (snd e)) ts es"
  shows "body_reads opts (print_items None 0 '', '' (map (\<lambda>e. fst e @ '' '' @ snd e) ts)) (flatten es)"
proof -
  have "print_items None 0 '', '' (map (\<lambda>e. fst e @ '' '' @ snd e) ts) = texts (entry_items [] ts)"
    using print_entries [of "[]" ts 0] by simp
  then show ?thesis
    unfolding body_reads_def using entry_items_read [OF assms blanks(3)] items_spaced(2) by blast
qed

lemma readDelimited_body:
  assumes "body_reads opts t vs" and "input s = ascii t @ e # rest" and "e \<in> {RPAREN, RBRACK, RBRACE}"
    and "length (input s) < n" and "tagPreserve s = 0"
  obtains ws s' where "readDelimited n (readWithDelim opts n) what e start s = (Inr ws, s')" "map plain ws = map plain vs" "kept s rest s'"
  using assms readDelimited_exact unfolding body_reads_def by blast

lemma reads_list:
  assumes "body_reads opts t vs"
  shows "reads opts (''('' @ t @ '')'') (VList m vs)" "reads opts (''['' @ t @ '']'') (VVec m vs)"
proof -
  have "reads opts (CHR ''('' # t @ '')'') (VList m vs)"
  proof (rule readsI)
    fix k start sp and s :: reader and rest
    assume *: "input s = ascii (t @ '')'') @ rest" "length (input s) < k" "tagPreserve s = 0"
    obtain ws s1 where "readDelimited k (readWithDelim opts k) ''list'' RPAREN start s = (Inr ws, s1)" "map plain ws = map plain vs" "kept s rest s1"
      by (rule readDelimited_body [OF assms, of s RPAREN rest k]) (use * in auto)
    then show "\<exists>w s'. read_on opts k (readWithDelim opts k) start sp (of_char CHR ''('') s = (Inr (Some (Form w)), s') \<and>
        plain w = plain (VList m vs) \<and> kept s rest s'"
      by (auto simp: read_on_def formed_def readList_def rbind_def ret_def)
  qed (auto simp: isWhitespace_def)
  then show "reads opts (''('' @ t @ '')'') (VList m vs)" by simp
  have "reads opts (CHR ''['' # t @ '']'') (VVec m vs)"
  proof (rule readsI)
    fix k start sp and s :: reader and rest
    assume *: "input s = ascii (t @ '']'') @ rest" "length (input s) < k" "tagPreserve s = 0"
    obtain ws s1 where "readDelimited k (readWithDelim opts k) ''vector'' RBRACK start s = (Inr ws, s1)" "map plain ws = map plain vs" "kept s rest s1"
      by (rule readDelimited_body [OF assms, of s RBRACK rest k]) (use * in auto)
    then show "\<exists>w s'. read_on opts k (readWithDelim opts k) start sp (of_char CHR ''['') s = (Inr (Some (Form w)), s') \<and>
        plain w = plain (VVec m vs) \<and> kept s rest s'"
      by (auto simp: read_on_def formed_def readVector_def rbind_def ret_def)
  qed (auto simp: isWhitespace_def)
  then show "reads opts (''['' @ t @ '']'') (VVec m vs)" by simp
qed

text \<open>No key equal to an earlier one.\<close>

definition unequal :: "val list \<Rightarrow> bool" where
  "unequal vs \<longleftrightarrow> sorted_wrt (\<lambda>x y. \<not> Equiv y x) vs"

lemma unequal_plain: "unequal (map plain vs) = unequal vs"
  by (simp add: unequal_def sorted_wrt_map Equiv_plain)

lemma dup_key_None: "unequal ks \<Longrightarrow> \<forall>k\<in>set ks. \<forall>x\<in>set seen. \<not> Equiv k x \<Longrightarrow> dup_key ref seen ks = None"
  by (induction ref seen ks rule: dup_key.induct) (auto simp: unequal_def list_ex_iff)

lemma checkDuplicates_ok:
  assumes "map plain ws = map plain vs" and "unequal vs"
  shows "checkDuplicates opts start ws = ret ()"
proof -
  have "unequal ws" using assms by (metis unequal_plain)
  then show ?thesis by (simp add: checkDuplicates_def dup_key_None)
qed

lemma reads_set:
  assumes "body_reads opts t vs" and "unequal vs"
  shows "reads opts (''#{'' @ t @ ''}'') (VSet m vs)"
proof -
  have "reads opts (CHR ''#'' # CHR ''{'' # t @ ''}'') (VSet m vs)"
  proof (rule readsI)
    fix k start sp and s :: reader and rest
    assume *: "input s = ascii (CHR ''{'' # t @ ''}'') @ rest" "length (input s) < k" "tagPreserve s = 0"
    then obtain s1 where s1: "readRune s = (Inr (Some LBRACE), s1)" "kept s (ascii t @ RBRACE # rest) s1"
      using readRune_Cons [of s LBRACE "ascii t @ RBRACE # rest"] by auto
    obtain ws s2 where ws: "readDelimited k (readWithDelim opts k) ''set'' RBRACE start s1 = (Inr ws, s2)" "map plain ws = map plain vs" "kept s1 rest s2"
      by (rule readDelimited_body [OF assms(1), of s1 RBRACE rest k]) (use * s1(2) in \<open>auto simp: kept_def\<close>)
    with s1 checkDuplicates_ok [OF ws(2) assms(2)]
    show "\<exists>w s'. read_on opts k (readWithDelim opts k) start sp (of_char CHR ''#'') s = (Inr (Some (Form w)), s') \<and>
        plain w = plain (VSet m vs) \<and> kept s rest s'"
      by (auto simp: read_on_def readDispatch_def formed_def readSet_def rbind_def ret_def kept_def)
  qed (auto simp: isWhitespace_def)
  then show ?thesis by simp
qed

lemma pairs_of_flatten:
  "map plain ws = map plain (flatten es) \<Longrightarrow>
     even (length ws) \<and> map (\<lambda>e. (plain (fst e), plain (snd e))) (pairs_of ws) = map (\<lambda>e. (plain (fst e), plain (snd e))) es"
proof (induction es arbitrary: ws rule: flatten.induct)
  case (2 k v es)
  then obtain a b us where "ws = a # b # us" "plain a = plain k" "plain b = plain v" "map plain us = map plain (flatten es)"
    by (auto simp: map_eq_Cons_conv)
  with 2 show ?case by simp
qed simp

lemma reads_map:
  assumes "body_reads opts t (flatten es)" and "unequal (map fst es)"
  shows "reads opts (''{'' @ t @ ''}'') (VMap m es)"
proof -
  have "reads opts (CHR ''{'' # t @ ''}'') (VMap m es)"
  proof (rule readsI)
    fix k start sp and s :: reader and rest
    assume *: "input s = ascii (t @ ''}'') @ rest" "length (input s) < k" "tagPreserve s = 0"
    obtain ws s1 where ws: "readDelimited k (readWithDelim opts k) ''map'' RBRACE start s = (Inr ws, s1)"
      "map plain ws = map plain (flatten es)" "kept s rest s1"
      by (rule readDelimited_body [OF assms(1), of s RBRACE rest k]) (use * in auto)
    note pairs = pairs_of_flatten [OF ws(2)]
    then have "map fst (map (\<lambda>e. (plain (fst e), plain (snd e))) (pairs_of ws)) = map fst (map (\<lambda>e. (plain (fst e), plain (snd e))) es)" by simp
    then have "map plain (map fst (pairs_of ws)) = map plain (map fst es)" by (simp add: comp_def)
    from ws(1,3) pairs checkDuplicates_ok [OF this assms(2)]
    show "\<exists>w s'. read_on opts k (readWithDelim opts k) start sp (of_char CHR ''{'') s = (Inr (Some (Form w)), s') \<and>
        plain w = plain (VMap m es) \<and> kept s rest s'"
      by (auto simp: read_on_def formed_def readMapLiteral_def rbind_def ret_def)
  qed (auto simp: isWhitespace_def)
  then show ?thesis by simp
qed

subsection \<open>Tags\<close>

lemma subform_ok: "rec None False s = (Inr (Form w), s') \<Longrightarrow> subform rec start what args s = (Inr w, s')"
  by (simp add: subform_def readForm_def rbind_def ret_def)

lemma plain_symbol: "plain w = VSym None ns n \<Longrightarrow> is_symbol w \<and> FullName w = kw_string ns n"
  by (cases w) (auto simp: kw_string_def)

lemma readTaggedLiteral_exact:
  assumes "plain_opts opts" and "symbol_ok ns n" and "reads opts tv v"
    and "input s = ascii (kw_string ns n @ '' '' @ tv) @ rest" and "ends rest" and "length (input s) < k" and "tagPreserve s = 0"
    and tag: "\<And>tg w s. is_symbol tg \<Longrightarrow> FullName tg = kw_string ns n \<Longrightarrow> plain w = plain v \<Longrightarrow> tagPreserve s = 0 \<Longrightarrow>
      \<exists>r. tag_value opts start tg w s = (Inr r, s) \<and> plain r = plain u"
  shows "\<exists>r s'. readTaggedLiteral opts (readWithDelim opts k) start s = (Inr r, s') \<and> plain r = plain u \<and> kept s rest s'"
proof -
  obtain tg s1 where tg: "readWithDelim opts k None False s = (Inr (Form tg), s1)" "plain tg = VSym None ns n"
    "kept s (ascii ('' '' @ tv) @ rest) s1"
    by (rule readsD [OF reads_symbol [OF assms(1,2), of None], of "[]" "ascii ('' '' @ tv) @ rest" s k None False])
      (use assms in \<open>auto simp: ends_def isWhitespace_def\<close>)
  have "length (input s1) < k" using rd.rec_eats [OF tg(1)] assms(6) by simp
  with tg(3) assms obtain w s2 where w: "readWithDelim opts k None False s1 = (Inr (Form w), s2)" "plain w = plain v" "kept s1 rest s2"
    by (elim readsD [of opts tv v "ascii '' ''" rest s1 k None False]) (auto simp: kept_def isWhitespace_def)
  note sym = plain_symbol [OF tg(2)]
  obtain r where "tag_value opts start tg w s2 = (Inr r, s2)" "plain r = plain u"
    using tag [of tg w s2] sym w(2,3) tg(3) assms(7) by (auto simp: kept_def)
  moreover have "kept s rest s2" using tg(3) w(3) by (simp add: kept_def)
  ultimately show ?thesis
    using sym subform_ok [of "readWithDelim opts k", OF tg(1)] subform_ok [of "readWithDelim opts k", OF w(1)]
    by (auto simp: readTaggedLiteral_def rbind_def)
qed

lemma reads_tagged:
  assumes "plain_opts opts" and "symbol_ok ns n" and "reads opts tv v"
    and lead: "kw_string ns n = c # t" "0x61 \<le> (of_char c :: nat)" "of_char c \<le> (0x7A :: nat)"
    and tag: "\<And>start tg w s. is_symbol tg \<Longrightarrow> FullName tg = kw_string ns n \<Longrightarrow> plain w = plain v \<Longrightarrow> tagPreserve s = 0 \<Longrightarrow>
      \<exists>r. tag_value opts start tg w s = (Inr r, s) \<and> plain r = plain u"
  shows "reads opts (''#'' @ kw_string ns n @ '' '' @ tv) u"
proof -
  have "reads opts (CHR ''#'' # kw_string ns n @ '' '' @ tv) u"
  proof (rule readsI)
    fix k start sp and s :: reader and rest
    assume *: "ends rest" "input s = ascii (kw_string ns n @ '' '' @ tv) @ rest" "length (input s) < k" "tagPreserve s = 0"
    let ?more = "ascii (t @ '' '' @ tv) @ rest"
    obtain s1 where s1: "readRune s = (Inr (Some (of_char c)), s1)" "kept s ?more s1" "lastRune s1 = Some (of_char c)"
      using readRune_Cons [of s "of_char c" ?more] * lead(1) by auto
    then obtain s2 where s2: "unreadRune s1 = (Inr (), s2)" "kept s1 (of_char c # ?more) s2"
      using unreadRune_Some [of s1 "of_char c"] by (auto simp: kept_def)
    obtain r s3 where s3: "readTaggedLiteral opts (readWithDelim opts k) start s2 = (Inr r, s3)" "plain r = plain u" "kept s2 rest s3"
      using readTaggedLiteral_exact [OF assms(1-3), of s2 rest k start u] tag * lead(1) s1(2) s2(2) by (auto simp: kept_def)
    have "readDispatch opts k (readWithDelim opts k) start sp s = (Inr (Some (Form r)), s3)"
      using s1(1) s2(1) s3(1) lead(2,3)
      by (simp add: readDispatch_def formed_def rbind_def ret_def isSymbolLead_def)
    moreover have "kept s rest s3" using s1(2) s2(2) s3(3) by (simp add: kept_def)
    ultimately show "\<exists>w s'. read_on opts k (readWithDelim opts k) start sp (of_char CHR ''#'') s = (Inr (Some (Form w)), s') \<and>
        plain w = plain u \<and> kept s rest s'"
      using s3(2) by (auto simp: read_on_def)
  qed (auto simp: isWhitespace_def)
  then show ?thesis by simp
qed

lemma symbol_ok_tags:
  "symbol_ok (Some ''cljgo'') ''ok''" "symbol_ok (Some ''cljgo'') ''err''" "symbol_ok (Some ''cljgo'') ''just''"
  "symbol_ok None ''uuid''" "symbol_ok None ''inst''"
  by (auto simp: symbol_ok_def names_ok_def name_ok_def kw_string_def constituent_def isWhitespace_def isTerminatingMacro_def
      isMacro_def is_digit_def)

lemma plain_VStr: "plain w = VStr s \<longleftrightarrow> w = VStr s"
  by (cases w) auto

lemma tag_value_builtin:
  assumes "plain_opts opts" and "tagPreserve s = 0" and "builtin_tag (FullName tg) w = Some r"
  shows "tag_value opts start tg w s = (Inr r, s)"
  using assms by (simp add: tag_value_def plain_opts_def ret_def)

lemma reads_wrapped:
  assumes "plain_opts opts" and "reads opts tv v"
  shows "reads opts (''#cljgo/ok '' @ tv) (VData DOk [v])" "reads opts (''#cljgo/err '' @ tv) (VData DErr [v])"
    "reads opts (''#cljgo/just '' @ tv) (VData DJust [v])"
proof -
  note use = tag_value_builtin [OF assms(1)]
  have "reads opts (''#'' @ kw_string (Some ''cljgo'') ''ok'' @ '' '' @ tv) (VData DOk [v])"
    by (rule reads_tagged [OF assms(1) symbol_ok_tags(1) assms(2)])
      (auto simp: kw_string_def builtin_tag_def use)
  then show "reads opts (''#cljgo/ok '' @ tv) (VData DOk [v])" by (simp add: kw_string_def)
  have "reads opts (''#'' @ kw_string (Some ''cljgo'') ''err'' @ '' '' @ tv) (VData DErr [v])"
    by (rule reads_tagged [OF assms(1) symbol_ok_tags(2) assms(2)])
      (auto simp: kw_string_def builtin_tag_def use)
  then show "reads opts (''#cljgo/err '' @ tv) (VData DErr [v])" by (simp add: kw_string_def)
  have "reads opts (''#'' @ kw_string (Some ''cljgo'') ''just'' @ '' '' @ tv) (VData DJust [v])"
    by (rule reads_tagged [OF assms(1) symbol_ok_tags(3) assms(2)])
      (auto simp: kw_string_def builtin_tag_def use)
  then show "reads opts (''#cljgo/just '' @ tv) (VData DJust [v])" by (simp add: kw_string_def)
qed

lemma reads_stamped:
  assumes "plain_opts opts" and "list_all bare_char t"
  shows "NewUUID t = Some u \<Longrightarrow> reads opts (''#uuid \"'' @ t @ ''\"'') (VLit (LUUID u))"
    and "NewInst t = Inr l \<Longrightarrow> reads opts (''#inst \"'' @ t @ ''\"'') (VLit l)"
proof -
  have str: "reads opts (''\"'' @ t @ ''\"'') (VStr t)"
    using reads_string [of t opts] assms(2) bare_string_char by (simp add: Quote_bare list_all_iff)
  have "reads opts (''#'' @ kw_string None ''uuid'' @ '' '' @ ''\"'' @ t @ ''\"'') (VLit (LUUID u))" if "NewUUID t = Some u"
    by (rule reads_tagged [OF assms(1) symbol_ok_tags(4) str])
      (use assms(1) that in \<open>auto simp: kw_string_def plain_VStr tag_value_def plain_opts_def builtin_tag_def uuid_or_inst_def ret_def\<close>)
  then show "NewUUID t = Some u \<Longrightarrow> reads opts (''#uuid \"'' @ t @ ''\"'') (VLit (LUUID u))" by (simp add: kw_string_def)
  have "reads opts (''#'' @ kw_string None ''inst'' @ '' '' @ ''\"'' @ t @ ''\"'') (VLit l)" if "NewInst t = Inr l"
    by (rule reads_tagged [OF assms(1) symbol_ok_tags(5) str])
      (use assms(1) that in \<open>auto simp: kw_string_def plain_VStr tag_value_def plain_opts_def builtin_tag_def uuid_or_inst_def ret_def\<close>)
  then show "NewInst t = Inr l \<Longrightarrow> reads opts (''#inst \"'' @ t @ ''\"'') (VLit l)" by (simp add: kw_string_def)
qed

subsection \<open>Data of any depth\<close>

fun literal_readable :: "literal \<Rightarrow> bool" where
  "literal_readable (LChar r) = char_ok r"
| "literal_readable (LBigInt n) = fits_int64 n"
| "literal_readable (LRatio p q) \<longleftrightarrow> 1 < q \<and> coprime p q"
| "literal_readable (LUUID s) \<longleftrightarrow> list_all bare_char s \<and> NewUUID s = Some s"
| "literal_readable (LInst s t) \<longleftrightarrow> list_all bare_char s \<and> NewInst s = Inr (LInst s t)"
| "literal_readable _ = False"

function readable :: "val \<Rightarrow> bool" where
  "readable v =
     (case v of
        VNil \<Rightarrow> True
      | VBool b \<Rightarrow> True
      | VInt n \<Rightarrow> True
      | VLit l \<Rightarrow> literal_readable l
      | VStr s \<Rightarrow> list_all string_char s
      | VKw ns n \<Rightarrow> names_ok ns n
      | VSym _ ns n \<Rightarrow> symbol_ok ns n
      | VList _ xs \<Rightarrow> (\<forall>x\<in>set xs. readable x)
      | VVec _ xs \<Rightarrow> (\<forall>x\<in>set xs. readable x)
      | VSet _ xs \<Rightarrow> (\<forall>x\<in>set xs. readable x) \<and> unequal xs
      | VMap _ es \<Rightarrow> (\<forall>e\<in>set es. readable (fst e) \<and> readable (snd e)) \<and> unequal (map fst es)
      | VData k xs \<Rightarrow> k \<in> {DOk, DErr, DJust} \<and> length xs = 1 \<and> (\<forall>x\<in>set xs. readable x)
      | _ \<Rightarrow> False)"
  by auto
termination
  by (relation "measure size") auto

declare readable.simps [simp del]

text \<open>The vars as they are unless a program binds them.\<close>

definition plain_printing :: "pvars \<Rightarrow> bool" where
  "plain_printing pv \<longleftrightarrow>
     readably pv \<and> printLengthVar pv = None \<and> \<not> printMetaVar pv \<and> \<not> namespaceMaps pv \<and> printMethod pv = (\<lambda>_ _. None)"

lemma Print_plain:
  assumes "plain_printing pv"
  shows "Print pv None (VList m xs) = ''('' @ print_items None 0 '' '' (map (Print pv None) xs) @ '')''"
    "Print pv None (VVec m xs) = ''['' @ print_items None 0 '' '' (map (Print pv None) xs) @ '']''"
    "Print pv None (VSet m xs) = ''#{'' @ print_items None 0 '' '' (map (Print pv None) xs) @ ''}''"
    "Print pv None (VMap m es) =
       ''{'' @ print_items None 0 '', '' (map (\<lambda>e. fst e @ '' '' @ snd e) (map (\<lambda>e. (Print pv None (fst e), Print pv None (snd e))) es)) @ ''}''"
    "Print pv None (VData DOk [x]) = ''#cljgo/ok '' @ Print pv None x"
    "Print pv None (VData DErr [x]) = ''#cljgo/err '' @ Print pv None x"
    "Print pv None (VData DJust [x]) = ''#cljgo/just '' @ Print pv None x"
  using assms by (subst Print.simps; simp add: plain_printing_def meta_form_def printLevelStep_def comp_def)+

lemma Print_leaf:
  assumes "plain_printing pv" and "case v of VList _ _ \<Rightarrow> False | VVec _ _ \<Rightarrow> False | VSet _ _ \<Rightarrow> False | VMap _ _ \<Rightarrow> False | VData _ _ \<Rightarrow> False | _ \<Rightarrow> True"
  shows "Print pv None v = leaf_text pv v"
  using assms by (subst Print.simps) (cases v; simp add: plain_printing_def meta_form_def)

lemma FullName_kw_string: "FullName (VSym m ns n) = kw_string ns n"
  by (simp add: kw_string_def split: option.split)

lemma big_int_reads: "reads opts (int_str n @ ''N'') (big_int n)" "reads opts (int_str n) (VInt n)"
  using reads_int [of opts n True] reads_int [of opts n False] by simp_all

lemma reads_literal:
  assumes "plain_opts opts" and "readably pv" and "literal_readable l"
  shows "reads opts (literal_text pv l) (VLit l)"
proof (cases l)
  case (LBigInt n)
  with assms big_int_reads(1) [of opts n] show ?thesis by (simp add: literal_text_def big_suffix_def big_int_def)
qed (use assms reads_char reads_ratio reads_stamped [OF assms(1)] in \<open>auto simp: literal_text_def\<close>)

lemma reads_Print:
  assumes pv: "plain_printing pv" and opts: "plain_opts opts" and "readable v"
  shows "reads opts (Print pv None v) v"
  using assms(3)
proof (induction v rule: measure_induct_rule [of size])
  case (less v)
  have seq: "body_reads opts (print_items None 0 '' '' (map (Print pv None) xs)) xs"
    if "\<forall>x\<in>set xs. readable x" "\<And>x. x \<in> set xs \<Longrightarrow> size x < size v" for xs
    by (rule body_reads_seq) (use that less.IH in \<open>auto simp: list_all2_conv_all_nth\<close>)
  note leaf = Print_leaf [OF pv, of v]
  have rd: "readably pv" using pv by (simp add: plain_printing_def)
  show ?case
  proof (cases v)
    case (VInt n)
    with leaf rd big_int_reads [of opts n] show ?thesis by (auto simp: leaf_text_def big_suffix_def big_int_def)
  next
    case (VLit l)
    with leaf less.prems reads_literal [OF opts rd] show ?thesis by (simp add: leaf_text_def readable.simps)
  next
    case (VData k xs)
    with less.prems obtain x where x: "xs = [x]" "k \<in> {DOk, DErr, DJust}" "readable x"
      by (auto simp: readable.simps length_Suc_conv)
    with less.IH [of x] VData reads_wrapped [OF opts, of "Print pv None x" x] show ?thesis
      by (auto simp: Print_plain [OF pv])
  next
    case (VList m xs)
    with less.prems seq [of xs] reads_list(1) [of opts _ xs m] show ?thesis by (auto simp: Print_plain [OF pv] readable.simps)
  next
    case (VVec m xs)
    with less.prems seq [of xs] reads_list(2) [of opts _ xs m] show ?thesis by (auto simp: Print_plain [OF pv] readable.simps)
  next
    case (VSet m xs)
    with less.prems seq [of xs] reads_set [of opts _ xs m] show ?thesis by (auto simp: Print_plain [OF pv] readable.simps)
  next
    case (VMap m es)
    with less.prems have es: "\<forall>e\<in>set es. readable (fst e) \<and> readable (snd e)" "unequal (map fst es)" by (auto simp: readable.simps)
    have "body_reads opts (print_items None 0 '', '' (map (\<lambda>e. fst e @ '' '' @ snd e) (map (\<lambda>e. (Print pv None (fst e), Print pv None (snd e))) es))) (flatten es)"
      by (rule body_reads_map) (use es(1) VMap less.IH in \<open>auto simp: list_all2_conv_all_nth\<close>)
    from reads_map [OF this es(2)] VMap show ?thesis by (simp add: Print_plain [OF pv])
  qed (use leaf less.prems reads_word reads_string reads_keyword [OF opts] reads_symbol [OF opts] rd in
      \<open>auto simp: leaf_text_def readable.simps FullName_kw_string simp del: FullName.simps\<close>)
qed

end
