(* ===== verification/PrintProps.thy ===== *)
theory PrintProps
  imports PrintRead ReaderProps
begin

text \<open>The round trip of the printer and the reader, and where it fails.\<close>

subsection \<open>The text is ASCII\<close>

lemma ascii_digits: "list_all is_digit t \<Longrightarrow> is_ascii t"
  by (induction t) (auto simp: is_digit_def)

lemma ascii_int_str: "is_ascii (int_str n)"
  by (simp add: int_str_def ascii_digits nat_str_digits)

lemma ascii_print_items: "\<forall>t\<in>set ts. is_ascii t \<Longrightarrow> is_ascii sep \<Longrightarrow> is_ascii (print_items None n sep ts)"
  by (induction ts arbitrary: n) auto

lemma ascii_Quote: "list_all string_char t \<Longrightarrow> is_ascii (Quote p t)"
proof -
  assume "list_all string_char t"
  then have "is_ascii (quote_body p (map of_char t))"
  proof (induction t)
    case (Cons c t)
    then have c: "string_char c" by simp
    have "is_ascii (escaped_rune p (of_char c))"
      using c by (cases rule: escaped_char [where p = p]) (auto simp: escaped_bare bare_char_def)
    with Cons c string_char_ascii [OF c] show ?case by (simp add: quote_body_Cons)
  qed simp
  then show ?thesis by (simp add: Quote_def)
qed

lemma ascii_bare: "list_all bare_char t \<Longrightarrow> is_ascii t"
  by (induction t) (auto simp: bare_char_def)

lemma ascii_literal: "literal_readable l \<Longrightarrow> is_ascii (literal_text pv l)"
  by (cases l) (auto simp: literal_text_def ascii_int_str big_suffix_def ascii_bare CharLiteralFromRune_def encode_rune_def char_ok_def)

lemma ascii_names: "names_ok ns n \<Longrightarrow> is_ascii (kw_string ns n)"
  by (rule constituent_ascii) (rule names_ok_text)

lemma ascii_Print:
  assumes pv: "plain_printing pv" and "readable v"
  shows "is_ascii (Print pv None v)"
  using assms(2)
proof (induction v rule: measure_induct_rule [of size])
  case (less v)
  have rd: "readably pv" using pv by (simp add: plain_printing_def)
  have seq: "is_ascii (print_items None 0 '' '' (map (Print pv None) xs))"
    if "\<forall>x\<in>set xs. readable x" "\<And>x. x \<in> set xs \<Longrightarrow> size x < size v" for xs
    by (rule ascii_print_items) (use that less.IH in auto)
  note leaf = Print_leaf [OF pv, of v]
  show ?case
  proof (cases v)
    case (VInt n)
    with leaf show ?thesis by (simp add: leaf_text_def big_suffix_def ascii_int_str)
  next
    case (VData k xs)
    with less.prems obtain x where "xs = [x]" "k \<in> {DOk, DErr, DJust}" "readable x"
      by (auto simp: readable.simps length_Suc_conv)
    with less.IH [of x] VData show ?thesis by (auto simp: Print_plain [OF pv])
  next
    case (VMap m es)
    with less.prems have es: "\<forall>e\<in>set es. readable (fst e) \<and> readable (snd e)" by (auto simp: readable.simps)
    have "is_ascii (print_items None 0 '', '' (map (\<lambda>e. fst e @ '' '' @ snd e) (map (\<lambda>e. (Print pv None (fst e), Print pv None (snd e))) es)))"
      by (rule ascii_print_items) (use es VMap less.IH in auto)
    with VMap show ?thesis by (simp add: Print_plain [OF pv])
  qed (use leaf less.prems seq rd in \<open>auto simp: leaf_text_def readable.simps Print_plain [OF pv] ascii_literal ascii_Quote ascii_names
      FullName_kw_string symbol_ok_def simp del: FullName.simps\<close>)
qed

subsection \<open>The round trip\<close>


definition sample_pv :: pvars where
  "sample_pv = \<lparr>readably = True, printLengthVar = None, printMetaVar = False, namespaceMaps = False, printMethod = (\<lambda>_ _. None),
     varName = (\<lambda>_. ([], [])), hostText = (\<lambda>_. []), unicodePrint = (\<lambda>_. True)\<rparr>"

definition sample_val :: val where
  "sample_val = VMap None [(VKw (Some ''a'') ''b'', VVec None [VInt (- 5), VStr [CHR 0x22, CHR 0x0A], VLit (LRatio 1 2)]),
     (VSym None None ''x'', VSet None [VNil, VBool True])]"


text \<open>A string with a bell is written with an escape that the reader refuses; the absent value is
  written as a symbol.\<close>

lemma bell_unreadable:
  "PrintString sample_pv None (VStr [CHR 0x07]) = [CHR 0x22, CHR 0x5C, CHR ''a'', CHR 0x22]"
  "\<exists>p m. ReadString default_opts (decode (PrintString sample_pv None (VStr [CHR 0x07]))) = Inl (Error p None m)"
proof -
  show t: "PrintString sample_pv None (VStr [CHR 0x07]) = [CHR 0x22, CHR 0x5C, CHR ''a'', CHR 0x22]"
    by (simp add: PrintString_def Print.simps meta_form_def sample_pv_def leaf_text_def Quote_def quote_body_Cons escaped_rune_def IsPrint_def)
  show "\<exists>p m. ReadString default_opts (decode (PrintString sample_pv None (VStr [CHR 0x07]))) = Inl (Error p None m)"
    unfolding t
    by (simp add: decode_def reader_eval readString_def stringLoop.simps readEscape_def simple_escape_def del: readWithDelim.simps)
qed

lemma none_unreadable:
  "ReadString default_opts (decode (PrintString sample_pv None (VData DNone []))) \<noteq> Inr (VData DNone [])"
  by (simp add: PrintString_def Print.simps meta_form_def sample_pv_def decode_def reader_eval form_eval del: readWithDelim.simps)

end
