(* ===== verification/Decimal.thy ===== *)
theory Decimal
  imports Printer Numbers
begin

text \<open>
  \<^verbatim>\<open>pkg/lang/bigdecimal.go\<close>: decimals of any precision, an integer and a 32-bit scale, with their
  arithmetic, rounding and text, and the \<^verbatim>\<open>bigDecimalOps\<close> of \<^verbatim>\<open>numberops.go\<close>, which round to the
  bound \<^verbatim>\<open>*math-context*\<close>.  \<^verbatim>\<open>NewBigDecimal\<close> and the text of a decimal are in \<open>ReaderNumber\<close>
  and \<open>Printer\<close>.
\<close>

unbundle bit_operations_syntax

record bigdecimal =
  unscaled :: int
  scale :: int

text \<open>What fails, and whether it is returned as an error or panics.\<close>

datatype derr = ZeroDivisor | NonTerminating | ScaleRange | RoundingNecessary | NotFinite | BadNumber | NoRoundingMode string

datatype dfail = Returned derr | Panicked derr

type_synonym 'a dres = "dfail + 'a"

definition raised :: "'a dres \<Rightarrow> 'a dres" where
  "raised r = (case r of Inl (Returned e) \<Rightarrow> Inl (Panicked e) | _ \<Rightarrow> r)"

definition bigDecPow10 :: "int \<Rightarrow> int" where
  "bigDecPow10 n = 10 ^ nat n"

definition clampBigDecScale :: "int \<Rightarrow> int dres" where
  "clampBigDecScale s = (if s < - (2 ^ 31) \<or> 2 ^ 31 \<le> s then Inl (Panicked ScaleRange) else Inr s)"

definition clamped :: "int \<Rightarrow> int \<Rightarrow> bigdecimal dres" where
  "clamped u s = bindE (clampBigDecScale s) (\<lambda>s. Inr \<lparr>unscaled = u, scale = s\<rparr>)"

subsection \<open>Constructors\<close>

definition MustBigDecimal :: "string \<Rightarrow> bigdecimal dres" where
  "MustBigDecimal s =
     (case NewBigDecimal s of None \<Rightarrow> Inl (Panicked BadNumber) | Some (u, sc) \<Rightarrow> Inr \<lparr>unscaled = u, scale = sc\<rparr>)"

text \<open>\<^verbatim>\<open>strconv.FormatFloat\<close> with verb \<^verbatim>\<open>g\<close> and precision \<open>- 1\<close>: an exponent from a million on.\<close>

definition general_text :: "nat \<times> int \<Rightarrow> string" where
  "general_text r =
     (case r of (d, k) \<Rightarrow>
        let ds = nat_str d; n = int (length ds); x = k + n - 1 in
        if x < - 4 \<or> 6 \<le> x then
          take 1 ds @ (if length ds = 1 then [] else ''.'' @ drop 1 ds) @ ''e'' @ (if x < 0 then ''-'' else ''+'') @
          (if \<bar>x\<bar> < 10 then ''0'' else []) @ nat_str (nat \<bar>x\<bar>)
        else if 0 \<le> k then ds @ replicate (nat k) CHR ''0''
        else if - k < n then take (nat (n + k)) ds @ ''.'' @ drop (nat (n + k)) ds
        else ''0.'' @ replicate (nat (- k - n)) CHR ''0'' @ ds)"

definition NewBigDecimalFromFloat64 :: "f64 \<Rightarrow> bigdecimal dres" where
  "NewBigDecimalFromFloat64 x =
     (case x of
        F64 neg m e \<Rightarrow>
          (let s = (if neg then ''-'' else []) @ (if m = 0 then ''0'' else general_text (shortest m e)) in
           MustBigDecimal (if list_ex (\<lambda>c. c \<in> set ''.eE'') s then s else s @ ''.0''))
      | _ \<Rightarrow> Inl (Panicked NotFinite))"

definition NewBigDecimalFromBigInt :: "int \<Rightarrow> bigdecimal" where
  "NewBigDecimalFromBigInt n = \<lparr>unscaled = n, scale = 0\<rparr>"

definition NewBigDecimalFromInt64 :: "64 word \<Rightarrow> bigdecimal" where
  "NewBigDecimalFromInt64 i = \<lparr>unscaled = sint i, scale = 0\<rparr>"

subsection \<open>Readings\<close>

definition Sign :: "bigdecimal \<Rightarrow> int" where
  "Sign n = sgn (unscaled n)"

text \<open>The decimal digits of a magnitude, as many as its text has.\<close>

definition digit_count :: "int \<Rightarrow> int" where
  "digit_count u = int (length (nat_str (nat \<bar>u\<bar>)))"

definition precision :: "bigdecimal \<Rightarrow> int" where
  "precision n = (if unscaled n = 0 then 1 else digit_count (unscaled n))"

definition adjExp :: "bigdecimal \<Rightarrow> int" where
  "adjExp n = precision n - scale n - 1"

definition bigDecAlign :: "bigdecimal \<Rightarrow> bigdecimal \<Rightarrow> int \<times> int \<times> int" where
  "bigDecAlign x y =
     (if scale x = scale y then (unscaled x, unscaled y, scale x)
      else if scale y < scale x then (unscaled x, unscaled y * bigDecPow10 (scale x - scale y), scale x)
      else (unscaled x * bigDecPow10 (scale y - scale x), unscaled y, scale y))"

definition ToBigInteger :: "bigdecimal \<Rightarrow> int" where
  "ToBigInteger n =
     (if scale n = 0 then unscaled n
      else if 0 < scale n then Quo (unscaled n) (bigDecPow10 (scale n))
      else unscaled n * bigDecPow10 (- scale n))"

definition BD_Rat :: "bigdecimal \<Rightarrow> rat" where
  "BD_Rat n =
     (if 0 \<le> scale n then of_int (unscaled n) / of_int (bigDecPow10 (scale n))
      else of_int (unscaled n * bigDecPow10 (- scale n)))"

definition BD_String :: "bigdecimal \<Rightarrow> string" where
  "BD_String n = decimal_str (unscaled n) (scale n)"

definition PlainString :: "bigdecimal \<Rightarrow> string" where
  "PlainString n =
     (let ds = nat_str (nat \<bar>unscaled n\<bar>); s = scale n;
          body =
            (if s \<le> 0 then ds @ replicate (nat (- s)) CHR ''0''
             else if s < int (length ds) then take (nat (int (length ds) - s)) ds @ ''.'' @ drop (nat (int (length ds) - s)) ds
             else ''0.'' @ replicate (nat (s - int (length ds))) CHR ''0'' @ ds)
      in if unscaled n < 0 then CHR ''-'' # body else body)"

text \<open>The loops that divide as long as nothing remains, and count.\<close>

function factor_out :: "int \<Rightarrow> int \<Rightarrow> nat \<times> int" where
  "factor_out p n =
     (if p \<le> 1 \<or> n = 0 \<or> n mod p \<noteq> 0 then (0, n) else let (c, r) = factor_out p (n div p) in (Suc c, r))"
  by auto
termination
proof (relation "measure (\<lambda>(p, n). nat \<bar>n\<bar>)")
  fix p n :: int
  assume "\<not> (p \<le> 1 \<or> n = 0 \<or> n mod p \<noteq> 0)"
  then have "n = p * (n div p)" "1 < p" "n \<noteq> 0" by auto
  then have "\<bar>n\<bar> = p * \<bar>n div p\<bar>" and "n div p \<noteq> 0" by (metis abs_mult abs_of_pos less_trans zero_less_one, auto)
  moreover have "1 * \<bar>n div p\<bar> < p * \<bar>n div p\<bar>"
    using \<open>1 < p\<close> \<open>n div p \<noteq> 0\<close> by (intro mult_strict_right_mono) auto
  ultimately show "((p, n div p), p, n) \<in> measure (\<lambda>(p, n). nat \<bar>n\<bar>)" by simp
qed auto

declare factor_out.simps [simp del]

text \<open>The scale counts down as an \<^verbatim>\<open>int32\<close>, which wraps.\<close>

definition wrap32 :: "int \<Rightarrow> int" where
  "wrap32 s = sint (word_of_int s :: 32 word)"

definition StripTrailingZeros :: "bigdecimal \<Rightarrow> bigdecimal" where
  "StripTrailingZeros n =
     (if unscaled n = 0 then \<lparr>unscaled = 0, scale = 0\<rparr>
      else case factor_out 10 (unscaled n) of (c, u) \<Rightarrow> \<lparr>unscaled = u, scale = wrap32 (scale n - int c)\<rparr>)"

text \<open>The 32-bit FNV-1a hash of \<^verbatim>\<open>hashByteSlice\<close>.\<close>

definition hashByteSlice :: "string \<Rightarrow> 32 word" where
  "hashByteSlice s = foldl (\<lambda>h c. (h XOR of_nat (of_char c)) * 16777619) 2166136261 s"

definition BD_Hash :: "bigdecimal \<Rightarrow> 32 word" where
  "BD_Hash n =
     (if unscaled n = 0 then 0
      else let m = StripTrailingZeros n in hashByteSlice (int_str (unscaled m) @ ''/'' @ int_str (scale m)))"

subsection \<open>Arithmetic\<close>

definition BD_Add :: "bigdecimal \<Rightarrow> bigdecimal \<Rightarrow> bigdecimal" where
  "BD_Add x y = (case bigDecAlign x y of (a, b, s) \<Rightarrow> \<lparr>unscaled = a + b, scale = s\<rparr>)"

definition BD_Sub :: "bigdecimal \<Rightarrow> bigdecimal \<Rightarrow> bigdecimal" where
  "BD_Sub x y = (case bigDecAlign x y of (a, b, s) \<Rightarrow> \<lparr>unscaled = a - b, scale = s\<rparr>)"

definition BD_Multiply :: "bigdecimal \<Rightarrow> bigdecimal \<Rightarrow> bigdecimal dres" where
  "BD_Multiply x y = clamped (unscaled x * unscaled y) (scale x + scale y)"

definition BD_Divide :: "bigdecimal \<Rightarrow> bigdecimal \<Rightarrow> bigdecimal dres" where
  "BD_Divide x y =
     (let pref = scale x - scale y in
      if unscaled y = 0 then Inl (Panicked ZeroDivisor)
      else if unscaled x = 0 then clamped 0 pref
      else
        let g = gcd \<bar>unscaled x\<bar> \<bar>unscaled y\<bar>;
            num0 = Quo (unscaled x) g; den0 = Quo (unscaled y) g;
            (num, den) = (if den0 < 0 then (- num0, - den0) else (num0, den0));
            (a, d2) = factor_out 2 den; (b, d5) = factor_out 5 d2
        in if d5 \<noteq> 1 then Inl (Panicked NonTerminating)
           else
             let k = max (int a) (int b); uMin = Quo (num * bigDecPow10 k) den; sMin = k + scale x - scale y
             in if sMin < pref then clamped (uMin * bigDecPow10 (pref - sMin)) pref else clamped uMin sMin)"

definition BD_Quotient :: "bigdecimal \<Rightarrow> bigdecimal \<Rightarrow> bigdecimal dres" where
  "BD_Quotient x y =
     (if unscaled y = 0 then Inl (Panicked ZeroDivisor)
      else
        case bigDecAlign x y of (a, b, _) \<Rightarrow>
          let i = Quo a b; pref = scale x - scale y in
          if 0 < pref then clamped (i * bigDecPow10 pref) pref else Inr \<lparr>unscaled = i, scale = 0\<rparr>)"

definition BD_Remainder :: "bigdecimal \<Rightarrow> bigdecimal \<Rightarrow> bigdecimal dres" where
  "BD_Remainder x y = bindE (BD_Quotient x y) (\<lambda>q. bindE (BD_Multiply q y) (\<lambda>p. Inr (BD_Sub x p)))"

definition BD_Cmp :: "bigdecimal \<Rightarrow> bigdecimal \<Rightarrow> int" where
  "BD_Cmp x y = (case bigDecAlign x y of (a, b, _) \<Rightarrow> sgn (a - b))"

definition BD_LT :: "bigdecimal \<Rightarrow> bigdecimal \<Rightarrow> bool" where
  "BD_LT x y \<longleftrightarrow> BD_Cmp x y < 0"

definition BD_LTE :: "bigdecimal \<Rightarrow> bigdecimal \<Rightarrow> bool" where
  "BD_LTE x y \<longleftrightarrow> BD_Cmp x y \<le> 0"

definition BD_GT :: "bigdecimal \<Rightarrow> bigdecimal \<Rightarrow> bool" where
  "BD_GT x y \<longleftrightarrow> 0 < BD_Cmp x y"

definition BD_GTE :: "bigdecimal \<Rightarrow> bigdecimal \<Rightarrow> bool" where
  "BD_GTE x y \<longleftrightarrow> 0 \<le> BD_Cmp x y"

definition BD_Equals :: "bigdecimal \<Rightarrow> bigdecimal \<Rightarrow> bool" where
  "BD_Equals x y \<longleftrightarrow> BD_Cmp x y = 0"

definition BD_Negate :: "bigdecimal \<Rightarrow> bigdecimal" where
  "BD_Negate n = \<lparr>unscaled = - unscaled n, scale = scale n\<rparr>"

definition BD_Abs :: "bigdecimal \<Rightarrow> bigdecimal" where
  "BD_Abs n = (if unscaled n < 0 then BD_Negate n else n)"

definition NewBigDecimalFromRatio :: "rat \<Rightarrow> bigdecimal dres" where
  "NewBigDecimalFromRatio q =
     (case quotient_of q of (n, d) \<Rightarrow> BD_Divide (NewBigDecimalFromBigInt n) (NewBigDecimalFromBigInt d))"

subsection \<open>Rounding\<close>

datatype RoundingMode = RoundUp | RoundDown | RoundCeiling | RoundFloor | RoundHalfUp | RoundHalfDown | RoundHalfEven | RoundUnnecessary

definition ParseRoundingMode :: "string \<Rightarrow> RoundingMode dres" where
  "ParseRoundingMode name =
     (if name = ''UP'' then Inr RoundUp else if name = ''DOWN'' then Inr RoundDown
      else if name = ''CEILING'' then Inr RoundCeiling else if name = ''FLOOR'' then Inr RoundFloor
      else if name = ''HALF_UP'' then Inr RoundHalfUp else if name = ''HALF_DOWN'' then Inr RoundHalfDown
      else if name = ''HALF_EVEN'' then Inr RoundHalfEven else if name = ''UNNECESSARY'' then Inr RoundUnnecessary
      else Inl (Returned (NoRoundingMode name)))"

record MathContext =
  Precision :: int
  Mode :: RoundingMode

definition NewMathContext :: "int \<Rightarrow> string \<Rightarrow> MathContext dres" where
  "NewMathContext p roundingName = bindE (ParseRoundingMode roundingName) (\<lambda>m. Inr \<lparr>Precision = p, Mode = m\<rparr>)"

definition divRound :: "int \<Rightarrow> int \<Rightarrow> RoundingMode \<Rightarrow> bool \<Rightarrow> int dres" where
  "divRound num den mode neg =
     (let q = \<bar>num\<bar> div \<bar>den\<bar>; r = \<bar>num\<bar> mod \<bar>den\<bar>;
          half = (\<lambda>tie. \<bar>den\<bar> < 2 * r \<or> 2 * r = \<bar>den\<bar> \<and> tie);
          up = (\<lambda>inc. Inr (if inc then q + 1 else q))
      in if r = 0 then Inr q
         else case mode of
           RoundUp \<Rightarrow> up True
         | RoundDown \<Rightarrow> up False
         | RoundCeiling \<Rightarrow> up (\<not> neg)
         | RoundFloor \<Rightarrow> up neg
         | RoundHalfUp \<Rightarrow> up (half True)
         | RoundHalfDown \<Rightarrow> up (half False)
         | RoundHalfEven \<Rightarrow> up (half (odd q))
         | RoundUnnecessary \<Rightarrow> Inl (Returned RoundingNecessary))"

definition signed :: "bool \<Rightarrow> int \<Rightarrow> int" where
  "signed neg q = (if neg then - q else q)"

text \<open>A carry may add a digit; it is taken off again.\<close>

definition renormalized :: "int \<Rightarrow> int \<Rightarrow> int \<Rightarrow> bool \<Rightarrow> bigdecimal dres" where
  "renormalized q s p neg =
     (let (q', s') = (if p < digit_count q then (Quo q 10, s - 1) else (q, s)) in clamped (signed neg q') s')"

definition BD_Round :: "bigdecimal \<Rightarrow> int \<Rightarrow> RoundingMode \<Rightarrow> bigdecimal dres" where
  "BD_Round n p mode =
     (if p \<le> 0 then Inr n
      else
        let drop = precision n - p; neg = (unscaled n < 0) in
        if drop \<le> 0 \<or> unscaled n = 0 then Inr n
        else bindE (divRound (unscaled n) (bigDecPow10 drop) mode neg) (\<lambda>q. renormalized q (scale n - drop) p neg))"

definition DivideMC :: "bigdecimal \<Rightarrow> bigdecimal \<Rightarrow> int \<Rightarrow> RoundingMode \<Rightarrow> bigdecimal dres" where
  "DivideMC x y p mode =
     (if unscaled y = 0 then Inl (Returned ZeroDivisor)
      else if p \<le> 0 then BD_Divide x y
      else if unscaled x = 0 then clamped 0 (scale x - scale y)
      else
        let nAbs = \<bar>unscaled x\<bar>; dAbs = \<bar>unscaled y\<bar>; neg = ((unscaled x < 0) \<noteq> (unscaled y < 0));
            shift = digit_count dAbs - digit_count nAbs;
            (nCmp, dCmp) = (if 0 \<le> shift then (nAbs * bigDecPow10 shift, dAbs) else (nAbs, dAbs * bigDecPow10 (- shift)));
            e = adjExp x - adjExp y - (if nCmp < dCmp then 1 else 0);
            s = p - 1 - e; ex = s + scale y - scale x;
            (num, den) = (if 0 \<le> ex then (nAbs * bigDecPow10 ex, dAbs) else (nAbs, dAbs * bigDecPow10 (- ex)))
        in bindE (divRound num den mode neg) (\<lambda>q. renormalized q s p neg))"

definition Sci :: "bigdecimal \<Rightarrow> nat \<Rightarrow> (string \<times> int \<times> bool) dres" where
  "Sci n fracDigits =
     bindE (BD_Round n (int fracDigits + 1) RoundHalfUp) (\<lambda>r.
       let ds = nat_str (nat \<bar>unscaled r\<bar>);
           ds' = (if length ds < fracDigits + 1 then ds @ replicate (fracDigits + 1 - length ds) CHR ''0'' else ds)
       in Inr (if fracDigits = 0 then ds' else take 1 ds' @ ''.'' @ drop 1 ds', adjExp r, unscaled r < 0))"

definition SetScale :: "bigdecimal \<Rightarrow> int \<Rightarrow> RoundingMode \<Rightarrow> bigdecimal dres" where
  "SetScale n newScale mode =
     (if newScale = scale n then Inr n
      else if scale n < newScale then Inr \<lparr>unscaled = unscaled n * bigDecPow10 (newScale - scale n), scale = newScale\<rparr>
      else
        let neg = (unscaled n < 0) in
        bindE (divRound (unscaled n) (bigDecPow10 (scale n - newScale)) mode neg) (\<lambda>q.
          Inr \<lparr>unscaled = signed neg q, scale = newScale\<rparr>))"

subsection \<open>The operations of the language\<close>

datatype operand = Exact number | Float f64 | Decimal bigdecimal

fun AsBigDecimal :: "operand \<Rightarrow> bigdecimal dres" where
  "AsBigDecimal (Exact (GoInt i)) = Inr (NewBigDecimalFromInt64 i)"
| "AsBigDecimal (Exact (Int64 i)) = Inr (NewBigDecimalFromInt64 i)"
| "AsBigDecimal (Exact (BigInt n)) = Inr (NewBigDecimalFromBigInt n)"
| "AsBigDecimal (Exact (GoBig n)) = Inr (NewBigDecimalFromBigInt n)"
| "AsBigDecimal (Exact (Ratio q)) = NewBigDecimalFromRatio q"
| "AsBigDecimal (Float x) = NewBigDecimalFromFloat64 x"
| "AsBigDecimal (Decimal d) = Inr d"

definition on_decimals :: "operand \<Rightarrow> operand \<Rightarrow> (bigdecimal \<Rightarrow> bigdecimal \<Rightarrow> 'a dres) \<Rightarrow> 'a dres" where
  "on_decimals x y f = bindE (AsBigDecimal x) (\<lambda>a. bindE (AsBigDecimal y) (f a))"

text \<open>\<open>mc\<close> is the binding of \<^verbatim>\<open>*math-context*\<close>, if it is one.\<close>

definition bigDecRoundMC :: "MathContext option \<Rightarrow> bigdecimal \<Rightarrow> bigdecimal dres" where
  "bigDecRoundMC mc v = (case mc of None \<Rightarrow> Inr v | Some c \<Rightarrow> raised (BD_Round v (Precision c) (Mode c)))"

definition bigDecimal_Add :: "MathContext option \<Rightarrow> operand \<Rightarrow> operand \<Rightarrow> bigdecimal dres" where
  "bigDecimal_Add mc x y = on_decimals x y (\<lambda>a b. bigDecRoundMC mc (BD_Add a b))"

definition bigDecimal_Sub :: "MathContext option \<Rightarrow> operand \<Rightarrow> operand \<Rightarrow> bigdecimal dres" where
  "bigDecimal_Sub mc x y = on_decimals x y (\<lambda>a b. bigDecRoundMC mc (BD_Sub a b))"

definition bigDecimal_Multiply :: "MathContext option \<Rightarrow> operand \<Rightarrow> operand \<Rightarrow> bigdecimal dres" where
  "bigDecimal_Multiply mc x y = on_decimals x y (\<lambda>a b. bindE (BD_Multiply a b) (bigDecRoundMC mc))"

definition bigDecimal_Divide :: "MathContext option \<Rightarrow> operand \<Rightarrow> operand \<Rightarrow> bigdecimal dres" where
  "bigDecimal_Divide mc x y =
     on_decimals x y (\<lambda>a b.
       case mc of None \<Rightarrow> BD_Divide a b | Some c \<Rightarrow> raised (DivideMC a b (Precision c) (Mode c)))"

definition bigDecimal_UncheckedDec :: "operand \<Rightarrow> bigdecimal dres" where
  "bigDecimal_UncheckedDec x = bindE (AsBigDecimal x) (\<lambda>a. Inr (BD_Sub a (NewBigDecimalFromInt64 1)))"

definition bigDecimal_Quotient :: "operand \<Rightarrow> operand \<Rightarrow> bigdecimal dres" where
  "bigDecimal_Quotient x y = on_decimals x y BD_Quotient"

definition bigDecimal_Remainder :: "operand \<Rightarrow> operand \<Rightarrow> bigdecimal dres" where
  "bigDecimal_Remainder x y = on_decimals x y BD_Remainder"

definition bigDecimal_LT :: "operand \<Rightarrow> operand \<Rightarrow> bool dres" where
  "bigDecimal_LT x y = on_decimals x y (\<lambda>a b. Inr (BD_LT a b))"

definition bigDecimal_Equiv :: "operand \<Rightarrow> operand \<Rightarrow> bool dres" where
  "bigDecimal_Equiv x y = on_decimals x y (\<lambda>a b. Inr (BD_Cmp a b = 0))"

end
