(* ===== verification/DecimalSpec.thy ===== *)
theory DecimalSpec
  imports Decimal NumbersSpec
begin

text \<open>
  Decimals against rational numbers: the exact value of a decimal, the eight ways to round a
  rational number, and what the operations of \<open>Decimal\<close> do to the exact values.
\<close>

subsection \<open>Exact values\<close>

definition dval :: "bigdecimal \<Rightarrow> rat" where
  "dval d = of_int (unscaled d) * 10 powi (- scale d)"

lemma dval_make [simp]: "dval \<lparr>unscaled = u, scale = s\<rparr> = of_int u * 10 powi (- s)"
  by (simp add: dval_def)

lemma dval_0_iff: "dval d = 0 \<longleftrightarrow> unscaled d = 0"
  by (simp add: dval_def)

lemma powi_split: "(10::rat) powi (m + n) = 10 powi m * 10 powi n"
  by (simp add: power_int_add)

lemma powi_diff: "(10::rat) powi (m - n) = 10 powi m * 10 powi (- n)"
  using powi_split [of m "- n"] by simp

lemma powi_cancel [simp]: "(10::rat) powi n * 10 powi (- n) = 1" "(10::rat) powi (- n) * 10 powi n = 1"
  by (simp_all flip: powi_split)

lemma pow10_powi: "0 \<le> n \<Longrightarrow> of_int (bigDecPow10 n) = (10::rat) powi n"
  by (simp add: bigDecPow10_def power_int_def)

lemma pow10_pos: "0 < bigDecPow10 n"
  by (simp add: bigDecPow10_def)

lemma powi_pos [simp]: "0 < (10::rat) powi n"
  by (simp add: zero_less_power_int)

lemma sgn_dval: "sgn (dval d) = of_int (sgn (unscaled d))"
  by (simp add: dval_def sgn_mult) (simp add: sgn_if)

lemma align_ok:
  assumes "bigDecAlign x y = (a, b, s)"
  shows "dval x = of_int a * 10 powi (- s)" and "dval y = of_int b * 10 powi (- s)" and "s = max (scale x) (scale y)"
proof -
  have up: "of_int u * of_int (bigDecPow10 (t - r)) * 10 powi (- t) = of_int u * (10::rat) powi (- r)" if "r < t" for u r t
    using that by (simp add: pow10_powi mult.assoc flip: powi_split)
  show "dval x = of_int a * 10 powi (- s)" and "dval y = of_int b * 10 powi (- s)" and "s = max (scale x) (scale y)"
    using assms by (auto simp: bigDecAlign_def dval_def up split: if_splits)
qed

lemma Rat_ok: "BD_Rat n = dval n"
  by (auto simp: BD_Rat_def dval_def pow10_powi power_int_minus field_simps)

lemma Add_dval: "dval (BD_Add x y) = dval x + dval y"
  using align_ok [of x y] by (auto simp: BD_Add_def algebra_simps split: prod.split)

lemma Sub_dval: "dval (BD_Sub x y) = dval x - dval y"
  using align_ok [of x y] by (auto simp: BD_Sub_def algebra_simps split: prod.split)

lemma Add_scale: "scale (BD_Add x y) = max (scale x) (scale y)" "scale (BD_Sub x y) = max (scale x) (scale y)"
  using align_ok(3) [of x y] by (auto simp: BD_Add_def BD_Sub_def split: prod.split)

lemma Negate_dval: "dval (BD_Negate x) = - dval x" "dval (BD_Abs x) = \<bar>dval x\<bar>"
  by (auto simp: BD_Abs_def BD_Negate_def dval_def abs_mult)

lemma Cmp_ok: "BD_Cmp x y = (if dval x < dval y then - 1 else if dval x = dval y then 0 else 1)"
proof -
  obtain a b s where al: "bigDecAlign x y = (a, b, s)" by (cases "bigDecAlign x y") auto
  from align_ok [OF this] show ?thesis by (auto simp: BD_Cmp_def al sgn_if)
qed

lemma clamped_Inr: "clamped u s = Inr r \<longleftrightarrow> - (2 ^ 31) \<le> s \<and> s < 2 ^ 31 \<and> r = \<lparr>unscaled = u, scale = s\<rparr>"
  by (auto simp: clamped_def clampBigDecScale_def bindE_def)

lemma clamped_cases: "clamped u s = Inr \<lparr>unscaled = u, scale = s\<rparr> \<or> clamped u s = Inl (Panicked ScaleRange)"
  by (auto simp: clamped_def clampBigDecScale_def bindE_def)

lemma Multiply_dval: "BD_Multiply x y = clamped (unscaled x * unscaled y) (scale x + scale y)"
  "of_int (unscaled x * unscaled y) * 10 powi (- (scale x + scale y)) = dval x * dval y"
  by (simp_all add: BD_Multiply_def dval_def powi_diff)

subsection \<open>Digits\<close>

lemma nat_str_length_le: "0 < k \<Longrightarrow> length (nat_str n) \<le> k \<longleftrightarrow> n < 10 ^ k"
proof (induction n arbitrary: k rule: nat_str.induct)
  case (1 n)
  then obtain j where k: "k = Suc j" by (cases k) auto
  show ?case
  proof (cases "n < 10")
    case True
    then have "n < 10 ^ k" using k by (simp add: less_le_trans [of n 10])
    with True k show ?thesis by (simp add: nat_str.simps [of n])
  next
    case False
    then have "0 < n div 10" by simp
    then have "length (nat_str (n div 10)) \<le> j \<longleftrightarrow> n div 10 < 10 ^ j"
      using "1.IH" [OF False, of j] by (cases "j = 0") auto
    moreover have "n div 10 < 10 ^ j \<longleftrightarrow> n < 10 ^ k"
      using k by (simp add: div_less_iff_less_mult mult.commute)
    ultimately show ?thesis using False k by (simp add: nat_str.simps [of n])
  qed
qed

lemma digit_count_pos: "0 < digit_count u"
  by (simp add: digit_count_def)

lemma digit_count_le: "0 < k \<Longrightarrow> digit_count u \<le> k \<longleftrightarrow> \<bar>u\<bar> < 10 ^ nat k"
proof -
  assume "0 < k"
  then have "digit_count u \<le> k \<longleftrightarrow> nat \<bar>u\<bar> < 10 ^ nat k"
    using nat_str_length_le [of "nat k" "nat \<bar>u\<bar>"] by (simp add: digit_count_def le_nat_iff)
  then show ?thesis by (simp add: nat_less_iff)
qed

lemma digit_count_bounds: "u \<noteq> 0 \<Longrightarrow> 10 ^ nat (digit_count u - 1) \<le> \<bar>u\<bar> \<and> \<bar>u\<bar> < 10 ^ nat (digit_count u)"
  using digit_count_le [of "digit_count u" u] digit_count_le [of "digit_count u - 1" u] digit_count_pos [of u]
  by (cases "digit_count u = 1") auto

text \<open>The order of magnitude of a decimal.\<close>

lemma adjExp_bounds:
  assumes "unscaled d \<noteq> 0"
  shows "10 powi adjExp d \<le> \<bar>dval d\<bar>" and "\<bar>dval d\<bar> < 10 powi (adjExp d + 1)"
proof -
  let ?k = "digit_count (unscaled d)"
  have b: "(10::rat) powi (?k - 1) \<le> \<bar>of_int (unscaled d)\<bar>" "\<bar>of_int (unscaled d)\<bar> < (10::rat) powi ?k"
    using digit_count_bounds [OF assms] digit_count_pos [of "unscaled d"]
    by (simp_all add: power_int_nonneg_exp) (metis (mono_tags, opaque_lifting) of_int_abs of_int_le_iff of_int_less_iff of_int_numeral of_int_power)+
  have v: "\<bar>dval d\<bar> = \<bar>of_int (unscaled d)\<bar> * 10 powi (- scale d)" by (simp add: dval_def abs_mult)
  have "adjExp d = (?k - 1) + - scale d" "adjExp d + 1 = ?k + - scale d" using assms by (simp_all add: adjExp_def precision_def)
  then show "10 powi adjExp d \<le> \<bar>dval d\<bar>" and "\<bar>dval d\<bar> < 10 powi (adjExp d + 1)"
    unfolding v using b by (simp_all only: powi_split) (intro mult_right_mono mult_strict_right_mono; simp)+
qed

lemma magnitude:
  assumes "unscaled d \<noteq> 0"
  shows "1 \<le> \<bar>dval d\<bar> * 10 powi (- adjExp d)" and "\<bar>dval d\<bar> * 10 powi (- adjExp d) < 10"
proof -
  have "10 powi adjExp d * 10 powi (- adjExp d) \<le> \<bar>dval d\<bar> * 10 powi (- adjExp d)"
    by (rule mult_right_mono [OF adjExp_bounds(1) [OF assms]]) (simp add: less_imp_le)
  then show "1 \<le> \<bar>dval d\<bar> * 10 powi (- adjExp d)" by simp
  have "\<bar>dval d\<bar> * 10 powi (- adjExp d) < 10 powi (adjExp d + 1) * 10 powi (- adjExp d)"
    by (rule mult_strict_right_mono [OF adjExp_bounds(2) [OF assms]]) simp
  also have "10 powi (adjExp d + 1) * 10 powi (- adjExp d) = (10::rat)" by (simp flip: powi_split)
  finally show "\<bar>dval d\<bar> * 10 powi (- adjExp d) < 10" .
qed

subsection \<open>Factors\<close>

lemma factor_out_ok:
  "1 < p \<Longrightarrow> n \<noteq> 0 \<Longrightarrow> factor_out p n = (c, r) \<Longrightarrow> n = r * p ^ c \<and> \<not> p dvd r"
proof (induction p n arbitrary: c r rule: factor_out.induct)
  case (1 p n)
  show ?case
  proof (cases "n mod p = 0")
    case True
    then have n: "n = p * (n div p)" by auto
    with "1.prems" have nz: "n div p \<noteq> 0" by auto
    obtain c' where c: "c = Suc c'" "factor_out p (n div p) = (c', r)"
      using "1.prems" True by (subst (asm) factor_out.simps) (auto split: prod.splits)
    from "1.IH" [OF _ "1.prems"(1) nz c(2)] True "1.prems" have "n div p = r * p ^ c'" "\<not> p dvd r" by auto
    with n c(1) show ?thesis by (metis mult.commute mult.left_commute power_Suc)
  next
    case False
    with "1.prems" show ?thesis by (subst (asm) factor_out.simps) auto
  qed
qed

subsection \<open>Rounding\<close>

text \<open>The eight ways to round a rational number to an integer; the last one only says what is exact.\<close>

definition rounding :: "RoundingMode \<Rightarrow> rat \<Rightarrow> int" where
  "rounding mode v =
     (case mode of
        RoundUp \<Rightarrow> if 0 \<le> v then \<lceil>v\<rceil> else \<lfloor>v\<rfloor>
      | RoundDown \<Rightarrow> if 0 \<le> v then \<lfloor>v\<rfloor> else \<lceil>v\<rceil>
      | RoundCeiling \<Rightarrow> \<lceil>v\<rceil>
      | RoundFloor \<Rightarrow> \<lfloor>v\<rfloor>
      | RoundHalfUp \<Rightarrow> if 0 \<le> v then \<lfloor>v + 1 / 2\<rfloor> else \<lceil>v - 1 / 2\<rceil>
      | RoundHalfDown \<Rightarrow> if 0 \<le> v then \<lceil>v - 1 / 2\<rceil> else \<lfloor>v + 1 / 2\<rfloor>
      | RoundHalfEven \<Rightarrow>
          if v - of_int \<lfloor>v\<rfloor> < 1 / 2 \<or> v - of_int \<lfloor>v\<rfloor> = 1 / 2 \<and> even \<lfloor>v\<rfloor> then \<lfloor>v\<rfloor> else \<lfloor>v\<rfloor> + 1
      | RoundUnnecessary \<Rightarrow> \<lfloor>v\<rfloor>)"

lemma rounding_int: "v = of_int n \<Longrightarrow> rounding mode v = n"
  by (cases mode) (auto simp: rounding_def floor_eq_iff ceiling_eq_iff)

text \<open>A fraction between two integers, and its mirror image.\<close>

lemma floor_between: "0 < f \<Longrightarrow> f < 1 \<Longrightarrow> \<lfloor>of_int q + (f::rat)\<rfloor> = q" "0 < f \<Longrightarrow> f < 1 \<Longrightarrow> \<lceil>of_int q + (f::rat)\<rceil> = q + 1"
  by (linarith | simp add: ceiling_eq_iff)+

lemma rounding_between:
  assumes f: "0 < f" "f < (1::rat)" and q: "0 \<le> q"
  shows "rounding mode (of_int q + f) =
      (case mode of RoundUp \<Rightarrow> q + 1 | RoundDown \<Rightarrow> q | RoundCeiling \<Rightarrow> q + 1 | RoundFloor \<Rightarrow> q
       | RoundHalfUp \<Rightarrow> if 1 / 2 \<le> f then q + 1 else q | RoundHalfDown \<Rightarrow> if 1 / 2 < f then q + 1 else q
       | RoundHalfEven \<Rightarrow> if 1 / 2 < f \<or> f = 1 / 2 \<and> odd q then q + 1 else q | RoundUnnecessary \<Rightarrow> q)"
    and "rounding mode (- (of_int q + f)) =
      - (case mode of RoundUp \<Rightarrow> q + 1 | RoundDown \<Rightarrow> q | RoundCeiling \<Rightarrow> q | RoundFloor \<Rightarrow> q + 1
       | RoundHalfUp \<Rightarrow> if 1 / 2 \<le> f then q + 1 else q | RoundHalfDown \<Rightarrow> if 1 / 2 < f then q + 1 else q
       | RoundHalfEven \<Rightarrow> if 1 / 2 < f \<or> f = 1 / 2 \<and> odd q then q + 1 else q | RoundUnnecessary \<Rightarrow> q + 1)"
proof -
  define w where "w = of_int q + f"
  have pos: "0 \<le> w" "\<not> 0 \<le> - w" using f q by (simp_all add: w_def add_nonneg_pos)
  have fl: "\<lfloor>w\<rfloor> = q" "\<lceil>w\<rceil> = q + 1" "\<lfloor>- w\<rfloor> = - (q + 1)" "\<lceil>- w\<rceil> = - q"
    using f by (auto simp: w_def floor_eq_iff ceiling_eq_iff)
  have half: "\<lfloor>w + 1 / 2\<rfloor> = (if 1 / 2 \<le> f then q + 1 else q)" "\<lceil>w - 1 / 2\<rceil> = (if 1 / 2 < f then q + 1 else q)"
    "\<lceil>- w - 1 / 2\<rceil> = - (if 1 / 2 \<le> f then q + 1 else q)" "\<lfloor>- w + 1 / 2\<rfloor> = - (if 1 / 2 < f then q + 1 else q)"
    using f by (auto simp: w_def floor_eq_iff ceiling_eq_iff)
  have frac: "w - of_int q = f" "- w - of_int (- (q + 1)) = 1 - f" by (simp_all add: w_def)
  show "rounding mode (of_int q + f) =
      (case mode of RoundUp \<Rightarrow> q + 1 | RoundDown \<Rightarrow> q | RoundCeiling \<Rightarrow> q + 1 | RoundFloor \<Rightarrow> q
       | RoundHalfUp \<Rightarrow> if 1 / 2 \<le> f then q + 1 else q | RoundHalfDown \<Rightarrow> if 1 / 2 < f then q + 1 else q
       | RoundHalfEven \<Rightarrow> if 1 / 2 < f \<or> f = 1 / 2 \<and> odd q then q + 1 else q | RoundUnnecessary \<Rightarrow> q)"
    unfolding w_def [symmetric] by (cases mode) (auto simp: rounding_def pos fl half frac)
  show "rounding mode (- (of_int q + f)) =
      - (case mode of RoundUp \<Rightarrow> q + 1 | RoundDown \<Rightarrow> q | RoundCeiling \<Rightarrow> q | RoundFloor \<Rightarrow> q + 1
       | RoundHalfUp \<Rightarrow> if 1 / 2 \<le> f then q + 1 else q | RoundHalfDown \<Rightarrow> if 1 / 2 < f then q + 1 else q
       | RoundHalfEven \<Rightarrow> if 1 / 2 < f \<or> f = 1 / 2 \<and> odd q then q + 1 else q | RoundUnnecessary \<Rightarrow> q + 1)"
    unfolding w_def [symmetric]
    by (cases mode) (simp_all only: rounding_def RoundingMode.case pos fl half frac if_False if_True; auto)+
qed

text \<open>\<^verbatim>\<open>divRound\<close> rounds the exact quotient; it fails only where rounding is ruled out.\<close>

lemma divRound_ok:
  assumes "den \<noteq> 0" and v: "v = (if neg then - 1 else 1) * \<bar>of_int num / of_int den :: rat\<bar>"
  shows "divRound num den mode neg =
    (if mode = RoundUnnecessary \<and> v \<notin> \<int> then Inl (Returned RoundingNecessary) else Inr (signed neg (rounding mode v)))"
proof -
  define q r where "q = \<bar>num\<bar> div \<bar>den\<bar>" and "r = \<bar>num\<bar> mod \<bar>den\<bar>"
  have d: "0 < \<bar>den\<bar>" "0 \<le> q" "0 \<le> r" "r < \<bar>den\<bar>" using assms(1) by (auto simp: q_def r_def pos_imp_zdiv_nonneg_iff)
  define f :: rat where "f = of_int r / of_int \<bar>den\<bar>"
  have "of_int \<bar>num\<bar> = (of_int (q * \<bar>den\<bar> + r) :: rat)" by (simp add: q_def r_def)
  then have x: "\<bar>of_int num / of_int den :: rat\<bar> = of_int q + f"
    using d(1) by (simp add: f_def abs_divide field_simps)
  have half: "(1 < f * 2) = (\<bar>den\<bar> < 2 * r)" "(f * 2 = 1) = (2 * r = \<bar>den\<bar>)"
  proof -
    have "(1 < f * 2) = ((of_int \<bar>den\<bar> :: rat) < of_int (2 * r))" "(f * 2 = 1) = (of_int (2 * r) = (of_int \<bar>den\<bar> :: rat))"
      using d(1) by (auto simp: f_def field_simps)
    then show "(1 < f * 2) = (\<bar>den\<bar> < 2 * r)" "(f * 2 = 1) = (2 * r = \<bar>den\<bar>)" by (simp_all only: of_int_less_iff of_int_eq_iff)
  qed
  show ?thesis
  proof (cases "r = 0")
    case True
    then have "v = of_int (signed neg q)" using v x by (simp add: f_def signed_def)
    with True show ?thesis by (simp add: divRound_def rounding_int q_def [symmetric] r_def [symmetric] signed_def)
  next
    case False
    then have f: "0 < f" "f < 1" using d by (simp_all add: f_def)
    have "v \<notin> \<int>"
    proof
      assume "v \<in> \<int>"
      then have "\<bar>v\<bar> \<in> \<int>" by (simp add: abs_if)
      moreover have "\<bar>v\<bar> = of_int q + f" unfolding v x [symmetric] by simp
      ultimately obtain n where "of_int q + f = of_int n" by (metis Ints_cases)
      then have "\<lfloor>of_int q + f\<rfloor> = n" "\<lceil>of_int q + f\<rceil> = n" by simp_all
      with floor_between [OF f, of q] show False by simp
    qed
    moreover have v': "v = (if neg then - (of_int q + f) else of_int q + f)" unfolding v x by simp
    moreover have le: "(1 \<le> f * 2) = (\<bar>den\<bar> < 2 * r \<or> 2 * r = \<bar>den\<bar>)" using half by (auto simp: le_less)
    moreover have "divRound num den mode neg =
        (if mode = RoundUnnecessary then Inl (Returned RoundingNecessary) else Inr (signed neg (rounding mode v)))"
      unfolding v' using False
      by (cases mode; cases neg)
        (simp_all add: rounding_between [OF f d(2)] divRound_def half le signed_def flip: q_def r_def del: minus_add_distrib)
    ultimately show ?thesis by simp
  qed
qed

text \<open>A value with a given number of digits before the point, rounded there.\<close>

definition rounds_to :: "int \<Rightarrow> RoundingMode \<Rightarrow> rat \<Rightarrow> bigdecimal dres \<Rightarrow> bool" where
  "rounds_to p mode v R \<longleftrightarrow>
     (\<exists>t. 10 powi (p - 1) \<le> \<bar>v\<bar> * 10 powi t \<and> \<bar>v\<bar> * 10 powi t < 10 powi p \<and>
       (if mode = RoundUnnecessary \<and> v * 10 powi t \<notin> \<int> then R = Inl (Returned RoundingNecessary)
        else \<exists>u s. R = clamped u s \<and> of_int u * 10 powi (- s) = of_int (rounding mode (v * 10 powi t)) * (10 powi (- t) :: rat) \<and>
               \<bar>u\<bar> < 10 ^ nat p))"

lemma rounding_near: "of_int (rounding mode v) - 1 < v" "v < of_int (rounding mode v) + 1"
  by (cases mode; auto simp: rounding_def; linarith)+

lemma rounding_le:
  assumes "\<bar>v\<bar> \<le> of_int k"
  shows "\<bar>rounding mode v\<bar> \<le> k"
proof (cases "v \<in> \<int>")
  case True
  then obtain n where "v = of_int n" by (auto elim: Ints_cases)
  with assms show ?thesis by (simp add: rounding_int)
next
  case False
  then have "v \<noteq> of_int k" "v \<noteq> - of_int k" by auto
  with assms have "- of_int k < v" "v < of_int k" by (auto simp: abs_le_iff less_le)
  then have "of_int (rounding mode v) - 1 < (of_int k :: rat)" "- of_int k < (of_int (rounding mode v) + 1 :: rat)"
    using rounding_near [where mode = mode and v = v] by linarith+
  then have "rounding mode v - 1 < k" "- k < rounding mode v + 1" by linarith+
  then show ?thesis by linarith
qed

lemma renormalized_ok:
  assumes p: "0 < p" and q: "0 \<le> q" "q \<le> 10 ^ nat p"
  obtains u s' where "renormalized q s p neg = clamped u s'"
    and "of_int u * 10 powi (- s') = of_int (signed neg q) * (10 powi (- s) :: rat)" and "\<bar>u\<bar> < 10 ^ nat p"
proof (cases "p < digit_count q")
  case True
  then have "q = 10 ^ nat p" using digit_count_le [OF p, of q] q by auto
  moreover obtain k where k: "nat p = Suc k" using p by (cases "nat p") auto
  ultimately have q': "q = 10 * 10 ^ k" "Quo q 10 = 10 ^ k" by (simp_all add: Quo_def)
  show ?thesis
  proof (rule that)
    show "renormalized q s p neg = clamped (signed neg (10 ^ k)) (s - 1)" using True q' by (simp add: renormalized_def)
    show "of_int (signed neg (10 ^ k)) * 10 powi (- (s - 1)) = of_int (signed neg q) * (10 powi (- s) :: rat)"
      using powi_split [of 1 "- s"] q'(1) by (simp add: signed_def)
    show "\<bar>signed neg (10 ^ k)\<bar> < 10 ^ nat p" by (simp add: signed_def k)
  qed
next
  case False
  then have "q < 10 ^ nat p" using digit_count_le [OF p, of q] q by auto
  with False q that [of "signed neg q" s] show ?thesis by (simp add: renormalized_def signed_def)
qed

text \<open>Rounding a quotient and taking the carry off again.\<close>

lemma round_quotient:
  assumes p: "0 < p" and "den \<noteq> 0"
    and v: "v * 10 powi t = (if neg then - 1 else 1) * \<bar>of_int num / of_int den :: rat\<bar>"
    and b: "10 powi (p - 1) \<le> \<bar>v\<bar> * 10 powi t" "\<bar>v\<bar> * 10 powi t < 10 powi p"
  shows "rounds_to p mode v (bindE (divRound num den mode neg) (\<lambda>q. renormalized q t p neg))"
proof (cases "mode = RoundUnnecessary \<and> v * 10 powi t \<notin> \<int>")
  case True
  with divRound_ok [OF assms(2) v, of mode] b show ?thesis by (auto simp: rounds_to_def bindE_def)
next
  case False
  define n where "n = rounding mode (v * 10 powi t)"
  have "\<bar>v * 10 powi t\<bar> \<le> of_int (10 ^ nat p)"
    using b(2) p by (simp add: abs_mult power_int_nonneg_exp)
  then have n: "\<bar>n\<bar> \<le> 10 ^ nat p" unfolding n_def by (rule rounding_le)
  have "0 \<le> signed neg n"
  proof (cases neg)
    case True
    then have "v * 10 powi t \<le> of_int 0" using v by simp
    then have "rounding mode (v * 10 powi t) \<le> 0"
      by (cases mode) (auto simp: rounding_def floor_le_iff ceiling_le_iff less_le_trans le_less_trans)
    with True show ?thesis by (simp add: n_def signed_def)
  next
    case F: False
    then have "0 \<le> v * 10 powi t" using v by simp
    then have "0 \<le> rounding mode (v * 10 powi t)"
      by (cases mode) (auto simp: rounding_def)
    with F show ?thesis by (simp add: n_def signed_def)
  qed
  moreover have "signed neg n \<le> 10 ^ nat p" using n by (auto simp: signed_def)
  ultimately obtain u s where "renormalized (signed neg n) t p neg = clamped u s"
    "of_int u * 10 powi (- s) = of_int (signed neg (signed neg n)) * (10 powi (- t) :: rat)" "\<bar>u\<bar> < 10 ^ nat p"
    by (rule renormalized_ok [OF p])
  moreover have "signed neg (signed neg n) = n" by (simp add: signed_def)
  ultimately show ?thesis
    using b False divRound_ok [OF assms(2) v, of mode]
    unfolding rounds_to_def by (intro exI [of _ t]) (auto simp: bindE_def n_def)
qed

lemma Round_ok:
  assumes "0 < p" and "p < precision n"
  shows "rounds_to p mode (dval n) (BD_Round n p mode)"
proof -
  let ?d = "precision n - p" and ?u = "unscaled n"
  have nz: "?u \<noteq> 0" using assms by (auto simp: precision_def)
  have t: "dval n * 10 powi (scale n - ?d) = (if ?u < 0 then - 1 else 1) * \<bar>of_int ?u / of_int (bigDecPow10 ?d) :: rat\<bar>"
  proof -
    have "dval n * 10 powi (scale n - ?d) = of_int ?u * 10 powi (- ?d)"
      using powi_split [of "- scale n" "scale n - ?d"] by (simp add: dval_def)
    also have "\<dots> = of_int ?u / of_int (bigDecPow10 ?d)"
      using assms(2) pow10_powi [of ?d] power_int_minus [of "10::rat" ?d] by (simp add: divide_inverse)
    finally show ?thesis using pow10_pos [of ?d] by (simp add: abs_divide)
  qed
  have "\<bar>dval n\<bar> * 10 powi (scale n - ?d) = \<bar>dval n\<bar> * 10 powi (- adjExp n) * 10 powi (p - 1)"
    using powi_split [of "- adjExp n" "p - 1"] by (simp add: adjExp_def algebra_simps)
  moreover have "1 \<le> \<bar>dval n\<bar> * 10 powi (- adjExp n)" "\<bar>dval n\<bar> * 10 powi (- adjExp n) < 10"
    using magnitude [OF nz] by auto
  moreover have "(10::rat) * 10 powi (p - 1) = 10 powi p" using powi_split [of 1 "p - 1"] by simp
  ultimately have b: "10 powi (p - 1) \<le> \<bar>dval n\<bar> * 10 powi (scale n - ?d)" "\<bar>dval n\<bar> * 10 powi (scale n - ?d) < 10 powi p"
    using mult_right_mono [of 1 "\<bar>dval n\<bar> * 10 powi (- adjExp n)" "10 powi (p - 1)"]
      mult_strict_right_mono [of "\<bar>dval n\<bar> * 10 powi (- adjExp n)" 10 "10 powi (p - 1)"] nz by (simp_all add: dval_0_iff)
  from round_quotient [OF assms(1) _ t b, of mode] pow10_pos [of ?d] assms nz show ?thesis
    by (simp add: BD_Round_def Let_def)
qed

lemma SetScale_ok:
  "SetScale n t mode =
    (if mode = RoundUnnecessary \<and> dval n * 10 powi t \<notin> \<int> then Inl (Returned RoundingNecessary)
     else Inr \<lparr>unscaled = rounding mode (dval n * 10 powi t), scale = t\<rparr>)"
proof (cases "t < scale n")
  case True
  have "dval n * 10 powi t = of_int (unscaled n) * 10 powi (- (scale n - t))"
    using powi_split [of "- scale n" t] by (simp add: dval_def)
  also have "\<dots> = of_int (unscaled n) / of_int (bigDecPow10 (scale n - t))"
    using True pow10_powi [of "scale n - t"] power_int_minus [of "10::rat" "scale n - t"] by (simp add: divide_inverse)
  also have "\<dots> = (if unscaled n < 0 then - 1 else 1) * \<bar>of_int (unscaled n) / of_int (bigDecPow10 (scale n - t)) :: rat\<bar>"
    using pow10_pos [of "scale n - t"] by (simp add: abs_divide)
  finally have v: "dval n * 10 powi t = \<dots>" .
  have nz: "bigDecPow10 (scale n - t) \<noteq> 0" using pow10_pos [of "scale n - t"] by simp
  from True divRound_ok [OF nz v, of mode] show ?thesis
    by (auto simp: SetScale_def bindE_def signed_def Let_def)
next
  case False
  have "dval n * 10 powi t = of_int (unscaled n) * 10 powi (t - scale n)"
    using powi_split [of "- scale n" t] by (simp add: dval_def)
  also have "\<dots> = of_int (unscaled n * bigDecPow10 (t - scale n))"
    using False pow10_powi [of "t - scale n"] by simp
  finally have v: "dval n * 10 powi t = of_int (unscaled n * bigDecPow10 (t - scale n))" .
  then have "dval n * 10 powi t \<in> \<int>" by (simp only: Ints_of_int)
  moreover have "unscaled n * bigDecPow10 (t - scale n) = unscaled n" if "t = scale n" using that by (simp add: bigDecPow10_def)
  ultimately show ?thesis using False rounding_int [OF v, of mode] by (cases n) (auto simp: SetScale_def)
qed

text \<open>The estimate of the order of magnitude of a quotient, from the digits and one comparison.\<close>

lemma quotient_magnitude:
  assumes nz: "unscaled x \<noteq> 0" "unscaled y \<noteq> 0"
    and e: "e = adjExp x - adjExp y - (if \<bar>dval x\<bar> * 10 powi (- adjExp x) < \<bar>dval y\<bar> * 10 powi (- adjExp y) then 1 else 0)"
  shows "1 \<le> \<bar>dval x / dval y\<bar> * 10 powi (- e)" and "\<bar>dval x / dval y\<bar> * 10 powi (- e) < 10"
proof -
  define a b where "a = \<bar>dval x\<bar> * 10 powi (- adjExp x)" and "b = \<bar>dval y\<bar> * 10 powi (- adjExp y)"
  have ab: "1 \<le> a" "a < 10" "1 \<le> b" "b < 10" using magnitude nz by (simp_all add: a_def b_def)
  have "\<bar>dval x\<bar> = a * 10 powi adjExp x" "\<bar>dval y\<bar> = b * 10 powi adjExp y"
    by (simp_all add: a_def b_def mult.assoc)
  then have "\<bar>dval x / dval y\<bar> = a / b * (10 powi adjExp x / 10 powi adjExp y)" by (simp add: abs_divide)
  also have "10 powi adjExp x / 10 powi adjExp y = (10::rat) powi (adjExp x - adjExp y)"
    by (simp add: power_int_diff)
  finally have v: "\<bar>dval x / dval y\<bar> * 10 powi (- e) = a / b * 10 powi (adjExp x - adjExp y - e)"
    using powi_split [of "adjExp x - adjExp y" "- e"] by simp
  have "adjExp x - adjExp y - e = (if a < b then 1 else 0)" using e by (simp add: a_def b_def)
  moreover have "1 \<le> a / b * 10 powi (if a < b then 1 else 0)" "a / b * 10 powi (if a < b then 1 else 0) < 10"
    using ab by (auto simp: field_simps)
  ultimately show "1 \<le> \<bar>dval x / dval y\<bar> * 10 powi (- e)" and "\<bar>dval x / dval y\<bar> * 10 powi (- e) < 10"
    unfolding v by simp_all
qed

text \<open>Scaling one side of a comparison, or the numerator or denominator of a fraction, by a power of ten.\<close>

lemma scaled_less:
  "(if 0 \<le> k then a * bigDecPow10 k < b else a < b * bigDecPow10 (- k)) \<longleftrightarrow> of_int a * (10::rat) powi k < of_int b"
proof (cases "0 \<le> k")
  case True
  then show ?thesis by (simp flip: pow10_powi of_int_mult)
next
  case False
  have "a < b * bigDecPow10 (- k) \<longleftrightarrow> of_int a < of_int b * (10::rat) powi (- k)"
    using False pow10_powi [of "- k"] of_int_less_iff [of a "b * bigDecPow10 (- k)", where 'a = rat] by simp
  also have "\<dots> \<longleftrightarrow> of_int a * (10::rat) powi k < of_int b"
    by (simp add: power_int_minus field_simps)
  finally show ?thesis using False by simp
qed

lemma scaled_quotient:
  "of_int (if 0 \<le> k then a * bigDecPow10 k else a) / of_int (if 0 \<le> k then b else b * bigDecPow10 (- k)) =
   of_int a / of_int b * (10::rat) powi k"
proof (cases "0 \<le> k")
  case False
  then show ?thesis using pow10_powi [of "- k"] by (simp add: power_int_minus divide_inverse)
qed (simp add: pow10_powi)

lemma DivideMC_ok:
  assumes nz: "unscaled x \<noteq> 0" "unscaled y \<noteq> 0" and p: "0 < p"
  shows "rounds_to p mode (dval x / dval y) (DivideMC x y p mode)"
proof -
  let ?ux = "\<bar>unscaled x\<bar>" and ?uy = "\<bar>unscaled y\<bar>"
  define shift where "shift = digit_count ?uy - digit_count ?ux"
  define small where "small = (if 0 \<le> shift then ?ux * bigDecPow10 shift < ?uy else ?ux < ?uy * bigDecPow10 (- shift))"
  define e where "e = adjExp x - adjExp y - (if small then 1 else 0)"
  define s where "s = p - 1 - e"
  define ex where "ex = s + scale y - scale x"
  define num where "num = (if 0 \<le> ex then ?ux * bigDecPow10 ex else ?ux)"
  define den where "den = (if 0 \<le> ex then ?uy else ?uy * bigDecPow10 (- ex))"
  define neg where "neg = ((unscaled x < 0) \<noteq> (unscaled y < 0))"
  have run: "DivideMC x y p mode = bindE (divRound num den mode neg) (\<lambda>q. renormalized q s p neg)"
    using nz p by (simp add: DivideMC_def Let_def shift_def small_def e_def s_def ex_def num_def den_def neg_def)
  have mant: "\<bar>dval d\<bar> * 10 powi (- adjExp d) = of_int \<bar>unscaled d\<bar> * 10 powi (1 - digit_count \<bar>unscaled d\<bar>)" if "unscaled d \<noteq> 0" for d
    using that powi_split [of "- scale d" "- adjExp d"]
    by (simp add: dval_def abs_mult adjExp_def precision_def) (simp add: digit_count_def)
  have "small \<longleftrightarrow> of_int ?ux * (10::rat) powi shift < of_int ?uy"
    unfolding small_def by (rule scaled_less)
  also have "\<dots> \<longleftrightarrow> of_int ?ux * 10 powi shift * 10 powi (1 - digit_count ?uy) < of_int ?uy * (10::rat) powi (1 - digit_count ?uy)"
    by simp
  also have "\<dots> \<longleftrightarrow> \<bar>dval x\<bar> * 10 powi (- adjExp x) < \<bar>dval y\<bar> * 10 powi (- adjExp y)"
    using powi_split [of shift "1 - digit_count ?uy"] nz by (simp add: mant shift_def mult.assoc)
  finally have mag: "1 \<le> \<bar>dval x / dval y\<bar> * 10 powi (- e)" "\<bar>dval x / dval y\<bar> * 10 powi (- e) < 10"
    using quotient_magnitude [OF nz, of e] by (simp_all add: e_def)
  have s: "10 powi s = (10 powi (- e) * 10 powi (p - 1) :: rat)" using powi_split [of "- e" "p - 1"] by (simp add: s_def algebra_simps)
  have ten: "(10::rat) * 10 powi (p - 1) = 10 powi p" using powi_split [of 1 "p - 1"] by simp
  have b: "10 powi (p - 1) \<le> \<bar>dval x / dval y\<bar> * 10 powi s" "\<bar>dval x / dval y\<bar> * 10 powi s < 10 powi p"
    using mult_right_mono [OF mag(1), of "10 powi (p - 1)"] mult_strict_right_mono [OF mag(2), of "10 powi (p - 1)"] ten
    by (simp_all add: s mult.assoc)
  have quot: "dval x / dval y * 10 powi s = (if neg then - 1 else 1) * \<bar>of_int num / of_int den :: rat\<bar>"
  proof -
    have "dval x / dval y * 10 powi s = of_int (unscaled x) / of_int (unscaled y) * 10 powi (scale y - scale x) * 10 powi s"
      by (simp add: dval_def power_int_diff power_int_minus divide_inverse)
    also have "\<dots> = of_int (unscaled x) / of_int (unscaled y) * 10 powi ex"
      using powi_split [of "scale y - scale x" s] by (simp add: ex_def mult.assoc algebra_simps)
    also have "of_int (unscaled x) / of_int (unscaled y) = (if neg then - 1 else 1) * (of_int ?ux / of_int ?uy :: rat)"
      by (simp add: neg_def abs_if)
    finally have "dval x / dval y * 10 powi s = (if neg then - 1 else 1) * (of_int num / of_int den)"
      by (simp only: num_def den_def scaled_quotient mult.assoc)
    moreover have "0 \<le> (of_int num / of_int den :: rat)"
      using pow10_pos [of ex] pow10_pos [of "- ex"] by (simp add: num_def den_def)
    ultimately show ?thesis by (simp only: abs_of_nonneg)
  qed
  have "den \<noteq> 0" using nz pow10_pos [of "- ex"] by (simp add: den_def)
  from round_quotient [OF p this quot b] show ?thesis unfolding run .
qed

subsection \<open>Division\<close>

lemma decimal_Quo_dvd: "0 < g \<Longrightarrow> g dvd n \<Longrightarrow> Quo n g = n div g"
  by (cases "0 \<le> n") (auto simp: Quo_def sgn_if dvd_neg_div)

lemma lowest_terms:
  fixes m n :: int
  assumes "n \<noteq> 0"
  obtains num den where "(let g = gcd \<bar>m\<bar> \<bar>n\<bar> in if Quo n g < 0 then (- Quo m g, - Quo n g) else (Quo m g, Quo n g)) = (num, den)"
    and "0 < den" and "coprime num den" and "of_int m / of_int n = (of_int num / of_int den :: rat)"
proof -
  define g where "g = gcd \<bar>m\<bar> \<bar>n\<bar>"
  have g: "0 < g" "g dvd m" "g dvd n" using assms by (simp_all add: g_def)
  have q: "Quo m g = m div g" "Quo n g = n div g" using decimal_Quo_dvd g by simp_all
  have cop: "coprime (m div g) (n div g)" using assms div_gcd_coprime [of m n] by (simp add: g_def)
  have g': "gcd m n = g" by (simp add: g_def)
  have mn: "m = m div g * g" "n = n div g * g" using g by simp_all
  have nz: "n div g \<noteq> 0" using mn(2) assms by auto
  have v: "of_int m / of_int n = (of_int (m div g) / of_int (n div g) :: rat)"
    using g(1) nz by (subst mn(1), subst mn(2), simp only: of_int_mult) simp
  show ?thesis
  proof (cases "n div g < 0")
    case True
    with cop v show ?thesis by (intro that [of "- (m div g)" "- (n div g)"]) (simp_all add: Let_def q g')
  next
    case False
    with nz cop v show ?thesis by (intro that [of "m div g" "n div g"]) (simp_all add: Let_def q g')
  qed
qed

lemma two_five_factors:
  assumes "0 < (den::int)" and "factor_out 2 den = (a, d2)" and "factor_out 5 d2 = (b, d5)"
  shows "den = d5 * 5 ^ b * 2 ^ a" and "0 < d5" and "coprime d5 10"
proof -
  have a: "den = d2 * 2 ^ a" "\<not> 2 dvd d2" using factor_out_ok [of 2 den] assms(1,2) by auto
  then have "d2 \<noteq> 0" "0 < d2" using assms(1) by (auto simp: zero_less_mult_iff)
  then have b: "d2 = d5 * 5 ^ b" "\<not> 5 dvd d5" using factor_out_ok [of 5 d2] assms(3) by auto
  then show "den = d5 * 5 ^ b * 2 ^ a" "0 < d5" using a \<open>0 < d2\<close> by (auto simp: zero_less_mult_iff)
  have "\<not> 2 dvd d5" using a(2) b(1) by auto
  then have "coprime 2 d5" by simp
  moreover have "coprime 5 d5"
  proof -
    have "0 \<le> d5 mod 5" "d5 mod 5 < 5" "d5 mod 5 \<noteq> 0" using b(2) by auto
    then have "d5 mod 5 \<in> {1, 2, 3, 4}" by auto
    then have "gcd 5 (d5 mod 5) = 1" by (auto simp: gcd_non_0_int)
    then show ?thesis by (simp add: coprime_iff_gcd_eq_1 gcd.commute flip: gcd_red_int)
  qed
  ultimately have "coprime (2 * 5) d5" by (simp only: coprime_mult_left_iff)
  then show "coprime d5 10" by (simp add: coprime_commute)
qed

text \<open>A fraction in lowest terms has so many decimals as the larger power of two and five in its
  denominator; none is enough with another factor.\<close>

lemma decimals_of_fraction:
  fixes num den :: int
  assumes "0 < den" and cop: "coprime num den" and den: "den = d5 * 5 ^ b * 2 ^ a" "0 < d5" "coprime d5 10"
    and int: "of_int num / of_int den * 10 ^ j \<in> (\<int> :: rat set)"
  shows "d5 = 1 \<and> a \<le> j \<and> b \<le> j"
proof -
  obtain w where "of_int num / of_int den * 10 ^ j = (of_int w :: rat)" using int by (elim Ints_cases)
  then have "(of_int (num * 10 ^ j) :: rat) = of_int (w * den)" using assms(1) by (simp add: field_simps)
  then have "num * 10 ^ j = w * den" by (simp only: of_int_eq_iff)
  then have "den dvd num * 10 ^ j" by simp
  then have dvd: "den dvd 10 ^ j" using cop by (simp add: coprime_commute coprime_dvd_mult_right_iff)
  have "d5 dvd 10 ^ j" using dvd den(1) by (meson dvd_trans dvd_triv_left mult.assoc)
  moreover have "coprime d5 (10 ^ j)" using den(3) by simp
  ultimately have "d5 = 1" using den(2) by (metis coprime_common_divisor dvd_refl zdvd1_eq abs_of_pos)
  have ten: "(10::int) ^ j = 2 ^ j * 5 ^ j" by (simp flip: power_mult_distrib)
  have "coprime (2::int) 5" by (simp add: coprime_iff_gcd_eq_1 gcd_non_0_int)
  then have "coprime (2 ^ a) (5 ^ j :: int)" "coprime (5 ^ b) (2 ^ j :: int)" by (simp_all add: coprime_commute)
  moreover have "2 ^ a dvd (2 ^ j * 5 ^ j :: int)" "5 ^ b dvd (2 ^ j * 5 ^ j :: int)"
    using dvd den(1) unfolding ten by (metis dvd_trans dvd_triv_left dvd_triv_right)+
  ultimately have "2 ^ a dvd (2 ^ j :: int)" "5 ^ b dvd (5 ^ j :: int)"
    by (simp_all add: coprime_dvd_mult_left_iff coprime_dvd_mult_right_iff)
  with \<open>d5 = 1\<close> show ?thesis by (simp_all add: dvd_power_iff)
qed

lemma decimal_Divide_ok:
  fixes x y :: bigdecimal
  assumes y: "unscaled y \<noteq> 0"
  defines "v \<equiv> dval x / dval y" and "pref \<equiv> scale x - scale y"
  shows "if \<exists>u s. v = of_int u * 10 powi (- s)
    then \<exists>u s. BD_Divide x y = clamped u s \<and> v = of_int u * 10 powi (- s) \<and> pref \<le> s \<and>
           (\<forall>t. pref \<le> t \<and> v * 10 powi t \<in> \<int> \<longrightarrow> s \<le> t)
    else BD_Divide x y = Inl (Panicked NonTerminating)"
proof (cases "unscaled x = 0")
  case True
  then have "v = 0" "BD_Divide x y = clamped 0 pref" using y by (simp_all add: v_def dval_def BD_Divide_def Let_def pref_def)
  then have "\<exists>u s. BD_Divide x y = clamped u s \<and> v = of_int u * 10 powi (- s) \<and> pref \<le> s \<and> (\<forall>t. pref \<le> t \<and> v * 10 powi t \<in> \<int> \<longrightarrow> s \<le> t)"
    by (intro exI [of _ 0] exI [of _ pref]) simp
  then show ?thesis by auto
next
  case False
  obtain num den where nd: "(let g = gcd \<bar>unscaled x\<bar> \<bar>unscaled y\<bar> in
        if Quo (unscaled y) g < 0 then (- Quo (unscaled x) g, - Quo (unscaled y) g) else (Quo (unscaled x) g, Quo (unscaled y) g)) = (num, den)"
    and den: "0 < den" "coprime num den" and frac: "of_int (unscaled x) / of_int (unscaled y) = (of_int num / of_int den :: rat)"
    by (rule lowest_terms [OF y])
  obtain a d2 where a: "factor_out 2 den = (a, d2)" by fastforce
  obtain b d5 where b: "factor_out 5 d2 = (b, d5)" by fastforce
  note f = two_five_factors [OF den(1) a b]
  define k where "k = max (int a) (int b)"
  have run: "BD_Divide x y =
      (if d5 \<noteq> 1 then Inl (Panicked NonTerminating) else clamped (Quo (num * bigDecPow10 k) den) (k + pref))"
    using nd y False a b by (auto simp: BD_Divide_def Let_def k_def pref_def algebra_simps split: if_splits)
  have v: "v = of_int num / of_int den * 10 powi (- pref)"
    using frac by (simp add: v_def pref_def dval_def power_int_diff power_int_minus divide_inverse mult_ac)
  have vt: "v * 10 powi t = of_int num / of_int den * 10 powi (t - pref)" for t
    using powi_split [of "- pref" t] by (simp add: v)
  note dec = decimals_of_fraction [OF den f]
  show ?thesis
  proof (cases "d5 = 1")
    case True
    have "den dvd bigDecPow10 k"
    proof -
      have "nat k = max a b" by (simp add: k_def)
      then have "bigDecPow10 k = 2 ^ max a b * 5 ^ max a b" by (simp add: bigDecPow10_def flip: power_mult_distrib)
      moreover have "5 ^ b * 2 ^ a dvd (2 ^ max a b * 5 ^ max a b :: int)"
        by (subst mult.commute) (intro mult_dvd_mono le_imp_power_dvd; simp)
      ultimately show ?thesis using f(1) True by simp
    qed
    then have "num * bigDecPow10 k = den * Quo (num * bigDecPow10 k) den" using den(1) by (simp add: decimal_Quo_dvd)
    then have "(of_int (num * bigDecPow10 k) :: rat) = of_int (den * Quo (num * bigDecPow10 k) den)" by (rule arg_cong)
    moreover have "of_int (bigDecPow10 k) = (10::rat) powi k" by (rule pow10_powi) (simp add: k_def)
    ultimately have "of_int num * (10::rat) powi k = of_int den * of_int (Quo (num * bigDecPow10 k) den)"
      by (simp only: of_int_mult)
    then have q: "v = of_int (Quo (num * bigDecPow10 k) den) * 10 powi (- (k + pref))"
    proof -
      have "of_int num / of_int den = of_int (Quo (num * bigDecPow10 k) den) * (10::rat) powi (- k)"
        using \<open>of_int num * 10 powi k = _\<close> den(1) by (simp add: power_int_minus field_simps)
      then show ?thesis using powi_split [of "- k" "- pref"] by (simp add: v mult.assoc)
    qed
    moreover have "k + pref \<le> t" if "pref \<le> t" "v * 10 powi t \<in> \<int>" for t
    proof -
      have "of_int num / of_int den * (10::rat) ^ nat (t - pref) \<in> \<int>"
        using that vt [of t] by (simp add: power_int_nonneg_exp)
      from dec [OF this] that(1) show ?thesis by (auto simp: k_def)
    qed
    moreover have "0 \<le> k" by (simp add: k_def)
    ultimately have "\<exists>u s. BD_Divide x y = clamped u s \<and> v = of_int u * 10 powi (- s) \<and> pref \<le> s \<and>
        (\<forall>t. pref \<le> t \<and> v * 10 powi t \<in> \<int> \<longrightarrow> s \<le> t)"
      using run True by (intro exI [of _ "Quo (num * bigDecPow10 k) den"] exI [of _ "k + pref"]) auto
    with q show ?thesis by auto
  next
    case False
    have "v \<noteq> of_int u * 10 powi (- s)" for u s
    proof
      assume u: "v = of_int u * 10 powi (- s)"
      let ?j = "nat (s - pref)"
      have "of_int num / of_int den * 10 powi (int ?j) = v * 10 powi (pref + int ?j)" using vt [of "pref + int ?j"] by simp
      also have "\<dots> = of_int u * (10 powi (pref + int ?j - s))"
        using powi_split [of "- s" "pref + int ?j"] by (simp add: u algebra_simps)
      also have "\<dots> = of_int (u * bigDecPow10 (pref + int ?j - s))"
        using pow10_powi [of "pref + int ?j - s"] by simp
      finally have "of_int num / of_int den * 10 ^ ?j = (of_int (u * bigDecPow10 (pref + int ?j - s)) :: rat)"
        by (simp only: power_int_of_nat)
      then have "of_int num / of_int den * 10 ^ ?j \<in> (\<int> :: rat set)" by (simp only: Ints_of_int)
      from dec [OF this] False show False by simp
    qed
    then show ?thesis using run False by auto
  qed
qed

subsection \<open>Integer division\<close>

lemma decimal_Quotient_ok:
  assumes "unscaled y \<noteq> 0"
  shows "\<exists>u. BD_Quotient x y = clamped u (max 0 (scale x - scale y)) \<and>
    of_int u * 10 powi (- max 0 (scale x - scale y)) = (of_int (trunc (dval x / dval y)) :: rat)"
proof -
  obtain a b s where al: "bigDecAlign x y = (a, b, s)" by (cases "bigDecAlign x y") auto
  note v = align_ok [OF al]
  have b: "b \<noteq> 0" using v(2) assms dval_0_iff [of y] by auto
  have i: "Quo a b = trunc (dval x / dval y)" using Quo_trunc [OF b, of a] by (simp add: v)
  let ?p = "scale x - scale y"
  show ?thesis
  proof (cases "0 < ?p")
    case True
    then have "of_int (Quo a b * bigDecPow10 ?p) * 10 powi (- ?p) = (of_int (trunc (dval x / dval y)) :: rat)"
      using pow10_powi [of ?p] i powi_cancel(1) [of ?p] by (simp add: mult.assoc)
    with True assms al show ?thesis by (auto simp: BD_Quotient_def max_def Let_def)
  next
    case False
    with assms al i show ?thesis by (auto simp: BD_Quotient_def max_def Let_def clamped_def clampBigDecScale_def)
  qed
qed

lemma decimal_Remainder_ok:
  assumes "unscaled y \<noteq> 0"
  shows "case BD_Remainder x y of Inr r \<Rightarrow> dval r = dval x - of_int (trunc (dval x / dval y)) * dval y
    | Inl e \<Rightarrow> e = Panicked ScaleRange"
proof -
  obtain u t where q: "BD_Quotient x y = clamped u t" "of_int u * 10 powi (- t) = (of_int (trunc (dval x / dval y)) :: rat)"
    using decimal_Quotient_ok [OF assms, of x] by blast
  show ?thesis
  proof (cases "BD_Remainder x y")
    case (Inl e)
    then show ?thesis
      by (auto simp: BD_Remainder_def q(1) BD_Multiply_def bindE_Inl_iff clamped_def clampBigDecScale_def split: if_splits)
  next
    case (Inr r)
    then obtain p where "BD_Multiply \<lparr>unscaled = u, scale = t\<rparr> y = Inr p" "r = BD_Sub x p"
      by (auto simp: BD_Remainder_def q(1) bindE_Inr_iff clamped_Inr)
    moreover from this Multiply_dval(2) [of "\<lparr>unscaled = u, scale = t\<rparr>" y] have "dval p = of_int (trunc (dval x / dval y)) * dval y"
      by (simp add: BD_Multiply_def clamped_Inr q(2))
    ultimately show ?thesis using Inr by (simp add: Sub_dval)
  qed
qed

subsection \<open>The normal form\<close>

text \<open>A value has one unscaled integer that does not end in a zero.\<close>

lemma normal_form_unique:
  fixes u w :: int
  assumes "\<not> 10 dvd u" and "\<not> 10 dvd w" and "of_int u * 10 powi (- s) = (of_int w * 10 powi (- t) :: rat)"
  shows "u = w \<and> s = t"
  using assms
proof (induction s t arbitrary: u w rule: linorder_wlog)
  case (le s t)
  have "of_int w = of_int u * (10::rat) powi (- s) * 10 powi t" using le(4) by (simp add: mult.assoc)
  also have "\<dots> = of_int (u * bigDecPow10 (t - s))"
    using le(1) powi_split [of "- s" t] pow10_powi [of "t - s"] by (simp add: mult.assoc)
  finally have w: "w = u * bigDecPow10 (t - s)" by (simp only: of_int_eq_iff)
  show ?case
  proof (cases "s = t")
    case True
    with w show ?thesis by (simp add: bigDecPow10_def)
  next
    case False
    then obtain k where "nat (t - s) = Suc k" using le(1) by (cases "nat (t - s)") auto
    then have "10 dvd w" using w by (simp add: bigDecPow10_def)
    with le(3) show ?thesis by simp
  qed
qed metis

lemma equal_stripped:
  assumes "dval x = dval y"
  shows "StripTrailingZeros x = StripTrailingZeros y"
proof (cases "unscaled x = 0")
  case True
  then have "unscaled y = 0" using assms dval_0_iff by metis
  with True show ?thesis by (simp add: StripTrailingZeros_def)
next
  case False
  then have y: "unscaled y \<noteq> 0" using assms dval_0_iff by metis
  obtain c u where x': "factor_out 10 (unscaled x) = (c, u)" by fastforce
  obtain d w where y': "factor_out 10 (unscaled y) = (d, w)" by fastforce
  have u: "unscaled x = u * 10 ^ c" "\<not> 10 dvd u" using factor_out_ok [OF _ False x'] by auto
  have w: "unscaled y = w * 10 ^ d" "\<not> 10 dvd w" using factor_out_ok [OF _ y y'] by auto
  have n: "dval x = of_int u * 10 powi (- (scale x - int c))" "dval y = of_int w * 10 powi (- (scale y - int d))"
    using powi_split [of "int c" "- scale x"] powi_split [of "int d" "- scale y"] by (simp_all add: dval_def u(1) w(1))
  with assms normal_form_unique [OF u(2) w(2)] have "u = w \<and> scale x - int c = scale y - int d" by metis
  with False y show ?thesis by (simp add: StripTrailingZeros_def x' y')
qed

lemma wrap32_id: "- (2 ^ 31) \<le> s \<Longrightarrow> s < 2 ^ 31 \<Longrightarrow> wrap32 s = s"
  unfolding wrap32_def sint_sbintrunc' by (intro signed_take_bit_int_eq_self) simp_all

lemma Strip_dval:
  assumes "- (2 ^ 31) \<le> scale x - digit_count (unscaled x)" and "scale x < 2 ^ 31"
  shows "dval (StripTrailingZeros x) = dval x \<and> (unscaled x = 0 \<or> \<not> 10 dvd unscaled (StripTrailingZeros x))"
proof (cases "unscaled x = 0")
  case False
  obtain c u where x': "factor_out 10 (unscaled x) = (c, u)" by fastforce
  have u: "unscaled x = u * 10 ^ c" "\<not> 10 dvd u" using factor_out_ok [OF _ False x'] by auto
  have "10 ^ c \<le> \<bar>unscaled x\<bar>" using u False by (simp add: abs_mult)
  moreover have "\<bar>unscaled x\<bar> < 10 ^ nat (digit_count (unscaled x))" using digit_count_bounds [OF False] by simp
  ultimately have "(10::int) ^ c < 10 ^ nat (digit_count (unscaled x))" by (rule le_less_trans)
  then have "c < nat (digit_count (unscaled x))" by simp
  then have "int c < digit_count (unscaled x)" by simp
  then have "wrap32 (scale x - int c) = scale x - int c" using assms by (intro wrap32_id) simp_all
  moreover have "of_int u * 10 powi (- (scale x - int c)) = dval x"
    using powi_split [of "int c" "- scale x"] by (simp add: dval_def u(1))
  ultimately show ?thesis using False u(2) by (simp add: StripTrailingZeros_def x')
qed (simp add: StripTrailingZeros_def dval_def)

subsection \<open>Operands\<close>

text \<open>Integers always become decimals; a ratio does where its expansion ends.\<close>

lemma AsBigDecimal_integer: "exact n \<in> \<int> \<Longrightarrow> (case n of Ratio q \<Rightarrow> False | _ \<Rightarrow> True) \<Longrightarrow>
    \<exists>d. AsBigDecimal (Exact n) = Inr d \<and> dval d = exact n \<and> scale d = 0"
  by (cases n) (simp_all add: NewBigDecimalFromInt64_def NewBigDecimalFromBigInt_def)

lemma AsBigDecimal_ratio:
  "if \<exists>u s. q = of_int u * 10 powi (- s) then \<exists>u s. AsBigDecimal (Exact (Ratio q)) = clamped u s \<and> q = of_int u * 10 powi (- s)
   else AsBigDecimal (Exact (Ratio q)) = Inl (Panicked NonTerminating)"
proof -
  obtain n d where nd: "quotient_of q = (n, d)" by fastforce
  then have "d \<noteq> 0" "q = of_int n / of_int d" using quotient_of_denom_pos [OF nd] quotient_of_div [OF nd] by simp_all
  with decimal_Divide_ok [of "NewBigDecimalFromBigInt d" "NewBigDecimalFromBigInt n"] nd show ?thesis
    by (simp add: NewBigDecimalFromRatio_def NewBigDecimalFromBigInt_def split: if_splits) blast
qed

end
