(* ===== verification/DecimalProps.thy ===== *)
theory DecimalProps
  imports DecimalSpec Equality
begin

text \<open>What is proved of decimals: exact arithmetic, division, rounding, equality and the text round trip.\<close>

subsection \<open>The text of a decimal\<close>

lemma digit_not_special: "is_digit c \<Longrightarrow> c \<noteq> CHR ''e'' \<and> c \<noteq> CHR ''E'' \<and> c \<noteq> CHR ''.'' \<and> c \<noteq> CHR ''-'' \<and> c \<noteq> CHR ''+''"
  by (auto simp: is_digit_def)

lemma digits_not_in: "list_all is_digit ds \<Longrightarrow> \<not> is_digit c \<Longrightarrow> c \<notin> set ds"
  by (auto simp: list_all_iff)

lemma takeWhile_stop: "list_all p xs \<Longrightarrow> \<not> p y \<Longrightarrow> takeWhile p (xs @ y # ys) = xs \<and> dropWhile p (xs @ y # ys) = y # ys"
  by (induction xs) auto

lemma takeWhile_all: "list_all p xs \<Longrightarrow> takeWhile p xs = xs \<and> dropWhile p xs = []"
  by (induction xs) auto

lemma not_special_digits:
  "list_all is_digit ds \<Longrightarrow> list_all (\<lambda>c. c \<noteq> CHR ''.'') ds"
  "list_all is_digit ds \<Longrightarrow> list_all (\<lambda>c. c \<noteq> CHR ''e'' \<and> c \<noteq> CHR ''E'') ds"
  by (auto simp: list_all_iff dest: digit_not_special)

text \<open>The grammar, in reverse: sign, integer digits, a point with more digits, an exponent.\<close>

definition mantissa_text :: "string \<Rightarrow> string option \<Rightarrow> string" where
  "mantissa_text ip fp = (case fp of None \<Rightarrow> ip | Some f \<Rightarrow> ip @ ''.'' @ f)"

definition exponent_text :: "int option \<Rightarrow> string" where
  "exponent_text ex = (case ex of None \<Rightarrow> [] | Some e \<Rightarrow> ''E'' @ (if 0 \<le> e then ''+'' @ int_str e else int_str e))"

lemma ParseInt32_int_str:
  "- (2 ^ 31) \<le> e \<Longrightarrow> e < 2 ^ 31 \<Longrightarrow> ParseInt32 (if 0 \<le> e then ''+'' @ int_str e else int_str e) = Some e"
  by (auto simp: ParseInt32_def strip_sign_def int_str_def some_of_def nat_str_digits read_nat_str)

lemma NewBigDecimal_parts:
  assumes "s0 \<noteq> []" and "strip_sign s0 = (neg, t)"
    and "takeWhile (\<lambda>c. c \<noteq> CHR ''e'' \<and> c \<noteq> CHR ''E'') t = m" and "dropWhile (\<lambda>c. c \<noteq> CHR ''e'' \<and> c \<noteq> CHR ''E'') t = x"
    and "takeWhile (\<lambda>c. c \<noteq> CHR ''.'') m = ip" and "drop 1 (dropWhile (\<lambda>c. c \<noteq> CHR ''.'') m) = fds"
    and "(if x = [] then Some 0 else ParseInt32 (tl x)) = Some e" and "ip @ fds \<noteq> []" and "list_all is_digit (ip @ fds)"
    and "int (length fds) - e = s" and "- (2 ^ 31) \<le> s" and "s < 2 ^ 31"
  shows "NewBigDecimal s0 = Some (if neg then - int (read_nat (ip @ fds)) else int (read_nat (ip @ fds)), s)"
  unfolding NewBigDecimal_def Let_def using assms(1,8,9,11,12)
  by (simp only: assms(2-7,10) prod.case option.case if_False if_True not_True_eq_False simp_thms not_less [symmetric])

lemma parse_parts:
  assumes ip: "list_all is_digit ip" "ip \<noteq> []" and fp: "list_all is_digit (case fp of None \<Rightarrow> [] | Some f \<Rightarrow> f)"
    and ex: "case ex of None \<Rightarrow> True | Some e \<Rightarrow> - (2 ^ 31) \<le> e \<and> e < 2 ^ 31"
    and ds_def: "fds = (case fp of None \<Rightarrow> [] | Some f \<Rightarrow> f)"
    and s_def: "s = int (length fds) - (case ex of None \<Rightarrow> 0 | Some e \<Rightarrow> e)"
    and s: "- (2 ^ 31) \<le> s" "s < 2 ^ 31"
  shows "NewBigDecimal ((if neg then ''-'' else []) @ mantissa_text ip fp @ exponent_text ex) =
    Some (if neg then - int (read_nat (ip @ fds)) else int (read_nat (ip @ fds)), s)"
proof -
  let ?t = "mantissa_text ip fp @ exponent_text ex"
  have sign: "strip_sign ((if neg then ''-'' else []) @ ?t) = (neg, ?t)"
    using ip digit_not_special by (cases ip) (auto simp: strip_sign_def mantissa_text_def split: option.splits)
  have me: "list_all (\<lambda>c. c \<noteq> CHR ''e'' \<and> c \<noteq> CHR ''E'') (mantissa_text ip fp)"
    using not_special_digits(2) [OF ip(1)] not_special_digits(2) [OF fp] by (auto simp: mantissa_text_def split: option.splits)
  have mant: "takeWhile (\<lambda>c. c \<noteq> CHR ''e'' \<and> c \<noteq> CHR ''E'') ?t = mantissa_text ip fp"
    "dropWhile (\<lambda>c. c \<noteq> CHR ''e'' \<and> c \<noteq> CHR ''E'') ?t = exponent_text ex"
    using takeWhile_all [OF me] takeWhile_stop [OF me, of "CHR ''E''"] by (cases ex; simp add: exponent_text_def)+
  have "takeWhile (\<lambda>c. c \<noteq> CHR ''.'') (mantissa_text ip fp) = ip \<and> drop 1 (dropWhile (\<lambda>c. c \<noteq> CHR ''.'') (mantissa_text ip fp)) = fds"
  proof (cases fp)
    case None
    note all = takeWhile_all [OF not_special_digits(1) [OF ip(1)]]
    show ?thesis by (simp only: None mantissa_text_def option.case all ds_def drop_Nil simp_thms)
  next
    case (Some f)
    have stop: "takeWhile (\<lambda>c. c \<noteq> CHR ''.'') (ip @ CHR ''.'' # f) = ip" "dropWhile (\<lambda>c. c \<noteq> CHR ''.'') (ip @ CHR ''.'' # f) = CHR ''.'' # f"
      using takeWhile_stop [OF not_special_digits(1) [OF ip(1)], of "CHR ''.''" f] by blast+
    have m: "mantissa_text ip (Some f) = ip @ CHR ''.'' # f" by (simp add: mantissa_text_def)
    show ?thesis by (simp only: Some m stop ds_def option.case drop_Suc_Cons One_nat_def drop_0 simp_thms)
  qed
  then have ips: "takeWhile (\<lambda>c. c \<noteq> CHR ''.'') (mantissa_text ip fp) = ip" "drop 1 (dropWhile (\<lambda>c. c \<noteq> CHR ''.'') (mantissa_text ip fp)) = fds" by blast+
  have exv: "(if exponent_text ex = [] then Some 0 else ParseInt32 (tl (exponent_text ex))) = Some (case ex of None \<Rightarrow> 0 | Some e \<Rightarrow> e)"
  proof (cases ex)
    case (Some e)
    have "ParseInt32 (if 0 \<le> e then ''+'' @ int_str e else int_str e) = Some e"
      by (rule ParseInt32_int_str) (use ex Some in simp_all)
    with Some show ?thesis by (simp only: exponent_text_def option.case append_Cons append_Nil list.sel list.distinct if_False)
  qed (simp add: exponent_text_def)
  have ne: "(if neg then ''-'' else []) @ ?t \<noteq> []" using ip(2) by (cases fp) (simp_all add: mantissa_text_def)
  have ds: "ip @ fds \<noteq> []" "list_all is_digit (ip @ fds)" using ip fp by (simp_all add: ds_def)
  show ?thesis by (rule NewBigDecimal_parts [OF ne sign mant ips exv ds s_def [symmetric] s])
qed

lemma read_nat_zeros: "read_nat (replicate n CHR ''0'' @ ds) = read_nat ds"
proof -
  have "foldl (\<lambda>n c. 10 * n + digit_val c) 0 (replicate n CHR ''0'' @ ds) = foldl (\<lambda>n c. 10 * n + digit_val c) 0 ds"
    by (induction n) (simp_all add: digit_val_def)
  then show ?thesis by (simp add: read_nat_def)
qed

lemma digits_part: "list_all is_digit (take k (nat_str n))" "list_all is_digit (drop k (nat_str n))"
  using nat_str_digits [of n] by (auto simp: list_all_iff dest: in_set_takeD in_set_dropD)

lemma decimal_str_eq:
  assumes "ds = nat_str (nat \<bar>u\<bar>)" and "n = int (length ds)"
  shows "decimal_str u s = (if u < 0 then ''-'' else []) @
    (if 0 \<le> s \<and> - 6 \<le> n - s - 1 then
       (if s = 0 then ds else if s < n then take (nat (n - s)) ds @ ''.'' @ drop (nat (n - s)) ds
        else ''0.'' @ replicate (nat (s - n)) CHR ''0'' @ ds)
     else (if n = 1 then ds else take 1 ds @ ''.'' @ drop 1 ds) @
       ''E'' @ (if 0 \<le> n - s - 1 then ''+'' @ int_str (n - s - 1) else int_str (n - s - 1)))"
  unfolding decimal_str_def Let_def assms(1) [symmetric] assms(2) [symmetric] by (cases "u < 0") simp_all

lemma decimal_str_parse:
  assumes s: "- (2 ^ 31) \<le> s" "s < 2 ^ 31" and adj: "digit_count u - s - 1 < 2 ^ 31"
  shows "NewBigDecimal (decimal_str u s) = Some (u, s)"
proof -
  define ds where "ds = nat_str (nat \<bar>u\<bar>)"
  define n where "n = int (length ds)"
  have "digit_count u = n" "ds \<noteq> []" by (simp_all add: n_def ds_def digit_count_def)
  then have n: "0 < n" "n = int (length ds)" "n - s - 1 < 2 ^ 31" using adj by (simp_all add: n_def)
  have dig: "list_all is_digit ds" "list_all is_digit (take k ds)" "list_all is_digit (drop k ds)" for k
    by (simp_all only: ds_def nat_str_digits digits_part)
  have val: "(if u < 0 then - int (read_nat ds) else int (read_nat ds)) = u" by (simp add: ds_def read_nat_str)
  note eq = decimal_str_eq [OF ds_def n_def]
  have shape: "\<exists>ip fp ex. decimal_str u s = (if u < 0 then ''-'' else []) @ mantissa_text ip fp @ exponent_text ex \<and>
    list_all is_digit ip \<and> ip \<noteq> [] \<and> list_all is_digit (case fp of None \<Rightarrow> [] | Some f \<Rightarrow> f) \<and>
    (case ex of None \<Rightarrow> True | Some e \<Rightarrow> - (2 ^ 31) \<le> e \<and> e < 2 ^ 31) \<and>
    int (length (case fp of None \<Rightarrow> [] | Some f \<Rightarrow> f)) - (case ex of None \<Rightarrow> 0 | Some e \<Rightarrow> e) = s \<and>
    read_nat (ip @ (case fp of None \<Rightarrow> [] | Some f \<Rightarrow> f)) = read_nat ds"
  proof (cases "0 \<le> s \<and> - 6 \<le> (n - s - 1)")
    case True
    consider "s = 0" | "0 < s" "s < n" | "0 < s" "n \<le> s" using True by linarith
    then show ?thesis
    proof cases
      case 1
      show ?thesis
        by (rule exI [of _ ds], rule exI [of _ None], rule exI [of _ None])
          (use 1 True dig n in \<open>simp add: eq mantissa_text_def exponent_text_def\<close>)
    next
      case 2
      let ?k = "nat (n - s)"
      have k: "?k < length ds" "0 < ?k" "int (length ds - ?k) = s" "take ?k ds \<noteq> []" using 2 n by auto
      have "decimal_str u s = (if u < 0 then ''-'' else []) @ take ?k ds @ ''.'' @ drop ?k ds"
        using True 2 n by (simp add: eq)
      then show ?thesis
        by (intro exI [of _ "take ?k ds"] exI [of _ "Some (drop ?k ds)"] exI [of _ None])
          (use k dig in \<open>simp add: mantissa_text_def exponent_text_def\<close>)
    next
      case 3
      let ?z = "replicate (nat (s - n)) CHR ''0''"
      have "list_all is_digit ''0''" "list_all is_digit ?z" by (simp_all add: is_digit_def list_all_iff)
      moreover have "read_nat (''0'' @ ?z @ ds) = read_nat ds"
        using read_nat_zeros [of "Suc (nat (s - n))" ds] by simp
      moreover have "decimal_str u s = (if u < 0 then ''-'' else []) @ ''0.'' @ ?z @ ds"
      proof -
        have "s \<noteq> 0" "\<not> s < n" using 3 by simp_all
        with True show ?thesis by (simp add: eq)
      qed
      moreover have "int (length (?z @ ds)) = s" using 3 n by simp
      ultimately show ?thesis
        by (intro exI [of _ "''0''"] exI [of _ "Some (?z @ ds)"] exI [of _ None])
          (use dig in \<open>simp add: mantissa_text_def exponent_text_def\<close>)
    qed
  next
    case False
    have F: "(0 \<le> s \<and> - 6 \<le> n - s - 1) = False" using False by simp
    have rng: "- (2 ^ 31) \<le> (n - s - 1)" using s n by simp
    let ?e = "''E'' @ (if 0 \<le> (n - s - 1) then ''+'' @ int_str (n - s - 1) else int_str (n - s - 1))"
    show ?thesis
    proof (cases "n = 1")
      case True
      have "decimal_str u s = (if u < 0 then ''-'' else []) @ ds @ ?e"
        unfolding eq F by (simp only: True if_False if_True refl append_assoc)
      then have "decimal_str u s = (if u < 0 then ''-'' else []) @ mantissa_text ds None @ exponent_text (Some (n - s - 1))"
        by (simp only: mantissa_text_def exponent_text_def option.case)
      then show ?thesis
        by - (rule exI [of _ ds], rule exI [of _ None], rule exI [of _ "Some (n - s - 1)"], intro conjI;
          use True rng dig n \<open>ds \<noteq> []\<close> in simp)
    next
      case n1: False
      have "decimal_str u s = (if u < 0 then ''-'' else []) @ take 1 ds @ ''.'' @ drop 1 ds @ ?e"
        unfolding eq F by (simp only: n1 if_False append_assoc)
      then have "decimal_str u s = (if u < 0 then ''-'' else []) @ mantissa_text (take 1 ds) (Some (drop 1 ds)) @ exponent_text (Some (n - s - 1))"
        by (simp only: mantissa_text_def exponent_text_def option.case append_assoc)
      moreover have "take 1 ds \<noteq> []" "take 1 ds @ drop 1 ds = ds" using n by auto
      moreover have len1: "int (length ds - Suc 0) = int (length ds) - 1" using \<open>ds \<noteq> []\<close> by (cases ds) simp_all
      moreover have "int (length (drop 1 ds)) - (n - s - 1) = s" using n len1 by simp
      ultimately show ?thesis using adj rng dig
        by - (rule exI [of _ "take 1 ds"], rule exI [of _ "Some (drop 1 ds)"], rule exI [of _ "Some (n - s - 1)"], intro conjI;
          use n in \<open>simp add: len1\<close>)
    qed
  qed
  then obtain ip fp ex where t: "decimal_str u s = (if u < 0 then ''-'' else []) @ mantissa_text ip fp @ exponent_text ex"
    and ip: "list_all is_digit ip" "ip \<noteq> []" and fp: "list_all is_digit (case fp of None \<Rightarrow> [] | Some f \<Rightarrow> f)"
    and ex: "case ex of None \<Rightarrow> True | Some e \<Rightarrow> - (2 ^ 31) \<le> e \<and> e < 2 ^ 31"
    and sc: "int (length (case fp of None \<Rightarrow> [] | Some f \<Rightarrow> f)) - (case ex of None \<Rightarrow> 0 | Some e \<Rightarrow> e) = s"
    and rd: "read_nat (ip @ (case fp of None \<Rightarrow> [] | Some f \<Rightarrow> f)) = read_nat ds"
    by blast
  from parse_parts [OF ip fp ex refl sc [symmetric] s, of "u < 0"] show ?thesis unfolding t rd val .
qed

subsection \<open>Properties\<close>


text \<open>C34. Division is exact or panics: when the quotient has a finite decimal expansion the result is that
  quotient, at the smallest scale from the difference of the scales on that can hold it (a panic if it
  leaves 32 bits); otherwise it panics with a non-terminating expansion.\<close>

theorem decimal_division:
  assumes "unscaled y \<noteq> 0"
  shows "if \<exists>u s. dval x / dval y = of_int u * 10 powi (- s)
    then \<exists>u s. BD_Divide x y = clamped u s \<and> dval x / dval y = of_int u * 10 powi (- s) \<and> scale x - scale y \<le> s \<and>
           (\<forall>t. scale x - scale y \<le> t \<and> dval x / dval y * 10 powi t \<in> \<int> \<longrightarrow> s \<le> t)
    else BD_Divide x y = Inl (Panicked NonTerminating)"
  by (rule decimal_Divide_ok [OF assms])

lemma decimal_division_witness:
  "if \<exists>u s. dval \<lparr>unscaled = 1, scale = 0\<rparr> / dval \<lparr>unscaled = 3, scale = 0\<rparr> = of_int u * 10 powi (- s)
   then \<exists>u s. BD_Divide \<lparr>unscaled = 1, scale = 0\<rparr> \<lparr>unscaled = 3, scale = 0\<rparr> = clamped u s else
   BD_Divide \<lparr>unscaled = 1, scale = 0\<rparr> \<lparr>unscaled = 3, scale = 0\<rparr> = Inl (Panicked NonTerminating)"
  using decimal_division [of "\<lparr>unscaled = 3, scale = 0\<rparr>" "\<lparr>unscaled = 1, scale = 0\<rparr>"] by (auto split: if_splits)

text \<open>C35. Rounding to \<open>p\<close> digits, dividing under a math context and setting the scale all round the exact value
  as the mode says (\<open>rounding\<close>), once and with no guard digits; a value that already has at most \<open>p\<close>
  digits is left as it is, and only \<^verbatim>\<open>UNNECESSARY\<close> fails, when digits would be lost.\<close>

theorem decimal_rounding:
  assumes "0 < p" and "unscaled x \<noteq> 0" and "unscaled y \<noteq> 0"
  shows "(if p < precision x then rounds_to p mode (dval x) (BD_Round x p mode) else BD_Round x p mode = Inr x) \<and>
    rounds_to p mode (dval x / dval y) (DivideMC x y p mode) \<and>
    SetScale x t mode =
      (if mode = RoundUnnecessary \<and> dval x * 10 powi t \<notin> \<int> then Inl (Returned RoundingNecessary)
       else Inr \<lparr>unscaled = rounding mode (dval x * 10 powi t), scale = t\<rparr>)"
  using Round_ok [of p x mode] DivideMC_ok [OF assms(2,3,1), of mode] SetScale_ok [of x t mode] assms
  by (auto simp: BD_Round_def)

lemma decimal_rounding_witness:
  "rounds_to 2 RoundHalfUp (dval \<lparr>unscaled = 2, scale = 0\<rparr> / dval \<lparr>unscaled = 3, scale = 0\<rparr>)
     (DivideMC \<lparr>unscaled = 2, scale = 0\<rparr> \<lparr>unscaled = 3, scale = 0\<rparr> 2 RoundHalfUp)"
  using decimal_rounding [of 2 "\<lparr>unscaled = 2, scale = 0\<rparr>" "\<lparr>unscaled = 3, scale = 0\<rparr>" RoundHalfUp 0] by simp

text \<open>C36. Equality of decimals is equality of their values whatever their scales, and equal decimals have
  equal hashes, so \<open>1.0M\<close> and \<open>1.00M\<close> are the same key.\<close>

theorem decimal_equality_and_hash:
  "BD_Equals x y = (dval x = dval y) \<and> (if BD_Equals x y then BD_Hash x = BD_Hash y else True)"
proof -
  have "BD_Hash x = BD_Hash y" if "dval x = dval y"
    using equal_stripped [OF that] dval_0_iff [of x] dval_0_iff [of y] that by (simp add: BD_Hash_def)
  then show ?thesis by (simp add: BD_Equals_def Cmp_ok)
qed

text \<open>C37. The text of a decimal reads back as the same unscaled integer and the same scale, plain or in
  scientific notation, as long as the exponent it shows fits 32 bits.\<close>

theorem decimal_text_roundtrip:
  assumes "- (2 ^ 31) \<le> scale n" and "scale n < 2 ^ 31" and "adjExp n < 2 ^ 31"
  shows "NewBigDecimal (BD_String n) = Some (unscaled n, scale n)"
proof -
  have "precision n = digit_count (unscaled n)" by (simp add: precision_def digit_count_def nat_str.simps)
  then show ?thesis using decimal_str_parse [OF assms(1,2), of "unscaled n"] assms(3) by (simp add: BD_String_def adjExp_def)
qed

lemma decimal_text_roundtrip_witness:
  "NewBigDecimal (BD_String \<lparr>unscaled = - 120, scale = - 3\<rparr>) = Some (- 120, - 3)"
  using decimal_text_roundtrip [of "\<lparr>unscaled = - 120, scale = - 3\<rparr>"]
  by (simp add: adjExp_def precision_def digit_count_def nat_str.simps)

text \<open>The equality that \<open>=\<close> uses on decimal literals is this one.\<close>

lemma lit_equiv_decimal:
  "lit_equiv (LDecimal u s) (LDecimal v t) \<longleftrightarrow> BD_Equals \<lparr>unscaled = u, scale = s\<rparr> \<lparr>unscaled = v, scale = t\<rparr>"
proof (cases s t rule: linorder_cases)
  case less
  then show ?thesis by (simp add: BD_Equals_def BD_Cmp_def bigDecAlign_def bigDecPow10_def sgn_0_0)
next
  case equal
  then show ?thesis by (simp add: BD_Equals_def BD_Cmp_def bigDecAlign_def sgn_0_0)
next
  case greater
  then show ?thesis by (simp add: BD_Equals_def BD_Cmp_def bigDecAlign_def bigDecPow10_def sgn_0_0)
qed

subsection \<open>Where Java differs\<close>

text \<open>A quotient under a math context keeps its trailing zeros: \<open>1M / 2M\<close> to five digits is \<open>0.50000M\<close>.\<close>

lemma context_quotient_padded:
  "DivideMC \<lparr>unscaled = 1, scale = 0\<rparr> \<lparr>unscaled = 2, scale = 0\<rparr> 5 RoundHalfUp = Inr \<lparr>unscaled = 50000, scale = 5\<rparr>"
  by (simp add: DivideMC_def Let_def digit_count_def nat_str.simps bigDecPow10_def adjExp_def precision_def divRound_def
      renormalized_def clamped_def clampBigDecScale_def signed_def)

text \<open>The text of a \<^verbatim>\<open>float64\<close> of six or more integer digits is scientific, so the decimal of a million has
  scale \<open>- 6\<close>.\<close>

lemma million_general_text: "general_text (1, 6) = ''1e+06''" "plain_text (1, 6) = ''1000000.0''"
  by (simp_all add: general_text_def plain_text_def nat_str.simps digit_char_def eval_nat_numeral)

end
